(* ===== verification/Prelude.thy ===== *)
theory Prelude
  imports Main "HOL-Library.Word" "HOL-Library.AList" "HOL-Library.Multiset"
begin

text \<open>
  Shared ground of the development: the integer types of \<open>src/general/common.h\<close>, the
  exceptions of the simulator as values, the sequencing of operations that may throw
  (\<open>ebind\<close>), a total-correctness predicate over their results (\<open>ensures\<close>), and the generic
  lemmas on words, association lists and lists that the components use.
\<close>

unbundle bit_operations_syntax

named_theorems ensures_rules \<open>introduction rules that establish an ensures judgement\<close>
named_theorems step_defs \<open>definitions of the operations of a component\<close>

section \<open>Integers of the simulator\<close>

text \<open>\<open>clk_t\<close>, \<open>addr_t\<close>, \<open>logic_addr_t\<close> and \<open>size_t\<close> are 64-bit unsigned integers.\<close>

type_synonym clk_t = "64 word"
type_synonym addr_t = "64 word"

definition clk_invalid :: clk_t where
  "clk_invalid = - 1"

definition addr_invalid :: addr_t where
  "addr_invalid = - 1"

text \<open>
  The reserved value \<open>clk_invalid\<close> is never reached by adding clocks and latencies below \<open>2^62\<close>:
  a run would need \<open>2^62\<close> cycles to leave this range.
\<close>

lemma unat_clk_invalid: "unat clk_invalid = 2 ^ 64 - 1"
  by (simp add: clk_invalid_def unsigned_minus_1_eq_mask mask_eq_exp_minus_1)

definition small_clk :: "clk_t \<Rightarrow> bool" where
  "small_clk c \<longleftrightarrow> unat c < 2 ^ 62"

lemma add_neq_clk_invalid:
  assumes "small_clk a" "small_clk b"
  shows "a + b \<noteq> clk_invalid"
proof
  assume "a + b = clk_invalid"
  then have "unat (a + b) = 2 ^ 64 - 1" by (simp add: unat_clk_invalid)
  moreover have "unat (a + b) = unat a + unat b"
    using assms by (subst unat_add_lem [THEN iffD1]) (simp_all add: small_clk_def)
  ultimately show False using assms by (simp add: small_clk_def)
qed

lemma small_neq_clk_invalid: "small_clk a \<Longrightarrow> a \<noteq> clk_invalid"
  using unat_clk_invalid by (auto simp: small_clk_def)

lemma suc_neq_clk_invalid: "small_clk a \<Longrightarrow> a + 1 \<noteq> clk_invalid"
  by (rule add_neq_clk_invalid) (simp_all add: small_clk_def)

lemma unat_of_nat64: "n < 2 ^ 64 \<Longrightarrow> unat (of_nat n :: 64 word) = n"
  by (simp add: unat_of_nat take_bit_eq_mod)

section \<open>Exceptions as values\<close>

text \<open>
  A \<open>throw\<close>, a failed \<open>assert\<close>, an \<open>exit\<close> and undefined behaviour of C++ end the simulation;
  each is a value of this type, carried by the left summand of the result. \<open>No_return\<close> stands for
  a virtual method whose own loop runs for ever.
\<close>

datatype vans_error =
    Runtime_error string
  | Out_of_range
  | Invalid_argument
  | Assertion_failed
  | Exit_failure
  | Undefined_behaviour
  | No_return

fun ebind :: "'e + 'a \<Rightarrow> ('a \<Rightarrow> 'e + 'b) \<Rightarrow> 'e + 'b" where
  "ebind (Inl e) f = Inl e"
| "ebind (Inr x) f = f x"

fun ensures :: "'e + 'a \<Rightarrow> ('a \<Rightarrow> bool) \<Rightarrow> bool" where
  "ensures (Inl e) P = False"
| "ensures (Inr x) P = P x"

lemma ebind_eq_Inr: "ebind m f = Inr y \<longleftrightarrow> (\<exists>x. m = Inr x \<and> f x = Inr y)"
  by (cases m) auto

lemma ensures_iff: "ensures m P \<longleftrightarrow> (\<exists>x. m = Inr x \<and> P x)"
  by (cases m) auto

lemma ensures_ebind [simp]: "ensures (ebind m f) P \<longleftrightarrow> ensures m (\<lambda>x. ensures (f x) P)"
  by (cases m) auto

lemma ensures_mono: "ensures m P \<Longrightarrow> (\<And>x. P x \<Longrightarrow> Q x) \<Longrightarrow> ensures m Q"
  by (cases m) auto

lemma ensures_conj: "ensures m (\<lambda>x. P x \<and> Q x) \<longleftrightarrow> ensures m P \<and> ensures m Q"
  by (cases m) auto

lemma ensures_D: "ensures m P \<Longrightarrow> m = Inr x \<Longrightarrow> P x"
  by simp

lemma ensures_returns: "ensures m P \<Longrightarrow> \<exists>x. m = Inr x"
  by (cases m) auto

lemma ensures_if [ensures_rules]:
  "(b \<Longrightarrow> ensures m P) \<Longrightarrow> (\<not> b \<Longrightarrow> ensures n P) \<Longrightarrow> ensures (if b then m else n) P"
  by simp

lemma ensures_prod [ensures_rules]:
  "(\<And>a b. p = (a, b) \<Longrightarrow> ensures (f a b) P) \<Longrightarrow> ensures (case p of (a, b) \<Rightarrow> f a b) P"
  by (cases p) simp

lemma ensures_option [ensures_rules]:
  "(x = None \<Longrightarrow> ensures m P) \<Longrightarrow> (\<And>y. x = Some y \<Longrightarrow> ensures (f y) P) \<Longrightarrow>
   ensures (case x of None \<Rightarrow> m | Some y \<Rightarrow> f y) P"
  by (cases x) simp_all

lemma ensures_bindI:
  "ensures m Q \<Longrightarrow> (\<And>x. Q x \<Longrightarrow> ensures (f x) P) \<Longrightarrow> ensures (ebind m f) P"
  by (auto elim: ensures_mono)

section \<open>Association lists\<close>

text \<open>
  A hash map of the code is an association list whose order is the iteration order of the
  container. \<open>AList.update\<close> replaces the value of a present key in place.
\<close>

lemma map_of_update_AList [simp]:
  "map_of (AList.update k v m) l = (if l = k then Some v else map_of m l)"
  by (simp add: update_conv')

lemma map_fst_update_present:
  "k \<in> fst ` set m \<Longrightarrow> map fst (AList.update k v m) = map fst m"
  by (induction m) auto

lemma length_update_present:
  "k \<in> fst ` set m \<Longrightarrow> length (AList.update k v m) = length m"
  using map_fst_update_present [of k m v] by (metis length_map)

lemma map_of_Some_key: "map_of m k = Some v \<Longrightarrow> k \<in> fst ` set m"
  by (force dest: map_of_SomeD)

lemma map_of_key_Some: "k \<in> fst ` set m \<Longrightarrow> \<exists>v. map_of m k = Some v"
  by (metis map_of_eq_None_iff not_None_eq)

lemma set_update_distinct:
  assumes "distinct (map fst m)"
  shows "set (AList.update k v m) \<subseteq> insert (k, v) {p \<in> set m. fst p \<noteq> k}"
  using assms by (induction m) (auto simp: image_iff)

lemma ball_snd_update:
  assumes "distinct (map fst m)" "\<forall>(l, e) \<in> set m. l \<noteq> k \<longrightarrow> P l e" "P k v"
  shows "\<forall>(l, e) \<in> set (AList.update k v m). P l e"
  using set_update_distinct [OF assms(1), of k v] assms(2,3) by fastforce

lemma set_delete_AList: "set (AList.delete k m) = {p \<in> set m. fst p \<noteq> k}"
  by (induction m) auto

lemma distinct_delete_AList: "distinct (map fst m) \<Longrightarrow> distinct (map fst (AList.delete k m))"
  by (rule distinct_delete)

lemma length_delete_present:
  assumes "distinct (map fst m)" "k \<in> fst ` set m"
  shows "Suc (length (AList.delete k m)) = length m"
  using assms by (induction m) auto

lemma update_update_same: "AList.update k v (AList.update k w m) = AList.update k v m"
  by (induction m) auto

text \<open>Multisets collected over an association list.\<close>

definition collect :: "('k \<Rightarrow> 'v \<Rightarrow> 'a multiset) \<Rightarrow> ('k \<times> 'v) list \<Rightarrow> 'a multiset" where
  "collect f m = sum_list (map (\<lambda>(k, v). f k v) m)"

lemma collect_simps [simp]:
  "collect f [] = {#}"
  "collect f ((k, v) # m) = f k v + collect f m"
  by (simp_all add: collect_def)

lemma collect_update:
  assumes "map_of m k = Some v" "distinct (map fst m)"
  shows "collect f (AList.update k v' m) + f k v = collect f m + f k v'"
  using assms by (induction m) (auto simp: ac_simps split: if_splits)

lemma collect_delete:
  assumes "map_of m k = Some v" "distinct (map fst m)"
  shows "collect f (AList.delete k m) + f k v = collect f m"
  using assms
proof (induction m)
  case (Cons p m)
  then show ?case
    by (cases p) (auto simp: ac_simps delete_id split: if_splits)
qed simp

lemma collect_elem:
  assumes "x \<in># collect f m"
  shows "\<exists>(k, v) \<in> set m. x \<in># f k v"
  using assms by (induction m) auto

lemma collect_mset: "mset m = mset m' \<Longrightarrow> collect f m = collect f m'"
  unfolding collect_def by (metis mset_map sum_mset_sum_list)

section \<open>Reachability\<close>

text \<open>
  The contract between a step relation and a safety property: where the start states satisfy
  the invariant and every step keeps it, every state reached from a start state satisfies it.
\<close>

locale invariant_system =
  fixes start :: "'s \<Rightarrow> bool"
    and step :: "'s \<Rightarrow> 's \<Rightarrow> bool"
    and inv :: "'s \<Rightarrow> bool"
  assumes start_inv: "start s \<Longrightarrow> inv s"
    and step_inv: "inv s \<Longrightarrow> step s t \<Longrightarrow> inv t"
begin

lemma reachable_inv:
  assumes "start s" "step\<^sup>*\<^sup>* s t"
  shows "inv t"
  using assms(2)
proof (induction rule: rtranclp_induct)
  case base
  show ?case using assms(1) by (rule start_inv)
next
  case (step t u)
  then show ?case by (blast intro: step_inv)
qed

end

end
