(* ===== verification/Common.thy ===== *)
theory Common
  imports Prelude
begin

text \<open>
  The vocabulary every component speaks: requests, responses and callbacks
  (\<open>src/general/common.h\<close>), and the utilities of \<open>src/general/utils.h\<close>: powers of two,
  hardware counters, and the block arithmetic of the 256-byte RMW and 4096-byte AIT blocks.
\<close>

section \<open>Requests and responses\<close>

datatype base_request_type = Base_read | Base_write

text \<open>
  A callback of the code is a closure. The closures that can reach a request are these: none,
  the two \<open>next_level_read_callback\<close> members of the RMW and AIT controllers, the
  sub-request callback of the AIT local-memory queue, and closures of the client of the
  memory (the trace runner or gem5), which are told apart by a number. A component that
  invokes a callback returns the invocation (\<open>call\<close>): the closure with its two arguments.
\<close>

datatype callback =
    Cb_null
  | Cb_rmw_next_level_read
  | Cb_ait_next_level_read
  | Cb_ait_lmemq_subreq
  | Cb_client nat

type_synonym call = "callback \<times> addr_t \<times> clk_t"

record base_request =
  req_addr :: addr_t
  req_arrive :: clk_t
  req_depart :: clk_t
  req_type :: base_request_type
  req_callback :: callback

definition new_base_request :: "base_request_type \<Rightarrow> addr_t \<Rightarrow> clk_t \<Rightarrow> callback \<Rightarrow> base_request" where
  "new_base_request type addr arrive cb =
     \<lparr>req_addr = addr, req_arrive = arrive, req_depart = clk_invalid,
      req_type = type, req_callback = cb\<rparr>"

lemma new_base_request_simps [simp]:
  "req_addr (new_base_request t a c cb) = a"
  "req_arrive (new_base_request t a c cb) = c"
  "req_depart (new_base_request t a c cb) = clk_invalid"
  "req_type (new_base_request t a c cb) = t"
  "req_callback (new_base_request t a c cb) = cb"
  by (simp_all add: new_base_request_def)

text \<open>\<open>base_response\<close>: issued, deterministic, next clock.\<close>

type_synonym base_response = "bool \<times> bool \<times> clk_t"

text \<open>Invoking a possibly empty \<open>std::function\<close> after testing it against \<open>nullptr\<close>.\<close>

definition invoke_callback :: "callback \<Rightarrow> addr_t \<Rightarrow> clk_t \<Rightarrow> call list" where
  "invoke_callback cb addr clk = (if cb = Cb_null then [] else [(cb, addr, clk)])"

section \<open>Powers of two\<close>

definition is_pwr_of_2 :: "64 word \<Rightarrow> bool" where
  "is_pwr_of_2 n \<longleftrightarrow> n \<noteq> 0 \<and> n AND (n - 1) = 0"

function log2_loop :: "64 word \<Rightarrow> nat \<Rightarrow> nat" where
  "log2_loop val n =
     (let val' = drop_bit 1 val in if val' \<noteq> 0 then log2_loop val' (n + 1) else n)"
  by pat_completeness auto
termination
proof (relation "measure (\<lambda>(val, n). unat val)", goal_cases)
  case (2 val n val')
  then have "unat val \<noteq> 0" by (auto simp: unat_eq_zero)
  with 2 show ?case by (simp add: unat_div_distrib drop_bit_eq_div)
qed simp

declare log2_loop.simps [simp del]

definition log2 :: "64 word \<Rightarrow> nat" where
  "log2 val = log2_loop val 0"

lemma log2_loop_bounds:
  assumes "val \<noteq> 0"
  shows "n \<le> log2_loop val n \<and>
    2 ^ (log2_loop val n - n) \<le> unat val \<and> unat val < 2 ^ Suc (log2_loop val n - n)"
  using assms
proof (induction val n rule: log2_loop.induct)
  case (1 val n)
  let ?v = "drop_bit 1 val"
  have half: "unat ?v = unat val div 2" by (simp add: unat_div_distrib drop_bit_eq_div)
  have pos: "unat val \<noteq> 0" using "1.prems" by (simp add: unat_eq_zero)
  show ?case
  proof (cases "?v = 0")
    case True
    then have "unat val div 2 = 0" using half by simp
    then have "unat val = 1" using pos by simp
    then show ?thesis using True by (subst (1 2 3) log2_loop.simps) (simp add: Let_def)
  next
    case False
    define r where "r = log2_loop ?v (n + 1)"
    have IH: "n + 1 \<le> r" "2 ^ (r - (n + 1)) \<le> unat val div 2"
        "unat val div 2 < 2 ^ Suc (r - (n + 1))"
      using "1.IH" [OF refl False False] half unfolding r_def by simp_all
    have e: "r - n = Suc (r - (n + 1))" using IH(1) by simp
    have l: "log2_loop val n = r" using False by (subst log2_loop.simps) (simp add: Let_def r_def)
    have "2 ^ (r - n) \<le> unat val" using IH(2) unfolding e by simp
    moreover have "unat val < 2 ^ Suc (r - n)" using IH(3) unfolding e by simp
    ultimately show ?thesis using IH(1) l by simp
  qed
qed

lemma log2_bounds: "val \<noteq> 0 \<Longrightarrow> 2 ^ log2 val \<le> unat val \<and> unat val < 2 ^ Suc (log2 val)"
  using log2_loop_bounds [of val 0] by (simp add: log2_def)

section \<open>Hardware counters\<close>

record counter =
  domain :: string
  sub_domain :: string
  counters :: "string \<rightharpoonup> 64 word"

definition new_counter :: "string \<Rightarrow> string \<Rightarrow> string list \<Rightarrow> counter" where
  "new_counter d sd names =
     \<lparr>domain = d, sub_domain = sd, counters = fold (\<lambda>n m. m(n \<mapsto> 0)) names Map.empty\<rparr>"

text \<open>\<open>cnt[name] += v\<close>: \<open>operator[]\<close> is \<open>std::map::at\<close>, which throws on a name that was not declared.\<close>

definition counter_add :: "string \<Rightarrow> 64 word \<Rightarrow> counter \<Rightarrow> vans_error + counter" where
  "counter_add name v c =
     (case counters c name of
        None \<Rightarrow> Inl Out_of_range
      | Some x \<Rightarrow> Inr (c\<lparr>counters := (counters c)(name \<mapsto> x + v)\<rparr>))"

definition declares :: "counter \<Rightarrow> string list \<Rightarrow> bool" where
  "declares c names \<longleftrightarrow> (\<forall>n \<in> set names. counters c n \<noteq> None)"

lemma fold_declares: "fold (\<lambda>n m. m(n \<mapsto> v)) names m k = (if k \<in> set names then Some v else m k)"
  by (induction names arbitrary: m) auto

lemma new_counter_declares: "declares (new_counter d sd names) names"
  by (simp add: declares_def new_counter_def fold_declares)

text \<open>The counter after a successful addition, for use as a rewrite rule.\<close>

definition counter_bump :: "string \<Rightarrow> 64 word \<Rightarrow> counter \<Rightarrow> counter" where
  "counter_bump name v c = c\<lparr>counters := (counters c)(name \<mapsto> the (counters c name) + v)\<rparr>"

lemma counter_add_eq:
  "declares c names \<Longrightarrow> n \<in> set names \<Longrightarrow> counter_add n v c = Inr (counter_bump n v c)"
  by (auto simp: counter_add_def counter_bump_def declares_def split: option.split)

lemma declares_bump [simp]: "declares c names \<Longrightarrow> declares (counter_bump n v c) names"
  by (simp add: declares_def counter_bump_def)

text \<open>A name that was not declared makes the addition throw.\<close>

lemma counter_add_undeclared: "counters c n = None \<Longrightarrow> counter_add n v c = Inl Out_of_range"
  by (simp add: counter_add_def)

section \<open>Blocks\<close>

text \<open>
  The geometry of a block size \<open>2^k\<close>: \<open>translate\<close> clears the offset bits, \<open>offset\<close> keeps them.
  The laws are stated on the numbers; what the buffers need of them follows here once, for
  both block sizes.
\<close>

locale block_geometry =
  fixes translate :: "addr_t \<Rightarrow> addr_t"
    and offset :: "addr_t \<Rightarrow> addr_t"
    and k :: nat
  assumes k_bounds: "0 < k" "k \<le> 64"
    and unat_translate: "unat (translate a) = 2 ^ k * (unat a div 2 ^ k)"
    and unat_offset: "unat (offset a) = unat a mod 2 ^ k"
begin

lemma same_block_iff: "translate a = translate b \<longleftrightarrow> unat a div 2 ^ k = unat b div 2 ^ k"
  by (auto simp: word_unat_eq_iff unat_translate)

lemma translate_idem: "translate (translate a) = translate a"
  by (simp add: word_unat_eq_iff unat_translate)

lemma offset_translate: "offset (translate a) = 0"
  by (simp add: word_unat_eq_iff unat_offset unat_translate)

lemma translate_plus_offset: "translate a + offset a = a"
proof -
  have "unat (translate a) + unat (offset a) = unat a"
    by (simp add: unat_translate unat_offset)
  then have "(of_nat (unat (translate a) + unat (offset a)) :: addr_t) = of_nat (unat a)"
    by simp
  then show ?thesis by simp
qed

lemma offset_lt: "unat (offset a) < 2 ^ k"
  by (simp add: unat_offset)

lemma translate_neq_invalid: "translate a \<noteq> addr_invalid"
proof
  assume "translate a = addr_invalid"
  then have "unat (offset (translate a)) = unat (addr_invalid) mod 2 ^ k"
    by (simp add: unat_offset)
  moreover have "unat addr_invalid = 2 ^ 64 - 1"
    using unat_clk_invalid by (simp add: addr_invalid_def clk_invalid_def)
  ultimately have "(2 ^ 64 - 1) mod 2 ^ k = (0 :: nat)" by (simp add: offset_translate)
  then have "(2::nat) ^ k dvd 2 ^ 64 - 1" by auto
  then have "(2::nat) dvd 2 ^ 64 - 1" using k_bounds(1)
    by (metis dvd_power dvd_trans)
  then show False by simp
qed

lemma translate_add_lt:
  assumes "unat x < 2 ^ k"
  shows "translate (translate a + x) = translate a" "offset (translate a + x) = x"
proof -
  let ?q = "unat a div 2 ^ k"
  have split: "(2::nat) ^ 64 = 2 ^ k * 2 ^ (64 - k)" using k_bounds by (simp flip: power_add)
  have "unat a < 2 ^ 64" using unsigned_less [of a, where ?'a = nat] by simp
  then have "unat a < 2 ^ (64 - k) * 2 ^ k" unfolding split by (simp add: mult.commute)
  then have "?q < 2 ^ (64 - k)" by (rule less_mult_imp_div_less)
  then have "Suc ?q \<le> 2 ^ (64 - k)" by simp
  then have "2 ^ k * Suc ?q \<le> (2::nat) ^ 64" unfolding split by (rule mult_le_mono2)
  then have "unat (translate a) + unat x < 2 ^ 64" using assms by (simp add: unat_translate)
  then have s: "unat (translate a + x) = 2 ^ k * ?q + unat x"
    by (subst unat_add_lem [THEN iffD1]) (simp_all add: unat_translate)
  show "translate (translate a + x) = translate a"
    using assms by (simp add: word_unat_eq_iff unat_translate s)
  show "offset (translate a + x) = x"
    using assms by (simp add: word_unat_eq_iff unat_offset s)
qed

end

definition cpu_cl_size :: "64 word" where
  "cpu_cl_size = 64"

text \<open>\<open>1U << n\<close> is a 32-bit shift: undefined when the shift count is not below 32.\<close>

definition shl_1U :: "64 word \<Rightarrow> vans_error + 32 word" where
  "shl_1U n = (if 32 \<le> unat n then Inl Undefined_behaviour else Inr (push_bit (unat n) 1))"

definition rmw_block_size_cl :: nat where
  "rmw_block_size_cl = 4"

definition rmw_block_hit_cl_bitmask :: "4 word" where
  "rmw_block_hit_cl_bitmask = 0xf"

definition rmw_translate_to_block_addr :: "addr_t \<Rightarrow> addr_t" where
  "rmw_translate_to_block_addr logic_addr = push_bit 8 (drop_bit 8 logic_addr)"

definition rmw_block_offset :: "addr_t \<Rightarrow> addr_t" where
  "rmw_block_offset logic_addr = logic_addr AND 0xff"

definition rmw_block_offset_cl :: "addr_t \<Rightarrow> addr_t" where
  "rmw_block_offset_cl logic_addr = drop_bit 6 (rmw_block_offset logic_addr)"

definition rmw_block_bitshift_cl :: "addr_t \<Rightarrow> vans_error + addr_t" where
  "rmw_block_bitshift_cl logic_addr = map_sum id ucast (shl_1U (rmw_block_offset_cl logic_addr))"

definition ait_block_size_rmw :: nat where
  "ait_block_size_rmw = 16"

definition ait_translate_to_block_addr :: "addr_t \<Rightarrow> addr_t" where
  "ait_translate_to_block_addr logic_addr = push_bit 12 (drop_bit 12 logic_addr)"

definition ait_block_offset :: "addr_t \<Rightarrow> addr_t" where
  "ait_block_offset logic_addr = logic_addr AND 0xfff"

definition ait_block_offset_cl :: "addr_t \<Rightarrow> addr_t" where
  "ait_block_offset_cl logic_addr = drop_bit 6 (ait_block_offset logic_addr)"

definition ait_block_bitshift_cl :: "addr_t \<Rightarrow> vans_error + addr_t" where
  "ait_block_bitshift_cl logic_addr = map_sum id ucast (shl_1U (ait_block_offset_cl logic_addr))"

definition ait_block_offset_rmw :: "addr_t \<Rightarrow> addr_t" where
  "ait_block_offset_rmw logic_addr = drop_bit 8 (ait_block_offset logic_addr)"

definition ait_block_bitshift_rmw :: "addr_t \<Rightarrow> vans_error + addr_t" where
  "ait_block_bitshift_rmw logic_addr = map_sum id ucast (shl_1U (ait_block_offset_rmw logic_addr))"

lemma unat_clear_low_bits:
  assumes "k \<le> 64"
  shows "unat (push_bit k (drop_bit k a) :: 64 word) = 2 ^ k * (unat a div 2 ^ k)"
proof -
  have "unat (push_bit k (drop_bit k a)) = take_bit 64 (push_bit k (drop_bit k (unat a)))"
    by (simp add: unsigned_push_bit_eq unat_drop_bit_eq)
  also have "\<dots> = take_bit 64 (2 ^ k * (unat a div 2 ^ k))"
    by (simp add: push_bit_eq_mult drop_bit_eq_div mult.commute)
  also have "\<dots> = 2 ^ k * (unat a div 2 ^ k)"
  proof -
    have "2 ^ k * (unat a div 2 ^ k) \<le> unat a" by simp
    also have "\<dots> < 2 ^ 64" using unsigned_less [of a, where ?'a = nat] by simp
    finally show ?thesis by (simp add: take_bit_eq_mod)
  qed
  finally show ?thesis .
qed

lemma unat_and_mask: "unat (a AND mask k :: 64 word) = unat a mod 2 ^ k"
proof -
  have "unat (take_bit k a) = take_bit k (unat a)" by (rule unsigned_take_bit_eq)
  then show ?thesis by (simp add: take_bit_eq_mod flip: take_bit_eq_mask)
qed

lemma unat_shift_6: "unat (drop_bit 6 a :: 64 word) = unat a div 64"
  by (simp add: unat_div_distrib drop_bit_eq_div)

lemma unat_shift_8: "unat (drop_bit 8 a :: 64 word) = unat a div 256"
  by (simp add: unat_div_distrib drop_bit_eq_div)

interpretation rmwb: block_geometry rmw_translate_to_block_addr rmw_block_offset 8
proof unfold_locales
  fix a
  show "unat (rmw_translate_to_block_addr a) = 2 ^ 8 * (unat a div 2 ^ 8)"
    unfolding rmw_translate_to_block_addr_def by (rule unat_clear_low_bits) simp
  show "unat (rmw_block_offset a) = unat a mod 2 ^ 8"
    using unat_and_mask [of a 8] by (simp add: rmw_block_offset_def mask_eq_exp_minus_1)
qed simp_all

interpretation aitb: block_geometry ait_translate_to_block_addr ait_block_offset 12
proof unfold_locales
  fix a
  show "unat (ait_translate_to_block_addr a) = 2 ^ 12 * (unat a div 2 ^ 12)"
    unfolding ait_translate_to_block_addr_def by (rule unat_clear_low_bits) simp
  show "unat (ait_block_offset a) = unat a mod 2 ^ 12"
    using unat_and_mask [of a 12] by (simp add: ait_block_offset_def mask_eq_exp_minus_1)
qed simp_all

lemma unat_rmw_block_offset_cl: "unat (rmw_block_offset_cl a) = unat a mod 256 div 64"
  by (simp only: rmw_block_offset_cl_def unat_shift_6 rmwb.unat_offset) simp

lemma unat_ait_block_offset_cl: "unat (ait_block_offset_cl a) = unat a mod 4096 div 64"
  by (simp only: ait_block_offset_cl_def unat_shift_6 aitb.unat_offset) simp

lemma unat_ait_block_offset_rmw: "unat (ait_block_offset_rmw a) = unat a mod 4096 div 256"
  by (simp only: ait_block_offset_rmw_def unat_shift_8 aitb.unat_offset) simp

lemma rmw_cl_lt_4: "unat (rmw_block_offset_cl a) < 4"
  by (simp add: unat_rmw_block_offset_cl)

lemma ait_rmw_index_lt_16: "unat (ait_block_offset_rmw a) < 16"
  by (simp add: unat_ait_block_offset_rmw)

text \<open>The RMW blocks nest in the AIT blocks: translating by one or both gives the same AIT block.\<close>

lemma ait_of_rmw_block: "ait_translate_to_block_addr (rmw_translate_to_block_addr a) = ait_translate_to_block_addr a"
proof -
  have "256 * (unat a div 256) div (256 * 16) = unat a div 256 div (16 :: nat)"
    by (rule div_mult_mult1) simp
  then have "256 * (unat a div 256) div 4096 = unat a div (4096 :: nat)"
    by (simp flip: div_mult2_eq)
  then show ?thesis
    by (simp add: aitb.same_block_iff rmwb.unat_translate)
qed

lemma rmw_of_ait_block: "rmw_translate_to_block_addr (ait_translate_to_block_addr a) = ait_translate_to_block_addr a"
  by (simp add: word_unat_eq_iff rmwb.unat_translate aitb.unat_translate)

end
