(* ===== verification/Buffer.thy ===== *)
theory Buffer
  imports Common
begin

text \<open>
  The keyed buffer of \<open>src/general/buffer.h\<close>, shared by the RMW and AIT controllers, and the
  least-recently-used scan that both run over it. The template parameter \<open>AddrFunc\<close> is an
  argument of the operations. The C++ container is a hash map with an unspecified iteration
  order: the model is an association list whose order is that iteration order, and nothing
  below assumes anything about the order.
\<close>

section \<open>Entries and buffers\<close>

text \<open>The members that \<open>buffer.h\<close> and both controllers use of an entry.\<close>

record entry_base =
  last_used_clk :: clk_t
  next_action_clk :: clk_t
  buffer_index :: "64 word"
  pending :: bool
  waiting_action_clk_update :: bool
  valid_to_read :: bool
  dirty :: bool

record 'e internal_buffer =
  entry_map :: "(addr_t \<times> 'e) list"
  buf_max_entries :: nat
  next_available_index :: "64 word"

definition new_internal_buffer :: "nat \<Rightarrow> 'e internal_buffer" where
  "new_internal_buffer n = \<lparr>entry_map = [], buf_max_entries = n, next_available_index = 0\<rparr>"

definition buf_insert ::
  "(addr_t \<Rightarrow> addr_t) \<Rightarrow> addr_t \<Rightarrow> 'x entry_base_scheme \<Rightarrow> 'x entry_base_scheme internal_buffer
   \<Rightarrow> vans_error + 'x entry_base_scheme internal_buffer" where
  "buf_insert AddrFunc addr e b =
     (let key = AddrFunc addr in
      if key \<in> set (map fst (entry_map b))
      then Inl (Runtime_error ''Internal error, insert to an existing entry.'')
      else if buf_max_entries b < Suc (length (entry_map b))
      then Inl (Runtime_error ''Internal error, insert to a full rmw.'')
      else if buf_max_entries b < unat (next_available_index b)
      then Inl (Runtime_error ''Internal error, buffer local index out of range'')
      else Inr (b\<lparr>entry_map := (key, e\<lparr>buffer_index := next_available_index b\<rparr>) # entry_map b,
                 next_available_index := next_available_index b + 1\<rparr>))"

definition buf_find :: "(addr_t \<Rightarrow> addr_t) \<Rightarrow> addr_t \<Rightarrow> 'e internal_buffer \<Rightarrow> 'e option" where
  "buf_find AddrFunc logic_addr b = map_of (entry_map b) (AddrFunc logic_addr)"

definition buf_erase :: "(addr_t \<Rightarrow> addr_t) \<Rightarrow> addr_t \<Rightarrow> 'e internal_buffer \<Rightarrow> 'e internal_buffer" where
  "buf_erase AddrFunc logic_addr b =
     b\<lparr>entry_map := AList.delete (AddrFunc logic_addr) (entry_map b),
       next_available_index := next_available_index b - 1\<rparr>"

definition buf_full :: "'e internal_buffer \<Rightarrow> bool" where
  "buf_full b = (buf_max_entries b \<le> length (entry_map b))"

definition buf_empty :: "'e internal_buffer \<Rightarrow> bool" where
  "buf_empty b = (entry_map b = [])"

definition buf_pending :: "'x entry_base_scheme internal_buffer \<Rightarrow> bool" where
  "buf_pending b = (\<exists>(k, e) \<in> set (entry_map b). pending e)"

definition buf_dirty :: "'x entry_base_scheme internal_buffer \<Rightarrow> bool" where
  "buf_dirty b = (\<exists>(k, e) \<in> set (entry_map b). dirty e)"

text \<open>Writing through a reference to the entry of a present key.\<close>

definition buf_set :: "addr_t \<Rightarrow> 'e \<Rightarrow> 'e internal_buffer \<Rightarrow> 'e internal_buffer" where
  "buf_set key e b = b\<lparr>entry_map := AList.update key e (entry_map b)\<rparr>"

text \<open>
  The invariant of a buffer: distinct keys that are their own image under \<open>AddrFunc\<close>, at most
  \<open>max_entries\<close> entries, and the index counter equal to the number of entries.
\<close>

definition buf_wf :: "(addr_t \<Rightarrow> addr_t) \<Rightarrow> 'e internal_buffer \<Rightarrow> bool" where
  "buf_wf AddrFunc b \<longleftrightarrow>
     distinct (map fst (entry_map b)) \<and>
     length (entry_map b) \<le> buf_max_entries b \<and> buf_max_entries b < 2 ^ 64 \<and>
     next_available_index b = of_nat (length (entry_map b)) \<and>
     (\<forall>k \<in> set (map fst (entry_map b)). AddrFunc k = k)"

section \<open>The contract of the buffer\<close>

text \<open>
  What the controllers rely on. \<open>lookup\<close> reads the entry of a key; the laws say what it
  returns after each operation, when an insert is possible, and how the size moves.
\<close>

locale keyed_buffer =
  fixes AddrFunc :: "addr_t \<Rightarrow> addr_t"
    and ins :: "addr_t \<Rightarrow> 'e \<Rightarrow> 'b \<Rightarrow> vans_error + 'b"
    and del :: "addr_t \<Rightarrow> 'b \<Rightarrow> 'b"
    and put :: "addr_t \<Rightarrow> 'e \<Rightarrow> 'b \<Rightarrow> 'b"
    and lookup :: "'b \<Rightarrow> addr_t \<Rightarrow> 'e option"
    and bsize :: "'b \<Rightarrow> nat"
    and bcap :: "'b \<Rightarrow> nat"
    and tag :: "64 word \<Rightarrow> 'e \<Rightarrow> 'e"
    and wf :: "'b \<Rightarrow> bool"
  assumes idem: "AddrFunc (AddrFunc a) = AddrFunc a"
    and ins_ok: "wf b \<Longrightarrow> lookup b (AddrFunc a) = None \<Longrightarrow> bsize b < bcap b \<Longrightarrow>
      ensures (ins a e b) (\<lambda>b'. wf b' \<and> bsize b' = Suc (bsize b) \<and> bcap b' = bcap b \<and>
        lookup b' = (lookup b)(AddrFunc a := Some (tag (of_nat (bsize b)) e)))"
    and ins_duplicate: "wf b \<Longrightarrow> lookup b (AddrFunc a) \<noteq> None \<Longrightarrow>
      ins a e b = Inl (Runtime_error ''Internal error, insert to an existing entry.'')"
    and ins_overfull: "wf b \<Longrightarrow> lookup b (AddrFunc a) = None \<Longrightarrow> bsize b = bcap b \<Longrightarrow>
      ins a e b = Inl (Runtime_error ''Internal error, insert to a full rmw.'')"
    and del_present: "wf b \<Longrightarrow> lookup b (AddrFunc a) \<noteq> None \<Longrightarrow>
      wf (del a b) \<and> Suc (bsize (del a b)) = bsize b \<and> bcap (del a b) = bcap b \<and>
      lookup (del a b) = (lookup b)(AddrFunc a := None)"
    and put_present: "wf b \<Longrightarrow> lookup b x \<noteq> None \<Longrightarrow>
      wf (put x e b) \<and> bsize (put x e b) = bsize b \<and> bcap (put x e b) = bcap b \<and>
      lookup (put x e b) = (lookup b)(x := Some e)"
begin

text \<open>Replacing a victim by a new entry, as both controllers do on a miss in a full buffer.\<close>

lemma evict_then_insert:
  assumes "wf b" "lookup b (AddrFunc v) \<noteq> None" "lookup b (AddrFunc a) = None" "bsize b \<le> bcap b"
  shows "ensures (ins a e (del v b)) (\<lambda>b'. wf b' \<and> bsize b' = bsize b \<and> bcap b' = bcap b \<and>
    lookup b' = (lookup b)(AddrFunc v := None, AddrFunc a := Some (tag (of_nat (bsize b - 1)) e)))"
proof -
  have d: "wf (del v b)" "Suc (bsize (del v b)) = bsize b" "bcap (del v b) = bcap b"
      "lookup (del v b) = (lookup b)(AddrFunc v := None)"
    using del_present [OF assms(1,2)] by simp_all
  have "lookup (del v b) (AddrFunc a) = None" using d(4) assms(3) by simp
  moreover have "bsize (del v b) < bcap (del v b)" using d(2,3) assms(4) by simp
  moreover have "bsize b - 1 = bsize (del v b)" using d(2) by simp
  ultimately show ?thesis
    using ins_ok [OF d(1)] d by (auto elim!: ensures_mono)
qed

end

lemma buf_wf_new [simp]: "n < 2 ^ 64 \<Longrightarrow> buf_wf f (new_internal_buffer n)"
  by (simp add: buf_wf_def new_internal_buffer_def)

lemma buf_wf_index: "buf_wf f b \<Longrightarrow> unat (next_available_index b) = length (entry_map b)"
  unfolding buf_wf_def by (auto intro!: unat_of_nat64)

lemma buf_insert_ensures:
  assumes "buf_wf f b" "f (f a) = f a" "map_of (entry_map b) (f a) = None" "\<not> buf_full b"
  shows "ensures (buf_insert f a e b) (\<lambda>b'. buf_wf f b' \<and> buf_max_entries b' = buf_max_entries b \<and>
    entry_map b' = (f a, e\<lparr>buffer_index := of_nat (length (entry_map b))\<rparr>) # entry_map b)"
  using assms buf_wf_index [OF assms(1)]
  by (auto simp: buf_insert_def buf_wf_def buf_full_def Let_def map_of_eq_None_iff)

lemma buf_erase_wf:
  assumes "buf_wf f b" "f a \<in> fst ` set (entry_map b)"
  shows "buf_wf f (buf_erase f a b)"
    and "Suc (length (entry_map (buf_erase f a b))) = length (entry_map b)"
proof -
  have d: "distinct (map fst (entry_map b))" using assms(1) by (simp add: buf_wf_def)
  have l: "Suc (length (AList.delete (f a) (entry_map b))) = length (entry_map b)"
    by (rule length_delete_present [OF d assms(2)])
  then show "Suc (length (entry_map (buf_erase f a b))) = length (entry_map b)"
    by (simp add: buf_erase_def)
  have "next_available_index b - 1 = of_nat (length (AList.delete (f a) (entry_map b)))"
    using assms(1) l [symmetric] by (simp add: buf_wf_def)
  then show "buf_wf f (buf_erase f a b)"
    using assms(1) l distinct_delete_AList [OF d]
    by (auto simp: buf_wf_def buf_erase_def set_delete_AList)
qed

lemma buf_set_wf:
  assumes "buf_wf f b" "k \<in> fst ` set (entry_map b)"
  shows "buf_wf f (buf_set k e b)"
  using assms
  by (simp add: buf_wf_def buf_set_def map_fst_update_present length_update_present del: set_map)

lemma buf_insert_duplicate:
  "map_of (entry_map b) (f a) \<noteq> None \<Longrightarrow>
   buf_insert f a e b = Inl (Runtime_error ''Internal error, insert to an existing entry.'')"
  by (auto simp: buf_insert_def Let_def map_of_eq_None_iff)

lemma buf_insert_overfull:
  "map_of (entry_map b) (f a) = None \<Longrightarrow> length (entry_map b) = buf_max_entries b \<Longrightarrow>
   buf_insert f a e b = Inl (Runtime_error ''Internal error, insert to a full rmw.'')"
  by (auto simp: buf_insert_def Let_def map_of_eq_None_iff)

lemma map_of_buf_erase: "map_of (entry_map (buf_erase f a b)) = (map_of (entry_map b))(f a := None)"
  by (simp add: buf_erase_def delete_conv')

lemma map_of_buf_set: "map_of (entry_map (buf_set k e b)) = (map_of (entry_map b))(k := Some e)"
  by (simp add: buf_set_def update_conv')

lemma keyed_buffer_internal_buffer:
  assumes "\<And>a. f (f a) = f a"
  shows "keyed_buffer f (buf_insert f) (buf_erase f) buf_set
    (\<lambda>b. map_of (entry_map b)) (\<lambda>b. length (entry_map b)) buf_max_entries
    (\<lambda>i. buffer_index_update (\<lambda>_. i)) (buf_wf f)"
proof
  fix a show "f (f a) = f a" by (rule assms)
next
  fix b :: "'x entry_base_scheme internal_buffer" and a e
  assume "buf_wf f b" "map_of (entry_map b) (f a) = None" "length (entry_map b) < buf_max_entries b"
  then have "ensures (buf_insert f a e b) (\<lambda>b'. buf_wf f b' \<and> buf_max_entries b' = buf_max_entries b \<and>
      entry_map b' = (f a, e\<lparr>buffer_index := of_nat (length (entry_map b))\<rparr>) # entry_map b)"
    by (intro buf_insert_ensures assms) (simp_all add: buf_full_def)
  then show "ensures (buf_insert f a e b) (\<lambda>b'. buf_wf f b' \<and>
      length (entry_map b') = Suc (length (entry_map b)) \<and> buf_max_entries b' = buf_max_entries b \<and>
      map_of (entry_map b') =
        (map_of (entry_map b))(f a \<mapsto> e\<lparr>buffer_index := of_nat (length (entry_map b))\<rparr>))"
    by (rule ensures_mono) simp
next
  fix b :: "'x entry_base_scheme internal_buffer" and a
  assume "buf_wf f b" "map_of (entry_map b) (f a) \<noteq> None"
  then show "buf_wf f (buf_erase f a b) \<and>
      Suc (length (entry_map (buf_erase f a b))) = length (entry_map b) \<and>
      buf_max_entries (buf_erase f a b) = buf_max_entries b \<and>
      map_of (entry_map (buf_erase f a b)) = (map_of (entry_map b))(f a := None)"
    using buf_erase_wf [of f b a] map_of_buf_erase [of f a b]
    by (auto simp: map_of_eq_None_iff buf_erase_def)
next
  fix b :: "'x entry_base_scheme internal_buffer" and x e
  assume "buf_wf f b" "map_of (entry_map b) x \<noteq> None"
  then show "buf_wf f (buf_set x e b) \<and> length (entry_map (buf_set x e b)) = length (entry_map b) \<and>
      buf_max_entries (buf_set x e b) = buf_max_entries b \<and>
      map_of (entry_map (buf_set x e b)) = (map_of (entry_map b))(x \<mapsto> e)"
    using buf_set_wf [of f b x e] map_of_buf_set [of x e b] length_update_present [of x "entry_map b" e]
    by (auto simp: map_of_eq_None_iff buf_set_def)
qed (rule buf_insert_duplicate buf_insert_overfull; assumption)+

interpretation rmw_buf: keyed_buffer rmw_translate_to_block_addr
    "buf_insert rmw_translate_to_block_addr" "buf_erase rmw_translate_to_block_addr" buf_set
    "\<lambda>b. map_of (entry_map b)" "\<lambda>b. length (entry_map b)" buf_max_entries
    "\<lambda>i. buffer_index_update (\<lambda>_. i)" "buf_wf rmw_translate_to_block_addr"
  by (rule keyed_buffer_internal_buffer) (rule rmwb.translate_idem)

interpretation ait_buf: keyed_buffer ait_translate_to_block_addr
    "buf_insert ait_translate_to_block_addr" "buf_erase ait_translate_to_block_addr" buf_set
    "\<lambda>b. map_of (entry_map b)" "\<lambda>b. length (entry_map b)" buf_max_entries
    "\<lambda>i. buffer_index_update (\<lambda>_. i)" "buf_wf ait_translate_to_block_addr"
  by (rule keyed_buffer_internal_buffer) (rule aitb.translate_idem)

section \<open>Least recently used\<close>

text \<open>
  The scan of \<open>check_and_evict\<close>: over the entries that satisfy \<open>idle\<close>, the address with the
  smallest \<open>last_used_clk\<close> strictly below the start value, with \<open>addr_invalid\<close> and
  \<open>clk_invalid\<close> as the start values.
\<close>

fun lru_scan :: "('x entry_base_scheme \<Rightarrow> bool) \<Rightarrow> (addr_t \<times> 'x entry_base_scheme) list
    \<Rightarrow> addr_t \<times> clk_t \<Rightarrow> addr_t \<times> clk_t" where
  "lru_scan idle [] (oldest_addr, oldest_clk) = (oldest_addr, oldest_clk)"
| "lru_scan idle ((a, e) # m) (oldest_addr, oldest_clk) =
     (if idle e \<and> last_used_clk e < oldest_clk
      then lru_scan idle m (a, last_used_clk e)
      else lru_scan idle m (oldest_addr, oldest_clk))"

lemma lru_scan_le: "snd (lru_scan idle m (a0, c0)) \<le> c0"
proof (induction m arbitrary: a0 c0)
  case (Cons p m)
  obtain a e where p: "p = (a, e)" by (cases p)
  show ?case
  proof (cases "idle e \<and> last_used_clk e < c0")
    case True
    then have "snd (lru_scan idle (p # m) (a0, c0)) \<le> last_used_clk e"
      using Cons.IH [of a "last_used_clk e"] p by simp
    also have "\<dots> \<le> c0" using True by (blast intro: less_imp_le)
    finally show ?thesis .
  next
    case False
    then show ?thesis using Cons.IH [of a0 c0] p by auto
  qed
qed simp

lemma lru_scan_lower:
  "(a, e) \<in> set m \<Longrightarrow> idle e \<Longrightarrow> snd (lru_scan idle m (a0, c0)) \<le> last_used_clk e"
proof (induction m arbitrary: a0 c0)
  case (Cons p m)
  obtain b d where p: "p = (b, d)" by (cases p)
  show ?case
  proof (cases "(a, e) = (b, d)")
    case True
    then show ?thesis
      using Cons.prems(2) p lru_scan_le [of idle m b "last_used_clk d"] lru_scan_le [of idle m a0 c0]
      by auto
  next
    case False
    then have "(a, e) \<in> set m" using Cons.prems(1) p by auto
    then show ?thesis using Cons.IH Cons.prems(2) p by simp
  qed
qed simp

lemma lru_scan_source:
  "lru_scan idle m (a0, c0) = (a0, c0) \<or>
   (\<exists>e. (fst (lru_scan idle m (a0, c0)), e) \<in> set m \<and> idle e \<and>
        last_used_clk e = snd (lru_scan idle m (a0, c0)) \<and> last_used_clk e < c0)"
proof (induction m arbitrary: a0 c0)
  case (Cons p m)
  obtain a e where p: "p = (a, e)" by (cases p)
  show ?case
  proof (cases "idle e \<and> last_used_clk e < c0")
    case True
    then have s: "lru_scan idle (p # m) (a0, c0) = lru_scan idle m (a, last_used_clk e)"
      by (simp add: p)
    consider "lru_scan idle m (a, last_used_clk e) = (a, last_used_clk e)"
      | d where "(fst (lru_scan idle m (a, last_used_clk e)), d) \<in> set m" "idle d"
          "last_used_clk d = snd (lru_scan idle m (a, last_used_clk e))"
          "last_used_clk d < last_used_clk e"
      using Cons.IH [of a "last_used_clk e"] by blast
    then show ?thesis
    proof cases
      case 1
      then show ?thesis using True unfolding s p by auto
    next
      case 2
      have "last_used_clk d < c0" using 2(4) True by (blast intro: less_trans)
      with 2(1-3) show ?thesis unfolding s by (auto simp del: not_less)
    qed
  next
    case False
    then have s: "lru_scan idle (p # m) (a0, c0) = lru_scan idle m (a0, c0)"
      by (auto simp: p)
    from Cons.IH [of a0 c0] show ?thesis unfolding s by auto
  qed
qed simp

text \<open>
  The scan finds a victim exactly when some idle entry was ever used, and the victim is an
  idle entry that no idle entry is older than.
\<close>

lemma lru_scan_victim:
  assumes "lru_scan idle m (addr_invalid, clk_invalid) = (v, c)" "v \<noteq> addr_invalid"
  shows "\<exists>e. (v, e) \<in> set m \<and> idle e \<and> (\<forall>(k, d) \<in> set m. idle d \<longrightarrow> last_used_clk e \<le> last_used_clk d)"
proof -
  from lru_scan_source [of idle m addr_invalid clk_invalid] assms
  obtain e where e: "(v, e) \<in> set m" "idle e" "last_used_clk e = c" by auto
  have "\<forall>(k, d) \<in> set m. idle d \<longrightarrow> c \<le> last_used_clk d"
    using lru_scan_lower [of _ _ m idle addr_invalid clk_invalid] assms(1) by fastforce
  with e show ?thesis by auto
qed

lemma lru_scan_none:
  assumes "lru_scan idle m (addr_invalid, clk_invalid) = (addr_invalid, c)"
    and "\<forall>(k, e) \<in> set m. k \<noteq> addr_invalid" "(k, e) \<in> set m" "idle e"
  shows "last_used_clk e = clk_invalid"
proof -
  have "c = clk_invalid"
    using lru_scan_source [of idle m addr_invalid clk_invalid] assms(1,2) by auto
  then have "clk_invalid \<le> last_used_clk e"
    using lru_scan_lower [of k e m idle addr_invalid clk_invalid] assms by simp
  then show ?thesis by (simp add: clk_invalid_def word_order.extremum_unique)
qed

text \<open>There is a victim exactly when some idle entry carries a usable clock.\<close>

definition evictable :: "('x entry_base_scheme \<Rightarrow> bool) \<Rightarrow> (addr_t \<times> 'x entry_base_scheme) list \<Rightarrow> bool" where
  "evictable idle m \<longleftrightarrow> list_ex (\<lambda>(k, e). idle e \<and> last_used_clk e \<noteq> clk_invalid) m"

lemma lru_scan_evictable:
  assumes "\<forall>(k, e) \<in> set m. k \<noteq> addr_invalid"
  shows "fst (lru_scan idle m (addr_invalid, clk_invalid)) \<noteq> addr_invalid \<longleftrightarrow> evictable idle m"
proof -
  obtain v c where s: "lru_scan idle m (addr_invalid, clk_invalid) = (v, c)" by fastforce
  show ?thesis
  proof (cases "v = addr_invalid")
    case True
    then have "last_used_clk e = clk_invalid" if "(k, e) \<in> set m" "idle e" for k e
      using lru_scan_none [of idle m c k e] s assms that by simp
    then show ?thesis using True s by (auto simp: evictable_def list_ex_iff)
  next
    case False
    have "\<exists>e. (v, e) \<in> set m \<and> idle e \<and> last_used_clk e < clk_invalid"
      using lru_scan_source [of idle m addr_invalid clk_invalid] s False by auto
    then have "evictable idle m" by (force simp: evictable_def list_ex_iff)
    then show ?thesis using False s by simp
  qed
qed

lemma buf_wf_key_valid:
  assumes "buf_wf f b" "\<And>a. f a \<noteq> addr_invalid"
  shows "\<forall>(k, e) \<in> set (entry_map b). k \<noteq> addr_invalid"
proof (clarify)
  fix e assume "(addr_invalid, e) \<in> set (entry_map b)"
  then have "f addr_invalid = addr_invalid" using assms(1) by (force simp: buf_wf_def)
  then show False using assms(2) by blast
qed

end
