(* ===== verification/Request_Queue.thy ===== *)
theory Request_Queue
  imports Common
begin

text \<open>
  The bounded queue of \<open>src/general/request_queue.h\<close>. Its contract is the locale
  \<open>bounded_fifo\<close>: an enqueue fails exactly when the queue is full, appends otherwise, and
  never changes the capacity. The locale is interpreted on the queue of the code.
\<close>

record 'r request_queue =
  queue :: "'r list"
  max_entries :: nat

type_synonym base_request_queue = "base_request request_queue"

definition new_request_queue :: "nat \<Rightarrow> 'r request_queue" where
  "new_request_queue n = \<lparr>queue = [], max_entries = n\<rparr>"

definition rq_full :: "'r request_queue \<Rightarrow> vans_error + bool" where
  "rq_full q =
     (if max_entries q < length (queue q)
      then Inl (Runtime_error ''Internal error: queue overflow'')
      else Inr (length (queue q) = max_entries q))"

definition rq_empty :: "'r request_queue \<Rightarrow> bool" where
  "rq_empty q = (queue q = [])"

definition rq_pending :: "'r request_queue \<Rightarrow> bool" where
  "rq_pending q = (\<not> rq_empty q)"

text \<open>\<open>size()\<close> is declared to return \<open>bool\<close>: the length is converted to "is not zero".\<close>

definition rq_size :: "'r request_queue \<Rightarrow> bool" where
  "rq_size q = (length (queue q) \<noteq> 0)"

definition rq_enqueue :: "'r \<Rightarrow> 'r request_queue \<Rightarrow> vans_error + bool \<times> 'r request_queue" where
  "rq_enqueue req q =
     ebind (rq_full q) (\<lambda>full.
       if full then Inr (False, q)
       else Inr (True, q\<lparr>queue := queue q @ [req]\<rparr>))"

definition rq_wf :: "'r request_queue \<Rightarrow> bool" where
  "rq_wf q \<longleftrightarrow> length (queue q) \<le> max_entries q"

section \<open>The contract of a bounded queue\<close>

locale bounded_fifo =
  fixes enq :: "'r \<Rightarrow> 'q \<Rightarrow> vans_error + bool \<times> 'q"
    and is_full :: "'q \<Rightarrow> vans_error + bool"
    and content :: "'q \<Rightarrow> 'r list"
    and capacity :: "'q \<Rightarrow> nat"
    and wf :: "'q \<Rightarrow> bool"
  assumes wf_bound: "wf q \<Longrightarrow> length (content q) \<le> capacity q"
    and full_spec: "wf q \<Longrightarrow> is_full q = Inr (length (content q) = capacity q)"
    and enq_full: "wf q \<Longrightarrow> is_full q = Inr True \<Longrightarrow> enq r q = Inr (False, q)"
    and enq_room: "wf q \<Longrightarrow> is_full q = Inr False \<Longrightarrow>
      \<exists>q'. enq r q = Inr (True, q') \<and> content q' = content q @ [r] \<and> capacity q' = capacity q \<and> wf q'"
begin

lemma enq_ensures:
  assumes "wf q"
  shows "ensures (enq r q) (\<lambda>(ok, q'). wf q' \<and> capacity q' = capacity q \<and>
    ok = (length (content q) < capacity q) \<and> content q' = content q @ (if ok then [r] else []))"
proof (cases "length (content q) = capacity q")
  case True
  then have "is_full q = Inr True" using full_spec assms by simp
  then show ?thesis using enq_full [OF assms] True assms by simp
next
  case False
  then have "is_full q = Inr False" using full_spec assms by simp
  moreover have "length (content q) < capacity q" using False wf_bound [OF assms] by simp
  ultimately show ?thesis using enq_room [OF assms, of r] by fastforce
qed

lemma full_ensures: "wf q \<Longrightarrow> ensures (is_full q) (\<lambda>b. b = (length (content q) = capacity q))"
  by (simp add: full_spec)

text \<open>Enqueuing a list of requests one after the other, dropping the refused ones, keeps the first that fit.\<close>

fun enq_all :: "'r list \<Rightarrow> 'q \<Rightarrow> vans_error + 'q" where
  "enq_all [] q = Inr q"
| "enq_all (r # rs) q = ebind (enq r q) (\<lambda>(ok, q'). enq_all rs q')"

lemma enq_all_content:
  assumes "wf q"
  shows "ensures (enq_all rs q)
    (\<lambda>q'. wf q' \<and> capacity q' = capacity q \<and>
      content q' = content q @ take (capacity q - length (content q)) rs)"
  using assms
proof (induction rs arbitrary: q)
  case (Cons r rs)
  obtain ok q1 where q1: "enq r q = Inr (ok, q1)" "wf q1" "capacity q1 = capacity q"
      "ok = (length (content q) < capacity q)" "content q1 = content q @ (if ok then [r] else [])"
    using enq_ensures [OF Cons.prems, of r] by (auto simp: ensures_iff)
  obtain q2 where q2: "enq_all rs q1 = Inr q2" "wf q2" "capacity q2 = capacity q1"
      "content q2 = content q1 @ take (capacity q1 - length (content q1)) rs"
    using Cons.IH [OF q1(2)] by (auto simp: ensures_iff)
  have "content q2 = content q @ take (capacity q - length (content q)) (r # rs)"
  proof (cases ok)
    case True
    obtain n where n: "capacity q - length (content q) = Suc n"
      using q1(4) True by (metis Suc_diff_Suc)
    then have "capacity q1 - length (content q1) = n" using q1(3,5) True by simp
    then show ?thesis using q1(5) q2(4) True n by simp
  next
    case False
    then show ?thesis using q1(3,4,5) q2(4) by simp
  qed
  then show ?case using q1(1,3) q2(1,2,3) by simp
qed simp

end

interpretation rq: bounded_fifo rq_enqueue rq_full queue max_entries rq_wf
  by unfold_locales (auto simp: rq_wf_def rq_full_def rq_enqueue_def)

lemma rq_wf_new [simp]: "rq_wf (new_request_queue n)"
  by (simp add: rq_wf_def new_request_queue_def)

lemma rq_wf_tl: "rq_wf q \<Longrightarrow> rq_wf (q\<lparr>queue := tl (queue q)\<rparr>)"
  by (simp add: rq_wf_def)

lemma rq_wf_shorter: "rq_wf q \<Longrightarrow> length xs \<le> length (queue q) \<Longrightarrow> rq_wf (q\<lparr>queue := xs\<rparr>)"
  by (simp add: rq_wf_def)

end
