(* ===== verification/Mapping_Func.thy ===== *)
theory Mapping_Func
  imports Common
begin

text \<open>
  The component mapping functions of \<open>src/general/mapping.h\<close>, which send an address to an
  address inside a next-level component and the index of that component. The contract
  \<open>component_mapping\<close> is that the index is in range and that the pair determines the address;
  it is interpreted on both functions of the code.
\<close>

type_synonym component_mapping_f = "addr_t \<Rightarrow> 64 word \<Rightarrow> vans_error + addr_t \<times> 64 word"

definition none_mapping :: component_mapping_f where
  "none_mapping in_addr total_components = Inr (in_addr, 0)"

text \<open>Division by zero components is undefined behaviour.\<close>

definition stride_mapping_4096 :: component_mapping_f where
  "stride_mapping_4096 in_addr total_components =
     (if total_components = 0 then Inl Undefined_behaviour
      else Inr (push_bit 12 (drop_bit 12 in_addr div total_components) OR (in_addr AND 0xfff),
                drop_bit 12 in_addr mod total_components))"

definition get_component_mapping_func :: "string \<Rightarrow> vans_error + component_mapping_f" where
  "get_component_mapping_func mapping_func_name =
     (if mapping_func_name = ''none_mapping'' then Inr none_mapping
      else if mapping_func_name = ''stride_mapping(4096)'' then Inr stride_mapping_4096
      else Inl (Runtime_error ''Unknown dram_mapping function: ''))"

text \<open>\<open>supports n\<close> says for which numbers of components the mapping is meant.\<close>

locale component_mapping =
  fixes f :: component_mapping_f
    and supports :: "64 word \<Rightarrow> bool"
    and inverse :: "addr_t \<Rightarrow> 64 word \<Rightarrow> 64 word \<Rightarrow> addr_t"
  assumes in_range: "supports n \<Longrightarrow> ensures (f a n) (\<lambda>(a', i). i < n)"
    and recover: "supports n \<Longrightarrow> ensures (f a n) (\<lambda>(a', i). inverse a' i n = a)"
begin

lemma injective:
  assumes "supports n" "f a n = f b n"
  shows "a = b"
  using recover [OF assms(1), of a] recover [OF assms(1), of b] assms(2)
  by (auto simp: ensures_iff)

end

interpretation none_map: component_mapping none_mapping "\<lambda>n. n = 1" "\<lambda>a i n. a"
  by unfold_locales (simp_all add: none_mapping_def)

lemma unat_drop_12: "unat (drop_bit 12 a :: 64 word) = unat a div 4096"
  by (simp add: unat_div_distrib drop_bit_eq_div)

lemma unat_and_fff: "unat (a AND 0xfff :: 64 word) = unat a mod 4096"
  using unat_and_mask [of a 12] by (simp add: mask_eq_exp_minus_1)

lemma push_or_low:
  fixes x a :: "64 word"
  assumes "unat x < 2 ^ 52"
  shows "unat (push_bit 12 x OR (a AND 0xfff)) = 4096 * unat x + unat a mod 4096"
proof -
  have low: "(0xfff :: 64 word) = mask 12" by (simp add: mask_eq_exp_minus_1)
  have "push_bit 12 x AND (a AND mask 12) = 0"
    by (rule bit_word_eqI) (auto simp: bit_simps)
  then have join: "push_bit 12 x OR (a AND mask 12) = push_bit 12 x + (a AND mask 12)"
    by (rule disjunctive_add_eq_or [symmetric])
  have high: "unat (push_bit 12 x) = 4096 * unat x"
  proof -
    have "unat (push_bit 12 x) = take_bit LENGTH(64) (push_bit 12 (unat x))"
      by (rule unsigned_push_bit_eq)
    also have "push_bit 12 (unat x) = 4096 * unat x" by (simp add: push_bit_eq_mult)
    finally show ?thesis using assms by (simp add: take_bit_nat_eq_self)
  qed
  have bound: "4096 * unat x + unat a mod 4096 < 2 ^ 64"
  proof -
    have "4096 * unat x + 4096 \<le> (2::nat) ^ 64" using assms by simp
    moreover have "unat a mod 4096 < 4096" by simp
    ultimately show ?thesis by (rule order.strict_trans2 [OF add_strict_left_mono, rotated])
  qed
  have "unat (a AND mask 12) = unat a mod 4096" using unat_and_mask [of a 12] by simp
  then have "unat (push_bit 12 x + (a AND mask 12)) = 4096 * unat x + unat a mod 4096"
    using high bound by (subst unat_add_lem [THEN iffD1]) simp_all
  then show ?thesis by (simp only: low join)
qed

lemma drop_12_div_small: "unat (drop_bit 12 a div n :: 64 word) < 2 ^ 52"
proof -
  have "unat (drop_bit 12 a div n) \<le> unat a div 4096"
    by (simp add: unat_div_distrib unat_drop_12 div_le_dividend)
  also have "\<dots> < 2 ^ 52"
    using unsigned_less [of a, where ?'a = nat] by (intro less_mult_imp_div_less) simp
  finally show ?thesis .
qed

lemma stride_mapping_unat:
  assumes "stride_mapping_4096 a n = Inr (a', i)"
  shows "unat a' = 4096 * (unat a div 4096 div unat n) + unat a mod 4096"
    and "unat i = unat a div 4096 mod unat n" and "0 < unat n"
  using assms push_or_low [OF drop_12_div_small [of a n], of a]
  by (auto simp: stride_mapping_4096_def unat_div_distrib unat_mod_distrib unat_drop_12
      unat_gt_0 split: if_splits)

definition stride_unmap :: "addr_t \<Rightarrow> 64 word \<Rightarrow> 64 word \<Rightarrow> addr_t" where
  "stride_unmap a' i n = of_nat (4096 * (unat a' div 4096 * unat n + unat i) + unat a' mod 4096)"

interpretation stride_map: component_mapping stride_mapping_4096 "\<lambda>n. n \<noteq> 0" stride_unmap
proof
  fix n a :: "64 word"
  assume n: "n \<noteq> 0"
  show "ensures (stride_mapping_4096 a n) (\<lambda>(a', i). i < n)"
    using n by (simp add: stride_mapping_4096_def word_less_nat_alt unat_mod_distrib unat_gt_0)
  obtain a' i where m: "stride_mapping_4096 a n = Inr (a', i)"
    using n by (simp add: stride_mapping_4096_def)
  note u = stride_mapping_unat [OF m]
  have "unat a' div 4096 = unat a div 4096 div unat n" "unat a' mod 4096 = unat a mod 4096"
    by (simp_all add: u)
  then have "stride_unmap a' i n = of_nat (unat a)"
    by (simp only: stride_unmap_def u(2) div_mult_mod_eq mult_div_mod_eq)
  then show "ensures (stride_mapping_4096 a n) (\<lambda>(a', i). stride_unmap a' i n = a)"
    by (simp add: m)
qed

text \<open>With one component the stride mapping is the identity.\<close>

lemma stride_single: "stride_mapping_4096 a 1 = Inr (a, 0)"
proof -
  obtain a' i where m: "stride_mapping_4096 a 1 = Inr (a', i)"
    by (simp add: stride_mapping_4096_def)
  have "unat a' = unat a" "unat i = 0" using stride_mapping_unat [OF m] by simp_all
  then show ?thesis by (simp add: m word_unat_eq_iff)
qed

end
