(* ===== verification/Component.thy ===== *)
theory Component
  imports Request_Queue Mapping_Func
begin

text \<open>
  The base classes of \<open>src/general/component.h\<close> and \<open>src/general/controller.h\<close>. The virtual
  methods of \<open>base_component\<close> are a record of functions over the state of the component, so
  that a controller is written over any next level; \<open>memory_controller\<close> holds the next-level
  components, the mapping function and the drain flag.
\<close>

section \<open>Virtual methods of a component\<close>

text \<open>
  \<open>issue_request\<close> takes the request by reference: the updated request is part of the result.
  \<open>tick\<close> also returns the callbacks it invoked, in order.
\<close>

record 'n component_ops =
  issue_request :: "'n \<Rightarrow> base_request \<Rightarrow> vans_error + 'n \<times> base_request \<times> base_response"
  full :: "'n \<Rightarrow> vans_error + bool"
  is_pending :: "'n \<Rightarrow> vans_error + bool"
  drain :: "'n \<Rightarrow> vans_error + 'n"
  tick :: "clk_t \<Rightarrow> 'n \<Rightarrow> vans_error + 'n \<times> call list"

fun map_err :: "('a \<Rightarrow> 'e + 'b) \<Rightarrow> 'a list \<Rightarrow> 'e + 'b list" where
  "map_err f [] = Inr []"
| "map_err f (x # xs) = ebind (f x) (\<lambda>y. ebind (map_err f xs) (\<lambda>ys. Inr (y # ys)))"

fun any_err :: "('a \<Rightarrow> 'e + bool) \<Rightarrow> 'a list \<Rightarrow> 'e + bool" where
  "any_err f [] = Inr False"
| "any_err f (x # xs) = ebind (f x) (\<lambda>b. if b then Inr True else any_err f xs)"

lemma map_err_ensures:
  "\<forall>x \<in> set xs. ensures (f x) P \<Longrightarrow>
   ensures (map_err f xs) (\<lambda>ys. length ys = length xs \<and> (\<forall>y \<in> set ys. P y))"
proof (induction xs)
  case (Cons x xs)
  then obtain y ys where "f x = Inr y" "P y" "map_err f xs = Inr ys"
      "length ys = length xs" "\<forall>y \<in> set ys. P y"
    by (auto simp: ensures_iff)
  then show ?case by simp
qed simp

lemma any_err_ensures:
  "\<forall>x \<in> set xs. ensures (f x) (\<lambda>b. True) \<Longrightarrow>
   ensures (any_err f xs) (\<lambda>b. b \<longleftrightarrow> (\<exists>x \<in> set xs. f x = Inr True))"
proof (induction xs)
  case (Cons x xs)
  then obtain b where b: "f x = Inr b" by (auto simp: ensures_iff)
  have IH: "ensures (any_err f xs) (\<lambda>b. b \<longleftrightarrow> (\<exists>x \<in> set xs. f x = Inr True))"
    using Cons by simp
  show ?case
  proof (cases b)
    case False
    then show ?thesis using IH b by (auto elim!: ensures_mono)
  qed (simp add: b)
qed simp

section \<open>The memory controller\<close>

record 'n memory_controller =
  mapping_func :: component_mapping_f
  next_level_components :: "'n list"
  is_draining :: bool

definition get_next_level ::
  "addr_t \<Rightarrow> ('n, 'x) memory_controller_scheme \<Rightarrow> vans_error + addr_t \<times> nat" where
  "get_next_level addr c =
     ebind (mapping_func c addr (of_nat (length (next_level_components c)))) (\<lambda>(next_addr, component_index).
       if unat component_index < length (next_level_components c)
       then Inr (next_addr, unat component_index)
       else Inl Undefined_behaviour)"

text \<open>A mapping is usable when it sends every address to one of the connected components.\<close>

definition mapping_ok :: "('n, 'x) memory_controller_scheme \<Rightarrow> bool" where
  "mapping_ok c \<longleftrightarrow>
     (\<forall>a. ensures (mapping_func c a (of_nat (length (next_level_components c))))
        (\<lambda>(a', i). unat i < length (next_level_components c)))"

lemma get_next_level_ok:
  assumes "mapping_ok c"
  obtains a' i where "get_next_level a c = Inr (a', i)" "i < length (next_level_components c)"
  using assms unfolding mapping_ok_def get_next_level_def
  by (auto simp: ensures_iff) (metis (mono_tags, lifting) ebind.simps(2) old.prod.case)

lemma mapping_ok_none: "mapping_func c = none_mapping \<Longrightarrow> next_level_components c \<noteq> [] \<Longrightarrow> mapping_ok c"
  by (simp add: mapping_ok_def none_mapping_def)

lemma mapping_ok_stride:
  assumes "mapping_func c = stride_mapping_4096" "next_level_components c \<noteq> []"
    and "length (next_level_components c) < 2 ^ 64"
  shows "mapping_ok c"
proof -
  let ?n = "of_nat (length (next_level_components c)) :: 64 word"
  have u: "unat ?n = length (next_level_components c)" by (rule unat_of_nat64 [OF assms(3)])
  then have "?n \<noteq> 0" using assms(2) by (metis length_0_conv unat_0)
  then show ?thesis
    using stride_map.in_range [of ?n] assms(1) u by (auto simp: mapping_ok_def word_less_nat_alt)
qed

text \<open>Calling \<open>issue_request\<close> on the next-level component with index \<open>i\<close>.\<close>

definition next_issue ::
  "'n component_ops \<Rightarrow> nat \<Rightarrow> base_request \<Rightarrow> ('n, 'x) memory_controller_scheme
   \<Rightarrow> vans_error + ('n, 'x) memory_controller_scheme \<times> base_request \<times> base_response" where
  "next_issue ops i req c =
     ebind (issue_request ops (next_level_components c ! i) req) (\<lambda>(n, req', resp).
       Inr (c\<lparr>next_level_components := (next_level_components c)[i := n]\<rparr>, req', resp))"

definition next_full ::
  "'n component_ops \<Rightarrow> nat \<Rightarrow> ('n, 'x) memory_controller_scheme \<Rightarrow> vans_error + bool" where
  "next_full ops i c = full ops (next_level_components c ! i)"

definition mc_drain ::
  "'n component_ops \<Rightarrow>
   (('n, 'x) memory_controller_scheme \<Rightarrow> vans_error + ('n, 'x) memory_controller_scheme) \<Rightarrow>
   ('n, 'x) memory_controller_scheme \<Rightarrow> vans_error + ('n, 'x) memory_controller_scheme" where
  "mc_drain ops drain_current c =
     (if is_draining c
      then Inl (Runtime_error ''Internal error, should not call drain() twice.'')
      else ebind (drain_current (c\<lparr>is_draining := True\<rparr>)) (\<lambda>c.
           ebind (map_err (drain ops) (next_level_components c)) (\<lambda>ns.
             Inr (c\<lparr>next_level_components := ns\<rparr>))))"

definition mc_pending ::
  "'n component_ops \<Rightarrow> (('n, 'x) memory_controller_scheme \<Rightarrow> vans_error + bool) \<Rightarrow>
   ('n, 'x) memory_controller_scheme \<Rightarrow> vans_error + bool" where
  "mc_pending ops pending_current c =
     ebind (pending_current c) (\<lambda>p.
       if p then Inr True
       else any_err (is_pending ops) (next_level_components c))"

text \<open>\<open>component::tick_next\<close>: the next-level components tick in order; their callbacks are collected.\<close>

fun tick_list ::
  "'n component_ops \<Rightarrow> clk_t \<Rightarrow> 'n list \<Rightarrow> vans_error + 'n list \<times> call list" where
  "tick_list ops clk [] = Inr ([], [])"
| "tick_list ops clk (n # ns) =
     ebind (tick ops clk n) (\<lambda>(n', cs).
     ebind (tick_list ops clk ns) (\<lambda>(ns', cs').
       Inr (n' # ns', cs @ cs')))"

text \<open>\<open>component::connect_next\<close>.\<close>

definition connect_next :: "'n \<Rightarrow> ('n, 'x) memory_controller_scheme \<Rightarrow> ('n, 'x) memory_controller_scheme" where
  "connect_next nc c = c\<lparr>next_level_components := next_level_components c @ [nc]\<rparr>"

section \<open>The contract of a next level\<close>

text \<open>
  What a controller relies on when it talks to the level below: the calls return, they keep the
  invariant of the level, an accepted request has either a usable completion clock or a later
  callback, and a level that is not full accepts. Requests carry an arrival clock below \<open>2^62\<close>.
\<close>

locale next_level =
  fixes ops :: "'n component_ops"
    and ninv :: "'n \<Rightarrow> bool"
  assumes issue_ok: "ninv n \<Longrightarrow> small_clk (req_arrive r) \<Longrightarrow>
      ensures (issue_request ops n r) (\<lambda>(n', r', issued, deterministic, next_clk).
        ninv n' \<and> (issued \<longrightarrow> deterministic \<longrightarrow> next_clk \<noteq> clk_invalid))"
    and full_ok: "ninv n \<Longrightarrow> ensures (full ops n) (\<lambda>b. True)"
    and not_full_issues: "ninv n \<Longrightarrow> full ops n = Inr False \<Longrightarrow> small_clk (req_arrive r) \<Longrightarrow>
      ensures (issue_request ops n r) (\<lambda>(n', r', issued, deterministic, next_clk). issued)"
begin

lemma next_issue_ok:
  assumes "\<forall>n \<in> set (next_level_components c). ninv n" "i < length (next_level_components c)"
    and "small_clk (req_arrive r)"
  shows "ensures (next_issue ops i r c) (\<lambda>(c', r', issued, deterministic, next_clk).
    (\<exists>ns. c' = c\<lparr>next_level_components := ns\<rparr> \<and> length ns = length (next_level_components c) \<and>
       (\<forall>n \<in> set ns. ninv n)) \<and>
    (issued \<longrightarrow> deterministic \<longrightarrow> next_clk \<noteq> clk_invalid))"
proof -
  let ?n = "next_level_components c ! i"
  have "ninv ?n" using assms(1,2) by simp
  from issue_ok [OF this assms(3)] obtain n r' iss det nc where
      i: "issue_request ops ?n r = Inr (n, r', iss, det, nc)" "ninv n"
        "iss \<longrightarrow> det \<longrightarrow> nc \<noteq> clk_invalid"
    by (auto simp: ensures_iff)
  have "\<forall>m \<in> set ((next_level_components c)[i := n]). ninv m"
    using assms(1) i(2) set_update_subset_insert [of "next_level_components c" i n] by auto
  then show ?thesis unfolding next_issue_def using i by auto
qed

end


text \<open>A level that also ticks, and whose pending query returns.\<close>

locale ticking_level = next_level +
  assumes tick_ok: "ninv n \<Longrightarrow> small_clk clk \<Longrightarrow> ensures (tick ops clk n) (\<lambda>(n', calls).
      ninv n' \<and> (\<forall>(cb, a, t) \<in> set calls. t = clk))"
    and pending_ok: "ninv n \<Longrightarrow> ensures (is_pending ops n) (\<lambda>b. True)"
begin

lemma tick_list_ok:
  assumes "\<forall>n \<in> set ns. ninv n" "small_clk clk"
  shows "ensures (tick_list ops clk ns) (\<lambda>(ns', calls). length ns' = length ns \<and>
    (\<forall>n \<in> set ns'. ninv n) \<and> (\<forall>(cb, a, t) \<in> set calls. t = clk))"
  using assms(1)
proof (induction ns)
  case (Cons n ns)
  obtain n' cs where t: "tick ops clk n = Inr (n', cs)" "ninv n'" "\<forall>(cb, a, t) \<in> set cs. t = clk"
    using tick_ok [of n clk] Cons.prems assms(2) by (auto simp: ensures_iff)
  obtain ns' cs' where u: "tick_list ops clk ns = Inr (ns', cs')" "length ns' = length ns"
      "\<forall>n \<in> set ns'. ninv n" "\<forall>(cb, a, t) \<in> set cs'. t = clk"
    using Cons.IH Cons.prems by (auto simp: ensures_iff)
  show ?case using t u by auto
qed simp

end

text \<open>What a list of components owes together.\<close>

definition all_owe :: "('n \<Rightarrow> 'o multiset) \<Rightarrow> 'n list \<Rightarrow> 'o multiset" where
  "all_owe w ns = sum_list (map w ns)"

definition has_callback :: "base_request \<Rightarrow> bool" where
  "has_callback r \<longleftrightarrow> req_callback r \<noteq> Cb_null"

definition is_read_with_callback :: "base_request \<Rightarrow> bool" where
  "is_read_with_callback r \<longleftrightarrow> req_type r = Base_read \<and> req_callback r \<noteq> Cb_null"

text \<open>
  A level that owes a callback for every request that it accepts without a completion clock.
  \<open>owes n\<close> is what is still to be answered: issuing adds the request, and a tick answers a
  part of it with one call each; it never answers what it does not owe. Addresses are told
  apart up to \<open>block\<close>; \<open>answers\<close> says which requests get their answer by a callback.
\<close>

locale responder = ticking_level +
  fixes owes :: "'a \<Rightarrow> (callback \<times> addr_t) multiset"
    and block :: "addr_t \<Rightarrow> addr_t"
    and answers :: "base_request \<Rightarrow> bool"
  assumes issue_owes: "ninv n \<Longrightarrow> small_clk (req_arrive r) \<Longrightarrow>
      ensures (issue_request ops n r) (\<lambda>(n', r', issued, deterministic, next_clk).
        owes n' = owes n + (if issued \<and> \<not> deterministic \<and> answers r
          then {#(req_callback r, block (req_addr r))#} else {#}))"
    and tick_owes: "ninv n \<Longrightarrow> small_clk clk \<Longrightarrow> ensures (tick ops clk n) (\<lambda>(n', calls).
        owes n = owes n' + mset (map (\<lambda>(cb, a, t). (cb, block a)) calls))"
begin

lemma all_owe_update:
  assumes "i < length ns"
  shows "all_owe owes (ns[i := n]) + owes (ns ! i) = all_owe owes ns + owes n"
  using assms
proof (induction ns arbitrary: i)
  case (Cons m ns)
  then show ?case by (cases i) (auto simp: all_owe_def ac_simps)
qed simp

lemma next_issue_owes:
  assumes "\<forall>n \<in> set (next_level_components c). ninv n" "i < length (next_level_components c)"
    and "small_clk (req_arrive r)"
  shows "ensures (next_issue ops i r c) (\<lambda>(c', r', issued, deterministic, next_clk).
    (\<exists>ns. c' = c\<lparr>next_level_components := ns\<rparr> \<and> length ns = length (next_level_components c) \<and>
       (\<forall>n \<in> set ns. ninv n)) \<and>
    (issued \<longrightarrow> deterministic \<longrightarrow> next_clk \<noteq> clk_invalid) \<and>
    all_owe owes (next_level_components c') = all_owe owes (next_level_components c) +
      (if issued \<and> \<not> deterministic \<and> answers r
       then {#(req_callback r, block (req_addr r))#} else {#}))"
proof -
  let ?n = "next_level_components c ! i"
  have n: "ninv ?n" using assms(1,2) by simp
  note o = issue_owes [OF n assms(3)]
  from issue_ok [OF n assms(3)] obtain n r' iss det nc where
      i: "issue_request ops ?n r = Inr (n, r', iss, det, nc)"
    by (auto simp: ensures_iff)
  have "owes n = owes ?n + (if iss \<and> \<not> det \<and> answers r
      then {#(req_callback r, block (req_addr r))#} else {#})"
    using o i by simp
  then have "all_owe owes ((next_level_components c)[i := n]) = all_owe owes (next_level_components c) +
      (if iss \<and> \<not> det \<and> answers r
      then {#(req_callback r, block (req_addr r))#} else {#})"
    using all_owe_update [OF assms(2), of n] by (simp add: ac_simps)
  then show ?thesis
    using next_issue_ok [OF assms] i by (auto simp: next_issue_def ensures_iff)
qed

lemma tick_list_owes:
  assumes "\<forall>n \<in> set ns. ninv n" "small_clk clk"
  shows "ensures (tick_list ops clk ns) (\<lambda>(ns', calls).
    all_owe owes ns = all_owe owes ns' + mset (map (\<lambda>(cb, a, t). (cb, block a)) calls))"
  using assms(1)
proof (induction ns)
  case (Cons n ns)
  obtain n' cs where t: "tick ops clk n = Inr (n', cs)"
      "owes n = owes n' + mset (map (\<lambda>(cb, a, t). (cb, block a)) cs)"
    using tick_owes [of n clk] tick_ok [of n clk] Cons.prems assms(2) by (auto simp: ensures_iff)
  obtain ns' cs' where u: "tick_list ops clk ns = Inr (ns', cs')"
      "all_owe owes ns = all_owe owes ns' + mset (map (\<lambda>(cb, a, t). (cb, block a)) cs')"
    using Cons by (auto simp: ensures_iff)
  show ?case using t u by (simp add: all_owe_def)
qed (simp add: all_owe_def)

end

section \<open>Runs\<close>

text \<open>
  The calls of a client, one after the other. The run collects the requests that the component
  accepted without a completion clock and the callbacks that it invoked.
\<close>

datatype component_event = Ev_issue base_request | Ev_tick clk_t

fun small_event :: "component_event \<Rightarrow> bool" where
  "small_event (Ev_issue r) = small_clk (req_arrive r)"
| "small_event (Ev_tick clk) = small_clk clk"

fun component_run ::
  "'n component_ops \<Rightarrow> component_event list \<Rightarrow> 'n \<Rightarrow> vans_error + 'n \<times> base_request list \<times> call list" where
  "component_run ops [] n = Inr (n, [], [])"
| "component_run ops (Ev_issue r # evs) n =
     ebind (issue_request ops n r) (\<lambda>(n, r', issued, deterministic, next_clk).
     ebind (component_run ops evs n) (\<lambda>(n, accepted, calls).
       Inr (n, (if issued \<and> \<not> deterministic then [r] else []) @ accepted, calls)))"
| "component_run ops (Ev_tick clk # evs) n =
     ebind (tick ops clk n) (\<lambda>(n, calls).
     ebind (component_run ops evs n) (\<lambda>(n, accepted, calls').
       Inr (n, accepted, calls @ calls')))"

definition run_state :: "'n component_ops \<Rightarrow> component_event list \<Rightarrow> 'n \<Rightarrow> 'n" where
  "run_state ops evs n = (case component_run ops evs n of Inl e \<Rightarrow> n | Inr (t, accepted, calls) \<Rightarrow> t)"

context ticking_level
begin

lemma component_run_ok:
  assumes "ninv n" "list_all small_event evs"
  shows "ensures (component_run ops evs n) (\<lambda>(t, accepted, calls). ninv t)"
  using assms
proof (induction evs arbitrary: n)
  case (Cons ev evs)
  show ?case
  proof (cases ev)
    case (Ev_issue r)
    then have "small_clk (req_arrive r)" using Cons.prems(2) by simp
    from issue_ok [OF Cons.prems(1) this] obtain m r' resp where
      "issue_request ops n r = Inr (m, r', resp)" "ninv m" by (auto simp: ensures_iff)
    then show ?thesis
      using Cons.IH [of m] Cons.prems(2) Ev_issue by (auto simp: split_def elim!: ensures_mono)
  next
    case (Ev_tick clk)
    then have "small_clk clk" using Cons.prems(2) by simp
    from tick_ok [OF Cons.prems(1) this] obtain m cs where
      "tick ops clk n = Inr (m, cs)" "ninv m" by (auto simp: ensures_iff)
    then show ?thesis
      using Cons.IH [of m] Cons.prems(2) Ev_tick by (auto simp: split_def elim!: ensures_mono)
  qed
qed simp

lemma run_state_ok: "ninv n \<Longrightarrow> list_all small_event evs \<Longrightarrow> ninv (run_state ops evs n)"
  using component_run_ok [of n evs] by (auto simp: run_state_def ensures_iff)

end

context responder
begin

text \<open>Over a whole run nothing is lost and nothing is answered twice.\<close>

lemma component_run_owes:
  assumes "ninv n" "list_all small_event evs"
  shows "ensures (component_run ops evs n) (\<lambda>(t, accepted, calls).
    owes n + mset (map (\<lambda>r. (req_callback r, block (req_addr r))) (filter answers accepted)) =
    owes t + mset (map (\<lambda>(cb, a, clk). (cb, block a)) calls))"
  using assms
proof (induction evs arbitrary: n)
  case (Cons ev evs)
  show ?case
  proof (cases ev)
    case (Ev_issue r)
    then have r: "small_clk (req_arrive r)" using Cons.prems(2) by simp
    from issue_ok [OF Cons.prems(1) r] issue_owes [OF Cons.prems(1) r] obtain m r' iss det nc where
      m: "issue_request ops n r = Inr (m, r', iss, det, nc)" "ninv m" "owes m = owes n + (if iss \<and> \<not> det \<and> answers r
          then {#(req_callback r, block (req_addr r))#} else {#})" by (auto simp: ensures_iff)
    then obtain t accepted calls where
      t: "component_run ops evs m = Inr (t, accepted, calls)"
        "owes m + mset (map (\<lambda>r. (req_callback r, block (req_addr r))) (filter answers accepted)) =
         owes t + mset (map (\<lambda>(cb, a, clk). (cb, block a)) calls)"
      using Cons.IH [of m] Cons.prems(2) by (auto simp: ensures_iff)
    then show ?thesis using m Ev_issue by (auto simp: ac_simps)
  next
    case (Ev_tick clk)
    then have c: "small_clk clk" using Cons.prems(2) by simp
    from tick_ok [OF Cons.prems(1) c] tick_owes [OF Cons.prems(1) c] obtain m cs where
      m: "tick ops clk n = Inr (m, cs)" "ninv m"
        "owes n = owes m + mset (map (\<lambda>(cb, a, t). (cb, block a)) cs)" by (auto simp: ensures_iff)
    then obtain t accepted calls where
      t: "component_run ops evs m = Inr (t, accepted, calls)"
        "owes m + mset (map (\<lambda>r. (req_callback r, block (req_addr r))) (filter answers accepted)) =
         owes t + mset (map (\<lambda>(cb, a, clk). (cb, block a)) calls)"
      using Cons.IH [of m] Cons.prems(2) by (auto simp: ensures_iff)
    then show ?thesis using m Ev_tick by (auto simp: ac_simps)
  qed
qed simp

end

end
