(* ===== verification/Base_Props.thy ===== *)
theory Base_Props
  imports Buffer Component
begin

text \<open>
  Properties of the parts that every controller is built from: block arithmetic, powers of two,
  the component mapping, the request queue and the internal buffer.
\<close>

section \<open>Blocks\<close>

text \<open>An address is its block address plus its offset, for 256-byte and for 4096-byte blocks; the
  256-byte blocks nest in the 4096-byte blocks, and the cache line and block indices inside a block
  are below 4, 64 and 16.\<close>

theorem block_split:
  "rmw_translate_to_block_addr a + rmw_block_offset a = a \<and>
   ait_translate_to_block_addr a + ait_block_offset a = a \<and>
   ait_translate_to_block_addr (rmw_translate_to_block_addr a) = ait_translate_to_block_addr a \<and>
   rmw_translate_to_block_addr (ait_translate_to_block_addr a) = ait_translate_to_block_addr a \<and>
   unat (rmw_block_offset_cl a) < 4 \<and> unat (ait_block_offset_cl a) < 64 \<and> unat (ait_block_offset_rmw a) < 16"
  using rmwb.translate_plus_offset aitb.translate_plus_offset ait_of_rmw_block rmw_of_ait_block
    rmw_cl_lt_4 ait_rmw_index_lt_16 by (simp add: unat_ait_block_offset_cl)

text \<open>The bit of a cache line inside a 4096-byte block is a 32-bit shift by up to 63: it is undefined
  exactly for the upper half of the block. The bits of a cache line of a 256-byte block and of a
  256-byte block of a 4096-byte block are always defined, each the power of its index.\<close>

theorem block_bits:
  "(ait_block_bitshift_cl a = Inl Undefined_behaviour) = (2048 \<le> unat a mod 4096) \<and>
   rmw_block_bitshift_cl a = Inr (push_bit (unat (rmw_block_offset_cl a)) 1) \<and>
   ait_block_bitshift_rmw a = Inr (push_bit (unat (ait_block_offset_rmw a)) 1)"
proof -
  have shift: "(ucast (push_bit n 1 :: 32 word) :: 64 word) = push_bit n 1" if "n < 32" for n
    using that by (intro bit_word_eqI) (auto simp: bit_simps)
  have "32 \<le> unat (ait_block_offset_cl a) \<longleftrightarrow> 2048 \<le> unat a mod 4096"
    by (simp add: unat_ait_block_offset_cl) linarith
  then show ?thesis
    using rmw_cl_lt_4 [of a] ait_rmw_index_lt_16 [of a] shift
    by (auto simp: ait_block_bitshift_cl_def rmw_block_bitshift_cl_def ait_block_bitshift_rmw_def shl_1U_def)
qed

section \<open>Powers of two\<close>

lemma and_pred_zero_iff:
  fixes n :: "64 word"
  assumes "n \<noteq> 0"
  shows "n AND (n - 1) = 0 \<longleftrightarrow> unat n = 2 ^ log2 n"
proof -
  define k where "k = log2 n"
  have b: "2 ^ k \<le> unat n" "unat n < 2 ^ Suc k" using log2_bounds [OF assms] by (simp_all add: k_def)
  have "2 ^ k < (2::nat) ^ 64" using b(1) unsigned_less [of n, where ?'a = nat] by simp
  then have k: "k < 64" by (rule power_less_imp_less_exp [rotated]) simp
  have pred: "unat (n - 1) = unat n - 1" using assms by (simp add: unat_minus_one)
  show ?thesis
    unfolding k_def [symmetric]
  proof
    assume "unat n = 2 ^ k"
    moreover have "n = of_nat (unat n)" by simp
    ultimately have "n = of_nat (2 ^ k)" by simp
    then have n: "n = push_bit k 1" by (simp add: push_bit_eq_mult)
    have "n - 1 = mask k" unfolding n by (simp add: mask_eq_exp_minus_1 push_bit_eq_mult)
    then show "n AND (n - 1) = 0" unfolding n by (intro bit_word_eqI) (auto simp: bit_simps)
  next
    assume z: "n AND (n - 1) = 0"
    show "unat n = 2 ^ k"
    proof (rule ccontr)
      assume "unat n \<noteq> 2 ^ k"
      then have l: "2 ^ k \<le> unat n - 1" using b(1) by linarith
      have bit_k: "bit m k" if "2 ^ k \<le> unat m" "unat m < 2 ^ Suc k" for m :: "64 word"
      proof -
        have "unat m div 2 ^ k = 1" using that by (intro div_nat_eqI) auto
        then have "odd (unat m div 2 ^ k)" by simp
        then have "bit (unat m) k" unfolding bit_iff_odd .
        then show ?thesis using k by (simp add: bit_unsigned_iff)
      qed
      have "bit n k" "bit (n - 1) k" using bit_k [of n] bit_k [of "n - 1"] b l pred by simp_all
      then have "bit (n AND (n - 1)) k" by (simp add: bit_and_iff)
      then show False using z by simp
    qed
  qed
qed

text \<open>\<open>log2\<close> is the rounded-down logarithm of a non-zero number, and \<open>is_pwr_of_2\<close> holds exactly
  when nothing was rounded; the logarithm of zero is zero.\<close>

theorem log2_floor:
  "log2 0 = 0 \<and> is_pwr_of_2 0 = False \<and>
   (n = 0 \<or> 2 ^ log2 n \<le> unat n \<and> unat n < 2 ^ Suc (log2 n) \<and> is_pwr_of_2 n = (unat n = 2 ^ log2 n))"
proof -
  have "log2 0 = 0" unfolding log2_def by (subst log2_loop.simps) simp
  then show ?thesis
    using log2_bounds [of n] and_pred_zero_iff [of n] by (cases "n = 0") (simp_all add: is_pwr_of_2_def)
qed

section \<open>Interleaving\<close>

text \<open>The 4096-byte stride mapping is a bijection onto the components it interleaves: it names one of
  the components, and the local address and the index give the address back.\<close>

theorem stride_mapping_roundtrip:
  assumes "0 < n"
  shows "ensures (stride_mapping_4096 a n) (\<lambda>(a', i). i < n \<and> stride_unmap a' i n = a \<and>
    unat a' mod 4096 = unat a mod 4096 \<and> unat a' \<le> unat a)"
proof -
  have n: "n \<noteq> 0" using assms by auto
  then obtain a' i where m: "stride_mapping_4096 a n = Inr (a', i)" by (simp add: stride_mapping_4096_def)
  note u = stride_mapping_unat [OF m]
  have "4096 * (unat a div 4096 div unat n) + unat a mod 4096 \<le> 4096 * (unat a div 4096) + unat a mod 4096"
    by (intro add_right_mono mult_le_mono2) (rule div_le_dividend)
  then have "unat a' \<le> unat a" unfolding u(1) mult_div_mod_eq .
  then show ?thesis
    using stride_map.in_range [OF n, of a] stride_map.recover [OF n, of a] m u(1) by simp
qed

theorem stride_mapping_roundtrip_witness:
  "ensures (stride_mapping_4096 0x5123 4) (\<lambda>(a', i). i < 4 \<and> stride_unmap a' i 4 = 0x5123) \<and>
   stride_mapping_4096 0x5123 4 = Inr (0x1123, 1)"
proof -
  have "ensures (stride_mapping_4096 0x5123 4) (\<lambda>(a', i). i < 4 \<and> stride_unmap a' i 4 = 0x5123)"
    by (rule ensures_mono [OF stride_mapping_roundtrip]) auto
  moreover have "stride_mapping_4096 0x5123 4 = Inr (0x1123, 1)" by code_simp
  ultimately show ?thesis by blast
qed

section \<open>Queues\<close>

text \<open>Enqueuing requests one after the other keeps, behind what was queued, the first ones that fit and
  refuses the rest; the order of arrival is the order of the queue, and the queue never overflows.\<close>

theorem queue_keeps_first_that_fit:
  assumes "rq_wf q"
  shows "ensures (rq.enq_all rs q) (\<lambda>q'. rq_wf q' \<and> max_entries q' = max_entries q \<and>
    queue q' = queue q @ take (max_entries q - length (queue q)) rs \<and>
    rq_full q' = Inr (max_entries q \<le> length (queue q) + length rs))"
proof (rule ensures_mono [OF rq.enq_all_content [OF assms]])
  fix q'
  assume "rq_wf q' \<and> max_entries q' = max_entries q \<and> queue q' = queue q @ take (max_entries q - length (queue q)) rs"
  then show "rq_wf q' \<and> max_entries q' = max_entries q \<and>
    queue q' = queue q @ take (max_entries q - length (queue q)) rs \<and>
    rq_full q' = Inr (max_entries q \<le> length (queue q) + length rs)"
    using assms rq.full_spec [of q'] by (auto simp: rq_wf_def)
qed

theorem queue_keeps_first_that_fit_witness:
  "ensures (rq.enq_all [7, 8, 9 :: nat] (new_request_queue 2)) (\<lambda>q'. queue q' = [7, 8] \<and> rq_full q' = Inr True)"
  by (rule ensures_mono [OF queue_keeps_first_that_fit [of "new_request_queue 2" "[7, 8, 9]"]])
    (auto simp: new_request_queue_def rq_wf_def)

section \<open>Buffers\<close>

text \<open>Evicting a present block and inserting an absent one into a full buffer succeeds for both block
  sizes: the new entry is found under its block, the evicted one no longer, every other one is
  unchanged, and the buffer stays within its bounds.\<close>

theorem buffer_replace:
  assumes "buf_wf f b" "f = rmw_translate_to_block_addr \<or> f = ait_translate_to_block_addr"
    and "map_of (entry_map b) (f v) = Some d" "map_of (entry_map b) (f a) = None"
  shows "ensures (buf_insert f a e (buf_erase f v b)) (\<lambda>b'. buf_wf f b' \<and>
    length (entry_map b') = length (entry_map b) \<and> buf_find f v b' = None \<and>
    buf_find f a b' = Some (e\<lparr>buffer_index := of_nat (length (entry_map b) - 1)\<rparr>) \<and>
    map_of (entry_map b') = (map_of (entry_map b))(f v := None, f a := buf_find f a b'))"
proof -
  have k: "keyed_buffer f (buf_insert f) (buf_erase f) buf_set
    (\<lambda>b. map_of (entry_map b)) (\<lambda>b. length (entry_map b)) buf_max_entries
    (\<lambda>i. buffer_index_update (\<lambda>_. i)) (buf_wf f)"
    using assms(2) rmw_buf.keyed_buffer_axioms ait_buf.keyed_buffer_axioms by blast
  have "length (entry_map b) \<le> buf_max_entries b" using assms(1) by (simp add: buf_wf_def)
  from keyed_buffer.evict_then_insert [OF k assms(1) _ assms(4) this, of v e] show ?thesis
    using assms(3,4) by (auto simp: buf_find_def elim!: ensures_mono)
qed

theorem buffer_replace_witness:
  "ensures (buf_insert rmw_translate_to_block_addr 0x234 \<lparr>last_used_clk = 9, next_action_clk = 0, buffer_index = 0,
      pending = True, waiting_action_clk_update = True, valid_to_read = False, dirty = False\<rparr>
      (buf_erase rmw_translate_to_block_addr 0x1ff \<lparr>entry_map = [(0x100, \<lparr>last_used_clk = 3, next_action_clk = 0,
        buffer_index = 0, pending = False, waiting_action_clk_update = False, valid_to_read = True, dirty = False\<rparr>)],
        buf_max_entries = 1, next_available_index = 1\<rparr>))
    (\<lambda>b'. length (entry_map b') = 1 \<and> buf_find rmw_translate_to_block_addr 0x200 b' \<noteq> None)"
proof -
  let ?e = "\<lparr>last_used_clk = 3, next_action_clk = 0, buffer_index = 0, pending = False,
    waiting_action_clk_update = False, valid_to_read = True, dirty = False\<rparr>"
  let ?b = "\<lparr>entry_map = [(0x100, ?e)], buf_max_entries = 1, next_available_index = 1\<rparr>"
  have t: "rmw_translate_to_block_addr 0x1ff = 0x100" "rmw_translate_to_block_addr 0x100 = 0x100"
    "rmw_translate_to_block_addr 0x234 = 0x200" "rmw_translate_to_block_addr 0x200 = 0x200" by code_simp+
  have "buf_wf rmw_translate_to_block_addr ?b" by (simp add: buf_wf_def t)
  note r = buffer_replace [OF this disjI1 [OF refl], of "0x1ff" ?e "0x234"]
  show ?thesis
    by (rule ensures_mono [OF r]) (auto simp: t buf_find_def)
qed

end
