(* ===== verification/Static_Memory.thy ===== *)
theory Static_Memory
  imports Component
begin

text \<open>
  The constant-latency memory of \<open>src/general/static_memory.h\<close>, which is also the media of the
  NVDIMM (\<open>src/general/nv_media.h\<close> adds nothing to it). It is a next level that is never
  full and always answers with a completion clock.
\<close>

record static_memory =
  read_latency :: clk_t
  write_latency :: clk_t

definition static_issue_request ::
  "static_memory \<Rightarrow> base_request \<Rightarrow> vans_error + static_memory \<times> base_request \<times> base_response" where
  "static_issue_request c request =
     (if req_arrive request = clk_invalid
      then Inl (Runtime_error ''Internal error, this request's arrive clk is `clk_invalid`.'')
      else (case req_type request of
          Base_read \<Rightarrow> Inr (c, request, True, True, req_arrive request + read_latency c)
        | Base_write \<Rightarrow> Inr (c, request, True, True, req_arrive request + write_latency c)))"

definition static_full :: "static_memory \<Rightarrow> vans_error + bool" where
  "static_full c = Inr False"

definition static_pending :: "static_memory \<Rightarrow> vans_error + bool" where
  "static_pending c = Inr False"

definition static_drain :: "static_memory \<Rightarrow> vans_error + static_memory" where
  "static_drain c = Inr c"

definition static_tick :: "clk_t \<Rightarrow> static_memory \<Rightarrow> vans_error + static_memory \<times> call list" where
  "static_tick curr_clk c = Inr (c, [])"

definition static_memory_ops :: "static_memory component_ops" where
  "static_memory_ops =
     \<lparr>issue_request = static_issue_request, full = static_full, is_pending = static_pending,
      drain = static_drain, tick = static_tick\<rparr>"

definition static_wf :: "static_memory \<Rightarrow> bool" where
  "static_wf c \<longleftrightarrow> small_clk (read_latency c) \<and> small_clk (write_latency c)"

definition static_latency :: "static_memory \<Rightarrow> base_request_type \<Rightarrow> clk_t" where
  "static_latency c t = (case t of Base_read \<Rightarrow> read_latency c | Base_write \<Rightarrow> write_latency c)"

lemma static_issue_eq:
  "req_arrive r \<noteq> clk_invalid \<Longrightarrow>
   static_issue_request c r = Inr (c, r, True, True, req_arrive r + static_latency c (req_type r))"
  by (simp add: static_issue_request_def static_latency_def split: base_request_type.split)

lemma static_latency_small: "static_wf c \<Longrightarrow> small_clk (static_latency c t)"
  by (simp add: static_wf_def static_latency_def split: base_request_type.split)

text \<open>It answers every request at once, so it never owes a callback.\<close>

interpretation static: responder static_memory_ops static_wf "\<lambda>n. {#}" block answers for block answers
proof
  fix n :: static_memory and r :: base_request
  assume n: "static_wf n" and r: "small_clk (req_arrive r)"
  have "req_arrive r + static_latency n (req_type r) \<noteq> clk_invalid"
    by (rule add_neq_clk_invalid [OF r static_latency_small [OF n]])
  then show "ensures (issue_request static_memory_ops n r) (\<lambda>(n', r', issued, deterministic, next_clk).
        static_wf n' \<and> (issued \<longrightarrow> deterministic \<longrightarrow> next_clk \<noteq> clk_invalid))"
    and "ensures (issue_request static_memory_ops n r) (\<lambda>(n', r', issued, deterministic, next_clk). issued)"
    using n small_neq_clk_invalid [OF r] by (simp_all add: static_memory_ops_def static_issue_eq)
qed (auto simp: static_memory_ops_def static_full_def static_tick_def static_pending_def static_issue_eq
    small_neq_clk_invalid)

lemma static_responder: "responder static_memory_ops static_wf (\<lambda>n. {#}) block answers"
  by unfold_locales

end
