(* ===== verification/Rmw.thy ===== *)
theory Rmw
  imports Buffer Static_Memory
begin

text \<open>
  The read-modify-write buffer of the NVDIMM, \<open>src/general/rmw.h\<close> and \<open>src/general/rmw.cpp\<close>:
  256-byte entries, a load/store queue in front (\<open>lsq\<close>), a read-out queue behind (\<open>roq\<close>), a
  local constant-latency memory, and a next level that is any component. Each entry runs
  through the table of state transfers of \<open>init_state_trans_table\<close>; a transfer is a function
  of the block address, the entry, the clock and the controller.
\<close>

section \<open>Requests and entries\<close>

datatype rmw_request_type = Write_rmw | Write_comb | Write_patch | Read_cold | Read_ff | Flush_back

datatype rmw_request_state =
    Rmw_init
  | Pending_read
  | Pending_modify
  | Pending_write
  | Pending_readout
  | Pending_ait_r
  | Pending_ait_w
  | Rmw_end

record rmw_request =
  rmw_type :: rmw_request_type
  logic_addr :: addr_t
  rmw_arrive :: clk_t

record rmw_entry = entry_base +
  cl_bitmap :: "4 word"
  callbacks :: "callback list"
  cb_bitmap :: "4 word"
  pending_request :: rmw_request
  state :: rmw_request_state
  pending_request_cl_index :: "32 word list"

definition new_rmw_entry :: "clk_t \<Rightarrow> rmw_request_type \<Rightarrow> addr_t \<Rightarrow> 32 word \<Rightarrow> rmw_entry" where
  "new_rmw_entry curr_clk type addr cacheline_bitmap =
     \<lparr>last_used_clk = curr_clk, next_action_clk = clk_invalid, buffer_index = 0,
      pending = True, waiting_action_clk_update = True, valid_to_read = False, dirty = False,
      cl_bitmap = ucast cacheline_bitmap, callbacks = replicate rmw_block_size_cl Cb_null, cb_bitmap = 0,
      pending_request = \<lparr>rmw_type = type, logic_addr = addr, rmw_arrive = curr_clk\<rparr>,
      state = Rmw_init, pending_request_cl_index = []\<rparr>"

definition rmw_assign_new_request ::
  "clk_t \<Rightarrow> rmw_request_type \<Rightarrow> addr_t \<Rightarrow> 32 word \<Rightarrow> rmw_entry \<Rightarrow> rmw_entry" where
  "rmw_assign_new_request curr_clk type addr cacheline_bitmap e =
     e\<lparr>pending := True, waiting_action_clk_update := True, valid_to_read := False,
       cl_bitmap := ucast cacheline_bitmap, state := Rmw_init,
       pending_request := \<lparr>rmw_type = type, logic_addr = addr, rmw_arrive = curr_clk\<rparr>\<rparr>"

definition rmw_assign_callback :: "32 word \<Rightarrow> callback \<Rightarrow> rmw_entry \<Rightarrow> vans_error + rmw_entry" where
  "rmw_assign_callback cl_index cb e =
     (if unat cl_index < length (callbacks e)
      then let q = pending_request_cl_index e @ [cl_index] in
           if rmw_block_size_cl < length q
           then Inl (Runtime_error ''Internal error: the `pending_request_cl_index` queue overflows'')
           else Inr (e\<lparr>callbacks := (callbacks e)[unat cl_index := cb],
                       pending_request_cl_index := q\<rparr>)
      else Inl Out_of_range)"

definition rmw_reset_callback :: "rmw_entry \<Rightarrow> vans_error + rmw_entry" where
  "rmw_reset_callback e =
     (if pending_request_cl_index e \<noteq> []
      then Inl (Runtime_error ''Internal error: reset rmw entry while there are requests waiting to be served'')
      else Inr (e\<lparr>cb_bitmap := 0, callbacks := map (\<lambda>_. Cb_null) (callbacks e)\<rparr>))"

section \<open>The controller\<close>

record rmw_timing =
  readout_latency :: clk_t
  modify_latency :: clk_t
  ait_to_rmw_latency :: clk_t
  rmw_to_ait_latency :: clk_t
  wpq_ff_latency :: clk_t

record 'n rmw_controller = "'n memory_controller" +
  rmw_buffer :: "rmw_entry internal_buffer"
  timing :: rmw_timing
  rmw_lsq :: base_request_queue
  rmw_roq :: base_request_queue
  rmw_start_addr :: addr_t
  rmw_evicting :: bool
  rmw_cnt_events :: counter
  rmw_cnt_duration :: counter
  rmw_local_memory :: static_memory

definition rmw_event_names :: "string list" where
  "rmw_event_names =
     [''read_access'', ''write_access'', ''eviction'', ''write_rmw'', ''write_comb'', ''write_patch'',
      ''flush_back'', ''read_patch'', ''read_fast_forward'', ''read_cold'', ''patch_rmw'',
      ''patch_rmw_comb'', ''next_level_full'', ''roq_full'', ''next_level_issue_fail'',
      ''local_memory_issue_fail'']"

definition rmw_duration_names :: "string list" where
  "rmw_duration_names =
     [''w_rmw_par'', ''w_rmw_pr'', ''w_rmw_paw'', ''w_rmw_pm'', ''w_rmw_pw'', ''w_comb_paw'',
      ''w_comb_pm'', ''w_comb_pw'', ''w_patch_paw'', ''w_patch_pm'', ''w_patch_pw'', ''w_flush_paw'',
      ''w_flush_pw'', ''r_cold_par'', ''r_cold_pr'', ''r_cold_pro'', ''r_ff_pro'']"

text \<open>The constructor, over the values it reads from the configuration.\<close>

definition new_rmw_controller ::
  "component_mapping_f \<Rightarrow> nat \<Rightarrow> nat \<Rightarrow> nat \<Rightarrow> clk_t \<Rightarrow> clk_t \<Rightarrow> static_memory \<Rightarrow> 'n rmw_controller" where
  "new_rmw_controller f buffer_entries lsq_entries roq_entries ait_to_rmw rmw_to_ait memory =
     \<lparr>mapping_func = f, next_level_components = [], is_draining = False,
      rmw_buffer = new_internal_buffer buffer_entries,
      timing = \<lparr>readout_latency = 0, modify_latency = 0, ait_to_rmw_latency = ait_to_rmw,
        rmw_to_ait_latency = rmw_to_ait, wpq_ff_latency = 0\<rparr>,
      rmw_lsq = new_request_queue lsq_entries, rmw_roq = new_request_queue roq_entries,
      rmw_start_addr = 0, rmw_evicting = False,
      rmw_cnt_events = new_counter ''rmw'' ''events'' rmw_event_names,
      rmw_cnt_duration = new_counter ''rmw'' ''state_duration'' rmw_duration_names,
      rmw_local_memory = memory\<rparr>"

definition rmw_event :: "string \<Rightarrow> 'n rmw_controller \<Rightarrow> vans_error + 'n rmw_controller" where
  "rmw_event name c =
     ebind (counter_add name 1 (rmw_cnt_events c)) (\<lambda>cnt. Inr (c\<lparr>rmw_cnt_events := cnt\<rparr>))"

definition rmw_duration ::
  "string \<Rightarrow> clk_t \<Rightarrow> rmw_entry \<Rightarrow> 'n rmw_controller \<Rightarrow> vans_error + 'n rmw_controller" where
  "rmw_duration name curr_clk entry c =
     ebind (counter_add name (curr_clk - last_used_clk entry) (rmw_cnt_duration c))
       (\<lambda>cnt. Inr (c\<lparr>rmw_cnt_duration := cnt\<rparr>))"

definition rmw_check_and_evict :: "'n rmw_controller \<Rightarrow> vans_error + bool \<times> 'n rmw_controller" where
  "rmw_check_and_evict c =
     (if \<not> buf_full (rmw_buffer c) then Inr (True, c)
      else if rmw_evicting c then Inr (False, c)
      else let (oldest_addr, oldest_clk) =
             lru_scan (\<lambda>e. state e = Rmw_end) (entry_map (rmw_buffer c)) (addr_invalid, clk_invalid) in
        if oldest_addr = addr_invalid then Inr (False, c)
        else ebind (rmw_event ''eviction''
               (c\<lparr>rmw_buffer := buf_erase rmw_translate_to_block_addr oldest_addr (rmw_buffer c)\<rparr>))
             (\<lambda>c. Inr (True, c)))"

definition rmw_issue_request ::
  "'n rmw_controller \<Rightarrow> base_request \<Rightarrow> vans_error + 'n rmw_controller \<times> base_request \<times> base_response" where
  "rmw_issue_request c req =
     ebind (rq_enqueue req (rmw_lsq c)) (\<lambda>(success, q).
       Inr (c\<lparr>rmw_lsq := q\<rparr>, req, success, False, clk_invalid))"

definition rmw_drain_entry :: "rmw_entry \<Rightarrow> rmw_entry" where
  "rmw_drain_entry entry =
     (if dirty entry \<and> state entry = Rmw_end
      then entry\<lparr>pending_request := (pending_request entry)\<lparr>rmw_type := Flush_back\<rparr>, state := Rmw_init\<rparr>
      else entry)"

definition rmw_drain_current :: "'n rmw_controller \<Rightarrow> 'n rmw_controller" where
  "rmw_drain_current c =
     c\<lparr>rmw_buffer := (rmw_buffer c)\<lparr>entry_map :=
        map (\<lambda>(k, e). (k, rmw_drain_entry e)) (entry_map (rmw_buffer c))\<rparr>\<rparr>"

definition rmw_pending_current :: "'n rmw_controller \<Rightarrow> bool" where
  "rmw_pending_current c =
     (rq_pending (rmw_lsq c) \<or> rq_pending (rmw_roq c) \<or> buf_pending (rmw_buffer c))"

definition rmw_full :: "'n rmw_controller \<Rightarrow> vans_error + bool" where
  "rmw_full c = rq_full (rmw_lsq c)"

section \<open>State transfers\<close>

text \<open>The lambdas that the transfers capture.\<close>

definition rmw_issue_read_next_level ::
  "'n component_ops \<Rightarrow> nat \<Rightarrow> rmw_entry \<Rightarrow> clk_t \<Rightarrow> 'n rmw_controller \<Rightarrow> vans_error + 'n rmw_controller \<times> base_response" where
  "rmw_issue_read_next_level ops next entry curr_clk c =
     ebind (next_issue ops next
        (new_base_request Base_read (rmw_translate_to_block_addr (logic_addr (pending_request entry)))
           curr_clk Cb_rmw_next_level_read) c)
       (\<lambda>(c, req, resp). Inr (c, resp))"

definition rmw_issue_write_next_level ::
  "'n component_ops \<Rightarrow> nat \<Rightarrow> rmw_entry \<Rightarrow> clk_t \<Rightarrow> 'n rmw_controller \<Rightarrow> vans_error + 'n rmw_controller \<times> base_response" where
  "rmw_issue_write_next_level ops next entry curr_clk c =
     ebind (next_issue ops next
        (new_base_request Base_write (rmw_translate_to_block_addr (logic_addr (pending_request entry)))
           curr_clk Cb_null) c)
       (\<lambda>(c, req, resp). Inr (c, resp))"

definition rmw_issue_local_memory ::
  "base_request_type \<Rightarrow> rmw_entry \<Rightarrow> clk_t \<Rightarrow> 'n rmw_controller \<Rightarrow> vans_error + 'n rmw_controller \<times> base_response" where
  "rmw_issue_local_memory t entry curr_clk c =
     ebind (static_issue_request (rmw_local_memory c)
        (new_base_request t (logic_addr (pending_request entry)) curr_clk Cb_null))
       (\<lambda>(m, req, resp). Inr (c\<lparr>rmw_local_memory := m\<rparr>, resp))"

definition rmw_issue_write_local_memory ::
  "rmw_entry \<Rightarrow> clk_t \<Rightarrow> 'n rmw_controller \<Rightarrow> vans_error + 'n rmw_controller \<times> base_response" where
  "rmw_issue_write_local_memory = rmw_issue_local_memory Base_write"

definition rmw_issue_read_local_memory ::
  "rmw_entry \<Rightarrow> clk_t \<Rightarrow> 'n rmw_controller \<Rightarrow> vans_error + 'n rmw_controller \<times> base_response" where
  "rmw_issue_read_local_memory = rmw_issue_local_memory Base_read"

text \<open>\<open>front()\<close> of an empty deque and an index outside the callback array are undefined behaviour.\<close>

definition rmw_issue_roq ::
  "rmw_entry \<Rightarrow> 'n rmw_controller \<Rightarrow> vans_error + 'n rmw_controller \<times> rmw_entry" where
  "rmw_issue_roq entry c =
     (case pending_request_cl_index entry of
        [] \<Rightarrow> Inl Undefined_behaviour
      | cl_index # rest \<Rightarrow>
          if cl_index = - 1
          then Inl (Runtime_error ''Internal error: trying to serve read request from an entry which does not contain any read callback function.'')
          else ebind (rq_full (rmw_roq c)) (\<lambda>f.
            if f then Inl (Runtime_error ''Internal error: trying to issue request to a full `roq` in rmw rmw.'')
            else if length (callbacks entry) \<le> unat cl_index then Inl Undefined_behaviour
            else
              let addr = rmw_translate_to_block_addr (logic_addr (pending_request entry)) + ucast cl_index * cpu_cl_size;
                  req = (new_base_request Base_read addr (rmw_arrive (pending_request entry))
                          (callbacks entry ! unat cl_index))\<lparr>req_depart := next_action_clk entry\<rparr>
              in Inr (c\<lparr>rmw_roq := (rmw_roq c)\<lparr>queue := queue (rmw_roq c) @ [req]\<rparr>\<rparr>,
                      entry\<lparr>pending_request_cl_index := rest,
                            cb_bitmap := unset_bit (unat cl_index) (cb_bitmap entry)\<rparr>)))"

type_synonym 'n rmw_trans =
  "'n component_ops \<Rightarrow> addr_t \<Rightarrow> rmw_entry \<Rightarrow> clk_t \<Rightarrow> 'n rmw_controller \<Rightarrow>
   vans_error + 'n rmw_controller \<times> rmw_entry"

definition rmw_write_rmw_init :: "'n rmw_trans" where
  "rmw_write_rmw_init ops block_addr entry curr_clk c =
     ebind (get_next_level block_addr c) (\<lambda>(next_addr, next).
     ebind (rmw_issue_read_next_level ops next entry curr_clk c) (\<lambda>(c, issued, deterministic, next_clk).
       if \<not> issued then ebind (rmw_event ''next_level_issue_fail'' c) (\<lambda>c. Inr (c, entry))
       else ebind (rmw_event ''write_rmw'' c) (\<lambda>c.
         Inr (c, entry\<lparr>pending := True, dirty := True, state := Pending_ait_r, valid_to_read := False,
           last_used_clk := curr_clk, waiting_action_clk_update := \<not> deterministic,
           next_action_clk := (if deterministic then next_clk else clk_invalid)\<rparr>))))"

definition rmw_write_rmw_pending_ait_r :: "'n rmw_trans" where
  "rmw_write_rmw_pending_ait_r ops block_addr entry curr_clk c =
     ebind (rmw_duration ''w_rmw_par'' curr_clk entry c) (\<lambda>c.
       Inr (c, entry\<lparr>state := Pending_read, last_used_clk := curr_clk,
         next_action_clk := curr_clk + ait_to_rmw_latency (timing c)\<rparr>))"

definition rmw_write_rmw_pending_read :: "'n rmw_trans" where
  "rmw_write_rmw_pending_read ops block_addr entry curr_clk c =
     ebind (rmw_issue_write_local_memory entry curr_clk c) (\<lambda>(c, issued, deterministic, next_clk).
       if \<not> issued then ebind (rmw_event ''local_memory_issue_fail'' c) (\<lambda>c. Inr (c, entry))
       else ebind (rmw_duration ''w_rmw_pr'' curr_clk entry c) (\<lambda>c.
         Inr (c, entry\<lparr>state := Pending_ait_w, last_used_clk := curr_clk,
           waiting_action_clk_update := \<not> deterministic,
           next_action_clk := (if deterministic then next_clk else clk_invalid)\<rparr>)))"

definition rmw_write_rmw_pending_ait_w :: "'n rmw_trans" where
  "rmw_write_rmw_pending_ait_w ops block_addr entry curr_clk c =
     ebind (rmw_duration ''w_rmw_paw'' curr_clk entry c) (\<lambda>c.
       Inr (c, entry\<lparr>state := Pending_modify, last_used_clk := curr_clk,
         next_action_clk := curr_clk + rmw_to_ait_latency (timing c)\<rparr>))"

definition rmw_write_rmw_pending_modify :: "'n rmw_trans" where
  "rmw_write_rmw_pending_modify ops block_addr entry curr_clk c =
     ebind (get_next_level block_addr c) (\<lambda>(next_addr, next).
     ebind (rmw_issue_write_next_level ops next entry curr_clk c) (\<lambda>(c, issued, deterministic, next_clk).
       if \<not> issued then ebind (rmw_event ''next_level_issue_fail'' c) (\<lambda>c. Inr (c, entry))
       else ebind (rmw_duration ''w_rmw_pm'' curr_clk entry c) (\<lambda>c.
         Inr (c, entry\<lparr>state := Pending_write, last_used_clk := curr_clk, pending := True,
           valid_to_read := True, waiting_action_clk_update := False,
           next_action_clk := curr_clk + 1\<rparr>))))"

definition rmw_write_rmw_pending_write :: "'n rmw_trans" where
  "rmw_write_rmw_pending_write ops block_addr entry curr_clk c =
     ebind (rmw_duration ''w_rmw_pw'' curr_clk entry c) (\<lambda>c.
       Inr (c, entry\<lparr>pending := False, dirty := False, state := Rmw_end, last_used_clk := curr_clk\<rparr>))"

definition rmw_write_comb_init :: "'n rmw_trans" where
  "rmw_write_comb_init ops block_addr entry curr_clk c =
     ebind (rmw_issue_write_local_memory entry curr_clk c) (\<lambda>(c, issued, deterministic, next_clk).
       if \<not> issued then ebind (rmw_event ''local_memory_issue_fail'' c) (\<lambda>c. Inr (c, entry))
       else ebind (rmw_event ''write_comb'' c) (\<lambda>c.
         Inr (c, entry\<lparr>state := Pending_ait_w, pending := True, dirty := True, valid_to_read := False,
           last_used_clk := curr_clk, waiting_action_clk_update := \<not> deterministic,
           next_action_clk := (if deterministic then next_clk else clk_invalid)\<rparr>)))"

definition rmw_write_comb_pending_ait_w :: "'n rmw_trans" where
  "rmw_write_comb_pending_ait_w ops block_addr entry curr_clk c =
     ebind (rmw_duration ''w_comb_paw'' curr_clk entry c) (\<lambda>c.
       Inr (c, entry\<lparr>state := Pending_modify, last_used_clk := curr_clk,
         next_action_clk := curr_clk + rmw_to_ait_latency (timing c)\<rparr>))"

definition rmw_write_comb_pending_modify :: "'n rmw_trans" where
  "rmw_write_comb_pending_modify ops block_addr entry curr_clk c =
     ebind (get_next_level block_addr c) (\<lambda>(next_addr, next).
     ebind (rmw_issue_write_next_level ops next entry curr_clk c) (\<lambda>(c, issued, deterministic, next_clk).
       if \<not> issued then ebind (rmw_event ''next_level_issue_fail'' c) (\<lambda>c. Inr (c, entry))
       else ebind (rmw_duration ''w_comb_pm'' curr_clk entry c) (\<lambda>c.
         Inr (c, entry\<lparr>state := Pending_write, last_used_clk := curr_clk, pending := True,
           valid_to_read := True, waiting_action_clk_update := False,
           next_action_clk := curr_clk + 1\<rparr>))))"

definition rmw_write_comb_pending_write :: "'n rmw_trans" where
  "rmw_write_comb_pending_write ops block_addr entry curr_clk c =
     ebind (rmw_duration ''w_comb_pw'' curr_clk entry c) (\<lambda>c.
       Inr (c, entry\<lparr>state := Rmw_end, pending := False, dirty := False, last_used_clk := curr_clk\<rparr>))"

definition rmw_write_patch_init :: "'n rmw_trans" where
  "rmw_write_patch_init ops block_addr entry curr_clk c =
     ebind (rmw_issue_write_local_memory entry curr_clk c) (\<lambda>(c, issued, deterministic, next_clk).
       if \<not> issued then ebind (rmw_event ''local_memory_issue_fail'' c) (\<lambda>c. Inr (c, entry))
       else ebind (rmw_event ''write_patch'' c) (\<lambda>c.
         Inr (c, entry\<lparr>state := Pending_ait_w, pending := True, dirty := True, valid_to_read := False,
           last_used_clk := curr_clk, waiting_action_clk_update := \<not> deterministic,
           next_action_clk := (if deterministic then next_clk else clk_invalid)\<rparr>)))"

definition rmw_write_patch_pending_ait_w :: "'n rmw_trans" where
  "rmw_write_patch_pending_ait_w ops block_addr entry curr_clk c =
     ebind (rmw_duration ''w_patch_paw'' curr_clk entry c) (\<lambda>c.
       Inr (c, entry\<lparr>state := Pending_modify, last_used_clk := curr_clk,
         next_action_clk := curr_clk + rmw_to_ait_latency (timing c)\<rparr>))"

definition rmw_write_patch_pending_modify :: "'n rmw_trans" where
  "rmw_write_patch_pending_modify ops block_addr entry curr_clk c =
     ebind (get_next_level block_addr c) (\<lambda>(next_addr, next).
     ebind (rmw_issue_write_next_level ops next entry curr_clk c) (\<lambda>(c, issued, deterministic, next_clk).
       if \<not> issued then ebind (rmw_event ''next_level_issue_fail'' c) (\<lambda>c. Inr (c, entry))
       else ebind (rmw_duration ''w_patch_pm'' curr_clk entry c) (\<lambda>c.
         Inr (c, entry\<lparr>state := Pending_write, last_used_clk := curr_clk, pending := True,
           valid_to_read := True, waiting_action_clk_update := False,
           next_action_clk := curr_clk + 1\<rparr>))))"

definition rmw_write_patch_pending_write :: "'n rmw_trans" where
  "rmw_write_patch_pending_write ops block_addr entry curr_clk c =
     ebind (rmw_duration ''w_patch_pw'' curr_clk entry c) (\<lambda>c.
       Inr (c, entry\<lparr>state := Rmw_end, pending := False, dirty := False, last_used_clk := curr_clk\<rparr>))"

definition rmw_flush_back_init :: "'n rmw_trans" where
  "rmw_flush_back_init ops block_addr entry curr_clk c =
     ebind (get_next_level block_addr c) (\<lambda>(next_addr, next).
     ebind (rmw_issue_write_next_level ops next entry curr_clk c) (\<lambda>(c, issued, deterministic, next_clk).
       if \<not> issued then ebind (rmw_event ''next_level_issue_fail'' c) (\<lambda>c. Inr (c, entry))
       else ebind (rmw_event ''flush_back'' c) (\<lambda>c.
         Inr (c, entry\<lparr>state := Pending_ait_w, last_used_clk := curr_clk, pending := True, dirty := True,
           waiting_action_clk_update := False, next_action_clk := curr_clk + 1\<rparr>))))"

definition rmw_flush_back_pending_ait_w :: "'n rmw_trans" where
  "rmw_flush_back_pending_ait_w ops block_addr entry curr_clk c =
     ebind (rmw_duration ''w_flush_paw'' curr_clk entry c) (\<lambda>c.
       Inr (c, entry\<lparr>state := Pending_write, last_used_clk := curr_clk,
         next_action_clk := curr_clk + rmw_to_ait_latency (timing c)\<rparr>))"

definition rmw_flush_back_pending_write :: "'n rmw_trans" where
  "rmw_flush_back_pending_write ops block_addr entry curr_clk c =
     ebind (rmw_duration ''w_flush_pw'' curr_clk entry c) (\<lambda>c.
     ebind (rmw_event ''eviction'' (c\<lparr>rmw_evicting := False\<rparr>)) (\<lambda>c.
       Inr (c, entry\<lparr>state := Rmw_end, pending := False, dirty := False,
         waiting_action_clk_update := False, last_used_clk := curr_clk\<rparr>)))"

definition rmw_read_cold_init :: "'n rmw_trans" where
  "rmw_read_cold_init ops block_addr entry curr_clk c =
     ebind (get_next_level block_addr c) (\<lambda>(next_addr, next).
     ebind (rmw_issue_read_next_level ops next entry curr_clk c) (\<lambda>(c, issued, deterministic, next_clk).
       if \<not> issued then ebind (rmw_event ''next_level_issue_fail'' c) (\<lambda>c. Inr (c, entry))
       else ebind (rmw_event ''read_cold'' c) (\<lambda>c.
         Inr (c, entry\<lparr>state := Pending_ait_r, pending := True, dirty := False, valid_to_read := False,
           last_used_clk := curr_clk, waiting_action_clk_update := \<not> deterministic,
           next_action_clk := (if deterministic then next_clk else clk_invalid)\<rparr>))))"

definition rmw_read_cold_pending_ait_r :: "'n rmw_trans" where
  "rmw_read_cold_pending_ait_r ops block_addr entry curr_clk c =
     ebind (rmw_duration ''r_cold_par'' curr_clk entry c) (\<lambda>c.
       Inr (c, entry\<lparr>state := Pending_read, last_used_clk := curr_clk,
         next_action_clk := curr_clk + ait_to_rmw_latency (timing c)\<rparr>))"

definition rmw_read_cold_pending_read :: "'n rmw_trans" where
  "rmw_read_cold_pending_read ops block_addr entry curr_clk c =
     ebind (rmw_issue_read_local_memory entry curr_clk c) (\<lambda>(c, issued, deterministic, next_clk).
       if \<not> issued then ebind (rmw_event ''local_memory_issue_fail'' c) (\<lambda>c. Inr (c, entry))
       else ebind (rmw_duration ''r_cold_pr'' curr_clk entry c) (\<lambda>c.
         Inr (c, entry\<lparr>state := Pending_readout, valid_to_read := True, last_used_clk := curr_clk,
           waiting_action_clk_update := \<not> deterministic,
           next_action_clk := (if deterministic then next_clk else clk_invalid)\<rparr>)))"

definition rmw_read_cold_pending_readout :: "'n rmw_trans" where
  "rmw_read_cold_pending_readout ops block_addr entry curr_clk c =
     ebind (rq_full (rmw_roq c)) (\<lambda>f.
       if f then ebind (rmw_event ''roq_full'' c) (\<lambda>c. Inr (c, entry))
       else ebind (rmw_issue_roq entry c) (\<lambda>(c, entry).
            ebind (rmw_duration ''r_cold_pro'' curr_clk entry c) (\<lambda>c.
              let entry = entry\<lparr>last_used_clk := curr_clk\<rparr> in
              if pending_request_cl_index entry \<noteq> []
              then Inr (c, entry\<lparr>state := Pending_read\<rparr>)
              else Inr (c, entry\<lparr>state := Rmw_end, pending := False\<rparr>))))"

definition rmw_read_ff_init :: "'n rmw_trans" where
  "rmw_read_ff_init ops block_addr entry curr_clk c =
     ebind (rmw_issue_read_local_memory entry curr_clk c) (\<lambda>(c, issued, deterministic, next_clk).
       if \<not> issued then ebind (rmw_event ''local_memory_issue_fail'' c) (\<lambda>c. Inr (c, entry))
       else ebind (rmw_event ''read_fast_forward'' c) (\<lambda>c.
         Inr (c, entry\<lparr>state := Pending_readout, pending := True, dirty := False, valid_to_read := True,
           last_used_clk := curr_clk, waiting_action_clk_update := \<not> deterministic,
           next_action_clk := (if deterministic then next_clk else clk_invalid)\<rparr>)))"

definition rmw_read_ff_pending_readout :: "'n rmw_trans" where
  "rmw_read_ff_pending_readout ops block_addr entry curr_clk c =
     ebind (rq_full (rmw_roq c)) (\<lambda>f.
       if f then ebind (rmw_event ''roq_full'' c) (\<lambda>c. Inr (c, entry))
       else ebind (rmw_issue_roq entry c) (\<lambda>(c, entry).
            ebind (rmw_duration ''r_ff_pro'' curr_clk entry c) (\<lambda>c.
              let entry = entry\<lparr>last_used_clk := curr_clk\<rparr> in
              if pending_request_cl_index entry \<noteq> []
              then Inr (c, entry\<lparr>state := Rmw_init\<rparr>)
              else Inr (c, entry\<lparr>state := Rmw_end, pending := False\<rparr>))))"

text \<open>The table: \<open>None\<close> is the default-constructed, empty \<open>std::function\<close>.\<close>

fun rmw_state_trans :: "rmw_request_type \<Rightarrow> rmw_request_state \<Rightarrow> 'n rmw_trans option" where
  "rmw_state_trans Write_rmw Rmw_init = Some rmw_write_rmw_init"
| "rmw_state_trans Write_rmw Pending_ait_r = Some rmw_write_rmw_pending_ait_r"
| "rmw_state_trans Write_rmw Pending_read = Some rmw_write_rmw_pending_read"
| "rmw_state_trans Write_rmw Pending_ait_w = Some rmw_write_rmw_pending_ait_w"
| "rmw_state_trans Write_rmw Pending_modify = Some rmw_write_rmw_pending_modify"
| "rmw_state_trans Write_rmw Pending_write = Some rmw_write_rmw_pending_write"
| "rmw_state_trans Write_comb Rmw_init = Some rmw_write_comb_init"
| "rmw_state_trans Write_comb Pending_ait_w = Some rmw_write_comb_pending_ait_w"
| "rmw_state_trans Write_comb Pending_modify = Some rmw_write_comb_pending_modify"
| "rmw_state_trans Write_comb Pending_write = Some rmw_write_comb_pending_write"
| "rmw_state_trans Write_patch Rmw_init = Some rmw_write_patch_init"
| "rmw_state_trans Write_patch Pending_ait_w = Some rmw_write_patch_pending_ait_w"
| "rmw_state_trans Write_patch Pending_modify = Some rmw_write_patch_pending_modify"
| "rmw_state_trans Write_patch Pending_write = Some rmw_write_patch_pending_write"
| "rmw_state_trans Flush_back Rmw_init = Some rmw_flush_back_init"
| "rmw_state_trans Flush_back Pending_ait_w = Some rmw_flush_back_pending_ait_w"
| "rmw_state_trans Flush_back Pending_write = Some rmw_flush_back_pending_write"
| "rmw_state_trans Read_cold Rmw_init = Some rmw_read_cold_init"
| "rmw_state_trans Read_cold Pending_ait_r = Some rmw_read_cold_pending_ait_r"
| "rmw_state_trans Read_cold Pending_read = Some rmw_read_cold_pending_read"
| "rmw_state_trans Read_cold Pending_readout = Some rmw_read_cold_pending_readout"
| "rmw_state_trans Read_ff Rmw_init = Some rmw_read_ff_init"
| "rmw_state_trans Read_ff Pending_readout = Some rmw_read_ff_pending_readout"
| "rmw_state_trans _ _ = None"

section \<open>Ticks\<close>

definition rmw_tick_roq :: "clk_t \<Rightarrow> 'n rmw_controller \<Rightarrow> 'n rmw_controller \<times> call list" where
  "rmw_tick_roq curr_clk c =
     (case queue (rmw_roq c) of
        [] \<Rightarrow> (c, [])
      | front_req # rest \<Rightarrow>
          if req_depart front_req \<le> curr_clk
          then (c\<lparr>rmw_roq := (rmw_roq c)\<lparr>queue := rest\<rparr>\<rparr>,
                invoke_callback (req_callback front_req) (req_addr front_req + rmw_start_addr c) curr_clk)
          else (c, []))"

text \<open>The end of \<open>tick_lsq_read\<close>: a served request is bound to its entry and leaves the queue.\<close>

definition rmw_serve_read ::
  "bool \<Rightarrow> addr_t \<Rightarrow> 32 word \<Rightarrow> base_request \<Rightarrow> base_request list \<Rightarrow> 'n rmw_controller \<Rightarrow> vans_error + 'n rmw_controller" where
  "rmw_serve_read req_patch key cl_index front_req rest c =
     (case map_of (entry_map (rmw_buffer c)) key of
        None \<Rightarrow> Inl Undefined_behaviour
      | Some entry \<Rightarrow>
          ebind (if req_patch then Inr entry else rmw_reset_callback entry) (\<lambda>entry.
          ebind (rmw_assign_callback cl_index (req_callback front_req) entry) (\<lambda>entry.
            rmw_event ''read_access''
              (c\<lparr>rmw_buffer := buf_set key entry (rmw_buffer c),
                 rmw_lsq := (rmw_lsq c)\<lparr>queue := rest\<rparr>\<rparr>))))"

definition rmw_tick_lsq_read :: "clk_t \<Rightarrow> 'n rmw_controller \<Rightarrow> vans_error + 'n rmw_controller" where
  "rmw_tick_lsq_read curr_clk c =
     (case queue (rmw_lsq c) of
        [] \<Rightarrow> Inl Undefined_behaviour
      | front_req # rest \<Rightarrow>
          let addr = req_addr front_req;
              key = rmw_translate_to_block_addr addr;
              cl_index = ucast (rmw_block_offset_cl addr) :: 32 word in
          ebind (shl_1U (rmw_block_offset_cl addr)) (\<lambda>cl_bitmap.
          case buf_find rmw_translate_to_block_addr addr (rmw_buffer c) of
            None \<Rightarrow>
              ebind (rmw_check_and_evict c) (\<lambda>(room, c).
                if room
                then ebind (buf_insert rmw_translate_to_block_addr addr
                              (new_rmw_entry curr_clk Read_cold addr cl_bitmap) (rmw_buffer c))
                       (\<lambda>b. rmw_serve_read False key cl_index front_req rest (c\<lparr>rmw_buffer := b\<rparr>))
                else Inr c)
          | Some entry \<Rightarrow>
              if pending entry \<and> rmw_type (pending_request entry) \<in> {Read_cold, Read_ff}
              then
                if pending_request_cl_index entry = []
                then Inl (Runtime_error ''Internal error, the read request to patch does not have any pending read request, maybe a code bug.'')
                else if length (pending_request_cl_index entry) < rmw_block_size_cl \<and>
                        \<not> bit (cb_bitmap entry) (unat cl_index)
                then ebind (rmw_event ''read_patch'' c) (\<lambda>c.
                       rmw_serve_read True key cl_index front_req rest c)
                else Inr c
              else
                if valid_to_read entry
                then rmw_serve_read False key cl_index front_req rest
                       (c\<lparr>rmw_buffer := buf_set key (rmw_assign_new_request curr_clk Read_ff addr cl_bitmap entry)
                                           (rmw_buffer c)\<rparr>)
                else Inr c))"

text \<open>
  The write-combining loop: every write to the block that precedes the first read of the block
  is taken out of the queue and sets its bit; requests to other blocks stay where they are.
\<close>

fun rmw_combine :: "addr_t \<Rightarrow> base_request list \<Rightarrow> 4 word \<Rightarrow> base_request list \<times> 4 word" where
  "rmw_combine curr_block_addr [] cl_hit = ([], cl_hit)"
| "rmw_combine curr_block_addr (req # reqs) cl_hit =
     (if curr_block_addr \<noteq> rmw_translate_to_block_addr (req_addr req)
      then (let (q, h) = rmw_combine curr_block_addr reqs cl_hit in (req # q, h))
      else case req_type req of
          Base_read \<Rightarrow> (req # reqs, cl_hit)
        | Base_write \<Rightarrow> rmw_combine curr_block_addr reqs
                         (set_bit (unat (rmw_block_offset_cl (req_addr req))) cl_hit))"

definition rmw_tick_lsq_write :: "clk_t \<Rightarrow> 'n rmw_controller \<Rightarrow> vans_error + 'n rmw_controller" where
  "rmw_tick_lsq_write curr_clk c =
     (case queue (rmw_lsq c) of
        [] \<Rightarrow> Inl Undefined_behaviour
      | front_req # rest \<Rightarrow>
          let curr_logic_addr = req_addr front_req;
              curr_block_addr = rmw_translate_to_block_addr curr_logic_addr;
              found = buf_find rmw_translate_to_block_addr curr_block_addr (rmw_buffer c);
              patch_rmw = (case found of None \<Rightarrow> False | Some entry \<Rightarrow>
                 rmw_type (pending_request entry) = Write_rmw \<and>
                 (state entry = Pending_read \<or> state entry = Pending_modify)) in
          ebind (case found of
                   None \<Rightarrow> rmw_check_and_evict c
                 | Some entry \<Rightarrow> Inr (\<not> (\<not> patch_rmw \<and> pending entry), c)) (\<lambda>(go_on, c).
          if \<not> go_on then Inr c
          else
            let (q, hit) = rmw_combine curr_block_addr (queue (rmw_lsq c)) 0;
                cl_hit = (case found of None \<Rightarrow> hit | Some entry \<Rightarrow>
                            if patch_rmw then hit OR cl_bitmap entry else hit);
                type = (if cl_hit = rmw_block_hit_cl_bitmask then Write_comb else Write_rmw);
                c = c\<lparr>rmw_lsq := (rmw_lsq c)\<lparr>queue := q\<rparr>\<rparr> in
            ebind (case found of
                None \<Rightarrow>
                  ebind (buf_insert rmw_translate_to_block_addr curr_block_addr
                           (new_rmw_entry curr_clk type curr_logic_addr (ucast cl_hit)) (rmw_buffer c))
                    (\<lambda>b. Inr (c\<lparr>rmw_buffer := b\<rparr>))
              | Some entry \<Rightarrow>
                  if patch_rmw then
                    (if type = Write_comb
                     then rmw_event ''patch_rmw_comb''
                            (c\<lparr>rmw_buffer := buf_set curr_block_addr
                                 (rmw_assign_new_request curr_clk type curr_logic_addr (ucast cl_hit) entry)
                                 (rmw_buffer c)\<rparr>)
                     else rmw_event ''patch_rmw''
                            (c\<lparr>rmw_buffer := buf_set curr_block_addr (entry\<lparr>cl_bitmap := cl_hit\<rparr>)
                                 (rmw_buffer c)\<rparr>))
                  else Inr (c\<lparr>rmw_buffer := buf_set curr_block_addr
                                 (rmw_assign_new_request curr_clk Write_patch curr_logic_addr (ucast cl_hit) entry)
                                 (rmw_buffer c)\<rparr>))
              (\<lambda>c. rmw_event ''write_access'' c)))"

definition rmw_tick_lsq :: "clk_t \<Rightarrow> 'n rmw_controller \<Rightarrow> vans_error + 'n rmw_controller" where
  "rmw_tick_lsq curr_clk c =
     (case queue (rmw_lsq c) of
        [] \<Rightarrow> Inr c
      | front_req # rest \<Rightarrow>
          (case req_type front_req of
             Base_read \<Rightarrow> rmw_tick_lsq_read curr_clk c
           | Base_write \<Rightarrow> rmw_tick_lsq_write curr_clk c))"

text \<open>One iteration of \<open>tick_internal_buffer\<close>, then the loop over the entries in iteration order.\<close>

definition rmw_state_transfer ::
  "'n component_ops \<Rightarrow> clk_t \<Rightarrow> addr_t \<Rightarrow> rmw_entry \<Rightarrow> 'n rmw_controller \<Rightarrow> vans_error + 'n rmw_controller" where
  "rmw_state_transfer ops curr_clk curr_block_addr entry c =
     (case rmw_state_trans (rmw_type (pending_request entry)) (state entry) of
        None \<Rightarrow> Inl (Runtime_error ''Internal error, unknown state transfer.'')
      | Some func \<Rightarrow>
          ebind (func ops curr_block_addr entry curr_clk c) (\<lambda>(c, entry).
            Inr (c\<lparr>rmw_buffer := buf_set curr_block_addr entry (rmw_buffer c)\<rparr>)))"

definition rmw_tick_entry ::
  "'n component_ops \<Rightarrow> clk_t \<Rightarrow> addr_t \<Rightarrow> 'n rmw_controller \<Rightarrow> vans_error + 'n rmw_controller" where
  "rmw_tick_entry ops curr_clk curr_block_addr c =
     (case map_of (entry_map (rmw_buffer c)) curr_block_addr of
        None \<Rightarrow> Inl Undefined_behaviour
      | Some entry \<Rightarrow>
          if state entry = Rmw_init then rmw_state_transfer ops curr_clk curr_block_addr entry c
          else if \<not> pending entry then Inr c
          else if waiting_action_clk_update entry then Inr c
          else if next_action_clk entry = clk_invalid
          then Inl (Runtime_error ''Internal error, the next_action_clk is invalid'')
          else if curr_clk < next_action_clk entry then Inr c
          else rmw_state_transfer ops curr_clk curr_block_addr entry c)"

fun rmw_tick_entries ::
  "'n component_ops \<Rightarrow> clk_t \<Rightarrow> addr_t list \<Rightarrow> 'n rmw_controller \<Rightarrow> vans_error + 'n rmw_controller" where
  "rmw_tick_entries ops curr_clk [] c = Inr c"
| "rmw_tick_entries ops curr_clk (k # ks) c =
     ebind (rmw_tick_entry ops curr_clk k c) (rmw_tick_entries ops curr_clk ks)"

definition rmw_tick_internal_buffer ::
  "'n component_ops \<Rightarrow> clk_t \<Rightarrow> 'n rmw_controller \<Rightarrow> vans_error + 'n rmw_controller" where
  "rmw_tick_internal_buffer ops curr_clk c =
     rmw_tick_entries ops curr_clk (map fst (entry_map (rmw_buffer c))) c"

definition rmw_tick_ctrl ::
  "'n component_ops \<Rightarrow> clk_t \<Rightarrow> 'n rmw_controller \<Rightarrow> vans_error + 'n rmw_controller \<times> call list" where
  "rmw_tick_ctrl ops curr_clk c =
     (let (c, calls) = rmw_tick_roq curr_clk c in
      ebind (rmw_tick_lsq curr_clk c) (\<lambda>c.
      ebind (rmw_tick_internal_buffer ops curr_clk c) (\<lambda>c.
        Inr (c, calls))))"

text \<open>\<open>entry_map.at\<close> throws when the entry is gone.\<close>

definition rmw_next_level_read_callback ::
  "addr_t \<Rightarrow> clk_t \<Rightarrow> 'n rmw_controller \<Rightarrow> vans_error + 'n rmw_controller" where
  "rmw_next_level_read_callback addr curr_clk c =
     (let rmw_addr = rmw_translate_to_block_addr addr in
      case map_of (entry_map (rmw_buffer c)) rmw_addr of
        None \<Rightarrow> Inl Out_of_range
      | Some entry \<Rightarrow>
          Inr (c\<lparr>rmw_buffer := buf_set rmw_addr
                  (entry\<lparr>waiting_action_clk_update := False, next_action_clk := curr_clk + 1\<rparr>)
                  (rmw_buffer c)\<rparr>))"

section \<open>The component\<close>

text \<open>
  The callbacks that the next level invokes: the controller's own one runs on its buffer, the
  others belong to the client and are passed on.
\<close>

fun rmw_run_calls :: "call list \<Rightarrow> 'n rmw_controller \<Rightarrow> vans_error + 'n rmw_controller \<times> call list" where
  "rmw_run_calls [] c = Inr (c, [])"
| "rmw_run_calls ((cb, addr, clk) # cs) c =
     (if cb = Cb_rmw_next_level_read
      then ebind (rmw_next_level_read_callback addr clk c) (rmw_run_calls cs)
      else ebind (rmw_run_calls cs c) (\<lambda>(c, out). Inr (c, (cb, addr, clk) # out)))"

text \<open>\<open>component::tick\<close>: the controller, the local memory (which does nothing), then the next level.\<close>

definition rmw_tick ::
  "'n component_ops \<Rightarrow> clk_t \<Rightarrow> 'n rmw_controller \<Rightarrow> vans_error + 'n rmw_controller \<times> call list" where
  "rmw_tick ops curr_clk c =
     ebind (rmw_tick_ctrl ops curr_clk c) (\<lambda>(c, calls).
     ebind (static_tick curr_clk (rmw_local_memory c)) (\<lambda>(m, mcalls).
     ebind (tick_list ops curr_clk (next_level_components c)) (\<lambda>(ns, ncalls).
     ebind (rmw_run_calls ncalls (c\<lparr>rmw_local_memory := m, next_level_components := ns\<rparr>)) (\<lambda>(c, out).
       Inr (c, calls @ mcalls @ out)))))"

definition rmw_ops :: "'n component_ops \<Rightarrow> 'n rmw_controller component_ops" where
  "rmw_ops ops =
     \<lparr>issue_request = rmw_issue_request, full = rmw_full,
      is_pending = mc_pending ops (\<lambda>c. Inr (rmw_pending_current c)),
      drain = mc_drain ops (\<lambda>c. Inr (rmw_drain_current c)),
      tick = rmw_tick ops\<rparr>"

end
