(* ===== verification/Rmw_Inv.thy ===== *)
theory Rmw_Inv
  imports Rmw
begin

text \<open>
  The invariant of the RMW controller, over any next level that satisfies the \<open>next_level\<close>
  contract: every operation returns (no \<open>throw\<close> of \<open>rmw.cpp\<close> or of the queues, buffers and
  counters it uses is reachable) and keeps the invariant.
\<close>

section \<open>Well-formed entries\<close>

text \<open>The states that a request of each type goes through. \<open>Flush_back\<close> requests never occur.\<close>

fun rmw_legal :: "rmw_request_type \<Rightarrow> rmw_request_state \<Rightarrow> bool" where
  "rmw_legal Write_rmw s = (s \<noteq> Pending_readout)"
| "rmw_legal Write_comb s = (s \<in> {Rmw_init, Pending_ait_w, Pending_modify, Pending_write, Rmw_end})"
| "rmw_legal Write_patch s = (s \<in> {Rmw_init, Pending_ait_w, Pending_modify, Pending_write, Rmw_end})"
| "rmw_legal Read_cold s = (s \<in> {Rmw_init, Pending_ait_r, Pending_read, Pending_readout, Rmw_end})"
| "rmw_legal Read_ff s = (s \<in> {Rmw_init, Pending_readout, Rmw_end})"
| "rmw_legal Flush_back s = False"

definition rmw_is_read :: "rmw_request_type \<Rightarrow> bool" where
  "rmw_is_read t \<longleftrightarrow> t = Read_cold \<or> t = Read_ff"

definition rmw_entry_ok :: "addr_t \<Rightarrow> rmw_entry \<Rightarrow> bool" where
  "rmw_entry_ok k e \<longleftrightarrow>
     rmw_legal (rmw_type (pending_request e)) (state e) \<and>
     (pending e \<longleftrightarrow> state e \<noteq> Rmw_end) \<and>
     (state e = Rmw_end \<longrightarrow> \<not> dirty e) \<and>
     (rmw_is_read (rmw_type (pending_request e)) \<and> state e \<noteq> Rmw_init \<longrightarrow> \<not> dirty e) \<and>
     (waiting_action_clk_update e \<longrightarrow> state e = Rmw_init \<or> state e = Pending_ait_r) \<and>
     (state e = Pending_ait_r \<longrightarrow> \<not> valid_to_read e) \<and>
     (\<not> waiting_action_clk_update e \<and> state e \<noteq> Rmw_init \<and> state e \<noteq> Rmw_end \<longrightarrow>
        next_action_clk e \<noteq> clk_invalid) \<and>
     (pending_request_cl_index e \<noteq> [] \<longleftrightarrow> pending e \<and> rmw_is_read (rmw_type (pending_request e))) \<and>
     length (pending_request_cl_index e) \<le> rmw_block_size_cl \<and>
     (\<forall>i \<in> set (pending_request_cl_index e). unat i < rmw_block_size_cl) \<and>
     length (callbacks e) = rmw_block_size_cl \<and> cb_bitmap e = 0 \<and>
     rmw_translate_to_block_addr (logic_addr (pending_request e)) = k"

text \<open>
  How far an entry is from its end: the reads still to be answered, then the stage of the
  current one.
\<close>

fun rmw_stage :: "rmw_request_state \<Rightarrow> nat" where
  "rmw_stage Rmw_init = 6"
| "rmw_stage Pending_ait_r = 5"
| "rmw_stage Pending_read = 4"
| "rmw_stage Pending_ait_w = 3"
| "rmw_stage Pending_modify = 2"
| "rmw_stage Pending_readout = 2"
| "rmw_stage Pending_write = 1"
| "rmw_stage Rmw_end = 0"

definition rmw_rank :: "rmw_entry \<Rightarrow> nat" where
  "rmw_rank e = 10 * length (pending_request_cl_index e) + rmw_stage (state e)"

section \<open>The context of an entry\<close>

text \<open>What the invariant says of everything but the buffer and the load/store queue.\<close>

definition rmw_ctx :: "('n \<Rightarrow> bool) \<Rightarrow> 'n rmw_controller \<Rightarrow> bool" where
  "rmw_ctx ninv c \<longleftrightarrow>
     rq_wf (rmw_roq c) \<and>
     declares (rmw_cnt_events c) rmw_event_names \<and>
     declares (rmw_cnt_duration c) rmw_duration_names \<and>
     small_clk (ait_to_rmw_latency (timing c)) \<and>
     small_clk (rmw_to_ait_latency (timing c)) \<and>
     static_wf (rmw_local_memory c) \<and>
     mapping_ok c \<and> (\<forall>n \<in> set (next_level_components c). ninv n) \<and>
     \<not> rmw_evicting c"

text \<open>
  The callback that a waiting entry needs from the next level, and the balance: what the next
  level owes, with the answers \<open>x\<close> that are on their way, is what the entries wait for.
\<close>

definition rmw_waits :: "addr_t \<Rightarrow> rmw_entry \<Rightarrow> (callback \<times> addr_t) multiset" where
  "rmw_waits k e =
     (if state e = Pending_ait_r \<and> waiting_action_clk_update e then {#(Cb_rmw_next_level_read, k)#} else {#})"

definition rmw_inv ::
  "('n \<Rightarrow> bool) \<Rightarrow> ('n \<Rightarrow> (callback \<times> addr_t) multiset) \<Rightarrow> (callback \<times> addr_t) multiset
   \<Rightarrow> 'n rmw_controller \<Rightarrow> bool" where
  "rmw_inv ninv w x c \<longleftrightarrow>
     rmw_ctx ninv c \<and> rq_wf (rmw_lsq c) \<and>
     buf_wf rmw_translate_to_block_addr (rmw_buffer c) \<and>
     (\<forall>(k, e) \<in> set (entry_map (rmw_buffer c)). rmw_entry_ok k e) \<and>
     all_owe w (next_level_components c) + x = collect rmw_waits (entry_map (rmw_buffer c))"

lemma rmw_event_eq [simp]:
  "rmw_ctx ninv c \<Longrightarrow> n \<in> set rmw_event_names \<Longrightarrow>
   rmw_event n c = Inr (c\<lparr>rmw_cnt_events := counter_bump n 1 (rmw_cnt_events c)\<rparr>)"
  by (simp add: rmw_event_def rmw_ctx_def counter_add_eq [of _ rmw_event_names])

lemma rmw_duration_eq [simp]:
  "rmw_ctx ninv c \<Longrightarrow> n \<in> set rmw_duration_names \<Longrightarrow>
   rmw_duration n clk e c =
     Inr (c\<lparr>rmw_cnt_duration := counter_bump n (clk - last_used_clk e) (rmw_cnt_duration c)\<rparr>)"
  by (simp add: rmw_duration_def rmw_ctx_def counter_add_eq [of _ rmw_duration_names])

lemma mapping_ok_ext:
  "mapping_func c' = mapping_func c \<Longrightarrow>
   length (next_level_components c') = length (next_level_components c) \<Longrightarrow>
   mapping_ok c' = mapping_ok c"
  by (simp add: mapping_ok_def)

lemma rmw_ctx_events [simp]:
  "rmw_ctx ninv c \<Longrightarrow> rmw_ctx ninv (c\<lparr>rmw_cnt_events := counter_bump n v (rmw_cnt_events c)\<rparr>)"
  by (simp add: rmw_ctx_def mapping_ok_def)

lemma rmw_ctx_duration [simp]:
  "rmw_ctx ninv c \<Longrightarrow> rmw_ctx ninv (c\<lparr>rmw_cnt_duration := counter_bump n v (rmw_cnt_duration c)\<rparr>)"
  by (simp add: rmw_ctx_def mapping_ok_def)

lemma rmw_ctx_buffer [simp]: "rmw_ctx ninv (c\<lparr>rmw_buffer := b\<rparr>) = rmw_ctx ninv c"
  by (simp add: rmw_ctx_def mapping_ok_def)

lemma rmw_ctx_lsq [simp]: "rmw_ctx ninv (c\<lparr>rmw_lsq := q\<rparr>) = rmw_ctx ninv c"
  by (simp add: rmw_ctx_def mapping_ok_def)

lemma rmw_ctx_roq [simp]: "rmw_ctx ninv c \<Longrightarrow> rq_wf q \<Longrightarrow> rmw_ctx ninv (c\<lparr>rmw_roq := q\<rparr>)"
  by (simp add: rmw_ctx_def mapping_ok_def)

lemma rmw_ctx_next [simp]:
  "rmw_ctx ninv c \<Longrightarrow> length ns = length (next_level_components c) \<Longrightarrow> \<forall>n \<in> set ns. ninv n \<Longrightarrow>
   rmw_ctx ninv (c\<lparr>next_level_components := ns\<rparr>)"
  by (simp add: rmw_ctx_def mapping_ok_def)

lemma rmw_local_memory_same: "c\<lparr>rmw_local_memory := rmw_local_memory c\<rparr> = c"
  by simp

lemma rmw_issue_local_eq [simp]:
  "small_clk clk \<Longrightarrow>
   rmw_issue_local_memory t e clk c =
     Inr (c, True, True, clk + static_latency (rmw_local_memory c) t)"
  by (simp add: rmw_issue_local_memory_def static_issue_eq small_neq_clk_invalid)

lemma rmw_local_clk [simp]:
  "rmw_ctx ninv c \<Longrightarrow> small_clk clk \<Longrightarrow>
   clk + static_latency (rmw_local_memory c) t \<noteq> clk_invalid"
  by (rule add_neq_clk_invalid) (simp_all add: rmw_ctx_def static_latency_small)

lemma rmw_timing_clk [simp]:
  "rmw_ctx ninv c \<Longrightarrow> small_clk clk \<Longrightarrow> clk + ait_to_rmw_latency (timing c) \<noteq> clk_invalid"
  "rmw_ctx ninv c \<Longrightarrow> small_clk clk \<Longrightarrow> clk + rmw_to_ait_latency (timing c) \<noteq> clk_invalid"
  by (rule add_neq_clk_invalid; simp add: rmw_ctx_def)+

lemma rmw_names [simp]:
  "''read_access'' \<in> set rmw_event_names" "''write_access'' \<in> set rmw_event_names"
  "''eviction'' \<in> set rmw_event_names" "''write_rmw'' \<in> set rmw_event_names"
  "''write_comb'' \<in> set rmw_event_names" "''write_patch'' \<in> set rmw_event_names"
  "''flush_back'' \<in> set rmw_event_names" "''read_patch'' \<in> set rmw_event_names"
  "''read_fast_forward'' \<in> set rmw_event_names" "''read_cold'' \<in> set rmw_event_names"
  "''patch_rmw'' \<in> set rmw_event_names" "''patch_rmw_comb'' \<in> set rmw_event_names"
  "''roq_full'' \<in> set rmw_event_names" "''next_level_issue_fail'' \<in> set rmw_event_names"
  "''local_memory_issue_fail'' \<in> set rmw_event_names"
  "''w_rmw_par'' \<in> set rmw_duration_names" "''w_rmw_pr'' \<in> set rmw_duration_names"
  "''w_rmw_paw'' \<in> set rmw_duration_names" "''w_rmw_pm'' \<in> set rmw_duration_names"
  "''w_rmw_pw'' \<in> set rmw_duration_names" "''w_comb_paw'' \<in> set rmw_duration_names"
  "''w_comb_pm'' \<in> set rmw_duration_names" "''w_comb_pw'' \<in> set rmw_duration_names"
  "''w_patch_paw'' \<in> set rmw_duration_names" "''w_patch_pm'' \<in> set rmw_duration_names"
  "''w_patch_pw'' \<in> set rmw_duration_names" "''r_cold_par'' \<in> set rmw_duration_names"
  "''r_cold_pr'' \<in> set rmw_duration_names" "''r_cold_pro'' \<in> set rmw_duration_names"
  "''r_ff_pro'' \<in> set rmw_duration_names"
  by (simp_all add: rmw_event_names_def rmw_duration_names_def)

lemma rmw_waits_simps [simp]:
  "rmw_waits k ((new_rmw_entry clk t a bm)\<lparr>buffer_index := bi\<rparr>) = {#}"
  "rmw_waits k (rmw_assign_new_request clk t a bm e) = {#}"
  "rmw_waits k (e\<lparr>cl_bitmap := h\<rparr>) = rmw_waits k e"
  "state e \<noteq> Pending_ait_r \<Longrightarrow> rmw_waits k e = {#}"
  by (simp_all add: rmw_waits_def new_rmw_entry_def rmw_assign_new_request_def)

section \<open>State transfers keep the invariant\<close>

text \<open>
  The judgement about one transfer: it returns, keeps the context, leaves the buffer and the
  load/store queue alone, and gives a well-formed entry that either is the old one (the
  transfer is retried) or is closer to its end.
\<close>

definition rmw_trans_ok ::
  "('n \<Rightarrow> bool) \<Rightarrow> ('n \<Rightarrow> (callback \<times> addr_t) multiset) \<Rightarrow> addr_t \<Rightarrow> rmw_entry \<Rightarrow>
   'n rmw_controller \<Rightarrow> (vans_error + 'n rmw_controller \<times> rmw_entry) \<Rightarrow> bool" where
  "rmw_trans_ok ninv w k e c m \<longleftrightarrow> ensures m (\<lambda>(c', e').
     rmw_ctx ninv c' \<and> rmw_buffer c' = rmw_buffer c \<and> rmw_lsq c' = rmw_lsq c \<and>
     rmw_entry_ok k e' \<and> (e' = e \<or> rmw_rank e' < rmw_rank e) \<and>
     all_owe w (next_level_components c') + rmw_waits k e =
       all_owe w (next_level_components c) + rmw_waits k e')"

lemmas rmw_simple_trans_defs =
  rmw_write_rmw_pending_ait_r_def rmw_write_rmw_pending_read_def rmw_write_rmw_pending_ait_w_def
  rmw_write_rmw_pending_write_def rmw_write_comb_init_def rmw_write_comb_pending_ait_w_def
  rmw_write_comb_pending_write_def rmw_write_patch_init_def rmw_write_patch_pending_ait_w_def
  rmw_write_patch_pending_write_def rmw_read_cold_pending_ait_r_def rmw_read_cold_pending_read_def
  rmw_read_ff_init_def

lemmas rmw_next_trans_defs =
  rmw_write_rmw_init_def rmw_write_rmw_pending_modify_def rmw_write_comb_pending_modify_def
  rmw_write_patch_pending_modify_def rmw_read_cold_init_def

lemma rmw_simple_trans_ok:
  assumes "rmw_ctx ninv c" "small_clk clk" "rmw_entry_ok k e"
    and "state e = Rmw_init \<or> \<not> waiting_action_clk_update e"
  shows "rmw_type (pending_request e) = Write_rmw \<Longrightarrow> state e = Pending_ait_r \<Longrightarrow>
      rmw_trans_ok ninv w k e c (rmw_write_rmw_pending_ait_r ops k e clk c)"
    and "rmw_type (pending_request e) = Write_rmw \<Longrightarrow> state e = Pending_read \<Longrightarrow>
      rmw_trans_ok ninv w k e c (rmw_write_rmw_pending_read ops k e clk c)"
    and "rmw_type (pending_request e) = Write_rmw \<Longrightarrow> state e = Pending_ait_w \<Longrightarrow>
      rmw_trans_ok ninv w k e c (rmw_write_rmw_pending_ait_w ops k e clk c)"
    and "rmw_type (pending_request e) = Write_rmw \<Longrightarrow> state e = Pending_write \<Longrightarrow>
      rmw_trans_ok ninv w k e c (rmw_write_rmw_pending_write ops k e clk c)"
    and "rmw_type (pending_request e) = Write_comb \<Longrightarrow> state e = Rmw_init \<Longrightarrow>
      rmw_trans_ok ninv w k e c (rmw_write_comb_init ops k e clk c)"
    and "rmw_type (pending_request e) = Write_comb \<Longrightarrow> state e = Pending_ait_w \<Longrightarrow>
      rmw_trans_ok ninv w k e c (rmw_write_comb_pending_ait_w ops k e clk c)"
    and "rmw_type (pending_request e) = Write_comb \<Longrightarrow> state e = Pending_write \<Longrightarrow>
      rmw_trans_ok ninv w k e c (rmw_write_comb_pending_write ops k e clk c)"
    and "rmw_type (pending_request e) = Write_patch \<Longrightarrow> state e = Rmw_init \<Longrightarrow>
      rmw_trans_ok ninv w k e c (rmw_write_patch_init ops k e clk c)"
    and "rmw_type (pending_request e) = Write_patch \<Longrightarrow> state e = Pending_ait_w \<Longrightarrow>
      rmw_trans_ok ninv w k e c (rmw_write_patch_pending_ait_w ops k e clk c)"
    and "rmw_type (pending_request e) = Write_patch \<Longrightarrow> state e = Pending_write \<Longrightarrow>
      rmw_trans_ok ninv w k e c (rmw_write_patch_pending_write ops k e clk c)"
    and "rmw_type (pending_request e) = Read_cold \<Longrightarrow> state e = Pending_ait_r \<Longrightarrow>
      rmw_trans_ok ninv w k e c (rmw_read_cold_pending_ait_r ops k e clk c)"
    and "rmw_type (pending_request e) = Read_cold \<Longrightarrow> state e = Pending_read \<Longrightarrow>
      rmw_trans_ok ninv w k e c (rmw_read_cold_pending_read ops k e clk c)"
    and "rmw_type (pending_request e) = Read_ff \<Longrightarrow> state e = Rmw_init \<Longrightarrow>
      rmw_trans_ok ninv w k e c (rmw_read_ff_init ops k e clk c)"
  using assms
  by (simp_all add: rmw_trans_ok_def rmw_waits_def rmw_simple_trans_defs rmw_entry_ok_def rmw_is_read_def
      rmw_rank_def rmw_issue_write_local_memory_def rmw_issue_read_local_memory_def)


text \<open>The transfers that answer a read through the read-out queue.\<close>

lemma rmw_issue_roq_ok:
  assumes "rmw_ctx ninv c" "rmw_entry_ok k e" "rmw_is_read (rmw_type (pending_request e))"
    and "pending e" "rq_full (rmw_roq c) = Inr False"
  shows "ensures (rmw_issue_roq e c) (\<lambda>(c', e'). rmw_ctx ninv c' \<and>
    rmw_buffer c' = rmw_buffer c \<and> rmw_lsq c' = rmw_lsq c \<and>
    next_level_components c' = next_level_components c \<and>
    e' = e\<lparr>pending_request_cl_index := tl (pending_request_cl_index e), cb_bitmap := 0\<rparr>)"
proof -
  obtain i rest where q: "pending_request_cl_index e = i # rest" "unat i < rmw_block_size_cl"
    using assms(2-4) by (cases "pending_request_cl_index e") (auto simp: rmw_entry_ok_def)
  have "i \<noteq> - 1"
  proof
    assume "i = - 1"
    then have "unat i = 2 ^ 32 - 1" by (simp add: unsigned_minus_1_eq_mask mask_eq_exp_minus_1)
    then show False using q(2) by (simp add: rmw_block_size_cl_def)
  qed
  moreover have "\<not> length (callbacks e) \<le> unat i" "cb_bitmap e = 0"
    using assms(2) q(2) by (simp_all add: rmw_entry_ok_def)
  moreover have "rq_wf ((rmw_roq c)\<lparr>queue := queue (rmw_roq c) @ [r]\<rparr>)" for r
  proof -
    have w: "rq_wf (rmw_roq c)" using assms(1) by (simp add: rmw_ctx_def)
    then have "length (queue (rmw_roq c)) \<noteq> max_entries (rmw_roq c)"
      using rq.full_spec [OF w] assms(5) by simp
    then show ?thesis using w by (simp add: rq_wf_def)
  qed
  ultimately show ?thesis
    using assms(1,5) q by (simp add: rmw_issue_roq_def Let_def unset_bit_eq_and_not)
qed


lemma rmw_roq_trans_ok:
  assumes "rmw_ctx ninv c" "small_clk clk" "rmw_entry_ok k e" "\<not> waiting_action_clk_update e"
    and "state e = Pending_readout"
  shows "rmw_type (pending_request e) = Read_cold \<Longrightarrow>
      rmw_trans_ok ninv w k e c (rmw_read_cold_pending_readout ops k e clk c)"
    and "rmw_type (pending_request e) = Read_ff \<Longrightarrow>
      rmw_trans_ok ninv w k e c (rmw_read_ff_pending_readout ops k e clk c)"
proof -
  have p: "pending e" using assms(3,5) by (simp add: rmw_entry_ok_def)
  have w: "rq_wf (rmw_roq c)" using assms(1) by (simp add: rmw_ctx_def)
  obtain f where f: "rq_full (rmw_roq c) = Inr f"
    using rq.full_spec [OF w] by simp
  { assume r: "rmw_is_read (rmw_type (pending_request e))" and "\<not> f"
    then have "rq_full (rmw_roq c) = Inr False" using f by simp
    then obtain c1 where "rmw_issue_roq e c =
          Inr (c1, e\<lparr>pending_request_cl_index := tl (pending_request_cl_index e), cb_bitmap := 0\<rparr>)"
        "rmw_ctx ninv c1" "rmw_buffer c1 = rmw_buffer c" "rmw_lsq c1 = rmw_lsq c"
        "next_level_components c1 = next_level_components c"
      using rmw_issue_roq_ok [OF assms(1,3) r p] by (auto simp: ensures_iff)
    then have "\<exists>c1. rmw_issue_roq e c =
          Inr (c1, e\<lparr>pending_request_cl_index := tl (pending_request_cl_index e), cb_bitmap := 0\<rparr>) \<and>
        rmw_ctx ninv c1 \<and> rmw_buffer c1 = rmw_buffer c \<and> rmw_lsq c1 = rmw_lsq c \<and>
        next_level_components c1 = next_level_components c" by blast }
  note roq = this
  show "rmw_trans_ok ninv w k e c (rmw_read_cold_pending_readout ops k e clk c)"
    if t: "rmw_type (pending_request e) = Read_cold"
  proof (cases f)
    case False
    with roq t obtain c1 where "rmw_issue_roq e c =
          Inr (c1, e\<lparr>pending_request_cl_index := tl (pending_request_cl_index e), cb_bitmap := 0\<rparr>)"
        "rmw_ctx ninv c1" "rmw_buffer c1 = rmw_buffer c" "rmw_lsq c1 = rmw_lsq c"
        "next_level_components c1 = next_level_components c" by (auto simp: rmw_is_read_def)
    with False f t p assms show ?thesis
      by (cases "pending_request_cl_index e")
        (auto simp: rmw_trans_ok_def rmw_read_cold_pending_readout_def rmw_entry_ok_def rmw_is_read_def
          rmw_rank_def Let_def)
  qed (use assms f in \<open>simp add: rmw_trans_ok_def rmw_read_cold_pending_readout_def\<close>)
  show "rmw_trans_ok ninv w k e c (rmw_read_ff_pending_readout ops k e clk c)"
    if t: "rmw_type (pending_request e) = Read_ff"
  proof (cases f)
    case False
    with roq t obtain c1 where "rmw_issue_roq e c =
          Inr (c1, e\<lparr>pending_request_cl_index := tl (pending_request_cl_index e), cb_bitmap := 0\<rparr>)"
        "rmw_ctx ninv c1" "rmw_buffer c1 = rmw_buffer c" "rmw_lsq c1 = rmw_lsq c"
        "next_level_components c1 = next_level_components c" by (auto simp: rmw_is_read_def)
    with False f t p assms show ?thesis
      by (cases "pending_request_cl_index e")
        (auto simp: rmw_trans_ok_def rmw_read_ff_pending_readout_def rmw_entry_ok_def rmw_is_read_def
          rmw_rank_def Let_def)
  qed (use assms f in \<open>simp add: rmw_trans_ok_def rmw_read_ff_pending_readout_def\<close>)
qed

lemma rmw_inv_set:
  assumes "rmw_inv ninv w x c" "map_of (entry_map (rmw_buffer c)) k = Some d" "rmw_entry_ok k e"
    and "rmw_ctx ninv c'" "rmw_buffer c' = rmw_buffer c" "rq_wf (rmw_lsq c')"
    and "all_owe w (next_level_components c') + rmw_waits k d =
      all_owe w (next_level_components c) + rmw_waits k e"
  shows "rmw_inv ninv w x (c'\<lparr>rmw_buffer := buf_set k e (rmw_buffer c')\<rparr>)"
proof -
  have k: "k \<in> fst ` set (entry_map (rmw_buffer c))" by (rule map_of_Some_key [OF assms(2)])
  have w: "buf_wf rmw_translate_to_block_addr (buf_set k e (rmw_buffer c))"
    using assms(1) k by (intro buf_set_wf) (simp_all add: rmw_inv_def)
  have d: "distinct (map fst (entry_map (rmw_buffer c)))"
    using assms(1) by (simp add: rmw_inv_def buf_wf_def)
  have "\<forall>(l, d) \<in> set (AList.update k e (entry_map (rmw_buffer c))). rmw_entry_ok l d"
    using assms(1,3) d by (intro ball_snd_update) (auto simp: rmw_inv_def)
  moreover have "all_owe w (next_level_components c') + x =
      collect rmw_waits (AList.update k e (entry_map (rmw_buffer c)))"
  proof -
    have "all_owe w (next_level_components c') + x + rmw_waits k d =
        all_owe w (next_level_components c) + x + rmw_waits k e"
      using assms(7) by (simp add: ac_simps)
    also have "\<dots> = collect rmw_waits (entry_map (rmw_buffer c)) + rmw_waits k e"
      using assms(1) by (simp add: rmw_inv_def)
    also have "\<dots> = collect rmw_waits (AList.update k e (entry_map (rmw_buffer c))) + rmw_waits k d"
      using collect_update [OF assms(2) d, of rmw_waits e] by simp
    finally show ?thesis by simp
  qed
  ultimately show ?thesis using assms(4-6) w by (simp add: rmw_inv_def buf_set_def)
qed

lemma rmw_inv_entry:
  "rmw_inv ninv w x c \<Longrightarrow> map_of (entry_map (rmw_buffer c)) k = Some e \<Longrightarrow> rmw_entry_ok k e"
  by (auto simp: rmw_inv_def dest!: map_of_SomeD)

lemma rmw_inv_ctx: "rmw_inv ninv w x c \<Longrightarrow> rmw_ctx ninv c"
  by (simp add: rmw_inv_def)

text \<open>The transfers that talk to the next level.\<close>

locale rmw_next_level =
  responder ops ninv owes rmw_translate_to_block_addr has_callback
  for ops :: "'n component_ops" and ninv :: "'n \<Rightarrow> bool"
    and owes :: "'n \<Rightarrow> (callback \<times> addr_t) multiset"
begin

lemma rmw_issue_next_ok:
  assumes "rmw_ctx ninv c" "i < length (next_level_components c)" "small_clk clk"
  shows "ensures (rmw_issue_read_next_level ops i e clk c) (\<lambda>(c', issued, deterministic, next_clk).
      rmw_ctx ninv c' \<and> rmw_buffer c' = rmw_buffer c \<and> rmw_lsq c' = rmw_lsq c \<and>
      (issued \<longrightarrow> deterministic \<longrightarrow> next_clk \<noteq> clk_invalid) \<and>
      all_owe owes (next_level_components c') = all_owe owes (next_level_components c) +
        (if issued \<and> \<not> deterministic
         then {#(Cb_rmw_next_level_read, rmw_translate_to_block_addr (logic_addr (pending_request e)))#} else {#}))"
    and "ensures (rmw_issue_write_next_level ops i e clk c) (\<lambda>(c', issued, deterministic, next_clk).
      rmw_ctx ninv c' \<and> rmw_buffer c' = rmw_buffer c \<and> rmw_lsq c' = rmw_lsq c \<and>
      all_owe owes (next_level_components c') = all_owe owes (next_level_components c))"
proof -
  have n: "\<forall>n \<in> set (next_level_components c). ninv n" using assms(1) by (simp add: rmw_ctx_def)
  show "ensures (rmw_issue_read_next_level ops i e clk c) (\<lambda>(c', issued, deterministic, next_clk).
      rmw_ctx ninv c' \<and> rmw_buffer c' = rmw_buffer c \<and> rmw_lsq c' = rmw_lsq c \<and>
      (issued \<longrightarrow> deterministic \<longrightarrow> next_clk \<noteq> clk_invalid) \<and>
      all_owe owes (next_level_components c') = all_owe owes (next_level_components c) +
        (if issued \<and> \<not> deterministic
         then {#(Cb_rmw_next_level_read, rmw_translate_to_block_addr (logic_addr (pending_request e)))#} else {#}))"
    unfolding rmw_issue_read_next_level_def ensures_ebind
    by (rule ensures_mono, rule next_issue_owes [OF n assms(2)]) (use assms rmwb.translate_idem in \<open>auto simp: has_callback_def\<close>)
  show "ensures (rmw_issue_write_next_level ops i e clk c) (\<lambda>(c', issued, deterministic, next_clk).
      rmw_ctx ninv c' \<and> rmw_buffer c' = rmw_buffer c \<and> rmw_lsq c' = rmw_lsq c \<and>
      all_owe owes (next_level_components c') = all_owe owes (next_level_components c))"
    unfolding rmw_issue_write_next_level_def ensures_ebind
    by (rule ensures_mono, rule next_issue_owes [OF n assms(2)]) (use assms rmwb.translate_idem in \<open>auto simp: has_callback_def\<close>)
qed

lemma rmw_next_trans_ok:
  assumes "rmw_ctx ninv c" "small_clk clk" "rmw_entry_ok k e"
    and "state e = Rmw_init \<or> \<not> waiting_action_clk_update e"
  shows "rmw_type (pending_request e) = Write_rmw \<Longrightarrow> state e = Rmw_init \<Longrightarrow>
      rmw_trans_ok ninv owes k e c (rmw_write_rmw_init ops k e clk c)"
    and "rmw_type (pending_request e) = Write_rmw \<Longrightarrow> state e = Pending_modify \<Longrightarrow>
      rmw_trans_ok ninv owes k e c (rmw_write_rmw_pending_modify ops k e clk c)"
    and "rmw_type (pending_request e) = Write_comb \<Longrightarrow> state e = Pending_modify \<Longrightarrow>
      rmw_trans_ok ninv owes k e c (rmw_write_comb_pending_modify ops k e clk c)"
    and "rmw_type (pending_request e) = Write_patch \<Longrightarrow> state e = Pending_modify \<Longrightarrow>
      rmw_trans_ok ninv owes k e c (rmw_write_patch_pending_modify ops k e clk c)"
    and "rmw_type (pending_request e) = Read_cold \<Longrightarrow> state e = Rmw_init \<Longrightarrow>
      rmw_trans_ok ninv owes k e c (rmw_read_cold_init ops k e clk c)"
proof -
  have "mapping_ok c" using assms(1) by (simp add: rmw_ctx_def)
  then obtain a' i where g: "get_next_level k c = Inr (a', i)" "i < length (next_level_components c)"
    by (rule get_next_level_ok)
  note issue = rmw_issue_next_ok [OF assms(1) g(2) assms(2), of e, unfolded ensures_iff]
  note facts = g assms suc_neq_clk_invalid [OF assms(2)]
  show "rmw_type (pending_request e) = Write_rmw \<Longrightarrow> state e = Rmw_init \<Longrightarrow>
      rmw_trans_ok ninv owes k e c (rmw_write_rmw_init ops k e clk c)"
    and "rmw_type (pending_request e) = Read_cold \<Longrightarrow> state e = Rmw_init \<Longrightarrow>
      rmw_trans_ok ninv owes k e c (rmw_read_cold_init ops k e clk c)"
    using facts issue(1)
    by (auto simp: rmw_trans_ok_def rmw_waits_def rmw_next_trans_defs rmw_entry_ok_def rmw_is_read_def rmw_rank_def)
  show "rmw_type (pending_request e) = Write_rmw \<Longrightarrow> state e = Pending_modify \<Longrightarrow>
      rmw_trans_ok ninv owes k e c (rmw_write_rmw_pending_modify ops k e clk c)"
    and "rmw_type (pending_request e) = Write_comb \<Longrightarrow> state e = Pending_modify \<Longrightarrow>
      rmw_trans_ok ninv owes k e c (rmw_write_comb_pending_modify ops k e clk c)"
    and "rmw_type (pending_request e) = Write_patch \<Longrightarrow> state e = Pending_modify \<Longrightarrow>
      rmw_trans_ok ninv owes k e c (rmw_write_patch_pending_modify ops k e clk c)"
    using facts issue(2)
    by (auto simp: rmw_trans_ok_def rmw_waits_def rmw_next_trans_defs rmw_entry_ok_def rmw_is_read_def rmw_rank_def)
qed

text \<open>Every legal state has a transfer, and every transfer keeps the invariant.\<close>

lemma rmw_trans_exists:
  assumes "rmw_legal t s" "s \<noteq> Rmw_end"
  shows "\<exists>f. rmw_state_trans t s = Some f"
  using assms by (cases t; cases s) auto

lemma rmw_state_trans_ok:
  assumes "rmw_ctx ninv c" "small_clk clk" "rmw_entry_ok k e"
    and "state e = Rmw_init \<or> \<not> waiting_action_clk_update e"
    and "rmw_state_trans (rmw_type (pending_request e)) (state e) = Some f"
  shows "rmw_trans_ok ninv owes k e c (f ops k e clk c)"
proof -
  have legal: "rmw_legal (rmw_type (pending_request e)) (state e)"
    using assms(3) by (simp add: rmw_entry_ok_def)
  note rules = rmw_simple_trans_ok [OF assms(1-4)] rmw_next_trans_ok [OF assms(1-4)]
    rmw_roq_trans_ok [OF assms(1-3)]
  show ?thesis
    using legal assms(4,5)
    by (cases "rmw_type (pending_request e)"; cases "state e") (auto intro: rules)
qed


lemma rmw_state_transfer_ok:
  assumes "rmw_inv ninv owes x c" "small_clk clk" "map_of (entry_map (rmw_buffer c)) k = Some e"
    and "state e = Rmw_init \<or> \<not> waiting_action_clk_update e" "state e \<noteq> Rmw_end"
  shows "ensures (rmw_state_transfer ops clk k e c) (\<lambda>c'. rmw_inv ninv owes x c' \<and> rmw_lsq c' = rmw_lsq c \<and>
    (\<exists>e'. entry_map (rmw_buffer c') = AList.update k e' (entry_map (rmw_buffer c)) \<and>
      (e' = e \<or> rmw_rank e' < rmw_rank e)))"
proof -
  have e: "rmw_entry_ok k e" by (rule rmw_inv_entry [OF assms(1,3)])
  then obtain f :: "'n rmw_trans" where f: "rmw_state_trans (rmw_type (pending_request e)) (state e) = Some f"
    using rmw_trans_exists assms(5) unfolding rmw_entry_ok_def by blast
  have "rmw_trans_ok ninv owes k e c (f ops k e clk c)"
    by (rule rmw_state_trans_ok [OF rmw_inv_ctx [OF assms(1)] assms(2) e assms(4) f])
  then obtain c1 e1 where t: "f ops k e clk c = Inr (c1, e1)" "rmw_ctx ninv c1"
      "rmw_buffer c1 = rmw_buffer c" "rmw_lsq c1 = rmw_lsq c" "rmw_entry_ok k e1"
      "e1 = e \<or> rmw_rank e1 < rmw_rank e"
      "all_owe owes (next_level_components c1) + rmw_waits k e =
         all_owe owes (next_level_components c) + rmw_waits k e1"
    unfolding rmw_trans_ok_def ensures_iff by auto
  have "rmw_inv ninv owes x (c1\<lparr>rmw_buffer := buf_set k e1 (rmw_buffer c1)\<rparr>)"
    using assms(1) t by (intro rmw_inv_set [OF assms(1,3)]) (simp_all add: rmw_inv_def)
  then show ?thesis
    using f t by (auto simp: rmw_state_transfer_def buf_set_def)
qed

lemma rmw_tick_entry_ok:
  assumes "rmw_inv ninv owes x c" "small_clk clk" "k \<in> fst ` set (entry_map (rmw_buffer c))"
  shows "ensures (rmw_tick_entry ops clk k c) (\<lambda>c'. rmw_inv ninv owes x c' \<and> rmw_lsq c' = rmw_lsq c \<and>
    map fst (entry_map (rmw_buffer c')) = map fst (entry_map (rmw_buffer c)) \<and>
    (\<forall>l e'. map_of (entry_map (rmw_buffer c')) l = Some e' \<longrightarrow>
       (\<exists>e. map_of (entry_map (rmw_buffer c)) l = Some e \<and> (e' = e \<or> l = k \<and> rmw_rank e' < rmw_rank e))))"
proof -
  obtain e where e: "map_of (entry_map (rmw_buffer c)) k = Some e"
    using map_of_key_Some [OF assms(3)] by auto
  have ok: "rmw_entry_ok k e" by (rule rmw_inv_entry [OF assms(1) e])
  have move: "ensures (rmw_state_transfer ops clk k e c) (\<lambda>c'. rmw_inv ninv owes x c' \<and> rmw_lsq c' = rmw_lsq c \<and>
      map fst (entry_map (rmw_buffer c')) = map fst (entry_map (rmw_buffer c)) \<and>
      (\<forall>l e'. map_of (entry_map (rmw_buffer c')) l = Some e' \<longrightarrow>
         (\<exists>e. map_of (entry_map (rmw_buffer c)) l = Some e \<and> (e' = e \<or> l = k \<and> rmw_rank e' < rmw_rank e))))"
    if "state e = Rmw_init \<or> \<not> waiting_action_clk_update e" "state e \<noteq> Rmw_end"
    by (rule ensures_mono [OF rmw_state_transfer_ok [OF assms(1,2) e that]])
      (use e in \<open>auto simp: map_fst_update_present [OF assms(3)] split: if_splits\<close>)
  show ?thesis
    using assms(1) e ok move
    by (auto simp: rmw_tick_entry_def rmw_entry_ok_def simp del: ensures_ebind)
qed

lemma rmw_tick_entries_ok:
  assumes "rmw_inv ninv owes x c" "small_clk clk" "set ks \<subseteq> fst ` set (entry_map (rmw_buffer c))"
  shows "ensures (rmw_tick_entries ops clk ks c) (\<lambda>c'. rmw_inv ninv owes x c' \<and> rmw_lsq c' = rmw_lsq c \<and>
    map fst (entry_map (rmw_buffer c')) = map fst (entry_map (rmw_buffer c)) \<and>
    (\<forall>l e'. map_of (entry_map (rmw_buffer c')) l = Some e' \<longrightarrow>
       (\<exists>e. map_of (entry_map (rmw_buffer c)) l = Some e \<and> (e' = e \<or> rmw_rank e' < rmw_rank e))))"
  using assms
proof (induction ks arbitrary: c)
  case (Cons k ks)
  have k: "k \<in> fst ` set (entry_map (rmw_buffer c))" using Cons.prems(3) by simp
  obtain c1 where c1: "rmw_tick_entry ops clk k c = Inr c1" "rmw_inv ninv owes x c1" "rmw_lsq c1 = rmw_lsq c"
      "map fst (entry_map (rmw_buffer c1)) = map fst (entry_map (rmw_buffer c))"
      "\<And>l e'. map_of (entry_map (rmw_buffer c1)) l = Some e' \<Longrightarrow>
         \<exists>e. map_of (entry_map (rmw_buffer c)) l = Some e \<and> (e' = e \<or> rmw_rank e' < rmw_rank e)"
    using rmw_tick_entry_ok [OF Cons.prems(1,2) k] unfolding ensures_iff by blast
  have sub: "set ks \<subseteq> fst ` set (entry_map (rmw_buffer c1))"
    using Cons.prems(3) arg_cong [OF c1(4), of set] by simp
  have "ensures (rmw_tick_entries ops clk ks c1) (\<lambda>c'. rmw_inv ninv owes x c' \<and> rmw_lsq c' = rmw_lsq c \<and>
      map fst (entry_map (rmw_buffer c')) = map fst (entry_map (rmw_buffer c)) \<and>
      (\<forall>l e'. map_of (entry_map (rmw_buffer c')) l = Some e' \<longrightarrow>
         (\<exists>e. map_of (entry_map (rmw_buffer c)) l = Some e \<and> (e' = e \<or> rmw_rank e' < rmw_rank e))))"
  proof (rule ensures_mono [OF Cons.IH [OF c1(2) Cons.prems(2) sub]], intro conjI allI impI)
    fix c' l e'
    assume *: "rmw_inv ninv owes x c' \<and> rmw_lsq c' = rmw_lsq c1 \<and>
      map fst (entry_map (rmw_buffer c')) = map fst (entry_map (rmw_buffer c1)) \<and>
      (\<forall>l e'. map_of (entry_map (rmw_buffer c')) l = Some e' \<longrightarrow>
         (\<exists>e. map_of (entry_map (rmw_buffer c1)) l = Some e \<and> (e' = e \<or> rmw_rank e' < rmw_rank e)))"
    then show "rmw_inv ninv owes x c'" "rmw_lsq c' = rmw_lsq c"
      "map fst (entry_map (rmw_buffer c')) = map fst (entry_map (rmw_buffer c))"
      using c1(3,4) by simp_all
    assume "map_of (entry_map (rmw_buffer c')) l = Some e'"
    with * obtain e1 where "map_of (entry_map (rmw_buffer c1)) l = Some e1"
        "e' = e1 \<or> rmw_rank e' < rmw_rank e1" by blast
    with c1(5) [of l e1] show
      "\<exists>e. map_of (entry_map (rmw_buffer c)) l = Some e \<and> (e' = e \<or> rmw_rank e' < rmw_rank e)"
      by (metis less_trans)
  qed
  then show ?case using c1(1) by simp
qed simp

lemma rmw_tick_internal_buffer_ok:
  assumes "rmw_inv ninv owes x c" "small_clk clk"
  shows "ensures (rmw_tick_internal_buffer ops clk c) (rmw_inv ninv owes x)"
  unfolding rmw_tick_internal_buffer_def
  by (rule ensures_mono [OF rmw_tick_entries_ok [OF assms]]) auto

end


section \<open>The load/store queue keeps the invariant\<close>

text \<open>
  Eviction makes room only by removing an ended entry that was used least recently; a request
  in flight is never evicted, and without room nothing changes.
\<close>

definition rmw_evicted :: "'n rmw_controller \<Rightarrow> 'n rmw_controller \<Rightarrow> bool" where
  "rmw_evicted c c' \<longleftrightarrow> (\<exists>v e. map_of (entry_map (rmw_buffer c)) v = Some e \<and> state e = Rmw_end \<and>
     (\<forall>(k, d) \<in> set (entry_map (rmw_buffer c)). state d = Rmw_end \<longrightarrow> last_used_clk e \<le> last_used_clk d) \<and>
     entry_map (rmw_buffer c') = AList.delete v (entry_map (rmw_buffer c)))"

lemma rmw_check_and_evict_ok:
  assumes "rmw_inv ninv w x c"
  shows "ensures (rmw_check_and_evict c) (\<lambda>(room, c').
    rmw_inv ninv w x c' \<and> rmw_lsq c' = rmw_lsq c \<and>
    (room \<longrightarrow> \<not> buf_full (rmw_buffer c') \<and> (c' = c \<or> rmw_evicted c c')) \<and>
    (\<not> room \<longrightarrow> c' = c \<and> buf_full (rmw_buffer c)))"
proof -
  have ctx: "rmw_ctx ninv c" by (rule rmw_inv_ctx [OF assms])
  have wf: "buf_wf rmw_translate_to_block_addr (rmw_buffer c)" using assms by (simp add: rmw_inv_def)
  then have d: "distinct (map fst (entry_map (rmw_buffer c)))" by (simp add: buf_wf_def)
  obtain v cl where s: "lru_scan (\<lambda>e. state e = Rmw_end) (entry_map (rmw_buffer c))
      (addr_invalid, clk_invalid) = (v, cl)" by fastforce
  show ?thesis
  proof (cases "buf_full (rmw_buffer c) \<and> v \<noteq> addr_invalid")
    case False
    then show ?thesis using assms s ctx
      by (auto simp: rmw_check_and_evict_def rmw_ctx_def Let_def)
  next
    case True
    with lru_scan_victim [OF s] obtain e where e: "(v, e) \<in> set (entry_map (rmw_buffer c))"
        "state e = Rmw_end" "\<forall>(k, d) \<in> set (entry_map (rmw_buffer c)). state d = Rmw_end \<longrightarrow>
           last_used_clk e \<le> last_used_clk d" by blast
    have v: "v \<in> fst ` set (entry_map (rmw_buffer c))" using e(1) by force
    have t: "rmw_translate_to_block_addr v = v" using wf v by (auto simp: buf_wf_def)
    let ?b = "buf_erase rmw_translate_to_block_addr v (rmw_buffer c)"
    have wf': "buf_wf rmw_translate_to_block_addr ?b"
        "Suc (length (entry_map ?b)) = length (entry_map (rmw_buffer c))"
      using buf_erase_wf [OF wf, of v] v t by simp_all
    have me: "map_of (entry_map (rmw_buffer c)) v = Some e" using d e(1) by simp
    then have "collect rmw_waits (AList.delete v (entry_map (rmw_buffer c))) =
        collect rmw_waits (entry_map (rmw_buffer c))"
      using collect_delete [OF me d, of rmw_waits] e(2) by (simp add: rmw_waits_def)
    note w = this
    have m: "entry_map ?b = AList.delete v (entry_map (rmw_buffer c))" by (simp add: buf_erase_def t)
    have "length (entry_map ?b) < buf_max_entries ?b"
      using wf wf'(2) by (simp add: buf_wf_def buf_erase_def)
    then have "\<not> buf_full ?b" by (simp add: buf_full_def)
    moreover have "rmw_inv ninv w x (c\<lparr>rmw_buffer := ?b\<rparr>)"
      using assms wf'(1) by (auto simp: rmw_inv_def m w set_delete_AList)
    ultimately show ?thesis
      using True s ctx e m me
      by (auto simp: rmw_check_and_evict_def rmw_ctx_def Let_def rmw_evicted_def rmw_inv_def
          rmw_event_eq [of ninv] mapping_ok_def)
  qed
qed


lemma rmw_inv_not_full:
  assumes "rmw_inv ninv w x c" "map_of (entry_map (rmw_buffer c)) (rmw_translate_to_block_addr a) = None"
    and "\<not> buf_full (rmw_buffer c)"
  shows "ensures (buf_insert rmw_translate_to_block_addr a e (rmw_buffer c)) (\<lambda>b.
    buf_wf rmw_translate_to_block_addr b \<and>
    entry_map b = (rmw_translate_to_block_addr a,
      e\<lparr>buffer_index := of_nat (length (entry_map (rmw_buffer c)))\<rparr>) # entry_map (rmw_buffer c))"
  by (rule ensures_mono [OF buf_insert_ensures [OF _ rmwb.translate_idem assms(2,3)]])
    (use assms(1) in \<open>auto simp: rmw_inv_def\<close>)

lemma rmw_cl_index_lt: "unat (ucast (rmw_block_offset_cl a) :: 32 word) < rmw_block_size_cl"
  using rmw_cl_lt_4 [of a] by (simp add: unsigned_ucast_eq take_bit_eq_mod rmw_block_size_cl_def)

lemma shl_1U_rmw [simp]: "shl_1U (rmw_block_offset_cl a) = Inr (push_bit (unat (rmw_block_offset_cl a)) 1)"
  using rmw_cl_lt_4 [of a] by (simp add: shl_1U_def)

text \<open>Binding a read to an entry that can take one more read.\<close>

lemma rmw_serve_read_ok:
  assumes "rmw_ctx ninv c" "rq_wf (rmw_lsq c)" "buf_wf rmw_translate_to_block_addr (rmw_buffer c)"
    and "\<forall>(l, d) \<in> set (entry_map (rmw_buffer c)). l \<noteq> k \<longrightarrow> rmw_entry_ok l d"
    and "map_of (entry_map (rmw_buffer c)) k = Some e"
    and "rmw_entry_ok k (e\<lparr>pending_request_cl_index := pending_request_cl_index e @ [i]\<rparr>)"
    and "\<not> patch \<longrightarrow> pending_request_cl_index e = []"
    and "queue (rmw_lsq c) = req # rest"
    and "all_owe w (next_level_components c) + x = collect rmw_waits (entry_map (rmw_buffer c))"
  shows "ensures (rmw_serve_read patch k i req rest c) (\<lambda>c'. rmw_inv ninv w x c' \<and>
    queue (rmw_lsq c') = rest \<and> max_entries (rmw_lsq c') = max_entries (rmw_lsq c) \<and>
    (\<exists>e'. map_of (entry_map (rmw_buffer c')) k = Some e' \<and>
       callbacks e' ! unat i = req_callback req \<and> i \<in> set (pending_request_cl_index e')))"
proof -
  have k: "k \<in> fst ` set (entry_map (rmw_buffer c))" by (rule map_of_Some_key [OF assms(5)])
  have d: "distinct (map fst (entry_map (rmw_buffer c)))" using assms(3) by (simp add: buf_wf_def)
  have i: "unat i < length (callbacks e)" "length (pending_request_cl_index e @ [i]) \<le> rmw_block_size_cl"
    using assms(6) by (simp_all add: rmw_entry_ok_def)
  define e1 where "e1 = (if patch then e else e\<lparr>cb_bitmap := 0, callbacks := map (\<lambda>_. Cb_null) (callbacks e)\<rparr>)"
  have "(if patch then Inr e else rmw_reset_callback e) = Inr e1"
    using assms(7) by (simp add: rmw_reset_callback_def e1_def)
  moreover have "rmw_entry_ok k (e1\<lparr>pending_request_cl_index := pending_request_cl_index e1 @ [i]\<rparr>)"
    using assms(6) by (auto simp: rmw_entry_ok_def e1_def)
  moreover have "pending_request_cl_index e1 = pending_request_cl_index e"
      "length (callbacks e1) = length (callbacks e)" by (simp_all add: e1_def)
  ultimately have e1: "(if patch then Inr e else rmw_reset_callback e) = Inr e1"
      "rmw_entry_ok k (e1\<lparr>pending_request_cl_index := pending_request_cl_index e1 @ [i]\<rparr>)"
      "pending_request_cl_index e1 = pending_request_cl_index e"
      "length (callbacks e1) = length (callbacks e)" by blast+
  let ?e2 = "e1\<lparr>callbacks := (callbacks e1)[unat i := req_callback req],
    pending_request_cl_index := pending_request_cl_index e1 @ [i]\<rparr>"
  have e2: "rmw_assign_callback i (req_callback req) e1 = Inr ?e2"
    using i e1(3,4) by (simp add: rmw_assign_callback_def Let_def)
  have ok: "rmw_entry_ok k ?e2" using e1(2) by (auto simp: rmw_entry_ok_def)
  have bwf: "buf_wf rmw_translate_to_block_addr (buf_set k ?e2 (rmw_buffer c))"
    by (rule buf_set_wf [OF assms(3) k])
  have all: "\<forall>(l, d) \<in> set (AList.update k ?e2 (entry_map (rmw_buffer c))). rmw_entry_ok l d"
    by (rule ball_snd_update [OF d assms(4) ok])
  let ?c = "c\<lparr>rmw_buffer := buf_set k ?e2 (rmw_buffer c), rmw_lsq := (rmw_lsq c)\<lparr>queue := rest\<rparr>\<rparr>"
  have q: "rq_wf ((rmw_lsq c)\<lparr>queue := rest\<rparr>)"
    using assms(2,8) by (intro rq_wf_shorter) simp_all
  have c: "rmw_ctx ninv ?c" using assms(1) by simp
  have "rmw_waits k ?e2 = rmw_waits k e" by (simp add: rmw_waits_def e1_def)
  then have "all_owe w (next_level_components c) + x =
      collect rmw_waits (AList.update k ?e2 (entry_map (rmw_buffer c)))"
    using collect_update [OF assms(5) d, of rmw_waits ?e2] assms(9) by simp
  then have inv: "rmw_inv ninv w x ?c" using c bwf all q by (simp add: rmw_inv_def buf_set_def)
  have ev: "rmw_event ''read_access'' ?c =
      Inr (?c\<lparr>rmw_cnt_events := counter_bump ''read_access'' 1 (rmw_cnt_events ?c)\<rparr>)"
    by (rule rmw_event_eq [OF c]) simp
  have inv': "rmw_inv ninv w x (?c\<lparr>rmw_cnt_events := counter_bump ''read_access'' 1 (rmw_cnt_events ?c)\<rparr>)"
    using inv rmw_ctx_events [OF c] by (simp add: rmw_inv_def)
  have "rmw_serve_read patch k i req rest c = rmw_event ''read_access'' ?c"
    unfolding rmw_serve_read_def using assms(5) e1(1) e2 by (simp del: rmw_event_eq)
  then show ?thesis
    using ev inv' i e1(3,4) by (simp add: buf_set_def)
qed


lemma rmw_reusable_entry:
  assumes "rmw_entry_ok (rmw_translate_to_block_addr a) e" "unat i < rmw_block_size_cl"
  shows "pending e \<Longrightarrow> rmw_type (pending_request e) = Read_cold \<or> rmw_type (pending_request e) = Read_ff \<Longrightarrow>
      length (pending_request_cl_index e) < rmw_block_size_cl \<Longrightarrow>
      rmw_entry_ok (rmw_translate_to_block_addr a)
        (e\<lparr>pending_request_cl_index := pending_request_cl_index e @ [i]\<rparr>)"
    and "\<not> (pending e \<and> rmw_is_read (rmw_type (pending_request e))) \<Longrightarrow> pending_request_cl_index e = []"
    and "\<not> (pending e \<and> rmw_is_read (rmw_type (pending_request e))) \<Longrightarrow>
      rmw_entry_ok (rmw_translate_to_block_addr a)
        ((rmw_assign_new_request clk Read_ff a bm e)\<lparr>pending_request_cl_index := [i]\<rparr>)"
  using assms
  by (auto simp: rmw_entry_ok_def rmw_is_read_def rmw_assign_new_request_def rmw_block_size_cl_def)

lemma rmw_new_read_entry:
  assumes "unat i < rmw_block_size_cl"
  shows "rmw_entry_ok (rmw_translate_to_block_addr a)
    ((new_rmw_entry clk Read_cold a bm)\<lparr>buffer_index := bi, pending_request_cl_index := [i]\<rparr>)"
  using assms
  by (auto simp: rmw_entry_ok_def rmw_is_read_def new_rmw_entry_def rmw_block_size_cl_def)

text \<open>What a tick of a read at the front of the queue does: nothing, or it binds the read to its block.\<close>

definition rmw_read_served :: "base_request \<Rightarrow> 'n rmw_controller \<Rightarrow> 'n rmw_controller \<Rightarrow> bool" where
  "rmw_read_served req c c' \<longleftrightarrow>
     queue (rmw_lsq c') = tl (queue (rmw_lsq c)) \<and>
     (\<exists>e. map_of (entry_map (rmw_buffer c')) (rmw_translate_to_block_addr (req_addr req)) = Some e \<and>
        callbacks e ! unat (rmw_block_offset_cl (req_addr req)) = req_callback req \<and>
        ucast (rmw_block_offset_cl (req_addr req)) \<in> set (pending_request_cl_index e))"

lemma unat_cl_index: "unat (ucast (rmw_block_offset_cl a) :: 32 word) = unat (rmw_block_offset_cl a)"
  using rmw_cl_lt_4 [of a] by (simp add: unsigned_ucast_eq take_bit_eq_mod)

lemma rmw_tick_lsq_read_ok:
  assumes "rmw_inv ninv w x c" "queue (rmw_lsq c) = req # rest"
  shows "ensures (rmw_tick_lsq_read clk c) (\<lambda>c'. rmw_inv ninv w x c' \<and> (c' = c \<or> rmw_read_served req c c'))"
proof -
  let ?a = "req_addr req"
  let ?k = "rmw_translate_to_block_addr ?a"
  let ?i = "ucast (rmw_block_offset_cl ?a) :: 32 word"
  have i: "unat ?i < rmw_block_size_cl" by (rule rmw_cl_index_lt)
  have lsq: "rq_wf (rmw_lsq c)" using assms(1) by (simp add: rmw_inv_def)
  obtain bm where bm: "shl_1U (rmw_block_offset_cl ?a) = Inr bm" by simp
  have serve: "ensures (rmw_serve_read patch ?k ?i req rest c0) (\<lambda>c'. rmw_inv ninv w x c' \<and> (c' = c \<or> rmw_read_served req c c'))"
    if "rmw_ctx ninv c0" "rmw_lsq c0 = rmw_lsq c" "buf_wf rmw_translate_to_block_addr (rmw_buffer c0)"
      "\<forall>(l, d) \<in> set (entry_map (rmw_buffer c0)). l \<noteq> ?k \<longrightarrow> rmw_entry_ok l d"
      "map_of (entry_map (rmw_buffer c0)) ?k = Some e"
      "rmw_entry_ok ?k (e\<lparr>pending_request_cl_index := pending_request_cl_index e @ [?i]\<rparr>)"
      "\<not> patch \<longrightarrow> pending_request_cl_index e = []"
      "all_owe w (next_level_components c0) + x = collect rmw_waits (entry_map (rmw_buffer c0))" for patch c0 e
    by (rule ensures_mono [OF rmw_serve_read_ok [OF that(1) _ that(3-7) _ that(8)]])
      (use that(2) lsq assms(2) in \<open>auto simp: rmw_read_served_def unat_cl_index\<close>)
  show ?thesis
  proof (cases "map_of (entry_map (rmw_buffer c)) ?k")
    case None
    obtain room c1 where ev: "rmw_check_and_evict c = Inr (room, c1)" "rmw_inv ninv w x c1"
        "rmw_lsq c1 = rmw_lsq c" "room \<longrightarrow> \<not> buf_full (rmw_buffer c1) \<and> (c1 = c \<or> rmw_evicted c c1)"
        "\<not> room \<longrightarrow> c1 = c"
      using rmw_check_and_evict_ok [OF assms(1)] by (auto simp: ensures_iff)
    show ?thesis
    proof (cases room)
      case False
      then show ?thesis using assms None ev bm
        by (simp del: shl_1U_rmw add: rmw_tick_lsq_read_def buf_find_def Let_def)
    next
      case True
      then have "map_of (entry_map (rmw_buffer c1)) ?k = None"
        using ev(4) None by (auto simp: rmw_evicted_def delete_conv')
      from rmw_inv_not_full [OF ev(2) this, of "new_rmw_entry clk Read_cold ?a bm"]
      obtain b bi where b: "buf_insert rmw_translate_to_block_addr ?a
            (new_rmw_entry clk Read_cold ?a bm) (rmw_buffer c1) = Inr b"
          "buf_wf rmw_translate_to_block_addr b"
          "entry_map b = (?k, (new_rmw_entry clk Read_cold ?a bm)
             \<lparr>buffer_index := bi\<rparr>) # entry_map (rmw_buffer c1)"
        using True ev(4) by (auto simp: ensures_iff)
      have "ensures (rmw_serve_read False ?k ?i req rest (c1\<lparr>rmw_buffer := b\<rparr>))
          (\<lambda>c'. rmw_inv ninv w x c' \<and> (c' = c \<or> rmw_read_served req c c'))"
      proof (rule serve)
        show "map_of (entry_map (rmw_buffer (c1\<lparr>rmw_buffer := b\<rparr>))) ?k =
            Some ((new_rmw_entry clk Read_cold ?a bm)\<lparr>buffer_index := bi\<rparr>)" using b(3) by simp
        show "rmw_entry_ok ?k ((new_rmw_entry clk Read_cold ?a bm)\<lparr>buffer_index := bi,
            pending_request_cl_index := pending_request_cl_index
              ((new_rmw_entry clk Read_cold ?a bm)\<lparr>buffer_index := bi\<rparr>) @ [?i]\<rparr>)"
          using rmw_new_read_entry [OF i] by (simp add: new_rmw_entry_def)
      qed (use ev(2,3) b in \<open>auto simp: rmw_inv_def new_rmw_entry_def\<close>)
      then show ?thesis using assms(2) None ev(1) b(1) True bm
        by (simp add: rmw_tick_lsq_read_def buf_find_def Let_def del: shl_1U_rmw)
    qed
  next
    case (Some e)
    have e: "rmw_entry_ok ?k e" by (rule rmw_inv_entry [OF assms(1) Some])
    have "ensures (rmw_event ''read_patch'' c) (\<lambda>c1. ensures (rmw_serve_read True ?k ?i req rest c1)
        (\<lambda>c'. rmw_inv ninv w x c' \<and> (c' = c \<or> rmw_read_served req c c')))"
      if "rmw_entry_ok ?k (e\<lparr>pending_request_cl_index := pending_request_cl_index e @ [?i]\<rparr>)"
      using that assms(1) Some rmw_ctx_events [OF rmw_inv_ctx [OF assms(1)]]
      by (subst rmw_event_eq [OF rmw_inv_ctx [OF assms(1)]]; simp)
        (rule serve, auto simp: rmw_inv_def)
    moreover have "ensures (rmw_serve_read False ?k ?i req rest
          (c\<lparr>rmw_buffer := buf_set ?k (rmw_assign_new_request clk Read_ff ?a bm e) (rmw_buffer c)\<rparr>))
        (\<lambda>c'. rmw_inv ninv w x c' \<and> (c' = c \<or> rmw_read_served req c c'))"
      if "\<not> (pending e \<and> rmw_is_read (rmw_type (pending_request e)))" "valid_to_read e" for bm
    proof (rule serve)
      let ?e = "rmw_assign_new_request clk Read_ff ?a bm e"
      have idx: "pending_request_cl_index e = []" by (rule rmw_reusable_entry(2) [OF e i that(1)])
      then show "\<not> False \<longrightarrow> pending_request_cl_index ?e = []"
        by (simp add: rmw_assign_new_request_def)
      show "rmw_entry_ok ?k (?e\<lparr>pending_request_cl_index := pending_request_cl_index ?e @ [?i]\<rparr>)"
        using rmw_reusable_entry(3) [OF e i that(1)] idx by (simp add: rmw_assign_new_request_def)
      have d: "distinct (map fst (entry_map (rmw_buffer c)))" using assms(1) by (simp add: rmw_inv_def buf_wf_def)
      have "rmw_waits ?k e = {#}" using e that(2) by (auto simp: rmw_entry_ok_def rmw_waits_def)
      then show "all_owe w (next_level_components (c\<lparr>rmw_buffer := buf_set ?k ?e (rmw_buffer c)\<rparr>)) + x =
          collect rmw_waits (entry_map (rmw_buffer (c\<lparr>rmw_buffer := buf_set ?k ?e (rmw_buffer c)\<rparr>)))"
        using collect_update [OF Some d, of rmw_waits ?e] assms(1) by (simp add: rmw_inv_def buf_set_def)
      show "\<forall>(l, d) \<in> set (entry_map (rmw_buffer (c\<lparr>rmw_buffer := buf_set ?k ?e (rmw_buffer c)\<rparr>))).
          l \<noteq> ?k \<longrightarrow> rmw_entry_ok l d"
        using set_update_distinct [OF d, of ?k ?e] assms(1) by (force simp: buf_set_def rmw_inv_def)
      show "buf_wf rmw_translate_to_block_addr (rmw_buffer (c\<lparr>rmw_buffer := buf_set ?k ?e (rmw_buffer c)\<rparr>))"
        using assms(1) map_of_Some_key [OF Some] by (simp add: rmw_inv_def buf_set_wf)
    qed (use assms(1) in \<open>simp_all add: rmw_inv_def buf_set_def\<close>)
    ultimately show ?thesis
      using assms Some bm e rmw_reusable_entry(1) [OF e i]
      by (auto simp: rmw_tick_lsq_read_def buf_find_def Let_def rmw_is_read_def rmw_entry_ok_def
          simp del: shl_1U_rmw)
  qed
qed


section \<open>Write combining\<close>

text \<open>
  The loop against its contract: the writes to the block that come before the first read of the
  block leave the queue, everything else stays in order, and a cache line's bit is set when one
  of the removed writes hits it.
\<close>

definition rmw_stops :: "addr_t \<Rightarrow> base_request \<Rightarrow> bool" where
  "rmw_stops k r \<longleftrightarrow> rmw_translate_to_block_addr (req_addr r) = k \<and> req_type r = Base_read"

definition rmw_combined :: "addr_t \<Rightarrow> base_request list \<Rightarrow> base_request list" where
  "rmw_combined k q =
     filter (\<lambda>r. rmw_translate_to_block_addr (req_addr r) = k) (takeWhile (\<lambda>r. \<not> rmw_stops k r) q)"

lemma rmw_combine_queue:
  "fst (rmw_combine k q h) =
     filter (\<lambda>r. rmw_translate_to_block_addr (req_addr r) \<noteq> k) (takeWhile (\<lambda>r. \<not> rmw_stops k r) q)
     @ dropWhile (\<lambda>r. \<not> rmw_stops k r) q"
proof (induction q arbitrary: h)
  case (Cons r q)
  then show ?case
    by (cases "req_type r") (auto simp: rmw_stops_def split_def)
qed simp

lemma rmw_combine_hit:
  "bit (snd (rmw_combine k q h)) i \<longleftrightarrow>
     bit h i \<or> (\<exists>r \<in> set (rmw_combined k q). unat (rmw_block_offset_cl (req_addr r)) = i)"
proof (induction q arbitrary: h)
  case (Cons r q)
  have lt: "unat (rmw_block_offset_cl (req_addr r)) < 4" by (rule rmw_cl_lt_4)
  show ?case
    using Cons lt
    by (cases "req_type r")
      (auto simp: rmw_combined_def rmw_stops_def split_def Let_def bit_set_bit_iff)
qed (simp add: rmw_combined_def)

lemma rmw_combine_writes: "r \<in> set (rmw_combined k q) \<Longrightarrow> req_type r = Base_write"
  by (cases "req_type r") (auto simp: rmw_combined_def rmw_stops_def dest!: set_takeWhileD)

lemma rmw_combine_length: "length (fst (rmw_combine k q h)) \<le> length q"
proof (induction q arbitrary: h)
  case (Cons r q)
  then show ?case
    by (cases "req_type r") (auto simp: split_def Let_def intro: le_SucI)
qed simp

lemma rmw_combine_mset: "mset q = mset (fst (rmw_combine k q h)) + mset (rmw_combined k q)"
proof -
  let ?t = "takeWhile (\<lambda>r. \<not> rmw_stops k r) q"
  let ?P = "\<lambda>r. rmw_translate_to_block_addr (req_addr r) = k"
  have "mset q = mset ?t + mset (dropWhile (\<lambda>r. \<not> rmw_stops k r) q)"
    by (metis mset_append takeWhile_dropWhile_id)
  also have "mset ?t = filter_mset ?P (mset ?t) + filter_mset (\<lambda>r. \<not> ?P r) (mset ?t)"
    by (rule multiset_partition)
  finally show ?thesis
    by (simp add: rmw_combine_queue rmw_combined_def mset_filter ac_simps)
qed

text \<open>All four bits set means that the removed writes cover the whole block.\<close>

lemma rmw_full_hit_iff:
  "(h :: 4 word) = rmw_block_hit_cl_bitmask \<longleftrightarrow> (\<forall>i < 4. bit h i)"
proof -
  have m: "rmw_block_hit_cl_bitmask = mask 4"
    by (simp add: rmw_block_hit_cl_bitmask_def mask_eq_exp_minus_1)
  show ?thesis
    unfolding m by (subst bit_eq_iff) (auto simp: bit_mask_iff dest: bit_imp_le_length simp flip: not_less)
qed


lemma rmw_write_entry_ok:
  assumes "rmw_translate_to_block_addr a = k"
  shows "t \<in> {Write_rmw, Write_comb} \<Longrightarrow> rmw_entry_ok k ((new_rmw_entry clk t a bm)\<lparr>buffer_index := bi\<rparr>)"
    and "rmw_entry_ok k e \<Longrightarrow> rmw_type (pending_request e) = Write_rmw \<or> \<not> pending e \<Longrightarrow>
      t \<in> {Write_comb, Write_patch} \<Longrightarrow> rmw_entry_ok k (rmw_assign_new_request clk t a bm e)"
    and "rmw_entry_ok k e \<Longrightarrow> rmw_entry_ok k (e\<lparr>cl_bitmap := h\<rparr>)"
proof -
  show "rmw_entry_ok k e \<Longrightarrow> rmw_entry_ok k (e\<lparr>cl_bitmap := h\<rparr>)"
    by (simp add: rmw_entry_ok_def)
  assume "t \<in> {Write_rmw, Write_comb}"
  then show "rmw_entry_ok k ((new_rmw_entry clk t a bm)\<lparr>buffer_index := bi\<rparr>)"
    using assms by (auto simp: rmw_entry_ok_def rmw_is_read_def new_rmw_entry_def rmw_block_size_cl_def)
next
  assume e: "rmw_entry_ok k e" "rmw_type (pending_request e) = Write_rmw \<or> \<not> pending e"
    and t: "t \<in> {Write_comb, Write_patch}"
  then have "pending_request_cl_index e = []" by (auto simp: rmw_entry_ok_def rmw_is_read_def)
  then show "rmw_entry_ok k (rmw_assign_new_request clk t a bm e)"
    using e(1) t assms by (auto simp: rmw_entry_ok_def rmw_is_read_def rmw_assign_new_request_def)
qed

lemma rmw_inv_write_access:
  assumes "rmw_inv ninv w x c"
  shows "ensures (rmw_event ''write_access'' c) (\<lambda>c'. rmw_inv ninv w x c' \<and> rmw_lsq c' = rmw_lsq c \<and>
    rmw_buffer c' = rmw_buffer c)"
  using assms rmw_ctx_events [OF rmw_inv_ctx [OF assms]]
  by (subst rmw_event_eq [OF rmw_inv_ctx [OF assms]]) (simp_all add: rmw_inv_def)

text \<open>
  A write at the front of the queue waits, or is served together with every write to its block
  that can be combined with it.
\<close>

lemma rmw_tick_lsq_write_ok:
  assumes "rmw_inv ninv w x c" "queue (rmw_lsq c) = req # rest"
  shows "ensures (rmw_tick_lsq_write clk c) (\<lambda>c'. rmw_inv ninv w x c' \<and> (c' = c \<or>
    queue (rmw_lsq c') =
      fst (rmw_combine (rmw_translate_to_block_addr (req_addr req)) (queue (rmw_lsq c)) 0)))"
proof -
  let ?a = "req_addr req"
  let ?k = "rmw_translate_to_block_addr ?a"
  obtain q hit where comb: "rmw_combine ?k (queue (rmw_lsq c)) 0 = (q, hit)" by fastforce
  have len: "length q \<le> length (queue (rmw_lsq c))"
    using rmw_combine_length [of ?k "queue (rmw_lsq c)" 0] comb by simp
  have idem: "rmw_translate_to_block_addr ?k = ?k" by (rule rmwb.translate_idem)
  have q: "rmw_inv ninv w x (c1\<lparr>rmw_lsq := (rmw_lsq c1)\<lparr>queue := q\<rparr>\<rparr>)"
    if "rmw_inv ninv w x c1" "rmw_lsq c1 = rmw_lsq c" for c1
    using that len rq_wf_shorter [of "rmw_lsq c" q] by (simp add: rmw_inv_def)
  let ?P = "\<lambda>c'. rmw_inv ninv w x c' \<and> queue (rmw_lsq c') = q"
  have fin: "ensures (rmw_event ''write_access'' c1) ?P" if "?P c1" for c1
    using rmw_inv_write_access [of ninv w x c1] that by (auto elim!: ensures_mono)
  show ?thesis
  proof (cases "map_of (entry_map (rmw_buffer c)) ?k")
    case None
    obtain room c1 where ev: "rmw_check_and_evict c = Inr (room, c1)" "rmw_inv ninv w x c1"
        "rmw_lsq c1 = rmw_lsq c" "room \<longrightarrow> \<not> buf_full (rmw_buffer c1) \<and> (c1 = c \<or> rmw_evicted c c1)"
        "\<not> room \<longrightarrow> c1 = c"
      using rmw_check_and_evict_ok [OF assms(1)] by (auto simp: ensures_iff)
    show ?thesis
    proof (cases room)
      case False
      then show ?thesis using assms None ev idem
        by (simp add: rmw_tick_lsq_write_def buf_find_def Let_def)
    next
      case True
      let ?c = "c1\<lparr>rmw_lsq := (rmw_lsq c1)\<lparr>queue := q\<rparr>\<rparr>"
      let ?t = "if hit = rmw_block_hit_cl_bitmask then Write_comb else Write_rmw"
      let ?e = "new_rmw_entry clk ?t ?a (ucast hit)"
      have c: "rmw_inv ninv w x ?c" by (rule q [OF ev(2,3)])
      have n: "map_of (entry_map (rmw_buffer ?c)) (rmw_translate_to_block_addr ?k) = None"
        using True ev(4) None idem by (auto simp: rmw_evicted_def delete_conv')
      obtain b bi where b: "buf_insert rmw_translate_to_block_addr ?k ?e (rmw_buffer ?c) = Inr b"
          "buf_wf rmw_translate_to_block_addr b"
          "entry_map b = (?k, ?e\<lparr>buffer_index := bi\<rparr>) # entry_map (rmw_buffer ?c)"
        using rmw_inv_not_full [OF c n, of ?e] True ev(4) idem by (auto simp: ensures_iff)
      have "?P (?c\<lparr>rmw_buffer := b\<rparr>)"
        using c b rmw_write_entry_ok(1) [OF refl, where t = ?t and clk = clk and a = ?a and bm = "ucast hit" and bi = bi]
        by (auto simp: rmw_inv_def)
      from fin [OF this] show ?thesis
        using assms(2) None ev(1,3) b(1) True comb idem
        by (simp add: rmw_tick_lsq_write_def buf_find_def Let_def) (erule ensures_mono, simp)
    qed
  next
    case (Some e)
    have e: "rmw_entry_ok ?k e" by (rule rmw_inv_entry [OF assms(1) Some])
    have k: "?k \<in> fst ` set (entry_map (rmw_buffer c))" by (rule map_of_Some_key [OF Some])
    have lsq: "rq_wf ((rmw_lsq c)\<lparr>queue := q\<rparr>)"
      using assms(1) len by (intro rq_wf_shorter) (simp_all add: rmw_inv_def)
    have put: "?P (c\<lparr>rmw_lsq := (rmw_lsq c)\<lparr>queue := q\<rparr>, rmw_buffer := buf_set ?k e1 (rmw_buffer c)\<rparr>)"
      if "rmw_entry_ok ?k e1" "rmw_waits ?k e1 = rmw_waits ?k e" for e1
      using rmw_inv_set [OF assms(1) Some that(1), of "c\<lparr>rmw_lsq := (rmw_lsq c)\<lparr>queue := q\<rparr>\<rparr>"] lsq
        that(2) rmw_inv_ctx [OF assms(1)] by simp
    have event: "ensures (rmw_event n c1) (\<lambda>c2. ensures (rmw_event ''write_access'' c2) ?P)"
      if "?P c1" "n \<in> set rmw_event_names" for n c1
    proof -
      have ctx: "rmw_ctx ninv c1" using that(1) by (simp add: rmw_inv_def)
      have "?P (c1\<lparr>rmw_cnt_events := counter_bump n 1 (rmw_cnt_events c1)\<rparr>)"
        using that(1) rmw_ctx_events [OF ctx] by (simp add: rmw_inv_def)
      from fin [OF this] show ?thesis using rmw_event_eq [OF ctx that(2)] by simp
    qed
    note entries = rmw_write_entry_ok(2) [OF refl e] rmw_write_entry_ok(3) [OF refl e]
    let ?patch = "rmw_type (pending_request e) = Write_rmw \<and>
      (state e = Pending_read \<or> state e = Pending_modify)"
    consider (wait) "\<not> ?patch" "pending e" | (patch) "\<not> ?patch" "\<not> pending e" | (rmw) "?patch" by blast
    then show ?thesis
    proof cases
      case wait
      then show ?thesis using assms Some idem
        by (auto simp: rmw_tick_lsq_write_def buf_find_def Let_def)
    next
      case patch
      then have "state e = Rmw_end" using e by (simp add: rmw_entry_ok_def)
      then have "rmw_waits ?k e = {#}" by simp
      then have "ensures (rmw_tick_lsq_write clk c) ?P"
        using fin [OF put [OF entries(1) [where t = Write_patch and clk = clk and bm = "ucast hit"]]] patch assms(2) Some idem comb
        by (auto simp: rmw_tick_lsq_write_def buf_find_def Let_def)
      then show ?thesis using comb by (auto elim!: ensures_mono)
    next
      case rmw
      let ?h = "hit OR cl_bitmap e"
      let ?e1 = "rmw_assign_new_request clk Write_comb ?a (ucast ?h) e"
      have ev: "rmw_tick_lsq_write clk c =
          (if ?h = rmw_block_hit_cl_bitmask
           then ebind (rmw_event ''patch_rmw_comb'' (c\<lparr>rmw_lsq := (rmw_lsq c)\<lparr>queue := q\<rparr>,
                  rmw_buffer := buf_set ?k ?e1 (rmw_buffer c)\<rparr>)) (rmw_event ''write_access'')
           else ebind (rmw_event ''patch_rmw'' (c\<lparr>rmw_lsq := (rmw_lsq c)\<lparr>queue := q\<rparr>,
                  rmw_buffer := buf_set ?k (e\<lparr>cl_bitmap := ?h\<rparr>) (rmw_buffer c)\<rparr>)) (rmw_event ''write_access''))"
        using rmw assms(2) Some idem comb
        by (auto simp: rmw_tick_lsq_write_def buf_find_def Let_def)
      have "rmw_waits ?k e = {#}" using rmw by auto
      then have "ensures (rmw_tick_lsq_write clk c) ?P"
        unfolding ev using event [OF put [OF entries(1)]] event [OF put [OF entries(2)]] rmw by simp
      then show ?thesis using comb by (auto elim!: ensures_mono)
    qed
  qed
qed


section \<open>The component keeps the invariant\<close>

lemma rmw_tick_roq_ok:
  assumes "rmw_inv ninv w x c" "rmw_tick_roq clk c = (c', calls)"
  shows "rmw_inv ninv w x c'" "\<forall>(cb, a, t) \<in> set calls. t = clk"
    and "rmw_lsq c' = rmw_lsq c" "rmw_buffer c' = rmw_buffer c"
proof -
  have q: "rq_wf (rmw_roq c)" using assms(1) by (simp add: rmw_inv_def rmw_ctx_def)
  have "rq_wf ((rmw_roq c)\<lparr>queue := rest\<rparr>)" if "queue (rmw_roq c) = r # rest" for r rest
    using q that by (intro rq_wf_shorter) simp_all
  then show "rmw_inv ninv w x c'" "\<forall>(cb, a, t) \<in> set calls. t = clk"
      "rmw_lsq c' = rmw_lsq c" "rmw_buffer c' = rmw_buffer c"
    using assms
    by (auto simp: rmw_tick_roq_def rmw_inv_def invoke_callback_def split: list.splits if_splits)
qed

lemma rmw_tick_lsq_ok:
  assumes "rmw_inv ninv w x c"
  shows "ensures (rmw_tick_lsq clk c) (rmw_inv ninv w x)"
proof (cases "queue (rmw_lsq c)")
  case Nil
  then show ?thesis using assms by (simp add: rmw_tick_lsq_def)
next
  case (Cons req rest)
  then show ?thesis
    using rmw_tick_lsq_read_ok [OF assms Cons, of clk] rmw_tick_lsq_write_ok [OF assms Cons, of clk]
    by (cases "req_type req") (auto simp: rmw_tick_lsq_def elim!: ensures_mono)
qed

lemma rmw_issue_request_ok:
  assumes "rmw_inv ninv w x c"
  shows "ensures (rmw_issue_request c req) (\<lambda>(c', req', issued, deterministic, next_clk).
    rmw_inv ninv w x c' \<and> rmw_buffer c' = rmw_buffer c \<and> req' = req \<and> \<not> deterministic \<and>
    issued = (length (queue (rmw_lsq c)) < max_entries (rmw_lsq c)) \<and>
    queue (rmw_lsq c') = queue (rmw_lsq c) @ (if issued then [req] else []))"
proof -
  have q: "rq_wf (rmw_lsq c)" using assms by (simp add: rmw_inv_def)
  show ?thesis
    unfolding rmw_issue_request_def ensures_ebind
    by (rule ensures_mono [OF rq.enq_ensures [OF q, of req]]) (use assms in \<open>auto simp: rmw_inv_def\<close>)
qed

text \<open>
  No entry is ever marked dirty once its request has ended, so \<open>drain_current\<close> finds nothing to
  flush back.
\<close>

lemma rmw_drain_nothing:
  assumes "rmw_inv ninv w x c"
  shows "rmw_drain_current c = c"
proof -
  have "map (\<lambda>(k, e). (k, rmw_drain_entry e)) (entry_map (rmw_buffer c)) = entry_map (rmw_buffer c)"
    using assms by (intro map_idI) (auto simp: rmw_inv_def rmw_drain_entry_def rmw_entry_ok_def)
  then show ?thesis by (simp add: rmw_drain_current_def)
qed

lemma rmw_callback_ok:
  assumes "rmw_inv ninv w (add_mset (Cb_rmw_next_level_read, rmw_translate_to_block_addr a) x) c"
    and "small_clk clk"
  shows "ensures (rmw_next_level_read_callback a clk c) (rmw_inv ninv w x)"
proof -
  let ?k = "rmw_translate_to_block_addr a"
  have d: "distinct (map fst (entry_map (rmw_buffer c)))"
    using assms(1) by (simp add: rmw_inv_def buf_wf_def)
  have "(Cb_rmw_next_level_read, ?k) \<in># collect rmw_waits (entry_map (rmw_buffer c))"
    using assms(1) by (auto simp: rmw_inv_def simp flip: add_mset_add_single)
      (metis add_mset_add_single union_iff multi_member_this union_mset_add_mset_right)
  then obtain k e where "(k, e) \<in> set (entry_map (rmw_buffer c))" "(Cb_rmw_next_level_read, ?k) \<in># rmw_waits k e"
    using collect_elem by fastforce
  then have e: "map_of (entry_map (rmw_buffer c)) ?k = Some e" "state e = Pending_ait_r" "waiting_action_clk_update e"
    using d by (auto simp: rmw_waits_def split: if_splits)
  let ?e = "e\<lparr>waiting_action_clk_update := False, next_action_clk := clk + 1\<rparr>"
  have ok: "rmw_entry_ok ?k e" by (rule rmw_inv_entry [OF assms(1) e(1)])
  have w: "rmw_waits ?k e = {#(Cb_rmw_next_level_read, ?k)#}" "rmw_waits ?k ?e = {#}"
    using e by (simp_all add: rmw_waits_def)
  have k: "?k \<in> fst ` set (entry_map (rmw_buffer c))" by (rule map_of_Some_key [OF e(1)])
  have "\<forall>(l, d) \<in> set (AList.update ?k ?e (entry_map (rmw_buffer c))). rmw_entry_ok l d"
  proof (rule ball_snd_update [OF d])
    show "rmw_entry_ok ?k ?e" using ok e suc_neq_clk_invalid [OF assms(2)] by (auto simp: rmw_entry_ok_def)
  qed (use assms(1) in \<open>auto simp: rmw_inv_def\<close>)
  moreover have "all_owe w (next_level_components c) + x =
      collect rmw_waits (AList.update ?k ?e (entry_map (rmw_buffer c)))"
    using collect_update [OF e(1) d, of rmw_waits ?e] assms(1) w
    by (simp add: rmw_inv_def) (metis add_mset_add_mset_same_iff)
  moreover have "buf_wf rmw_translate_to_block_addr (buf_set ?k ?e (rmw_buffer c))"
    using assms(1) k by (intro buf_set_wf) (simp_all add: rmw_inv_def)
  ultimately show ?thesis
    using assms(1) e(1) by (simp add: rmw_next_level_read_callback_def Let_def rmw_inv_def buf_set_def)
qed


context rmw_next_level
begin

lemma rmw_run_calls_ok:
  assumes "rmw_inv ninv owes (mset (map (\<lambda>(cb, a, t). (cb, rmw_translate_to_block_addr a)) calls)) c"
    and "\<forall>(cb, a, t) \<in> set calls. t = clk" "small_clk clk"
  shows "ensures (rmw_run_calls calls c) (\<lambda>(c', out). rmw_inv ninv owes {#} c' \<and> out = [])"
  using assms(1,2)
proof (induction calls arbitrary: c)
  case (Cons p calls)
  obtain cb a t where p: "p = (cb, a, t)" by (cases p)
  let ?x = "mset (map (\<lambda>(cb, a, t). (cb, rmw_translate_to_block_addr a)) calls)"
  have i: "rmw_inv ninv owes (add_mset (cb, rmw_translate_to_block_addr a) ?x) c"
    using Cons.prems(1) by (simp add: p)
  have "(cb, rmw_translate_to_block_addr a) \<in># collect rmw_waits (entry_map (rmw_buffer c))"
  proof -
    have "collect rmw_waits (entry_map (rmw_buffer c)) = all_owe owes (next_level_components c) +
        add_mset (cb, rmw_translate_to_block_addr a) ?x" using i by (simp add: rmw_inv_def)
    then show ?thesis by simp
  qed
  from collect_elem [OF this] have cb: "cb = Cb_rmw_next_level_read"
    by (auto simp: rmw_waits_def split: if_splits)
  have t: "t = clk" using Cons.prems(2) p by simp
  from rmw_callback_ok [OF i [unfolded cb] assms(3)] obtain c1 where
    c1: "rmw_next_level_read_callback a clk c = Inr c1" "rmw_inv ninv owes ?x c1"
    by (auto simp: ensures_iff)
  then show ?case using Cons.IH [OF c1(2)] Cons.prems(2) cb t p by simp
qed simp

lemma rmw_tick_ctrl_ok:
  assumes "rmw_inv ninv owes x c" "small_clk clk"
  shows "ensures (rmw_tick_ctrl ops clk c) (\<lambda>(c', calls).
    rmw_inv ninv owes x c' \<and> (\<forall>(cb, a, t) \<in> set calls. t = clk))"
proof -
  obtain c1 calls where r: "rmw_tick_roq clk c = (c1, calls)" by fastforce
  note r' = rmw_tick_roq_ok [OF assms(1) r]
  from rmw_tick_lsq_ok [OF r'(1), of clk] obtain c2 where
    c2: "rmw_tick_lsq clk c1 = Inr c2" "rmw_inv ninv owes x c2" by (auto simp: ensures_iff)
  from rmw_tick_internal_buffer_ok [OF c2(2) assms(2)] obtain c3 where
    "rmw_tick_internal_buffer ops clk c2 = Inr c3" "rmw_inv ninv owes x c3" by (auto simp: ensures_iff)
  with r r'(2) c2 show ?thesis by (simp add: rmw_tick_ctrl_def)
qed

text \<open>A whole cycle: no error, the invariant afterwards, every wake-up delivered to its entry.\<close>

lemma rmw_tick_ok:
  assumes "rmw_inv ninv owes {#} c" "small_clk clk"
  shows "ensures (rmw_tick ops clk c) (\<lambda>(c', calls).
    rmw_inv ninv owes {#} c' \<and> (\<forall>(cb, a, t) \<in> set calls. t = clk))"
proof -
  from rmw_tick_ctrl_ok [OF assms] obtain c1 calls where
    c1: "rmw_tick_ctrl ops clk c = Inr (c1, calls)" "rmw_inv ninv owes {#} c1"
      "\<forall>(cb, a, t) \<in> set calls. t = clk" by (auto simp: ensures_iff)
  have n: "\<forall>n \<in> set (next_level_components c1). ninv n" using c1(2) by (simp add: rmw_inv_def rmw_ctx_def)
  from tick_list_ok [OF n assms(2)] tick_list_owes [OF n assms(2)] obtain ns nc where
    ns: "tick_list ops clk (next_level_components c1) = Inr (ns, nc)"
      "length ns = length (next_level_components c1)" "\<forall>n \<in> set ns. ninv n" "\<forall>(cb, a, t) \<in> set nc. t = clk"
      "all_owe owes (next_level_components c1) =
         all_owe owes ns + mset (map (\<lambda>(cb, a, t). (cb, rmw_translate_to_block_addr a)) nc)"
    by (auto simp: ensures_iff)
  have "rmw_inv ninv owes (mset (map (\<lambda>(cb, a, t). (cb, rmw_translate_to_block_addr a)) nc))
      (c1\<lparr>next_level_components := ns\<rparr>)"
    using c1(2) ns(2,3,5) by (simp add: rmw_inv_def)
  from rmw_run_calls_ok [OF this ns(4) assms(2)] c1 ns show ?thesis
    by (auto simp: rmw_tick_def static_tick_def ensures_iff)
qed

text \<open>The controller is itself a level that one can build on.\<close>

lemma rmw_ticking_level: "ticking_level (rmw_ops ops) (rmw_inv ninv owes {#})"
proof
  fix n and r :: base_request
  assume i: "rmw_inv ninv owes {#} n"
  note iss = rmw_issue_request_ok [OF i, of r]
  show "ensures (issue_request (rmw_ops ops) n r) (\<lambda>(n', r', issued, deterministic, next_clk).
      rmw_inv ninv owes {#} n' \<and> (issued \<longrightarrow> deterministic \<longrightarrow> next_clk \<noteq> clk_invalid))"
    using iss by (auto simp: rmw_ops_def elim!: ensures_mono)
  have q: "rq_wf (rmw_lsq n)" using i by (simp add: rmw_inv_def)
  show "ensures (full (rmw_ops ops) n) (\<lambda>b. True)"
    using rq.full_spec [OF q] by (simp add: rmw_ops_def rmw_full_def)
  show "ensures (issue_request (rmw_ops ops) n r) (\<lambda>(n', r', issued, deterministic, next_clk). issued)"
    if "full (rmw_ops ops) n = Inr False"
    using iss that rq.full_spec [OF q] q
    by (auto simp: rmw_ops_def rmw_full_def rq_wf_def elim!: ensures_mono)
  have ns: "\<forall>m \<in> set (next_level_components n). ensures (is_pending ops m) (\<lambda>b. True)"
    using i pending_ok by (simp add: rmw_inv_def rmw_ctx_def)
  show "ensures (is_pending (rmw_ops ops) n) (\<lambda>b. True)"
    using any_err_ensures [OF ns] by (auto simp: rmw_ops_def mc_pending_def elim!: ensures_mono)
  show "ensures (tick (rmw_ops ops) clk n) (\<lambda>(n', calls). rmw_inv ninv owes {#} n' \<and> (\<forall>(cb, a, t) \<in> set calls. t = clk))"
    if "small_clk clk" for clk
    using rmw_tick_ok [OF i that] by (simp add: rmw_ops_def)
qed

end

text \<open>A constant-latency memory is a next level of the controller.\<close>

interpretation rmw_static: rmw_next_level static_memory_ops static_wf "\<lambda>n. {#}"
  by unfold_locales

lemma rmw_inv_new:
  assumes "n < 2 ^ 64" "small_clk a2r" "small_clk r2a" "static_wf mem" "f = none_mapping \<or> f = stride_mapping_4096"
    and "ninv next" "w next = {#}"
  shows "rmw_inv ninv w {#} (connect_next next (new_rmw_controller f n q r a2r r2a mem))"
proof -
  let ?c = "connect_next next (new_rmw_controller f n q r a2r r2a mem)"
  have "mapping_ok ?c"
    using assms(5) by (auto intro: mapping_ok_none mapping_ok_stride simp: connect_next_def new_rmw_controller_def)
  then have "rmw_ctx ninv ?c"
    using assms by (simp add: rmw_ctx_def connect_next_def new_rmw_controller_def new_counter_declares)
  then show ?thesis
    using assms(1,7) by (simp add: rmw_inv_def connect_next_def new_rmw_controller_def all_owe_def new_internal_buffer_def buf_wf_def)
qed

end
