(* ===== verification/Rmw_Props.thy ===== *)
theory Rmw_Props
  imports Rmw_Inv
begin

text \<open>
  What the operations of the RMW controller do, branch by branch, under its invariant: when a
  request at the front of the queue is served and what is served with it, which entry is
  evicted, and two behaviours that its comments do not announce.
\<close>

section \<open>A concrete controller\<close>

text \<open>
  A one-entry RMW buffer over a constant-latency memory, and the state it is in after a run of
  interface calls: what the properties of this theory are applied to.
\<close>

definition rmw_example :: "static_memory rmw_controller" where
  "rmw_example = connect_next \<lparr>read_latency = 3, write_latency = 3\<rparr>
     (new_rmw_controller none_mapping 1 4 4 1 1 \<lparr>read_latency = 1, write_latency = 1\<rparr>)"

definition rmw_at :: "component_event list \<Rightarrow> static_memory rmw_controller" where
  "rmw_at evs = run_state (rmw_ops static_memory_ops) evs rmw_example"

abbreviation rmw_req :: "base_request_type \<Rightarrow> addr_t \<Rightarrow> base_request" where
  "rmw_req t a \<equiv> new_base_request t a 0 (Cb_client 1)"

text \<open>The events of a cold read of the second line of block zero that has been answered.\<close>

abbreviation read_cold_done :: "component_event list" where
  "read_cold_done \<equiv> Ev_issue (rmw_req Base_read 0x40) #
     [Ev_tick 0, Ev_tick 1, Ev_tick 2, Ev_tick 3, Ev_tick 4, Ev_tick 5]"

lemma rmw_example_inv: "rmw_inv static_wf (\<lambda>n. {#}) {#} rmw_example"
  unfolding rmw_example_def by (rule rmw_inv_new) (simp_all add: small_clk_def static_wf_def)

lemma rmw_at_inv: "list_all small_event evs \<Longrightarrow> rmw_inv static_wf (\<lambda>n. {#}) {#} (rmw_at evs)"
  unfolding rmw_at_def by (rule ticking_level.run_state_ok [OF rmw_static.rmw_ticking_level rmw_example_inv])

lemma rmw_static_level: "rmw_next_level static_memory_ops static_wf (\<lambda>n. {#})"
  by unfold_locales

section \<open>Room in the buffer\<close>

definition rmw_room :: "'n rmw_controller \<Rightarrow> bool" where
  "rmw_room c \<longleftrightarrow> \<not> buf_full (rmw_buffer c) \<or> evictable (\<lambda>e. state e = Rmw_end) (entry_map (rmw_buffer c))"

lemma rmw_check_and_evict_room:
  assumes "rmw_inv ninv w x c"
  shows "\<exists>c'. rmw_check_and_evict c = Inr (rmw_room c, c')"
proof -
  obtain v cl where s: "lru_scan (\<lambda>e. state e = Rmw_end) (entry_map (rmw_buffer c))
      (addr_invalid, clk_invalid) = (v, cl)" by fastforce
  have "\<forall>(k, e) \<in> set (entry_map (rmw_buffer c)). k \<noteq> addr_invalid"
    using assms rmwb.translate_neq_invalid by (intro buf_wf_key_valid) (auto simp: rmw_inv_def)
  from lru_scan_evictable [OF this, of "\<lambda>e. state e = Rmw_end"]
  have v: "v \<noteq> addr_invalid \<longleftrightarrow> evictable (\<lambda>e. state e = Rmw_end) (entry_map (rmw_buffer c))"
    using s by simp
  have ne: "\<not> rmw_evicting c" using assms by (simp add: rmw_inv_def rmw_ctx_def)
  have "rmw_ctx ninv (c\<lparr>rmw_buffer := b\<rparr>)" for b using rmw_inv_ctx [OF assms] by simp
  from rmw_event_eq [OF this] show ?thesis
    using s v ne by (auto simp: rmw_check_and_evict_def rmw_room_def Let_def)
qed

text \<open>C29: \<open>check_and_evict\<close> makes room exactly when the buffer is not full or an ended entry can be
  removed; then the removed entry is a least recently used one among the ended entries, and a
  request in flight is never evicted. Without room nothing changes.\<close>

theorem rmw_eviction:
  assumes "rmw_inv ninv w x c"
  shows "ensures (rmw_check_and_evict c) (\<lambda>(room, c').
    room = rmw_room c \<and> rmw_inv ninv w x c' \<and>
    (if room then \<not> buf_full (rmw_buffer c') \<and> (c' = c \<or> buf_full (rmw_buffer c) \<and> rmw_evicted c c') else c' = c))"
proof -
  obtain c' where "rmw_check_and_evict c = Inr (rmw_room c, c')"
    using rmw_check_and_evict_room [OF assms] by blast
  moreover have "\<not> buf_full (rmw_buffer c) \<Longrightarrow> rmw_check_and_evict c = Inr (True, c)"
    by (simp add: rmw_check_and_evict_def)
  ultimately show ?thesis
    using rmw_check_and_evict_ok [OF assms] by (cases "rmw_room c") auto
qed

theorem rmw_eviction_witness:
  "rmw_room (rmw_at read_cold_done) \<and> buf_full (rmw_buffer (rmw_at read_cold_done)) \<and>
   ensures (rmw_check_and_evict (rmw_at read_cold_done)) (\<lambda>(room, c'). room \<and> \<not> buf_full (rmw_buffer c'))"
proof -
  have a: "rmw_room (rmw_at read_cold_done) \<and> buf_full (rmw_buffer (rmw_at read_cold_done))" by code_simp
  have "list_all small_event read_cold_done" by (simp add: small_clk_def)
  from ensures_mono [OF rmw_eviction [OF rmw_at_inv [OF this]],
      where Q = "\<lambda>(room, c'). room \<and> \<not> buf_full (rmw_buffer c')"] a
  show ?thesis by (auto split: prod.splits)
qed

section \<open>Writes\<close>

text \<open>C25: The write-combining loop takes out of the queue exactly the writes to the block that come
  before the first read of the block, keeps every other request in its place, and sets the bit of
  a cache line when one of these writes hits it: all four bits when they cover the block.\<close>

theorem rmw_write_combining:
  "mset q = mset (fst (rmw_combine k q 0)) + mset (rmw_combined k q) \<and>
   fst (rmw_combine k q 0) =
     filter (\<lambda>r. rmw_translate_to_block_addr (req_addr r) \<noteq> k) (takeWhile (\<lambda>r. \<not> rmw_stops k r) q)
     @ dropWhile (\<lambda>r. \<not> rmw_stops k r) q \<and>
   set (rmw_combined k q) \<subseteq>
     {r. req_type r = Base_write \<and> rmw_translate_to_block_addr (req_addr r) = k} \<and>
   {i. bit (snd (rmw_combine k q 0)) i} = (\<lambda>r. unat (rmw_block_offset_cl (req_addr r))) ` set (rmw_combined k q) \<and>
   (snd (rmw_combine k q 0) = rmw_block_hit_cl_bitmask) =
     ({0..<4} \<subseteq> (\<lambda>r. unat (rmw_block_offset_cl (req_addr r))) ` set (rmw_combined k q))"
proof -
  let ?l = "\<lambda>r. unat (rmw_block_offset_cl (req_addr r))"
  have bits: "{i. bit (snd (rmw_combine k q 0)) i} = ?l ` set (rmw_combined k q)"
    by (auto simp: rmw_combine_hit)
  moreover have "(snd (rmw_combine k q 0) = rmw_block_hit_cl_bitmask) = ({0..<4} \<subseteq> ?l ` set (rmw_combined k q))"
    unfolding rmw_full_hit_iff bits [symmetric] by auto
  moreover have "set (rmw_combined k q) \<subseteq>
      {r. req_type r = Base_write \<and> rmw_translate_to_block_addr (req_addr r) = k}"
    using rmw_combine_writes by (auto simp: rmw_combined_def)
  ultimately show ?thesis
    using rmw_combine_mset [of q k 0] rmw_combine_queue [of k q 0] by blast
qed

definition rmw_write_ready :: "addr_t \<Rightarrow> 'n rmw_controller \<Rightarrow> bool" where
  "rmw_write_ready a c \<longleftrightarrow>
     (case map_of (entry_map (rmw_buffer c)) (rmw_translate_to_block_addr a) of
        None \<Rightarrow> rmw_room c
      | Some e \<Rightarrow> \<not> pending e \<or>
          rmw_type (pending_request e) = Write_rmw \<and> (state e = Pending_read \<or> state e = Pending_modify))"

lemma rmw_write_waits:
  assumes "rmw_inv ninv w x c" "queue (rmw_lsq c) = req # rest" "\<not> rmw_write_ready (req_addr req) c"
  shows "rmw_tick_lsq_write clk c = Inr c"
proof (cases "map_of (entry_map (rmw_buffer c)) (rmw_translate_to_block_addr (req_addr req))")
  case None
  then have "\<not> rmw_room c" using assms(3) by (simp add: rmw_write_ready_def)
  then have "rmw_check_and_evict c = Inr (False, c)"
    using rmw_check_and_evict_room [OF assms(1)] rmw_check_and_evict_ok [OF assms(1)] by auto
  then show ?thesis using None assms(2)
    by (simp add: rmw_tick_lsq_write_def buf_find_def Let_def rmwb.translate_idem)
next
  case (Some e)
  then show ?thesis using assms(2,3)
    by (auto simp: rmw_tick_lsq_write_def buf_find_def Let_def rmwb.translate_idem rmw_write_ready_def)
qed

lemma rmw_write_goes:
  assumes "rmw_inv ninv w x c" "queue (rmw_lsq c) = req # rest" "req_type req = Base_write"
    and "rmw_write_ready (req_addr req) c" "rmw_tick_lsq_write clk c = Inr c'"
  shows "c' \<noteq> c"
proof
  assume "c' = c"
  let ?k = "rmw_translate_to_block_addr (req_addr req)"
  have len: "length (fst (rmw_combine ?k (queue (rmw_lsq c)) 0)) \<le> length rest"
    using assms(2,3) rmw_combine_length [of ?k rest] by (simp add: split_def)
  note facts = assms(2,3,5) \<open>c' = c\<close>
  have "queue (rmw_lsq c') = fst (rmw_combine ?k (queue (rmw_lsq c)) 0)"
  proof (cases "map_of (entry_map (rmw_buffer c)) ?k")
    case None
    then have "rmw_room c" using assms(4) by (simp add: rmw_write_ready_def)
    then obtain c1 where "rmw_check_and_evict c = Inr (True, c1)" "rmw_lsq c1 = rmw_lsq c"
      using rmw_check_and_evict_room [OF assms(1)] rmw_check_and_evict_ok [OF assms(1)] by auto
    then show ?thesis using None assms(2,5)
      by (auto simp: rmw_tick_lsq_write_def buf_find_def Let_def rmwb.translate_idem split_def
          ebind_eq_Inr rmw_event_def split: if_splits)
  next
    case (Some e)
    then show ?thesis using assms(2,4,5)
      by (auto simp: rmw_tick_lsq_write_def buf_find_def Let_def rmwb.translate_idem split_def
          rmw_write_ready_def ebind_eq_Inr rmw_event_def split: if_splits)
  qed
  then show False using len \<open>c' = c\<close> assms(2) by simp
qed

text \<open>C26: A write at the front of the queue is served in this cycle exactly when its block has no entry
  and there is room, or its entry is idle or can still be patched; it is served together with all
  writes that combine with it, and otherwise the controller does not change.\<close>

theorem rmw_write_service:
  assumes "rmw_inv ninv w x c" "queue (rmw_lsq c) = req # rest" "req_type req = Base_write"
  shows "ensures (rmw_tick_lsq clk c) (\<lambda>c'. rmw_inv ninv w x c' \<and>
    (if rmw_write_ready (req_addr req) c
     then queue (rmw_lsq c') =
       fst (rmw_combine (rmw_translate_to_block_addr (req_addr req)) (queue (rmw_lsq c)) 0)
     else c' = c))"
proof -
  have t: "rmw_tick_lsq clk c = rmw_tick_lsq_write clk c" using assms(2,3) by (simp add: rmw_tick_lsq_def)
  from rmw_tick_lsq_write_ok [OF assms(1,2), of clk] obtain c' where
    c': "rmw_tick_lsq_write clk c = Inr c'" "rmw_inv ninv w x c'" "c' = c \<or> queue (rmw_lsq c') =
      fst (rmw_combine (rmw_translate_to_block_addr (req_addr req)) (queue (rmw_lsq c)) 0)"
    by (auto simp: ensures_iff)
  then show ?thesis
    using t rmw_write_waits [OF assms(1,2), of clk] rmw_write_goes [OF assms, of clk c'] by auto
qed

theorem rmw_write_service_witness:
  "ensures (rmw_tick_lsq 7 (rmw_at [Ev_issue (rmw_req Base_write 0x40), Ev_issue (rmw_req Base_write 0x80)]))
     (\<lambda>c'. queue (rmw_lsq c') = [])"
proof -
  let ?c = "rmw_at [Ev_issue (rmw_req Base_write 0x40), Ev_issue (rmw_req Base_write 0x80)]"
  have "list_all small_event [Ev_issue (rmw_req Base_write 0x40), Ev_issue (rmw_req Base_write 0x80)]"
    by (simp add: small_clk_def)
  note inv = rmw_at_inv [OF this]
  have q: "queue (rmw_lsq ?c) = [rmw_req Base_write 0x40, rmw_req Base_write 0x80]" by code_simp
  have "rmw_write_ready (req_addr (rmw_req Base_write 0x40)) ?c"
    "fst (rmw_combine (rmw_translate_to_block_addr (req_addr (rmw_req Base_write 0x40))) (queue (rmw_lsq ?c)) 0) = []"
    by code_simp+
  then show ?thesis
    using rmw_write_service [OF inv q, of 7] by (auto elim!: ensures_mono)
qed

section \<open>Reads\<close>

definition rmw_read_ready :: "addr_t \<Rightarrow> 'n rmw_controller \<Rightarrow> bool" where
  "rmw_read_ready a c \<longleftrightarrow>
     (case map_of (entry_map (rmw_buffer c)) (rmw_translate_to_block_addr a) of
        None \<Rightarrow> rmw_room c
      | Some e \<Rightarrow>
          if pending e \<and> rmw_is_read (rmw_type (pending_request e))
          then length (pending_request_cl_index e) < rmw_block_size_cl
          else valid_to_read e)"

lemma rmw_read_entry:
  assumes "rmw_inv ninv w x c" "map_of (entry_map (rmw_buffer c)) k = Some e"
  shows "(pending e \<and> (rmw_type (pending_request e) = Read_cold \<or> rmw_type (pending_request e) = Read_ff)) =
      (pending e \<and> rmw_is_read (rmw_type (pending_request e)))"
    and "pending e \<and> rmw_is_read (rmw_type (pending_request e)) \<Longrightarrow> pending_request_cl_index e \<noteq> []"
    and "cb_bitmap e = 0"
  using rmw_inv_entry [OF assms] by (simp_all add: rmw_entry_ok_def rmw_is_read_def)

lemma rmw_read_waits:
  assumes "rmw_inv ninv w x c" "queue (rmw_lsq c) = req # rest" "\<not> rmw_read_ready (req_addr req) c"
  shows "rmw_tick_lsq_read clk c = Inr c"
proof (cases "map_of (entry_map (rmw_buffer c)) (rmw_translate_to_block_addr (req_addr req))")
  case None
  then have "\<not> rmw_room c" using assms(3) by (simp add: rmw_read_ready_def)
  then have "rmw_check_and_evict c = Inr (False, c)"
    using rmw_check_and_evict_room [OF assms(1)] rmw_check_and_evict_ok [OF assms(1)] by auto
  then show ?thesis using None assms(2) by (simp add: rmw_tick_lsq_read_def buf_find_def Let_def)
next
  case (Some e)
  then show ?thesis
    using rmw_read_entry [OF assms(1) Some] assms(2,3)
    by (cases "pending e \<and> rmw_is_read (rmw_type (pending_request e))")
      (auto simp: rmw_tick_lsq_read_def buf_find_def Let_def rmw_read_ready_def)
qed

lemma rmw_serve_read_queue:
  "rmw_serve_read patch key i req rest c = Inr c' \<Longrightarrow> queue (rmw_lsq c') = rest"
  by (auto simp: rmw_serve_read_def ebind_eq_Inr rmw_event_def split: option.splits)

lemma ebind_InrE:
  assumes "ebind m f = Inr y"
  obtains x where "f x = Inr y"
  using assms by (cases m) auto

lemma rmw_read_goes:
  assumes "rmw_inv ninv w x c" "queue (rmw_lsq c) = req # rest"
    and "rmw_read_ready (req_addr req) c" "rmw_tick_lsq_read clk c = Inr c'"
  shows "queue (rmw_lsq c') = rest"
proof (cases "map_of (entry_map (rmw_buffer c)) (rmw_translate_to_block_addr (req_addr req))")
  case None
  then have "rmw_room c" using assms(3) by (simp add: rmw_read_ready_def)
  then obtain c1 where "rmw_check_and_evict c = Inr (True, c1)"
    using rmw_check_and_evict_room [OF assms(1)] by auto
  then have "\<exists>m k i. rmw_tick_lsq_read clk c =
      ebind m (\<lambda>b. rmw_serve_read False k i req rest (c1\<lparr>rmw_buffer := b\<rparr>))"
    using None assms(2) by (auto simp: rmw_tick_lsq_read_def buf_find_def Let_def)
  then obtain m k i where "ebind m (\<lambda>b. rmw_serve_read False k i req rest (c1\<lparr>rmw_buffer := b\<rparr>)) = Inr c'"
    using assms(4) by metis
  then show ?thesis by (auto simp: ebind_eq_Inr dest: rmw_serve_read_queue)
next
  case (Some e)
  have "\<exists>p k i c2. rmw_serve_read p k i req rest c2 = Inr c'"
  proof (cases "pending e \<and> rmw_is_read (rmw_type (pending_request e))")
    case True
    have "rmw_tick_lsq_read clk c = ebind (rmw_event ''read_patch'' c) (\<lambda>b. rmw_serve_read True
        (rmw_translate_to_block_addr (req_addr req)) (ucast (rmw_block_offset_cl (req_addr req))) req rest b)"
      using rmw_read_entry [OF assms(1) Some] True Some assms(2,3)
      by (simp add: rmw_tick_lsq_read_def buf_find_def Let_def rmw_read_ready_def)
    then have "ebind (rmw_event ''read_patch'' c) (\<lambda>b. rmw_serve_read True
        (rmw_translate_to_block_addr (req_addr req)) (ucast (rmw_block_offset_cl (req_addr req))) req rest b) = Inr c'"
      using assms(4) by (simp only:)
    then obtain b where "rmw_serve_read True (rmw_translate_to_block_addr (req_addr req))
        (ucast (rmw_block_offset_cl (req_addr req))) req rest b = Inr c'"
      by (rule ebind_InrE)
    then show ?thesis by blast
  next
    case False
    have "\<exists>c2. rmw_tick_lsq_read clk c = rmw_serve_read False
        (rmw_translate_to_block_addr (req_addr req)) (ucast (rmw_block_offset_cl (req_addr req))) req rest c2"
      using rmw_read_entry(1) [OF assms(1) Some] False Some assms(2,3)
      by (auto simp: rmw_tick_lsq_read_def buf_find_def Let_def rmw_read_ready_def)
    then obtain c2 where "rmw_tick_lsq_read clk c = rmw_serve_read False
        (rmw_translate_to_block_addr (req_addr req)) (ucast (rmw_block_offset_cl (req_addr req))) req rest c2" ..
    then have "rmw_serve_read False (rmw_translate_to_block_addr (req_addr req))
        (ucast (rmw_block_offset_cl (req_addr req))) req rest c2 = Inr c'" using assms(4) by simp
    then show ?thesis by blast
  qed
  then show ?thesis using rmw_serve_read_queue by blast
qed

text \<open>C27: A read at the front of the queue is served in this cycle exactly when its block has no entry
  and there is room, or its entry is answering reads and has fewer than four outstanding, or its
  data is valid; then its callback and cache line are recorded in the entry of its block, and
  otherwise the controller does not change.\<close>

theorem rmw_read_service:
  assumes "rmw_inv ninv w x c" "queue (rmw_lsq c) = req # rest" "req_type req = Base_read"
  shows "ensures (rmw_tick_lsq clk c) (\<lambda>c'. rmw_inv ninv w x c' \<and>
    (if rmw_read_ready (req_addr req) c then rmw_read_served req c c' else c' = c))"
proof -
  have t: "rmw_tick_lsq clk c = rmw_tick_lsq_read clk c" using assms(2,3) by (simp add: rmw_tick_lsq_def)
  from rmw_tick_lsq_read_ok [OF assms(1,2), of clk] obtain c' where
    c': "rmw_tick_lsq_read clk c = Inr c'" "rmw_inv ninv w x c'" "c' = c \<or> rmw_read_served req c c'"
    by (auto simp: ensures_iff)
  then have "rmw_read_ready (req_addr req) c \<Longrightarrow> c' \<noteq> c"
    using rmw_read_goes [OF assms(1,2) _ c'(1)] assms(2) by auto
  then show ?thesis
    using t c' rmw_read_waits [OF assms(1,2), of clk] by auto
qed

theorem rmw_read_service_witness:
  "ensures (rmw_tick_lsq 7 (rmw_at [Ev_issue (rmw_req Base_read 0x40)])) (\<lambda>c'.
     rmw_read_served (rmw_req Base_read 0x40) (rmw_at [Ev_issue (rmw_req Base_read 0x40)]) c')"
proof -
  let ?c = "rmw_at [Ev_issue (rmw_req Base_read 0x40)]"
  have "list_all small_event [Ev_issue (rmw_req Base_read 0x40)]" by (simp add: small_clk_def)
  note inv = rmw_at_inv [OF this]
  have q: "queue (rmw_lsq ?c) = [rmw_req Base_read 0x40]" by code_simp
  have "rmw_read_ready (req_addr (rmw_req Base_read 0x40)) ?c" by code_simp
  then show ?thesis
    using rmw_read_service [OF inv q, of 7] by (auto elim!: ensures_mono)
qed

text \<open>A second read of the same cache line, taken while the first is outstanding, replaces the
  callback of the first: \<open>cb_bitmap\<close>, which guards against it, is never set. Two answers are then
  sent for the line, both to the second client.\<close>

theorem rmw_same_line_read_loses_callback:
  assumes "unat i < length (callbacks e)" "length (pending_request_cl_index e) + 2 \<le> rmw_block_size_cl"
  shows "ensures (ebind (rmw_assign_callback i cb1 e) (rmw_assign_callback i cb2)) (\<lambda>e'.
    cb_bitmap e' = cb_bitmap e \<and>
    pending_request_cl_index e' = pending_request_cl_index e @ [i, i] \<and>
    callbacks e' = (callbacks e)[unat i := cb2])"
  using assms by (simp add: rmw_assign_callback_def Let_def)

theorem rmw_same_line_read_loses_callback_witness:
  "ensures (ebind (rmw_assign_callback 1 (Cb_client 7) (new_rmw_entry 0 Read_cold 0x40 2))
      (rmw_assign_callback 1 (Cb_client 8)))
    (\<lambda>e'. pending_request_cl_index e' = [1, 1] \<and> callbacks e' = [Cb_null, Cb_client 8, Cb_null, Cb_null])"
proof -
  have "unat (1 :: 32 word) < length (callbacks (new_rmw_entry 0 Read_cold 0x40 2))"
    "length (pending_request_cl_index (new_rmw_entry 0 Read_cold 0x40 2)) + 2 \<le> rmw_block_size_cl"
    "callbacks (new_rmw_entry 0 Read_cold 0x40 2) = [Cb_null, Cb_null, Cb_null, Cb_null]"
    "pending_request_cl_index (new_rmw_entry 0 Read_cold 0x40 2) = []"
    by code_simp+
  then show ?thesis
    using rmw_same_line_read_loses_callback [of 1 "new_rmw_entry 0 Read_cold 0x40 2" "Cb_client 7" "Cb_client 8"]
    by (auto elim!: ensures_mono)
qed

section \<open>Drain\<close>

text \<open>In every state that the invariant describes, \<open>drain_current\<close> changes nothing: no entry is
  dirty once its request has ended, so that no \<open>flush_back\<close> request is ever created.\<close>

theorem rmw_drain_flushes_nothing:
  assumes "rmw_inv ninv w x c"
  shows "rmw_drain_current c = c \<and> list_all (\<lambda>(k, e). rmw_type (pending_request e) \<noteq> Flush_back) (entry_map (rmw_buffer c))"
proof -
  have "rmw_legal (rmw_type (pending_request e)) (state e)" if "(k, e) \<in> set (entry_map (rmw_buffer c))" for k e
    using assms that by (auto simp: rmw_inv_def rmw_entry_ok_def)
  then have "rmw_type (pending_request e) \<noteq> Flush_back" if "(k, e) \<in> set (entry_map (rmw_buffer c))" for k e
    using that by (cases "rmw_type (pending_request e)") force+
  then show ?thesis using rmw_drain_nothing [OF assms] by (auto simp: list_all_iff)
qed

theorem rmw_drain_flushes_nothing_witness:
  "entry_map (rmw_buffer (rmw_at read_cold_done)) \<noteq> [] \<and>
   rmw_drain_current (rmw_at read_cold_done) = rmw_at read_cold_done"
proof -
  have "entry_map (rmw_buffer (rmw_at read_cold_done)) \<noteq> []" by code_simp
  moreover have "list_all small_event read_cold_done" by (simp add: small_clk_def)
  ultimately show ?thesis using rmw_drain_flushes_nothing [OF rmw_at_inv] by blast
qed

section \<open>Transfers\<close>

text \<open>C5: One pass over the buffer keeps its keys, and every entry is left as it is or is strictly
  closer to its end; no transfer is undefined and no transfer fails, whatever the next level
  answers.\<close>

theorem rmw_buffer_progress:
  assumes "rmw_next_level ops ninv owes" "rmw_inv ninv owes x c" "small_clk clk"
  shows "ensures (rmw_tick_internal_buffer ops clk c) (\<lambda>c'. rmw_inv ninv owes x c' \<and>
    map fst (entry_map (rmw_buffer c')) = map fst (entry_map (rmw_buffer c)) \<and>
    (\<forall>l e'. map_of (entry_map (rmw_buffer c')) l = Some e' \<longrightarrow>
       (\<exists>e. map_of (entry_map (rmw_buffer c)) l = Some e \<and> (e' = e \<or> rmw_rank e' < rmw_rank e))))"
  unfolding rmw_tick_internal_buffer_def
  by (rule ensures_mono [OF rmw_next_level.rmw_tick_entries_ok [OF assms]]) auto

theorem rmw_buffer_progress_witness:
  "map_of (entry_map (rmw_buffer (rmw_at [Ev_issue (rmw_req Base_read 0x40), Ev_tick 0]))) 0 \<noteq> None \<and>
   ensures (rmw_tick_internal_buffer static_memory_ops 9 (rmw_at [Ev_issue (rmw_req Base_read 0x40), Ev_tick 0]))
     (\<lambda>c'. map fst (entry_map (rmw_buffer c')) = [0])"
proof -
  let ?evs = "[Ev_issue (rmw_req Base_read 0x40), Ev_tick 0]"
  have "list_all small_event ?evs" "small_clk 9" by (simp_all add: small_clk_def)
  note ok = rmw_buffer_progress [OF rmw_static_level rmw_at_inv [OF this(1)] this(2)]
  have k: "map fst (entry_map (rmw_buffer (rmw_at ?evs))) = [0]" by code_simp
  moreover have "map_of (entry_map (rmw_buffer (rmw_at ?evs))) 0 \<noteq> None" by code_simp
  ultimately show ?thesis using ok by (auto elim!: ensures_mono)
qed

text \<open>A cycle of the RMW buffer over any next level that keeps the contract ends without an error
  and keeps the invariant, in which what the next level owes is what the entries wait for.\<close>

theorem rmw_cycle_safe:
  assumes "rmw_next_level ops ninv owes" "rmw_inv ninv owes {#} c" "small_clk clk"
  shows "ensures (rmw_tick ops clk c) (\<lambda>(c', calls). rmw_inv ninv owes {#} c' \<and>
    all_owe owes (next_level_components c') = collect rmw_waits (entry_map (rmw_buffer c')))"
  by (rule ensures_mono [OF rmw_next_level.rmw_tick_ok [OF assms]]) (auto simp: rmw_inv_def)

theorem rmw_cycle_safe_witness:
  "ensures (rmw_tick static_memory_ops 9 (rmw_at [Ev_issue (rmw_req Base_read 0x40), Ev_tick 0]))
     (\<lambda>(c', calls). rmw_inv static_wf (\<lambda>n. {#}) {#} c')"
proof -
  let ?evs = "[Ev_issue (rmw_req Base_read 0x40), Ev_tick 0]"
  have "list_all small_event ?evs" "small_clk 9" by (simp_all add: small_clk_def)
  from ensures_mono [OF rmw_cycle_safe [OF rmw_static_level rmw_at_inv [OF this(1)] this(2)]]
  show ?thesis by (auto split: prod.splits)
qed

end
