(* ===== verification/Ait.thy ===== *)
theory Ait
  imports Buffer Static_Memory
begin

text \<open>
  The address indirection table of the NVDIMM, \<open>src/general/ait.h\<close> and \<open>src/general/ait.cpp\<close>:
  4096-byte entries, a load/store queue (\<open>lsq\<close>), a queue for the local memory (\<open>lmemq\<close>) that
  splits each 256-byte request into four sub-requests, the wear-levelling table, and the media
  as the next level. The local memory (state \<open>'m\<close>) and the media (state \<open>'n\<close>) are any
  components.
\<close>

section \<open>Requests and entries\<close>

datatype ait_request_type = Read_miss | Read_hit | Write_miss | Write_hit

datatype ait_request_state =
    Ait_init
  | Pending_read_media
  | Pending_write_media
  | Pending_read_dram
  | Pending_write_dram
  | Pending_migration
  | Ait_end

record ait_request =
  ait_type :: ait_request_type
  rmw_block_addr :: addr_t
  ait_arrive :: clk_t

record ait_entry = entry_base +
  rmw_bitmap :: "16 word"
  ait_cb :: callback
  ait_pending_request :: ait_request
  ait_state :: ait_request_state

definition new_ait_entry :: "clk_t \<Rightarrow> ait_request_type \<Rightarrow> addr_t \<Rightarrow> 32 word \<Rightarrow> ait_entry" where
  "new_ait_entry curr_clk type addr rmw_block_bitmap =
     \<lparr>last_used_clk = curr_clk, next_action_clk = clk_invalid, buffer_index = 0,
      pending = True, waiting_action_clk_update = True, valid_to_read = False, dirty = False,
      rmw_bitmap = ucast rmw_block_bitmap, ait_cb = Cb_null,
      ait_pending_request = \<lparr>ait_type = type, rmw_block_addr = addr, ait_arrive = curr_clk\<rparr>,
      ait_state = Ait_init\<rparr>"

definition ait_assign_new_request ::
  "clk_t \<Rightarrow> ait_request_type \<Rightarrow> addr_t \<Rightarrow> 32 word \<Rightarrow> ait_entry \<Rightarrow> vans_error + ait_entry" where
  "ait_assign_new_request curr_clk type addr rmw_block_bitmap e =
     (if pending e
      then Inl (Runtime_error ''Internal error, assigning new request to a pending request.'')
      else Inr (e\<lparr>pending := True, waiting_action_clk_update := True, valid_to_read := False,
             rmw_bitmap := ucast rmw_block_bitmap, ait_state := Ait_init,
             ait_pending_request := \<lparr>ait_type = type, rmw_block_addr = addr, ait_arrive = curr_clk\<rparr>\<rparr>))"

definition ait_assign_callback :: "callback \<Rightarrow> ait_entry \<Rightarrow> ait_entry" where
  "ait_assign_callback cb e = e\<lparr>ait_cb := cb\<rparr>"

section \<open>The indirection table\<close>

text \<open>
  \<open>operator[]\<close> of the hash map creates a missing entry with a count of zero, also when
  \<open>check_wear_leveling\<close> only reads. A threshold of zero is a division by zero.
\<close>

record indirection_table =
  write_cnt :: "addr_t \<rightharpoonup> 64 word"
  wear_leveling_threshold :: "64 word"
  migration_block_entries :: "64 word"
  migration_latency :: clk_t

definition table_at :: "addr_t \<Rightarrow> indirection_table \<Rightarrow> 64 word" where
  "table_at addr t = (case write_cnt t addr of None \<Rightarrow> 0 | Some n \<Rightarrow> n)"

definition record_write :: "addr_t \<Rightarrow> indirection_table \<Rightarrow> indirection_table" where
  "record_write rmw_addr t =
     (let ait_block_addr = ait_translate_to_block_addr rmw_addr in
      t\<lparr>write_cnt := (write_cnt t)(ait_block_addr \<mapsto> table_at ait_block_addr t + 1)\<rparr>)"

definition check_wear_leveling ::
  "addr_t \<Rightarrow> indirection_table \<Rightarrow> vans_error + clk_t \<times> indirection_table" where
  "check_wear_leveling addr t =
     (if wear_leveling_threshold t = 0 then Inl Undefined_behaviour
      else Inr
       (if (table_at addr t + 1) mod wear_leveling_threshold t = 0
        then migration_block_entries t * migration_latency t else 0,
        t\<lparr>write_cnt := (write_cnt t)(addr \<mapsto> table_at addr t)\<rparr>))"

section \<open>The controller\<close>

record lmemq_state_t =
  subreq_pending_index :: int
  subreq_served :: "bool list"
  pending_front :: bool

definition subreq_cnt :: int where
  "subreq_cnt = 4"

record ('n, 'm) ait_controller = "'n memory_controller" +
  ait_buffer :: "ait_entry internal_buffer"
  ait_table :: indirection_table
  ait_lsq :: base_request_queue
  ait_lmemq :: base_request_queue
  lmemq_state :: lmemq_state_t
  ait_evicting :: bool
  ait_cnt_events :: counter
  ait_cnt_duration :: counter
  ait_local_memory :: 'm

definition ait_event_names :: "string list" where
  "ait_event_names =
     [''read_access'', ''write_access'', ''eviction'', ''migration'', ''read_miss'', ''read_hit'',
      ''write_miss'', ''write_hit'', ''lmem_read_access'', ''lmem_write_access'',
      ''local_memory_issue_fail'']"

definition ait_duration_names :: "string list" where
  "ait_duration_names =
     [''w_miss_prm'', ''w_miss_pwd'', ''w_miss_pm'', ''w_miss_pwm'', ''w_hit_pwd'', ''w_hit_pm'',
      ''w_hit_pwm'', ''r_miss_prm'', ''r_miss_prd'', ''r_hit_prd'']"

definition new_ait_controller ::
  "component_mapping_f \<Rightarrow> nat \<Rightarrow> nat \<Rightarrow> nat \<Rightarrow> 64 word \<Rightarrow> 64 word \<Rightarrow> clk_t \<Rightarrow> 'm \<Rightarrow> ('n, 'm) ait_controller" where
  "new_ait_controller f buffer_entries lsq_entries lmemq_entries threshold block_entries latency memory =
     \<lparr>mapping_func = f, next_level_components = [], is_draining = False,
      ait_buffer = new_internal_buffer buffer_entries,
      ait_table = \<lparr>write_cnt = Map.empty, wear_leveling_threshold = threshold,
        migration_block_entries = block_entries, migration_latency = latency\<rparr>,
      ait_lsq = new_request_queue lsq_entries, ait_lmemq = new_request_queue lmemq_entries,
      lmemq_state = \<lparr>subreq_pending_index = -1, subreq_served = [False, False, False, False],
        pending_front = False\<rparr>,
      ait_evicting = False,
      ait_cnt_events = new_counter ''ait'' ''events'' ait_event_names,
      ait_cnt_duration = new_counter ''ait'' ''state_duration'' ait_duration_names,
      ait_local_memory = memory\<rparr>"

definition ait_event :: "string \<Rightarrow> ('n, 'm) ait_controller \<Rightarrow> vans_error + ('n, 'm) ait_controller" where
  "ait_event name c =
     ebind (counter_add name 1 (ait_cnt_events c)) (\<lambda>cnt. Inr (c\<lparr>ait_cnt_events := cnt\<rparr>))"

definition ait_duration ::
  "string \<Rightarrow> clk_t \<Rightarrow> ait_entry \<Rightarrow> ('n, 'm) ait_controller \<Rightarrow> vans_error + ('n, 'm) ait_controller" where
  "ait_duration name curr_clk entry c =
     ebind (counter_add name (curr_clk - last_used_clk entry) (ait_cnt_duration c))
       (\<lambda>cnt. Inr (c\<lparr>ait_cnt_duration := cnt\<rparr>))"

definition ait_check_and_evict ::
  "('n, 'm) ait_controller \<Rightarrow> vans_error + bool \<times> ('n, 'm) ait_controller" where
  "ait_check_and_evict c =
     (if \<not> buf_full (ait_buffer c) then Inr (True, c)
      else if ait_evicting c then Inr (False, c)
      else let (oldest_addr, oldest_clk) =
             lru_scan (\<lambda>e. ait_state e = Ait_end) (entry_map (ait_buffer c)) (addr_invalid, clk_invalid) in
        if oldest_addr = addr_invalid then Inr (False, c)
        else ebind (ait_event ''eviction''
               (c\<lparr>ait_buffer := buf_erase ait_translate_to_block_addr oldest_addr (ait_buffer c)\<rparr>))
             (\<lambda>c. Inr (True, c)))"

definition ait_issue_request ::
  "('n, 'm) ait_controller \<Rightarrow> base_request
   \<Rightarrow> vans_error + ('n, 'm) ait_controller \<times> base_request \<times> base_response" where
  "ait_issue_request c request =
     ebind (rq_enqueue request (ait_lsq c)) (\<lambda>(issued, q).
       Inr (c\<lparr>ait_lsq := q\<rparr>, request, issued, False, clk_invalid))"

definition ait_drain_current :: "('n, 'm) ait_controller \<Rightarrow> ('n, 'm) ait_controller" where
  "ait_drain_current c = c"

definition ait_pending_current :: "('n, 'm) ait_controller \<Rightarrow> bool" where
  "ait_pending_current c =
     (rq_pending (ait_lsq c) \<or> buf_pending (ait_buffer c) \<or> rq_pending (ait_lmemq c))"

definition ait_full :: "('n, 'm) ait_controller \<Rightarrow> vans_error + bool" where
  "ait_full c = rq_full (ait_lsq c)"

section \<open>State transfers\<close>

definition ait_issue_next_level ::
  "base_request_type \<Rightarrow> 'n component_ops \<Rightarrow> nat \<Rightarrow> ait_entry \<Rightarrow> clk_t \<Rightarrow> ('n, 'm) ait_controller
   \<Rightarrow> vans_error + ('n, 'm) ait_controller \<times> base_response" where
  "ait_issue_next_level type ops next entry curr_clk c =
     ebind (next_issue ops next
        (new_base_request type (ait_translate_to_block_addr (rmw_block_addr (ait_pending_request entry)))
           curr_clk Cb_ait_next_level_read) c)
       (\<lambda>(c, req, resp). Inr (c, resp))"

definition ait_issue_lmemq ::
  "ait_entry \<Rightarrow> base_request_type \<Rightarrow> clk_t \<Rightarrow> ('n, 'm) ait_controller
   \<Rightarrow> vans_error + ('n, 'm) ait_controller \<times> base_response" where
  "ait_issue_lmemq entry type curr_clk c =
     ebind (rq_enqueue (new_base_request type (rmw_block_addr (ait_pending_request entry)) curr_clk Cb_null)
        (ait_lmemq c)) (\<lambda>(issued, q). Inr (c\<lparr>ait_lmemq := q\<rparr>, issued, False, clk_invalid))"

text \<open>The callback at the end of a request: invoked when it is not empty.\<close>

definition ait_run_cb :: "ait_entry \<Rightarrow> clk_t \<Rightarrow> call list" where
  "ait_run_cb entry curr_clk =
     invoke_callback (ait_cb entry) (rmw_block_addr (ait_pending_request entry)) curr_clk"

type_synonym ('n, 'm) ait_trans =
  "'n component_ops \<Rightarrow> addr_t \<Rightarrow> ait_entry \<Rightarrow> clk_t \<Rightarrow> ('n, 'm) ait_controller \<Rightarrow>
   vans_error + ('n, 'm) ait_controller \<times> ait_entry \<times> call list"

definition ait_write_miss_init :: "('n, 'm) ait_trans" where
  "ait_write_miss_init ops block_addr entry curr_clk c =
     ebind (get_next_level block_addr c) (\<lambda>(next_addr, next).
     ebind (ait_issue_next_level Base_read ops next entry curr_clk c) (\<lambda>(c, issued, deterministic, next_clk).
       if \<not> issued then ebind (ait_event ''next_level_issue_fail'' c) (\<lambda>c. Inr (c, entry, []))
       else ebind (ait_event ''write_miss'' c) (\<lambda>c.
         Inr (c, entry\<lparr>pending := True, dirty := True, ait_state := Pending_read_media,
           valid_to_read := False, last_used_clk := curr_clk, waiting_action_clk_update := \<not> deterministic,
           next_action_clk := (if deterministic then next_clk else clk_invalid)\<rparr>, []))))"

definition ait_write_miss_pending_read_media :: "('n, 'm) ait_trans" where
  "ait_write_miss_pending_read_media ops block_addr entry curr_clk c =
     ebind (ait_issue_lmemq entry Base_write curr_clk c) (\<lambda>(c, issued, deterministic, next_clk).
       if \<not> issued then ebind (ait_event ''local_memory_issue_fail'' c) (\<lambda>c. Inr (c, entry, []))
       else ebind (ait_duration ''w_miss_prm'' curr_clk entry c) (\<lambda>c.
         Inr (c, entry\<lparr>ait_state := Pending_write_dram, last_used_clk := curr_clk,
           waiting_action_clk_update := \<not> deterministic,
           next_action_clk := (if deterministic then next_clk else clk_invalid)\<rparr>, [])))"

definition ait_write_miss_pending_write_dram :: "('n, 'm) ait_trans" where
  "ait_write_miss_pending_write_dram ops block_addr entry curr_clk c =
     ebind (check_wear_leveling block_addr (ait_table c)) (\<lambda>(wear_leveling_delay, t).
     ebind (ait_duration ''w_miss_pwd'' curr_clk entry (c\<lparr>ait_table := t\<rparr>)) (\<lambda>c.
     ebind (if wear_leveling_delay \<noteq> 0 then ait_event ''migration'' c else Inr c) (\<lambda>c.
       Inr (c, entry\<lparr>ait_state := Pending_migration, valid_to_read := True, last_used_clk := curr_clk,
         waiting_action_clk_update := False,
         next_action_clk := curr_clk + 1 + wear_leveling_delay\<rparr>, []))))"

definition ait_write_miss_pending_migration :: "('n, 'm) ait_trans" where
  "ait_write_miss_pending_migration ops block_addr entry curr_clk c =
     ebind (get_next_level block_addr c) (\<lambda>(next_addr, next).
     ebind (ait_issue_next_level Base_write ops next entry curr_clk c) (\<lambda>(c, issued, deterministic, next_clk).
       if \<not> issued then ebind (ait_event ''next_level_issue_fail'' c) (\<lambda>c. Inr (c, entry, []))
       else ebind (ait_duration ''w_miss_pm'' curr_clk entry c) (\<lambda>c.
         Inr (c, entry\<lparr>ait_state := Pending_write_media, last_used_clk := curr_clk,
           waiting_action_clk_update := \<not> deterministic,
           next_action_clk := (if deterministic then next_clk else clk_invalid)\<rparr>, []))))"

definition ait_write_miss_pending_write_media :: "('n, 'm) ait_trans" where
  "ait_write_miss_pending_write_media ops block_addr entry curr_clk c =
     ebind (ait_duration ''w_miss_pwm'' curr_clk entry c) (\<lambda>c.
       Inr (c, entry\<lparr>ait_state := Ait_end, pending := False, dirty := False, last_used_clk := curr_clk\<rparr>,
         ait_run_cb entry curr_clk))"

definition ait_write_hit_init :: "('n, 'm) ait_trans" where
  "ait_write_hit_init ops block_addr entry curr_clk c =
     ebind (ait_issue_lmemq entry Base_write curr_clk c) (\<lambda>(c, issued, deterministic, next_clk).
       if \<not> issued then ebind (ait_event ''local_memory_issue_fail'' c) (\<lambda>c. Inr (c, entry, []))
       else ebind (ait_event ''write_hit'' c) (\<lambda>c.
         Inr (c, entry\<lparr>ait_state := Pending_write_dram, pending := True, dirty := True, valid_to_read := False,
           last_used_clk := curr_clk, waiting_action_clk_update := \<not> deterministic,
           next_action_clk := (if deterministic then next_clk else clk_invalid)\<rparr>, [])))"

definition ait_write_hit_pending_write_dram :: "('n, 'm) ait_trans" where
  "ait_write_hit_pending_write_dram ops block_addr entry curr_clk c =
     ebind (check_wear_leveling block_addr (ait_table c)) (\<lambda>(wear_leveling_delay, t).
     ebind (ait_duration ''w_hit_pwd'' curr_clk entry (c\<lparr>ait_table := t\<rparr>)) (\<lambda>c.
     ebind (if wear_leveling_delay \<noteq> 0 then ait_event ''migration'' c else Inr c) (\<lambda>c.
       Inr (c, entry\<lparr>ait_state := Pending_migration, valid_to_read := True, last_used_clk := curr_clk,
         waiting_action_clk_update := False,
         next_action_clk := curr_clk + 1 + wear_leveling_delay\<rparr>, []))))"

definition ait_write_hit_pending_migration :: "('n, 'm) ait_trans" where
  "ait_write_hit_pending_migration ops block_addr entry curr_clk c =
     ebind (get_next_level block_addr c) (\<lambda>(next_addr, next).
     ebind (ait_issue_next_level Base_write ops next entry curr_clk c) (\<lambda>(c, issued, deterministic, next_clk).
       if \<not> issued then ebind (ait_event ''next_level_issue_fail'' c) (\<lambda>c. Inr (c, entry, []))
       else ebind (ait_duration ''w_hit_pm'' curr_clk entry c) (\<lambda>c.
         Inr (c, entry\<lparr>ait_state := Pending_write_media, last_used_clk := curr_clk,
           waiting_action_clk_update := \<not> deterministic,
           next_action_clk := (if deterministic then next_clk else clk_invalid)\<rparr>, []))))"

definition ait_write_hit_pending_write_media :: "('n, 'm) ait_trans" where
  "ait_write_hit_pending_write_media ops block_addr entry curr_clk c =
     ebind (ait_duration ''w_hit_pwm'' curr_clk entry c) (\<lambda>c.
       Inr (c, entry\<lparr>ait_state := Ait_end, pending := False, dirty := False, last_used_clk := curr_clk\<rparr>,
         ait_run_cb entry curr_clk))"

definition ait_read_miss_init :: "('n, 'm) ait_trans" where
  "ait_read_miss_init ops block_addr entry curr_clk c =
     ebind (get_next_level block_addr c) (\<lambda>(next_addr, next).
     ebind (ait_issue_next_level Base_read ops next entry curr_clk c) (\<lambda>(c, issued, deterministic, next_clk).
       if \<not> issued then ebind (ait_event ''next_level_issue_fail'' c) (\<lambda>c. Inr (c, entry, []))
       else ebind (ait_event ''read_miss'' c) (\<lambda>c.
         Inr (c, entry\<lparr>ait_state := Pending_read_media, pending := True, dirty := False,
           valid_to_read := False, waiting_action_clk_update := \<not> deterministic,
           next_action_clk := (if deterministic then next_clk else clk_invalid),
           last_used_clk := curr_clk\<rparr>, []))))"

definition ait_read_miss_pending_read_media :: "('n, 'm) ait_trans" where
  "ait_read_miss_pending_read_media ops block_addr entry curr_clk c =
     ebind (ait_issue_lmemq entry Base_read curr_clk c) (\<lambda>(c, issued, deterministic, next_clk).
       if \<not> issued then ebind (ait_event ''local_memory_issue_fail'' c) (\<lambda>c. Inr (c, entry, []))
       else ebind (ait_duration ''r_miss_prm'' curr_clk entry c) (\<lambda>c.
         Inr (c, entry\<lparr>ait_state := Pending_read_dram, valid_to_read := True, last_used_clk := curr_clk,
           waiting_action_clk_update := \<not> deterministic,
           next_action_clk := (if deterministic then next_clk else clk_invalid)\<rparr>, [])))"

definition ait_read_miss_pending_read_dram :: "('n, 'm) ait_trans" where
  "ait_read_miss_pending_read_dram ops block_addr entry curr_clk c =
     ebind (ait_duration ''r_miss_prd'' curr_clk entry c) (\<lambda>c.
       Inr (c, entry\<lparr>ait_state := Ait_end, pending := False, last_used_clk := curr_clk\<rparr>,
         ait_run_cb entry curr_clk))"

definition ait_read_hit_init :: "('n, 'm) ait_trans" where
  "ait_read_hit_init ops block_addr entry curr_clk c =
     ebind (ait_issue_lmemq entry Base_read curr_clk c) (\<lambda>(c, issued, deterministic, next_clk).
       if \<not> issued then ebind (ait_event ''local_memory_issue_fail'' c) (\<lambda>c. Inr (c, entry, []))
       else ebind (ait_event ''read_hit'' c) (\<lambda>c.
         Inr (c, entry\<lparr>ait_state := Pending_read_dram, pending := True, valid_to_read := True,
           last_used_clk := curr_clk, waiting_action_clk_update := \<not> deterministic,
           next_action_clk := (if deterministic then next_clk else clk_invalid)\<rparr>, [])))"

definition ait_read_hit_pending_read_dram :: "('n, 'm) ait_trans" where
  "ait_read_hit_pending_read_dram ops block_addr entry curr_clk c =
     ebind (ait_duration ''r_hit_prd'' curr_clk entry c) (\<lambda>c.
       Inr (c, entry\<lparr>pending := False, ait_state := Ait_end, last_used_clk := curr_clk\<rparr>,
         ait_run_cb entry curr_clk))"

fun ait_state_trans :: "ait_request_type \<Rightarrow> ait_request_state \<Rightarrow> ('n, 'm) ait_trans option" where
  "ait_state_trans Write_miss Ait_init = Some ait_write_miss_init"
| "ait_state_trans Write_miss Pending_read_media = Some ait_write_miss_pending_read_media"
| "ait_state_trans Write_miss Pending_write_dram = Some ait_write_miss_pending_write_dram"
| "ait_state_trans Write_miss Pending_migration = Some ait_write_miss_pending_migration"
| "ait_state_trans Write_miss Pending_write_media = Some ait_write_miss_pending_write_media"
| "ait_state_trans Write_hit Ait_init = Some ait_write_hit_init"
| "ait_state_trans Write_hit Pending_write_dram = Some ait_write_hit_pending_write_dram"
| "ait_state_trans Write_hit Pending_migration = Some ait_write_hit_pending_migration"
| "ait_state_trans Write_hit Pending_write_media = Some ait_write_hit_pending_write_media"
| "ait_state_trans Read_miss Ait_init = Some ait_read_miss_init"
| "ait_state_trans Read_miss Pending_read_media = Some ait_read_miss_pending_read_media"
| "ait_state_trans Read_miss Pending_read_dram = Some ait_read_miss_pending_read_dram"
| "ait_state_trans Read_hit Ait_init = Some ait_read_hit_init"
| "ait_state_trans Read_hit Pending_read_dram = Some ait_read_hit_pending_read_dram"
| "ait_state_trans _ _ = None"

section \<open>Ticks\<close>

text \<open>A served request hands its callback to the entry and leaves the queue.\<close>

definition ait_serve ::
  "string \<Rightarrow> addr_t \<Rightarrow> base_request \<Rightarrow> base_request list \<Rightarrow> ('n, 'm) ait_controller
   \<Rightarrow> vans_error + ('n, 'm) ait_controller" where
  "ait_serve cnt key front_req rest c =
     (case map_of (entry_map (ait_buffer c)) key of
        None \<Rightarrow> Inl Undefined_behaviour
      | Some entry \<Rightarrow>
          ait_event cnt
            (c\<lparr>ait_buffer := buf_set key (ait_assign_callback (req_callback front_req) entry) (ait_buffer c),
               ait_lsq := (ait_lsq c)\<lparr>queue := rest\<rparr>\<rparr>))"

definition ait_tick_lsq_read ::
  "clk_t \<Rightarrow> ('n, 'm) ait_controller \<Rightarrow> vans_error + ('n, 'm) ait_controller" where
  "ait_tick_lsq_read curr_clk c =
     (case queue (ait_lsq c) of
        [] \<Rightarrow> Inl Undefined_behaviour
      | front_req # rest \<Rightarrow>
          let rmw_addr = rmw_translate_to_block_addr (req_addr front_req);
              ait_addr = ait_translate_to_block_addr rmw_addr in
          ebind (shl_1U (ait_block_offset_rmw rmw_addr)) (\<lambda>bitmap.
          case buf_find ait_translate_to_block_addr ait_addr (ait_buffer c) of
            None \<Rightarrow>
              ebind (ait_check_and_evict c) (\<lambda>(room, c).
                if room
                then ebind (buf_insert ait_translate_to_block_addr ait_addr
                              (new_ait_entry curr_clk Read_miss rmw_addr bitmap) (ait_buffer c))
                       (\<lambda>b. ait_serve ''read_access'' ait_addr front_req rest (c\<lparr>ait_buffer := b\<rparr>))
                else Inr c)
          | Some entry \<Rightarrow>
              if valid_to_read entry \<and> \<not> pending entry
              then ebind (ait_assign_new_request curr_clk Read_hit rmw_addr bitmap entry) (\<lambda>entry.
                     ait_serve ''read_access'' ait_addr front_req rest
                       (c\<lparr>ait_buffer := buf_set ait_addr entry (ait_buffer c)\<rparr>))
              else Inr c))"

definition ait_tick_lsq_write ::
  "clk_t \<Rightarrow> ('n, 'm) ait_controller \<Rightarrow> vans_error + ('n, 'm) ait_controller" where
  "ait_tick_lsq_write curr_clk c =
     (case queue (ait_lsq c) of
        [] \<Rightarrow> Inl Undefined_behaviour
      | front_req # rest \<Rightarrow>
          let rmw_addr = rmw_translate_to_block_addr (req_addr front_req);
              ait_addr = ait_translate_to_block_addr rmw_addr in
          ebind (shl_1U (ait_block_offset_rmw rmw_addr)) (\<lambda>bitmap.
          case map_of (entry_map (ait_buffer c)) ait_addr of
            None \<Rightarrow>
              ebind (ait_check_and_evict c) (\<lambda>(room, c).
                if room
                then ebind (buf_insert ait_translate_to_block_addr ait_addr
                              (new_ait_entry curr_clk Write_miss rmw_addr bitmap) (ait_buffer c))
                       (\<lambda>b. ait_serve ''write_access'' ait_addr front_req rest
                              (c\<lparr>ait_buffer := b, ait_table := record_write rmw_addr (ait_table c)\<rparr>))
                else Inr c)
          | Some entry \<Rightarrow>
              if \<not> pending entry
              then ebind (ait_assign_new_request curr_clk Write_hit rmw_addr bitmap entry) (\<lambda>entry.
                     ait_serve ''write_access'' ait_addr front_req rest
                       (c\<lparr>ait_buffer := buf_set ait_addr entry (ait_buffer c),
                          ait_table := record_write rmw_addr (ait_table c)\<rparr>))
              else Inr c))"

definition ait_tick_lsq ::
  "clk_t \<Rightarrow> ('n, 'm) ait_controller \<Rightarrow> vans_error + ('n, 'm) ait_controller" where
  "ait_tick_lsq curr_clk c =
     (case queue (ait_lsq c) of
        [] \<Rightarrow> Inr c
      | front_req # rest \<Rightarrow>
          (case req_type front_req of
             Base_read \<Rightarrow> ait_tick_lsq_read curr_clk c
           | Base_write \<Rightarrow> ait_tick_lsq_write curr_clk c))"

text \<open>The callback of a sub-request marks its cache line as served.\<close>

definition ait_lmemq_callback :: "addr_t \<Rightarrow> ('n, 'm) ait_controller \<Rightarrow> ('n, 'm) ait_controller" where
  "ait_lmemq_callback addr c =
     c\<lparr>lmemq_state := (lmemq_state c)
        \<lparr>subreq_served := (subreq_served (lmemq_state c))[unat (rmw_block_offset_cl addr) := True]\<rparr>\<rparr>"

text \<open>The first part of \<open>tick_lmemq\<close>: set up the request at the front of the queue.\<close>

definition ait_lmemq_setup :: "('n, 'm) ait_controller \<Rightarrow> ('n, 'm) ait_controller" where
  "ait_lmemq_setup c =
     (if pending_front (lmemq_state c) then c
      else let c = (if subreq_served (lmemq_state c) ! 0
                    then c\<lparr>ait_lmemq := (ait_lmemq c)\<lparr>queue := tl (queue (ait_lmemq c))\<rparr>\<rparr> else c) in
           c\<lparr>lmemq_state := (lmemq_state c)\<lparr>pending_front := True, subreq_pending_index := -1\<rparr>\<rparr>)"

text \<open>The final sub-request is finished: its entry goes on in the next cycle.\<close>

definition ait_lmemq_finish ::
  "clk_t \<Rightarrow> base_request \<Rightarrow> base_request list \<Rightarrow> ('n, 'm) ait_controller
   \<Rightarrow> vans_error + ('n, 'm) ait_controller" where
  "ait_lmemq_finish curr_clk front_req rest c =
     (let ait_addr = ait_translate_to_block_addr (req_addr front_req) in
      case map_of (entry_map (ait_buffer c)) ait_addr of
        None \<Rightarrow> Inl Out_of_range
      | Some entry \<Rightarrow>
          Inr (c\<lparr>ait_lmemq := (ait_lmemq c)\<lparr>queue := rest\<rparr>,
                 lmemq_state := (lmemq_state c)\<lparr>pending_front := False,
                    subreq_served := map (\<lambda>_. False) (subreq_served (lmemq_state c))\<rparr>,
                 ait_buffer := buf_set ait_addr
                  (entry\<lparr>next_action_clk := curr_clk + 1, waiting_action_clk_update := False\<rparr>) (ait_buffer c)\<rparr>))"

definition ait_lmemq_next ::
  "'m component_ops \<Rightarrow> clk_t \<Rightarrow> base_request \<Rightarrow> ('n, 'm) ait_controller
   \<Rightarrow> vans_error + ('n, 'm) ait_controller" where
  "ait_lmemq_next mops curr_clk front_req c =
     (let index = subreq_pending_index (lmemq_state c) + 1;
          c = c\<lparr>lmemq_state := (lmemq_state c)\<lparr>subreq_pending_index := index\<rparr>\<rparr>;
          cl_addr = req_addr front_req + of_int index * cpu_cl_size in
      if map_of (entry_map (ait_buffer c)) (ait_translate_to_block_addr (req_addr front_req)) = None
      then Inl Out_of_range
      else ebind (issue_request mops (ait_local_memory c)
             (new_base_request (req_type front_req) cl_addr curr_clk Cb_ait_lmemq_subreq))
        (\<lambda>(m, req, issued, deterministic, next_clk).
          let c = c\<lparr>ait_local_memory := m\<rparr> in
          if \<not> issued
          then Inl (Runtime_error ''AIT controller feature not implemented: ait do not retry issuing request to local memory'')
          else case req_type front_req of
              Base_write \<Rightarrow> ait_event ''lmem_write_access'' (ait_lmemq_callback cl_addr c)
            | Base_read \<Rightarrow> ait_event ''lmem_read_access'' c))"

definition ait_tick_lmemq ::
  "'m component_ops \<Rightarrow> clk_t \<Rightarrow> ('n, 'm) ait_controller \<Rightarrow> vans_error + ('n, 'm) ait_controller" where
  "ait_tick_lmemq mops curr_clk c =
     (if rq_empty (ait_lmemq c) then Inr c
      else let c = ait_lmemq_setup c; i = subreq_pending_index (lmemq_state c) in
        ebind (full mops (ait_local_memory c)) (\<lambda>f.
          if f then Inr c
          else case queue (ait_lmemq c) of
              [] \<Rightarrow> Inl Undefined_behaviour
            | front_req # rest \<Rightarrow>
                if i \<noteq> - 1 \<and> (i < - 1 \<or> int (length (subreq_served (lmemq_state c))) \<le> i)
                then Inl Undefined_behaviour
                else if i \<noteq> - 1 \<and> \<not> subreq_served (lmemq_state c) ! nat i then Inr c
                else if \<not> (i \<le> 3 \<and> - 1 \<le> i) then Inl Assertion_failed
                else if i = subreq_cnt - 1 then ait_lmemq_finish curr_clk front_req rest c
                else ait_lmemq_next mops curr_clk front_req c))"

definition ait_state_transfer ::
  "'n component_ops \<Rightarrow> clk_t \<Rightarrow> addr_t \<Rightarrow> ait_entry \<Rightarrow> ('n, 'm) ait_controller
   \<Rightarrow> vans_error + ('n, 'm) ait_controller \<times> call list" where
  "ait_state_transfer ops curr_clk curr_block_addr entry c =
     (case ait_state_trans (ait_type (ait_pending_request entry)) (ait_state entry) of
        None \<Rightarrow> Inl (Runtime_error ''Internal error, unknown state transfer.'')
      | Some func \<Rightarrow>
          ebind (func ops curr_block_addr entry curr_clk c) (\<lambda>(c, entry, calls).
            Inr (c\<lparr>ait_buffer := buf_set curr_block_addr entry (ait_buffer c)\<rparr>, calls)))"

definition ait_tick_entry ::
  "'n component_ops \<Rightarrow> clk_t \<Rightarrow> addr_t \<Rightarrow> ('n, 'm) ait_controller
   \<Rightarrow> vans_error + ('n, 'm) ait_controller \<times> call list" where
  "ait_tick_entry ops curr_clk curr_block_addr c =
     (case map_of (entry_map (ait_buffer c)) curr_block_addr of
        None \<Rightarrow> Inl Undefined_behaviour
      | Some entry \<Rightarrow>
          if ait_state entry = Ait_init then ait_state_transfer ops curr_clk curr_block_addr entry c
          else if \<not> pending entry then Inr (c, [])
          else if waiting_action_clk_update entry then Inr (c, [])
          else if next_action_clk entry = clk_invalid
          then Inl (Runtime_error ''Internal error, the next_action_clk is invalid'')
          else if curr_clk < next_action_clk entry then Inr (c, [])
          else ait_state_transfer ops curr_clk curr_block_addr entry c)"

fun ait_tick_entries ::
  "'n component_ops \<Rightarrow> clk_t \<Rightarrow> addr_t list \<Rightarrow> ('n, 'm) ait_controller
   \<Rightarrow> vans_error + ('n, 'm) ait_controller \<times> call list" where
  "ait_tick_entries ops curr_clk [] c = Inr (c, [])"
| "ait_tick_entries ops curr_clk (k # ks) c =
     ebind (ait_tick_entry ops curr_clk k c) (\<lambda>(c, calls).
     ebind (ait_tick_entries ops curr_clk ks c) (\<lambda>(c, calls').
       Inr (c, calls @ calls')))"

definition ait_tick_internal_buffer ::
  "'n component_ops \<Rightarrow> clk_t \<Rightarrow> ('n, 'm) ait_controller \<Rightarrow> vans_error + ('n, 'm) ait_controller \<times> call list" where
  "ait_tick_internal_buffer ops curr_clk c =
     ait_tick_entries ops curr_clk (map fst (entry_map (ait_buffer c))) c"

definition ait_tick_ctrl ::
  "'n component_ops \<Rightarrow> 'm component_ops \<Rightarrow> clk_t \<Rightarrow> ('n, 'm) ait_controller
   \<Rightarrow> vans_error + ('n, 'm) ait_controller \<times> call list" where
  "ait_tick_ctrl ops mops curr_clk c =
     ebind (ait_tick_lsq curr_clk c) (\<lambda>c.
     ebind (ait_tick_lmemq mops curr_clk c) (\<lambda>c.
       ait_tick_internal_buffer ops curr_clk c))"

definition ait_next_level_read_callback ::
  "addr_t \<Rightarrow> clk_t \<Rightarrow> ('n, 'm) ait_controller \<Rightarrow> vans_error + ('n, 'm) ait_controller" where
  "ait_next_level_read_callback addr curr_clk c =
     (let ait_addr = ait_translate_to_block_addr addr in
      case map_of (entry_map (ait_buffer c)) ait_addr of
        None \<Rightarrow> Inl Out_of_range
      | Some entry \<Rightarrow>
          Inr (c\<lparr>ait_buffer := buf_set ait_addr
                  (entry\<lparr>waiting_action_clk_update := False, next_action_clk := curr_clk + 1\<rparr>)
                  (ait_buffer c)\<rparr>))"

section \<open>The component\<close>

text \<open>Both own callbacks run on the controller; the others are passed on.\<close>

fun ait_run_calls ::
  "call list \<Rightarrow> ('n, 'm) ait_controller \<Rightarrow> vans_error + ('n, 'm) ait_controller \<times> call list" where
  "ait_run_calls [] c = Inr (c, [])"
| "ait_run_calls ((cb, addr, clk) # cs) c =
     (if cb = Cb_ait_next_level_read
      then ebind (ait_next_level_read_callback addr clk c) (ait_run_calls cs)
      else if cb = Cb_ait_lmemq_subreq
      then ait_run_calls cs (ait_lmemq_callback addr c)
      else ebind (ait_run_calls cs c) (\<lambda>(c, out). Inr (c, (cb, addr, clk) # out)))"

definition ait_tick ::
  "'n component_ops \<Rightarrow> 'm component_ops \<Rightarrow> clk_t \<Rightarrow> ('n, 'm) ait_controller
   \<Rightarrow> vans_error + ('n, 'm) ait_controller \<times> call list" where
  "ait_tick ops mops curr_clk c =
     ebind (ait_tick_ctrl ops mops curr_clk c) (\<lambda>(c, calls).
     ebind (tick mops curr_clk (ait_local_memory c)) (\<lambda>(m, mcalls).
     ebind (ait_run_calls mcalls (c\<lparr>ait_local_memory := m\<rparr>)) (\<lambda>(c, mout).
     ebind (tick_list ops curr_clk (next_level_components c)) (\<lambda>(ns, ncalls).
     ebind (ait_run_calls ncalls (c\<lparr>next_level_components := ns\<rparr>)) (\<lambda>(c, out).
       Inr (c, calls @ mout @ out))))))"

definition ait_ops :: "'n component_ops \<Rightarrow> 'm component_ops \<Rightarrow> ('n, 'm) ait_controller component_ops" where
  "ait_ops ops mops =
     \<lparr>issue_request = ait_issue_request, full = ait_full,
      is_pending = mc_pending ops (\<lambda>c. Inr (ait_pending_current c)),
      drain = mc_drain ops (\<lambda>c. Inr (ait_drain_current c)),
      tick = ait_tick ops mops\<rparr>"

end
