(* ===== verification/Ait_Inv.thy ===== *)
theory Ait_Inv
  imports Ait
begin

text \<open>
  The invariant of the AIT controller, over any media and any local memory that satisfy their
  contracts: every operation returns and keeps the invariant, every callback the controller is
  owed reaches the entry that waits for it, and every callback it owes is paid once.
\<close>

section \<open>Well-formed entries\<close>

fun ait_legal :: "ait_request_type \<Rightarrow> ait_request_state \<Rightarrow> bool" where
  "ait_legal Read_miss s = (s \<in> {Ait_init, Pending_read_media, Pending_read_dram, Ait_end})"
| "ait_legal Read_hit s = (s \<in> {Ait_init, Pending_read_dram, Ait_end})"
| "ait_legal Write_miss s = (s \<noteq> Pending_read_dram)"
| "ait_legal Write_hit s = (s \<in> {Ait_init, Pending_write_dram, Pending_migration, Pending_write_media, Ait_end})"

definition ait_entry_ok :: "addr_t \<Rightarrow> ait_entry \<Rightarrow> bool" where
  "ait_entry_ok k e \<longleftrightarrow>
     ait_legal (ait_type (ait_pending_request e)) (ait_state e) \<and>
     (pending e \<longleftrightarrow> ait_state e \<noteq> Ait_end) \<and>
     (waiting_action_clk_update e \<longrightarrow> ait_state e \<noteq> Pending_migration \<and> ait_state e \<noteq> Ait_end) \<and>
     (\<not> waiting_action_clk_update e \<and> ait_state e \<noteq> Ait_init \<and> ait_state e \<noteq> Ait_end \<longrightarrow>
        next_action_clk e \<noteq> clk_invalid) \<and>
     ait_translate_to_block_addr (rmw_block_addr (ait_pending_request e)) = k \<and>
     rmw_translate_to_block_addr (rmw_block_addr (ait_pending_request e)) = rmw_block_addr (ait_pending_request e)"

fun ait_stage :: "ait_request_state \<Rightarrow> nat" where
  "ait_stage Ait_init = 5"
| "ait_stage Pending_read_media = 4"
| "ait_stage Pending_read_dram = 3"
| "ait_stage Pending_write_dram = 3"
| "ait_stage Pending_migration = 2"
| "ait_stage Pending_write_media = 1"
| "ait_stage Ait_end = 0"

text \<open>What an entry waits for, from the media and from the local-memory queue, and what it owes.\<close>

definition ait_media_waits :: "addr_t \<Rightarrow> ait_entry \<Rightarrow> (callback \<times> addr_t) multiset" where
  "ait_media_waits k e =
     (if waiting_action_clk_update e \<and> ait_state e \<in> {Pending_read_media, Pending_write_media}
      then {#(Cb_ait_next_level_read, k)#} else {#})"

definition ait_lmem_waits :: "addr_t \<Rightarrow> ait_entry \<Rightarrow> (base_request_type \<times> addr_t) multiset" where
  "ait_lmem_waits k e =
     (if \<not> waiting_action_clk_update e then {#}
      else if ait_state e = Pending_read_dram then {#(Base_read, rmw_block_addr (ait_pending_request e))#}
      else if ait_state e = Pending_write_dram then {#(Base_write, rmw_block_addr (ait_pending_request e))#}
      else {#})"

definition ait_entry_owes :: "addr_t \<Rightarrow> ait_entry \<Rightarrow> (callback \<times> addr_t) multiset" where
  "ait_entry_owes k e =
     (if pending e \<and> ait_cb e \<noteq> Cb_null then {#(ait_cb e, rmw_block_addr (ait_pending_request e))#} else {#})"

definition lmemq_content :: "base_request list \<Rightarrow> (base_request_type \<times> addr_t) multiset" where
  "lmemq_content q = mset (map (\<lambda>r. (req_type r, req_addr r)) q)"

definition request_owes :: "base_request \<Rightarrow> (callback \<times> addr_t) multiset" where
  "request_owes r =
     (if has_callback r then {#(req_callback r, rmw_translate_to_block_addr (req_addr r))#} else {#})"

definition ait_owes :: "('n, 'm) ait_controller \<Rightarrow> (callback \<times> addr_t) multiset" where
  "ait_owes c =
     sum_list (map request_owes (queue (ait_lsq c))) + collect ait_entry_owes (entry_map (ait_buffer c))"

section \<open>The local-memory queue\<close>

text \<open>The address of sub-request \<open>i\<close> of a request, and the sub-request that is under way.\<close>

definition subreq_addr :: "addr_t \<Rightarrow> int \<Rightarrow> addr_t" where
  "subreq_addr a i = a + of_int i * cpu_cl_size"

definition lmemq_waits :: "lmemq_state_t \<Rightarrow> base_request list \<Rightarrow> (callback \<times> addr_t) multiset" where
  "lmemq_waits st q =
     (if pending_front st \<and> 0 \<le> subreq_pending_index st \<and>
         \<not> subreq_served st ! nat (subreq_pending_index st)
      then {#(Cb_ait_lmemq_subreq, subreq_addr (req_addr (hd q)) (subreq_pending_index st))#} else {#})"

text \<open>
  The sub-requests of the front request are served in order, exactly the ones before the current
  index and possibly the current one; nothing is marked served between two requests.
\<close>

definition lmemq_ok :: "lmemq_state_t \<Rightarrow> base_request list \<Rightarrow> (callback \<times> addr_t) multiset \<Rightarrow> bool" where
  "lmemq_ok st q owed \<longleftrightarrow>
     length (subreq_served st) = 4 \<and>
     - 1 \<le> subreq_pending_index st \<and> subreq_pending_index st \<le> 3 \<and>
     owed \<subseteq># lmemq_waits st q \<and>
     (if pending_front st
      then q \<noteq> [] \<and>
        (\<forall>j < 4. subreq_served st ! j \<longrightarrow> int j \<le> subreq_pending_index st) \<and>
        (\<forall>j. int j < subreq_pending_index st \<longrightarrow> subreq_served st ! j)
      else \<forall>j < 4. \<not> subreq_served st ! j)"

section \<open>The context of an entry\<close>

definition table_ok :: "indirection_table \<Rightarrow> bool" where
  "table_ok t \<longleftrightarrow> wear_leveling_threshold t \<noteq> 0 \<and> small_clk (migration_block_entries t * migration_latency t)"

definition ait_ctx :: "('n \<Rightarrow> bool) \<Rightarrow> ('m \<Rightarrow> bool) \<Rightarrow> ('n, 'm) ait_controller \<Rightarrow> bool" where
  "ait_ctx ninv minv c \<longleftrightarrow>
     declares (ait_cnt_events c) ait_event_names \<and>
     declares (ait_cnt_duration c) ait_duration_names \<and>
     table_ok (ait_table c) \<and> minv (ait_local_memory c) \<and>
     mapping_ok c \<and> (\<forall>n \<in> set (next_level_components c). ninv n) \<and>
     rq_wf (ait_lmemq c) \<and> \<not> ait_evicting c"

definition ait_inv ::
  "('n \<Rightarrow> bool) \<Rightarrow> ('m \<Rightarrow> bool) \<Rightarrow> ('n \<Rightarrow> (callback \<times> addr_t) multiset) \<Rightarrow> ('m \<Rightarrow> (callback \<times> addr_t) multiset)
   \<Rightarrow> (callback \<times> addr_t) multiset \<Rightarrow> (callback \<times> addr_t) multiset \<Rightarrow> ('n, 'm) ait_controller \<Rightarrow> bool" where
  "ait_inv ninv minv nw mw x y c \<longleftrightarrow>
     ait_ctx ninv minv c \<and> rq_wf (ait_lsq c) \<and>
     buf_wf ait_translate_to_block_addr (ait_buffer c) \<and>
     (\<forall>(k, e) \<in> set (entry_map (ait_buffer c)). ait_entry_ok k e) \<and>
     all_owe nw (next_level_components c) + x = collect ait_media_waits (entry_map (ait_buffer c)) \<and>
     lmemq_content (queue (ait_lmemq c)) = collect ait_lmem_waits (entry_map (ait_buffer c)) \<and>
     lmemq_ok (lmemq_state c) (queue (ait_lmemq c)) (mw (ait_local_memory c) + y)"

lemma ait_event_eq [simp]:
  "ait_ctx ninv minv c \<Longrightarrow> n \<in> set ait_event_names \<Longrightarrow>
   ait_event n c = Inr (c\<lparr>ait_cnt_events := counter_bump n 1 (ait_cnt_events c)\<rparr>)"
  by (simp add: ait_event_def ait_ctx_def counter_add_eq [of _ ait_event_names])

lemma ait_duration_eq [simp]:
  "ait_ctx ninv minv c \<Longrightarrow> n \<in> set ait_duration_names \<Longrightarrow>
   ait_duration n clk e c =
     Inr (c\<lparr>ait_cnt_duration := counter_bump n (clk - last_used_clk e) (ait_cnt_duration c)\<rparr>)"
  by (simp add: ait_duration_def ait_ctx_def counter_add_eq [of _ ait_duration_names])

lemma ait_ctx_simps [simp]:
  "ait_ctx ninv minv c \<Longrightarrow> ait_ctx ninv minv (c\<lparr>ait_cnt_events := counter_bump n v (ait_cnt_events c)\<rparr>)"
  "ait_ctx ninv minv c \<Longrightarrow> ait_ctx ninv minv (c\<lparr>ait_cnt_duration := counter_bump n v (ait_cnt_duration c)\<rparr>)"
  "ait_ctx ninv minv (c\<lparr>ait_buffer := b\<rparr>) = ait_ctx ninv minv c"
  "ait_ctx ninv minv (c\<lparr>ait_lsq := q\<rparr>) = ait_ctx ninv minv c"
  "ait_ctx ninv minv (c\<lparr>lmemq_state := st\<rparr>) = ait_ctx ninv minv c"
  "ait_ctx ninv minv c \<Longrightarrow> rq_wf q \<Longrightarrow> ait_ctx ninv minv (c\<lparr>ait_lmemq := q\<rparr>)"
  "ait_ctx ninv minv c \<Longrightarrow> table_ok t \<Longrightarrow> ait_ctx ninv minv (c\<lparr>ait_table := t\<rparr>)"
  "ait_ctx ninv minv c \<Longrightarrow> minv m \<Longrightarrow> ait_ctx ninv minv (c\<lparr>ait_local_memory := m\<rparr>)"
  "ait_ctx ninv minv c \<Longrightarrow> length ns = length (next_level_components c) \<Longrightarrow> \<forall>n \<in> set ns. ninv n \<Longrightarrow>
   ait_ctx ninv minv (c\<lparr>next_level_components := ns\<rparr>)"
  by (simp_all add: ait_ctx_def mapping_ok_def)

lemma ait_names [simp]:
  "''read_access'' \<in> set ait_event_names" "''write_access'' \<in> set ait_event_names"
  "''eviction'' \<in> set ait_event_names" "''migration'' \<in> set ait_event_names"
  "''read_miss'' \<in> set ait_event_names" "''read_hit'' \<in> set ait_event_names"
  "''write_miss'' \<in> set ait_event_names" "''write_hit'' \<in> set ait_event_names"
  "''lmem_read_access'' \<in> set ait_event_names" "''lmem_write_access'' \<in> set ait_event_names"
  "''local_memory_issue_fail'' \<in> set ait_event_names"
  "''w_miss_prm'' \<in> set ait_duration_names" "''w_miss_pwd'' \<in> set ait_duration_names"
  "''w_miss_pm'' \<in> set ait_duration_names" "''w_miss_pwm'' \<in> set ait_duration_names"
  "''w_hit_pwd'' \<in> set ait_duration_names" "''w_hit_pm'' \<in> set ait_duration_names"
  "''w_hit_pwm'' \<in> set ait_duration_names" "''r_miss_prm'' \<in> set ait_duration_names"
  "''r_miss_prd'' \<in> set ait_duration_names" "''r_hit_prd'' \<in> set ait_duration_names"
  by (simp_all add: ait_event_names_def ait_duration_names_def)

section \<open>Wear levelling\<close>

lemma table_ok_record [simp]: "table_ok (record_write a t) = table_ok t"
  by (simp add: table_ok_def record_write_def Let_def)

lemma table_at_record:
  "table_at k (record_write a t) =
     (if k = ait_translate_to_block_addr a then table_at k t + 1 else table_at k t)"
  by (simp add: table_at_def record_write_def Let_def)

lemma check_wear_leveling_ok:
  assumes "table_ok t"
  shows "\<exists>d t'. check_wear_leveling a t = Inr (d, t') \<and> table_ok t' \<and> small_clk d \<and>
    (\<forall>k. table_at k t' = table_at k t)"
  using assms
  by (auto simp: check_wear_leveling_def table_ok_def table_at_def small_clk_def)

lemma migration_clk:
  assumes "small_clk clk" "small_clk d"
  shows "clk + 1 + d \<noteq> clk_invalid"
proof
  assume "clk + 1 + d = clk_invalid"
  then have "unat (clk + 1 + d) = 2 ^ 64 - 1" by (simp add: unat_clk_invalid)
  moreover have s: "unat (clk + 1) = unat clk + 1"
    using assms(1) by (subst unat_add_lem [THEN iffD1]) (simp_all add: small_clk_def)
  moreover have "unat (clk + 1 + d) = unat (clk + 1) + unat d"
    using assms s by (subst unat_add_lem [THEN iffD1]) (simp_all add: small_clk_def)
  ultimately show False using assms by (simp add: small_clk_def)
qed


section \<open>State transfers keep the invariant\<close>

text \<open>
  The judgement about one transfer: it returns, keeps the context, touches neither the buffer nor
  the load/store queue nor the local memory, only adds to the local-memory queue, gives a
  well-formed entry that is the old one or closer to its end, and keeps the three balances: with
  the media, with the local-memory queue, and with the level above.
\<close>

definition ait_trans_ok ::
  "('n \<Rightarrow> bool) \<Rightarrow> ('m \<Rightarrow> bool) \<Rightarrow> ('n \<Rightarrow> (callback \<times> addr_t) multiset) \<Rightarrow> addr_t \<Rightarrow> clk_t \<Rightarrow> ait_entry \<Rightarrow>
   ('n, 'm) ait_controller \<Rightarrow> (vans_error + ('n, 'm) ait_controller \<times> ait_entry \<times> call list) \<Rightarrow> bool" where
  "ait_trans_ok ninv minv nw k clk e c m \<longleftrightarrow> ensures m (\<lambda>(c', e', calls).
     ait_ctx ninv minv c' \<and> ait_buffer c' = ait_buffer c \<and> ait_lsq c' = ait_lsq c \<and>
     ait_local_memory c' = ait_local_memory c \<and> lmemq_state c' = lmemq_state c \<and>
     (\<exists>new. queue (ait_lmemq c') = queue (ait_lmemq c) @ new \<and>
        lmemq_content new + ait_lmem_waits k e = ait_lmem_waits k e') \<and>
     ait_entry_ok k e' \<and> (e' = e \<or> ait_stage (ait_state e') < ait_stage (ait_state e)) \<and>
     all_owe nw (next_level_components c') + ait_media_waits k e =
       all_owe nw (next_level_components c) + ait_media_waits k e' \<and>
     ait_entry_owes k e =
       ait_entry_owes k e' + mset (map (\<lambda>(cb, a, t). (cb, rmw_translate_to_block_addr a)) calls) \<and>
     (\<forall>(cb, a, t) \<in> set calls. t = clk))"

lemmas ait_end_trans_defs =
  ait_write_miss_pending_write_media_def ait_write_hit_pending_write_media_def
  ait_read_miss_pending_read_dram_def ait_read_hit_pending_read_dram_def

lemmas ait_lmem_trans_defs =
  ait_write_miss_pending_read_media_def ait_write_hit_init_def
  ait_read_miss_pending_read_media_def ait_read_hit_init_def

lemmas ait_wear_trans_defs =
  ait_write_miss_pending_write_dram_def ait_write_hit_pending_write_dram_def

lemmas ait_next_trans_defs =
  ait_write_miss_init_def ait_write_miss_pending_migration_def ait_write_hit_pending_migration_def
  ait_read_miss_init_def

lemmas ait_waits_defs = ait_media_waits_def ait_lmem_waits_def ait_entry_owes_def

lemma lmemq_content_simps [simp]:
  "lmemq_content [] = {#}"
  "lmemq_content (r # q) = add_mset (req_type r, req_addr r) (lmemq_content q)"
  "lmemq_content (q @ q') = lmemq_content q + lmemq_content q'"
  by (simp_all add: lmemq_content_def)

lemma ait_end_trans_ok:
  assumes "ait_ctx ninv minv c" "ait_entry_ok k e" "\<not> waiting_action_clk_update e"
  shows "ait_state e = Pending_write_media \<Longrightarrow>
      ait_trans_ok ninv minv nw k clk e c (ait_write_miss_pending_write_media ops k e clk c)"
    and "ait_state e = Pending_write_media \<Longrightarrow>
      ait_trans_ok ninv minv nw k clk e c (ait_write_hit_pending_write_media ops k e clk c)"
    and "ait_state e = Pending_read_dram \<Longrightarrow>
      ait_trans_ok ninv minv nw k clk e c (ait_read_miss_pending_read_dram ops k e clk c)"
    and "ait_state e = Pending_read_dram \<Longrightarrow>
      ait_trans_ok ninv minv nw k clk e c (ait_read_hit_pending_read_dram ops k e clk c)"
proof -
  have legal: "ait_legal (ait_type (ait_pending_request e)) Ait_end"
    by (cases "ait_type (ait_pending_request e)") simp_all
  show "ait_state e = Pending_write_media \<Longrightarrow>
      ait_trans_ok ninv minv nw k clk e c (ait_write_miss_pending_write_media ops k e clk c)"
    "ait_state e = Pending_write_media \<Longrightarrow>
      ait_trans_ok ninv minv nw k clk e c (ait_write_hit_pending_write_media ops k e clk c)"
    "ait_state e = Pending_read_dram \<Longrightarrow>
      ait_trans_ok ninv minv nw k clk e c (ait_read_miss_pending_read_dram ops k e clk c)"
    "ait_state e = Pending_read_dram \<Longrightarrow>
      ait_trans_ok ninv minv nw k clk e c (ait_read_hit_pending_read_dram ops k e clk c)"
    using assms legal
    by (auto simp: ait_trans_ok_def ait_end_trans_defs ait_entry_ok_def ait_waits_defs ait_run_cb_def
        invoke_callback_def)
qed

lemma ait_lmem_trans_ok:
  assumes "ait_ctx ninv minv c" "ait_entry_ok k e" "ait_state e = Ait_init \<or> \<not> waiting_action_clk_update e"
  shows "ait_type (ait_pending_request e) = Write_miss \<Longrightarrow> ait_state e = Pending_read_media \<Longrightarrow>
      ait_trans_ok ninv minv nw k clk e c (ait_write_miss_pending_read_media ops k e clk c)"
    and "ait_type (ait_pending_request e) = Write_hit \<Longrightarrow> ait_state e = Ait_init \<Longrightarrow>
      ait_trans_ok ninv minv nw k clk e c (ait_write_hit_init ops k e clk c)"
    and "ait_type (ait_pending_request e) = Read_miss \<Longrightarrow> ait_state e = Pending_read_media \<Longrightarrow>
      ait_trans_ok ninv minv nw k clk e c (ait_read_miss_pending_read_media ops k e clk c)"
    and "ait_type (ait_pending_request e) = Read_hit \<Longrightarrow> ait_state e = Ait_init \<Longrightarrow>
      ait_trans_ok ninv minv nw k clk e c (ait_read_hit_init ops k e clk c)"
proof -
  have w: "rq_wf (ait_lmemq c)" using assms(1) by (simp add: ait_ctx_def)
  have issue: "\<exists>q ok. ait_issue_lmemq e t clk c = Inr (c\<lparr>ait_lmemq := q\<rparr>, ok, False, clk_invalid) \<and> rq_wf q \<and>
      queue q = queue (ait_lmemq c) @ (if ok then
        [new_base_request t (rmw_block_addr (ait_pending_request e)) clk Cb_null] else [])" for t
  proof -
    let ?r = "new_base_request t (rmw_block_addr (ait_pending_request e)) clk Cb_null"
    obtain ok q where "rq_enqueue ?r (ait_lmemq c) = Inr (ok, q)" "rq_wf q"
        "queue q = queue (ait_lmemq c) @ (if ok then [?r] else [])"
      using rq.enq_ensures [OF w, of ?r] unfolding ensures_iff by blast
    then show ?thesis by (intro exI [of _ q] exI [of _ ok]) (simp add: ait_issue_lmemq_def)
  qed
  from issue [of Base_read] obtain q1 ok1 where
    i1: "ait_issue_lmemq e Base_read clk c = Inr (c\<lparr>ait_lmemq := q1\<rparr>, ok1, False, clk_invalid)" "rq_wf q1"
      "queue q1 = queue (ait_lmemq c) @ (if ok1 then
        [new_base_request Base_read (rmw_block_addr (ait_pending_request e)) clk Cb_null] else [])" by blast
  from issue [of Base_write] obtain q2 ok2 where
    i2: "ait_issue_lmemq e Base_write clk c = Inr (c\<lparr>ait_lmemq := q2\<rparr>, ok2, False, clk_invalid)" "rq_wf q2"
      "queue q2 = queue (ait_lmemq c) @ (if ok2 then
        [new_base_request Base_write (rmw_block_addr (ait_pending_request e)) clk Cb_null] else [])" by blast
  have c: "ait_ctx ninv minv (c\<lparr>ait_lmemq := q1\<rparr>)" "ait_ctx ninv minv (c\<lparr>ait_lmemq := q2\<rparr>)"
    using assms(1) i1(2) i2(2) by simp_all
  note c1 = ait_duration_eq [OF c(1)] ait_event_eq [OF c(1)] ait_ctx_simps(1,2) [OF c(1)]
  note c2 = ait_duration_eq [OF c(2)] ait_event_eq [OF c(2)] ait_ctx_simps(1,2) [OF c(2)]
  note defs = ait_trans_ok_def ait_lmem_trans_defs ait_entry_ok_def ait_waits_defs
  show "ait_type (ait_pending_request e) = Write_miss \<Longrightarrow> ait_state e = Pending_read_media \<Longrightarrow>
      ait_trans_ok ninv minv nw k clk e c (ait_write_miss_pending_read_media ops k e clk c)"
    using assms i2 c2 by (cases ok2) (simp_all add: defs)
  show "ait_type (ait_pending_request e) = Write_hit \<Longrightarrow> ait_state e = Ait_init \<Longrightarrow>
      ait_trans_ok ninv minv nw k clk e c (ait_write_hit_init ops k e clk c)"
    using assms i2 c2 by (cases ok2) (simp_all add: defs)
  show "ait_type (ait_pending_request e) = Read_miss \<Longrightarrow> ait_state e = Pending_read_media \<Longrightarrow>
      ait_trans_ok ninv minv nw k clk e c (ait_read_miss_pending_read_media ops k e clk c)"
    using assms i1 c1 by (cases ok1) (simp_all add: defs)
  show "ait_type (ait_pending_request e) = Read_hit \<Longrightarrow> ait_state e = Ait_init \<Longrightarrow>
      ait_trans_ok ninv minv nw k clk e c (ait_read_hit_init ops k e clk c)"
    using assms i1 c1 by (cases ok1) (simp_all add: defs)
qed

lemma ait_wear_trans_ok:
  assumes "ait_ctx ninv minv c" "small_clk clk" "ait_entry_ok k e" "\<not> waiting_action_clk_update e"
    and "ait_state e = Pending_write_dram"
  shows "ait_trans_ok ninv minv nw k clk e c (ait_write_miss_pending_write_dram ops k e clk c)"
    and "ait_trans_ok ninv minv nw k clk e c (ait_write_hit_pending_write_dram ops k e clk c)"
proof -
  have "table_ok (ait_table c)" using assms(1) by (simp add: ait_ctx_def)
  from check_wear_leveling_ok [OF this] obtain d t where
    t: "check_wear_leveling k (ait_table c) = Inr (d, t)" "table_ok t" "small_clk d" by blast
  have legal: "ait_legal (ait_type (ait_pending_request e)) Pending_migration"
    using assms(3,5) by (cases "ait_type (ait_pending_request e)") (simp_all add: ait_entry_ok_def)
  have c: "ait_ctx ninv minv (c\<lparr>ait_table := t\<rparr>)" using assms(1) t(2) by simp
  note c' = ait_ctx_simps(2) [OF c]
  note facts = assms t legal c c' migration_clk [OF assms(2) t(3)]
  note defs = ait_trans_ok_def ait_wear_trans_defs ait_entry_ok_def ait_waits_defs
  show "ait_trans_ok ninv minv nw k clk e c (ait_write_miss_pending_write_dram ops k e clk c)"
    using facts ait_duration_eq [OF c] ait_event_eq [OF c'] ait_ctx_simps(1) [OF c'] by (simp add: defs)
  show "ait_trans_ok ninv minv nw k clk e c (ait_write_hit_pending_write_dram ops k e clk c)"
    using facts ait_duration_eq [OF c] ait_event_eq [OF c'] ait_ctx_simps(1) [OF c'] by (simp add: defs)
qed


section \<open>Lookups under the invariant\<close>

lemma ait_inv_ctx: "ait_inv ninv minv nw mw x y c \<Longrightarrow> ait_ctx ninv minv c"
  by (simp add: ait_inv_def)

lemma ait_inv_distinct: "ait_inv ninv minv nw mw x y c \<Longrightarrow> distinct (map fst (entry_map (ait_buffer c)))"
  by (simp add: ait_inv_def buf_wf_def)

lemma ait_inv_entry:
  "ait_inv ninv minv nw mw x y c \<Longrightarrow> map_of (entry_map (ait_buffer c)) k = Some e \<Longrightarrow> ait_entry_ok k e"
  by (auto simp: ait_inv_def dest!: map_of_SomeD)

text \<open>Growing the local-memory queue at the back does not disturb the request at the front.\<close>

lemma lmemq_ok_append: "lmemq_ok st q owed \<Longrightarrow> lmemq_ok st (q @ q') owed"
  by (auto simp: lmemq_ok_def lmemq_waits_def hd_append)

text \<open>Replacing an entry, with the three balances.\<close>

lemma ait_inv_set:
  assumes "ait_inv ninv minv nw mw x y c" "map_of (entry_map (ait_buffer c)) k = Some d" "ait_entry_ok k e"
    and "ait_ctx ninv minv c'" "ait_buffer c' = ait_buffer c" "rq_wf (ait_lsq c')"
    and "all_owe nw (next_level_components c') + x' + ait_media_waits k d =
      all_owe nw (next_level_components c) + x + ait_media_waits k e"
    and "lmemq_content (queue (ait_lmemq c')) + ait_lmem_waits k d =
      lmemq_content (queue (ait_lmemq c)) + ait_lmem_waits k e"
    and "lmemq_ok (lmemq_state c') (queue (ait_lmemq c')) (mw (ait_local_memory c') + y')"
  shows "ait_inv ninv minv nw mw x' y' (c'\<lparr>ait_buffer := buf_set k e (ait_buffer c')\<rparr>)"
    and "collect ait_entry_owes (entry_map (buf_set k e (ait_buffer c))) + ait_entry_owes k d =
      collect ait_entry_owes (entry_map (ait_buffer c)) + ait_entry_owes k e"
proof -
  have k: "k \<in> fst ` set (entry_map (ait_buffer c))" by (rule map_of_Some_key [OF assms(2)])
  note d = ait_inv_distinct [OF assms(1)]
  note up = collect_update [OF assms(2) d]
  have "buf_wf ait_translate_to_block_addr (buf_set k e (ait_buffer c))"
    using assms(1) k by (intro buf_set_wf) (simp_all add: ait_inv_def)
  moreover have "\<forall>(l, d) \<in> set (AList.update k e (entry_map (ait_buffer c))). ait_entry_ok l d"
    using assms(1,3) d by (intro ball_snd_update) (auto simp: ait_inv_def)
  moreover have "all_owe nw (next_level_components c') + x' =
      collect ait_media_waits (AList.update k e (entry_map (ait_buffer c)))"
  proof -
    have "all_owe nw (next_level_components c') + x' + ait_media_waits k d =
        collect ait_media_waits (entry_map (ait_buffer c)) + ait_media_waits k e"
      using assms(1,7) by (simp add: ait_inv_def)
    then show ?thesis using up [of ait_media_waits e] by (metis add_right_imp_eq)
  qed
  moreover have "lmemq_content (queue (ait_lmemq c')) =
      collect ait_lmem_waits (AList.update k e (entry_map (ait_buffer c)))"
  proof -
    have "lmemq_content (queue (ait_lmemq c')) + ait_lmem_waits k d =
        collect ait_lmem_waits (entry_map (ait_buffer c)) + ait_lmem_waits k e"
      using assms(1,8) by (simp add: ait_inv_def)
    then show ?thesis using up [of ait_lmem_waits e] by (metis add_right_imp_eq)
  qed
  ultimately show "ait_inv ninv minv nw mw x' y' (c'\<lparr>ait_buffer := buf_set k e (ait_buffer c')\<rparr>)"
    using assms(4-6,9) by (simp add: ait_inv_def buf_set_def)
  show "collect ait_entry_owes (entry_map (buf_set k e (ait_buffer c))) + ait_entry_owes k d =
      collect ait_entry_owes (entry_map (ait_buffer c)) + ait_entry_owes k e"
    using up by (simp add: buf_set_def)
qed

section \<open>State transfers over the contracts of media and local memory\<close>

text \<open>
  The media answers every request it accepts without a clock, and it accepts every request; the
  local memory answers reads only.
\<close>

locale ait_levels =
  media: responder ops ninv nowes ait_translate_to_block_addr has_callback +
  lmem: responder mops minv mowes "\<lambda>a. a" is_read_with_callback
  for ops :: "'n component_ops" and ninv and nowes
    and mops :: "'m component_ops" and minv and mowes +
  assumes media_accepts: "ninv n \<Longrightarrow> small_clk (req_arrive r) \<Longrightarrow>
    ensures (issue_request ops n r) (\<lambda>(n', r', issued, deterministic, next_clk). issued)"
begin

lemma ait_issue_next_ok:
  assumes "ait_ctx ninv minv c" "i < length (next_level_components c)" "small_clk clk"
    and "ait_translate_to_block_addr (rmw_block_addr (ait_pending_request e)) = k"
  shows "\<exists>c' deterministic next_clk. ait_issue_next_level t ops i e clk c = Inr (c', True, deterministic, next_clk) \<and>
    ait_ctx ninv minv c' \<and> (deterministic \<longrightarrow> next_clk \<noteq> clk_invalid) \<and>
    (\<exists>ns. c' = c\<lparr>next_level_components := ns\<rparr>) \<and>
    all_owe nowes (next_level_components c') = all_owe nowes (next_level_components c) +
      (if \<not> deterministic then {#(Cb_ait_next_level_read, k)#} else {#})"
proof -
  let ?r = "new_base_request t (ait_translate_to_block_addr (rmw_block_addr (ait_pending_request e)))
    clk Cb_ait_next_level_read"
  have n: "\<forall>n \<in> set (next_level_components c). ninv n" using assms(1) by (simp add: ait_ctx_def)
  have r: "small_clk (req_arrive ?r)" using assms(3) by simp
  have acc: "ensures (issue_request ops (next_level_components c ! i) ?r) (\<lambda>(n', r', issued, deterministic, next_clk). issued)"
    using n assms(2) by (intro media_accepts r) simp
  obtain c' r' det nc where i: "next_issue ops i ?r c = Inr (c', r', True, det, nc)"
    using acc by (auto simp: next_issue_def ensures_iff)
  note o = media.next_issue_owes [OF n assms(2) r, unfolded i]
  then obtain ns where ns: "c' = c\<lparr>next_level_components := ns\<rparr>" "length ns = length (next_level_components c)"
      "\<forall>n \<in> set ns. ninv n" by auto
  then have "ait_ctx ninv minv c'" using assms(1) by simp
  moreover have "ait_translate_to_block_addr k = k" using assms(4) aitb.translate_idem by metis
  ultimately show ?thesis using o i ns(1)
    by (auto simp: ait_issue_next_level_def has_callback_def assms(4))
qed

lemma ait_next_trans_ok:
  assumes "ait_ctx ninv minv c" "small_clk clk" "ait_entry_ok k e"
    and "ait_state e = Ait_init \<or> \<not> waiting_action_clk_update e"
  shows "ait_type (ait_pending_request e) = Write_miss \<Longrightarrow> ait_state e = Ait_init \<Longrightarrow>
      ait_trans_ok ninv minv nowes k clk e c (ait_write_miss_init ops k e clk c)"
    and "ait_type (ait_pending_request e) = Write_miss \<Longrightarrow> ait_state e = Pending_migration \<Longrightarrow>
      ait_trans_ok ninv minv nowes k clk e c (ait_write_miss_pending_migration ops k e clk c)"
    and "ait_type (ait_pending_request e) = Write_hit \<Longrightarrow> ait_state e = Pending_migration \<Longrightarrow>
      ait_trans_ok ninv minv nowes k clk e c (ait_write_hit_pending_migration ops k e clk c)"
    and "ait_type (ait_pending_request e) = Read_miss \<Longrightarrow> ait_state e = Ait_init \<Longrightarrow>
      ait_trans_ok ninv minv nowes k clk e c (ait_read_miss_init ops k e clk c)"
proof -
  have "mapping_ok c" using assms(1) by (simp add: ait_ctx_def)
  then obtain a' i where g: "get_next_level k c = Inr (a', i)" "i < length (next_level_components c)"
    by (rule get_next_level_ok)
  have k: "ait_translate_to_block_addr (rmw_block_addr (ait_pending_request e)) = k"
    using assms(3) by (simp add: ait_entry_ok_def)
  from ait_issue_next_ok [OF assms(1) g(2) assms(2) k, of Base_read] obtain c1 det1 nc1 ns1 where
    i1: "ait_issue_next_level Base_read ops i e clk c = Inr (c1, True, det1, nc1)" "ait_ctx ninv minv c1"
      "det1 \<longrightarrow> nc1 \<noteq> clk_invalid" "c1 = c\<lparr>next_level_components := ns1\<rparr>"
      "all_owe nowes (next_level_components c1) = all_owe nowes (next_level_components c) +
        (if \<not> det1 then {#(Cb_ait_next_level_read, k)#} else {#})" by blast
  from ait_issue_next_ok [OF assms(1) g(2) assms(2) k, of Base_write] obtain c2 det2 nc2 ns2 where
    i2: "ait_issue_next_level Base_write ops i e clk c = Inr (c2, True, det2, nc2)" "ait_ctx ninv minv c2"
      "det2 \<longrightarrow> nc2 \<noteq> clk_invalid" "c2 = c\<lparr>next_level_components := ns2\<rparr>"
      "all_owe nowes (next_level_components c2) = all_owe nowes (next_level_components c) +
        (if \<not> det2 then {#(Cb_ait_next_level_read, k)#} else {#})" by blast
  note c1 = ait_event_eq [OF i1(2)] ait_ctx_simps(1) [OF i1(2)]
  note c2 = ait_duration_eq [OF i2(2)] ait_ctx_simps(2) [OF i2(2)]
  note defs = ait_trans_ok_def ait_next_trans_defs ait_entry_ok_def ait_waits_defs
  show "ait_type (ait_pending_request e) = Write_miss \<Longrightarrow> ait_state e = Ait_init \<Longrightarrow>
      ait_trans_ok ninv minv nowes k clk e c (ait_write_miss_init ops k e clk c)"
    using assms g i1 c1 k by (cases det1) (simp_all add: defs)
  show "ait_type (ait_pending_request e) = Read_miss \<Longrightarrow> ait_state e = Ait_init \<Longrightarrow>
      ait_trans_ok ninv minv nowes k clk e c (ait_read_miss_init ops k e clk c)"
    using assms g i1 c1 k by (cases det1) (simp_all add: defs)
  show "ait_type (ait_pending_request e) = Write_miss \<Longrightarrow> ait_state e = Pending_migration \<Longrightarrow>
      ait_trans_ok ninv minv nowes k clk e c (ait_write_miss_pending_migration ops k e clk c)"
    using assms g i2 c2 k by (cases det2) (simp_all add: defs)
  show "ait_type (ait_pending_request e) = Write_hit \<Longrightarrow> ait_state e = Pending_migration \<Longrightarrow>
      ait_trans_ok ninv minv nowes k clk e c (ait_write_hit_pending_migration ops k e clk c)"
    using assms g i2 c2 k by (cases det2) (simp_all add: defs)
qed

lemma ait_trans_exists:
  assumes "ait_legal t s" "s \<noteq> Ait_end"
  shows "\<exists>f. ait_state_trans t s = Some f"
  using assms by (cases t; cases s) auto

lemma ait_state_trans_ok:
  assumes "ait_ctx ninv minv c" "small_clk clk" "ait_entry_ok k e"
    and "ait_state e = Ait_init \<or> \<not> waiting_action_clk_update e"
    and "ait_state_trans (ait_type (ait_pending_request e)) (ait_state e) = Some f"
  shows "ait_trans_ok ninv minv nowes k clk e c (f ops k e clk c)"
proof -
  have legal: "ait_legal (ait_type (ait_pending_request e)) (ait_state e)"
    using assms(3) by (simp add: ait_entry_ok_def)
  note rules = ait_end_trans_ok [OF assms(1,3)] ait_lmem_trans_ok [OF assms(1,3,4)]
    ait_wear_trans_ok [OF assms(1-3)] ait_next_trans_ok [OF assms(1-4)]
  show ?thesis
    using legal assms(4,5)
    by (cases "ait_type (ait_pending_request e)"; cases "ait_state e") (auto intro: rules)
qed

lemma ait_state_transfer_ok:
  assumes "ait_inv ninv minv nowes mowes x y c" "small_clk clk"
    and "map_of (entry_map (ait_buffer c)) k = Some e"
    and "ait_state e = Ait_init \<or> \<not> waiting_action_clk_update e" "ait_state e \<noteq> Ait_end"
  shows "ensures (ait_state_transfer ops clk k e c) (\<lambda>(c', calls).
    ait_inv ninv minv nowes mowes x y c' \<and> ait_lsq c' = ait_lsq c \<and>
    map fst (entry_map (ait_buffer c')) = map fst (entry_map (ait_buffer c)) \<and>
    ait_owes c = ait_owes c' + mset (map (\<lambda>(cb, a, t). (cb, rmw_translate_to_block_addr a)) calls) \<and>
    (\<forall>(cb, a, t) \<in> set calls. t = clk))"
proof -
  have e: "ait_entry_ok k e" by (rule ait_inv_entry [OF assms(1,3)])
  then obtain f :: "('n, 'm) ait_trans" where
    f: "ait_state_trans (ait_type (ait_pending_request e)) (ait_state e) = Some f"
    using ait_trans_exists assms(5) unfolding ait_entry_ok_def by blast
  have "ait_trans_ok ninv minv nowes k clk e c (f ops k e clk c)"
    by (rule ait_state_trans_ok [OF ait_inv_ctx [OF assms(1)] assms(2) e assms(4) f])
  then obtain c1 e1 calls new where t: "f ops k e clk c = Inr (c1, e1, calls)" "ait_ctx ninv minv c1"
      "ait_buffer c1 = ait_buffer c" "ait_lsq c1 = ait_lsq c" "ait_local_memory c1 = ait_local_memory c"
      "lmemq_state c1 = lmemq_state c" "queue (ait_lmemq c1) = queue (ait_lmemq c) @ new"
      "lmemq_content new + ait_lmem_waits k e = ait_lmem_waits k e1" "ait_entry_ok k e1"
      "all_owe nowes (next_level_components c1) + ait_media_waits k e =
         all_owe nowes (next_level_components c) + ait_media_waits k e1"
      "ait_entry_owes k e =
         ait_entry_owes k e1 + mset (map (\<lambda>(cb, a, t). (cb, rmw_translate_to_block_addr a)) calls)"
      "\<forall>(cb, a, t) \<in> set calls. t = clk"
    unfolding ait_trans_ok_def ensures_iff by auto
  let ?c = "c1\<lparr>ait_buffer := buf_set k e1 (ait_buffer c1)\<rparr>"
  have lsq: "rq_wf (ait_lsq c1)" using assms(1) t(4) by (simp add: ait_inv_def)
  have lm: "lmemq_ok (lmemq_state c1) (queue (ait_lmemq c1)) (mowes (ait_local_memory c1) + y)"
    using assms(1) lmemq_ok_append unfolding t(5-7) ait_inv_def by blast
  have b1: "all_owe nowes (next_level_components c1) + x + ait_media_waits k e =
      all_owe nowes (next_level_components c) + x + ait_media_waits k e1"
    using t(10) by (simp add: ac_simps)
  have b2: "lmemq_content (queue (ait_lmemq c1)) + ait_lmem_waits k e =
      lmemq_content (queue (ait_lmemq c)) + ait_lmem_waits k e1"
    using t(7,8) by (simp add: ac_simps)
  note set = ait_inv_set [OF assms(1,3) t(9,2,3) lsq b1 b2 lm]
  have "ait_owes c = ait_owes ?c + mset (map (\<lambda>(cb, a, t). (cb, rmw_translate_to_block_addr a)) calls)"
  proof -
    let ?m = "mset (map (\<lambda>(cb, a, t). (cb, rmw_translate_to_block_addr a)) calls)"
    have "collect ait_entry_owes (entry_map (buf_set k e1 (ait_buffer c))) + ait_entry_owes k e1 + ?m =
        collect ait_entry_owes (entry_map (ait_buffer c)) + ait_entry_owes k e1"
      using set(2) t(11) by (simp add: ac_simps)
    then have "collect ait_entry_owes (entry_map (buf_set k e1 (ait_buffer c))) + ?m =
        collect ait_entry_owes (entry_map (ait_buffer c))"
      by (simp add: ac_simps)
    then show ?thesis by (simp add: ait_owes_def t(3,4) ac_simps)
  qed
  moreover have "map fst (entry_map (ait_buffer ?c)) = map fst (entry_map (ait_buffer c))"
    using map_fst_update_present [OF map_of_Some_key [OF assms(3)]] t(3) by (simp add: buf_set_def)
  moreover have "ait_lsq ?c = ait_lsq c" using t(4) by simp
  moreover have "ait_state_transfer ops clk k e c = Inr (?c, calls)"
    using f t(1) by (simp add: ait_state_transfer_def)
  ultimately show ?thesis
    using set(1) t(12) unfolding ensures_iff by (intro exI [of _ "(?c, calls)"]) (simp only: case_prod_conv simp_thms)
qed

lemma ait_tick_entry_ok:
  assumes "ait_inv ninv minv nowes mowes x y c" "small_clk clk" "k \<in> fst ` set (entry_map (ait_buffer c))"
  shows "ensures (ait_tick_entry ops clk k c) (\<lambda>(c', calls).
    ait_inv ninv minv nowes mowes x y c' \<and> ait_lsq c' = ait_lsq c \<and>
    map fst (entry_map (ait_buffer c')) = map fst (entry_map (ait_buffer c)) \<and>
    ait_owes c = ait_owes c' + mset (map (\<lambda>(cb, a, t). (cb, rmw_translate_to_block_addr a)) calls) \<and>
    (\<forall>(cb, a, t) \<in> set calls. t = clk))"
proof -
  obtain e where e: "map_of (entry_map (ait_buffer c)) k = Some e"
    using map_of_key_Some [OF assms(3)] by auto
  have ok: "ait_entry_ok k e" by (rule ait_inv_entry [OF assms(1) e])
  show ?thesis
    using assms(1) e ok ait_state_transfer_ok [OF assms(1,2) e]
    by (auto simp: ait_tick_entry_def ait_entry_ok_def simp del: ensures_ebind)
qed

lemma ait_tick_entries_ok:
  assumes "ait_inv ninv minv nowes mowes x y c" "small_clk clk" "set ks \<subseteq> fst ` set (entry_map (ait_buffer c))"
  shows "ensures (ait_tick_entries ops clk ks c) (\<lambda>(c', calls).
    ait_inv ninv minv nowes mowes x y c' \<and>
    ait_owes c = ait_owes c' + mset (map (\<lambda>(cb, a, t). (cb, rmw_translate_to_block_addr a)) calls) \<and>
    (\<forall>(cb, a, t) \<in> set calls. t = clk))"
  using assms
proof (induction ks arbitrary: c)
  case (Cons k ks)
  have k: "k \<in> fst ` set (entry_map (ait_buffer c))" using Cons.prems(3) by simp
  obtain c1 cs where c1: "ait_tick_entry ops clk k c = Inr (c1, cs)" "ait_inv ninv minv nowes mowes x y c1"
      "map fst (entry_map (ait_buffer c1)) = map fst (entry_map (ait_buffer c))"
      "ait_owes c = ait_owes c1 + mset (map (\<lambda>(cb, a, t). (cb, rmw_translate_to_block_addr a)) cs)"
      "\<forall>(cb, a, t) \<in> set cs. t = clk"
    using ait_tick_entry_ok [OF Cons.prems(1,2) k] unfolding ensures_iff by blast
  have sub: "set ks \<subseteq> fst ` set (entry_map (ait_buffer c1))"
    using Cons.prems(3) arg_cong [OF c1(3), of set] by simp
  show ?case
    using Cons.IH [OF c1(2) Cons.prems(2) sub] c1(1,4,5)
    by (auto simp: ensures_iff)
qed simp

end


section \<open>The load/store queue keeps the invariant\<close>

definition ait_evicted :: "('n, 'm) ait_controller \<Rightarrow> ('n, 'm) ait_controller \<Rightarrow> bool" where
  "ait_evicted c c' \<longleftrightarrow> (\<exists>v e. map_of (entry_map (ait_buffer c)) v = Some e \<and> ait_state e = Ait_end \<and>
     (\<forall>(k, d) \<in> set (entry_map (ait_buffer c)). ait_state d = Ait_end \<longrightarrow> last_used_clk e \<le> last_used_clk d) \<and>
     entry_map (ait_buffer c') = AList.delete v (entry_map (ait_buffer c)))"

lemma ait_waits_end:
  assumes "ait_entry_ok k e" "ait_state e = Ait_end"
  shows "ait_media_waits k e = {#}" "ait_lmem_waits k e = {#}" "ait_entry_owes k e = {#}"
  using assms by (auto simp: ait_waits_defs ait_entry_ok_def)

lemma ait_inv_event:
  assumes "ait_inv ninv minv nw mw x y c" "n \<in> set ait_event_names"
  shows "\<exists>c'. ait_event n c = Inr c' \<and> ait_inv ninv minv nw mw x y c' \<and> ait_lsq c' = ait_lsq c \<and>
    ait_buffer c' = ait_buffer c \<and> ait_owes c' = ait_owes c"
  using assms ait_ctx_simps(1) [OF ait_inv_ctx [OF assms(1)], of n 1]
  by (simp add: ait_event_eq [OF ait_inv_ctx [OF assms(1)]] ait_inv_def ait_owes_def)

lemma ait_check_and_evict_ok:
  assumes "ait_inv ninv minv nw mw x y c"
  shows "\<exists>room c'. ait_check_and_evict c = Inr (room, c') \<and>
    ait_inv ninv minv nw mw x y c' \<and> ait_lsq c' = ait_lsq c \<and> ait_owes c' = ait_owes c \<and>
    (room \<longrightarrow> \<not> buf_full (ait_buffer c') \<and> (c' = c \<or> ait_evicted c c')) \<and>
    (\<not> room \<longrightarrow> c' = c \<and> buf_full (ait_buffer c))"
proof -
  note d = ait_inv_distinct [OF assms]
  have wf: "buf_wf ait_translate_to_block_addr (ait_buffer c)" using assms by (simp add: ait_inv_def)
  obtain v cl where s: "lru_scan (\<lambda>e. ait_state e = Ait_end) (entry_map (ait_buffer c))
      (addr_invalid, clk_invalid) = (v, cl)" by fastforce
  have ne: "\<not> ait_evicting c" using assms by (simp add: ait_inv_def ait_ctx_def)
  show ?thesis
  proof (cases "buf_full (ait_buffer c) \<and> v \<noteq> addr_invalid")
    case False
    then show ?thesis using assms s ne by (auto simp: ait_check_and_evict_def Let_def)
  next
    case True
    with lru_scan_victim [OF s] obtain e where e: "(v, e) \<in> set (entry_map (ait_buffer c))"
        "ait_state e = Ait_end" "\<forall>(k, d) \<in> set (entry_map (ait_buffer c)). ait_state d = Ait_end \<longrightarrow>
           last_used_clk e \<le> last_used_clk d" by blast
    have me: "map_of (entry_map (ait_buffer c)) v = Some e" using d e(1) by simp
    have v: "v \<in> fst ` set (entry_map (ait_buffer c))" using e(1) by force
    have t: "ait_translate_to_block_addr v = v" using wf v by (auto simp: buf_wf_def)
    let ?b = "buf_erase ait_translate_to_block_addr v (ait_buffer c)"
    have m: "entry_map ?b = AList.delete v (entry_map (ait_buffer c))" by (simp add: buf_erase_def t)
    have wf': "buf_wf ait_translate_to_block_addr ?b"
        "Suc (length (entry_map ?b)) = length (entry_map (ait_buffer c))"
      using buf_erase_wf [OF wf, of v] v t by simp_all
    have "length (entry_map ?b) < buf_max_entries ?b"
      using wf wf'(2) by (simp add: buf_wf_def buf_erase_def)
    then have nf: "\<not> buf_full ?b" by (simp add: buf_full_def)
    note w = ait_waits_end [OF ait_inv_entry [OF assms me] e(2)]
    have sums: "collect ait_media_waits (entry_map ?b) = collect ait_media_waits (entry_map (ait_buffer c))"
      "collect ait_lmem_waits (entry_map ?b) = collect ait_lmem_waits (entry_map (ait_buffer c))"
      "collect ait_entry_owes (entry_map ?b) = collect ait_entry_owes (entry_map (ait_buffer c))"
      using collect_delete [OF me d, of ait_media_waits] collect_delete [OF me d, of ait_lmem_waits]
        collect_delete [OF me d, of ait_entry_owes] w unfolding m by simp_all
    let ?c = "c\<lparr>ait_buffer := ?b\<rparr>"
    have "ait_inv ninv minv nw mw x y ?c"
      using assms wf'(1) sums by (auto simp: ait_inv_def m set_delete_AList)
    from ait_inv_event [OF this, of "''eviction''"] obtain c1 where c1: "ait_event ''eviction'' ?c = Inr c1"
        "ait_inv ninv minv nw mw x y c1" "ait_lsq c1 = ait_lsq c" "ait_buffer c1 = ?b" "ait_owes c1 = ait_owes ?c"
      by auto
    have "ait_owes ?c = ait_owes c" using sums(3) by (simp add: ait_owes_def)
    moreover have "ait_evicted c c1" using me e m c1(4) by (auto simp: ait_evicted_def)
    moreover have "ait_check_and_evict c = Inr (True, c1)"
      using True s ne c1(1) by (simp add: ait_check_and_evict_def Let_def)
    ultimately show ?thesis using c1 nf by auto
  qed
qed

text \<open>Entries that a request was just bound to.\<close>

lemma ait_fresh_entry:
  assumes "t = Read_miss \<or> t = Write_miss" "rmw_translate_to_block_addr a = a"
    and "e = ait_assign_callback cb ((new_ait_entry clk t a bm)\<lparr>buffer_index := bi\<rparr>)"
  shows "ait_entry_ok (ait_translate_to_block_addr a) e" "ait_media_waits k e = {#}" "ait_lmem_waits k e = {#}"
    and "ait_entry_owes k e = (if cb \<noteq> Cb_null then {#(cb, a)#} else {#})"
  using assms by (auto simp: ait_entry_ok_def new_ait_entry_def ait_assign_callback_def ait_waits_defs)

lemma ait_reused_entry:
  assumes "t = Read_hit \<or> t = Write_hit" "rmw_translate_to_block_addr a = a" "\<not> pending d"
  obtains e1 where "ait_assign_new_request clk t a bm d = Inr e1"
    and "ait_entry_ok (ait_translate_to_block_addr a) (ait_assign_callback cb e1)"
    and "ait_media_waits k (ait_assign_callback cb e1) = {#}" "ait_lmem_waits k (ait_assign_callback cb e1) = {#}"
    and "ait_entry_owes k (ait_assign_callback cb e1) = (if cb \<noteq> Cb_null then {#(cb, a)#} else {#})"
proof -
  obtain e1 where e1: "ait_assign_new_request clk t a bm d = Inr e1"
    using assms(3) by (simp add: ait_assign_new_request_def)
  show ?thesis
    by (rule that [OF e1])
      (use assms e1 in \<open>auto simp: ait_assign_new_request_def ait_assign_callback_def ait_entry_ok_def
        ait_waits_defs split: if_splits\<close>)
qed

text \<open>Taking the front request out of the queue and binding it to the entry \<open>e\<close> of its block.\<close>

lemma ait_served:
  assumes "ait_inv ninv minv nw mw x y c" "queue (ait_lsq c) = req # rest"
    and "entry_map (ait_buffer c') = (k, e) # entry_map (ait_buffer c) \<or>
      (\<exists>d. map_of (entry_map (ait_buffer c)) k = Some d \<and> \<not> pending d \<and>
        entry_map (ait_buffer c') = AList.update k e (entry_map (ait_buffer c)))"
    and "buf_wf ait_translate_to_block_addr (ait_buffer c')" "ait_ctx ninv minv c'"
    and "next_level_components c' = next_level_components c" "ait_lmemq c' = ait_lmemq c"
    and "ait_local_memory c' = ait_local_memory c" "lmemq_state c' = lmemq_state c"
    and "ait_lsq c' = (ait_lsq c)\<lparr>queue := rest\<rparr>"
    and "ait_entry_ok k e" "ait_media_waits k e = {#}" "ait_lmem_waits k e = {#}"
    and "ait_entry_owes k e = request_owes req"
  shows "ait_inv ninv minv nw mw x y c' \<and> ait_owes c' = ait_owes c"
proof -
  note d = ait_inv_distinct [OF assms(1)]
  have "collect ait_media_waits (entry_map (ait_buffer c')) = collect ait_media_waits (entry_map (ait_buffer c)) \<and>
      collect ait_lmem_waits (entry_map (ait_buffer c')) = collect ait_lmem_waits (entry_map (ait_buffer c)) \<and>
      collect ait_entry_owes (entry_map (ait_buffer c')) =
        collect ait_entry_owes (entry_map (ait_buffer c)) + request_owes req \<and>
      (\<forall>(l, d) \<in> set (entry_map (ait_buffer c')). ait_entry_ok l d)"
    using assms(3)
  proof
    assume "entry_map (ait_buffer c') = (k, e) # entry_map (ait_buffer c)"
    then show ?thesis using assms(1,11-14) by (simp add: ait_inv_def ac_simps)
  next
    assume "\<exists>d. map_of (entry_map (ait_buffer c)) k = Some d \<and> \<not> pending d \<and>
      entry_map (ait_buffer c') = AList.update k e (entry_map (ait_buffer c))"
    then obtain f where f: "map_of (entry_map (ait_buffer c)) k = Some f" "\<not> pending f"
      "entry_map (ait_buffer c') = AList.update k e (entry_map (ait_buffer c))" by blast
    have "ait_entry_ok k f" by (rule ait_inv_entry [OF assms(1) f(1)])
    moreover from this have "ait_state f = Ait_end" using f(2) by (simp add: ait_entry_ok_def)
    ultimately have w: "ait_media_waits k f = {#}" "ait_lmem_waits k f = {#}" "ait_entry_owes k f = {#}"
      by (rule ait_waits_end)+
    have "\<forall>(l, d) \<in> set (AList.update k e (entry_map (ait_buffer c))). ait_entry_ok l d"
      using assms(1,11) d by (intro ball_snd_update) (auto simp: ait_inv_def)
    then show ?thesis
      using collect_update [OF f(1) d, of ait_media_waits e] collect_update [OF f(1) d, of ait_lmem_waits e]
        collect_update [OF f(1) d, of ait_entry_owes e] w assms(12-14) unfolding f(3) by simp
  qed
  moreover have "rq_wf ((ait_lsq c)\<lparr>queue := rest\<rparr>)"
    using assms(1,2) by (intro rq_wf_shorter) (simp_all add: ait_inv_def)
  ultimately show ?thesis
    using assms(1,2,4-10) by (simp add: ait_inv_def ait_owes_def ac_simps)
qed


lemma ait_serve_new:
  assumes "ait_inv ninv minv nw mw x y c" "queue (ait_lsq c) = req # rest" "cnt \<in> set ait_event_names"
    and "t = Read_miss \<or> t = Write_miss" "rmw_translate_to_block_addr (req_addr req) = a"
    and "k = ait_translate_to_block_addr a"
    and "map_of (entry_map (ait_buffer c)) k = None" "\<not> buf_full (ait_buffer c)"
    and "tb = ait_table c \<or> tb = record_write a (ait_table c)"
  shows "\<exists>b c'. buf_insert ait_translate_to_block_addr k (new_ait_entry clk t a bm) (ait_buffer c) = Inr b \<and>
    ait_serve cnt k req rest (c\<lparr>ait_buffer := b, ait_table := tb\<rparr>) = Inr c' \<and>
    ait_inv ninv minv nw mw x y c' \<and> ait_owes c' = ait_owes c \<and> queue (ait_lsq c') = rest"
proof -
  have idem: "ait_translate_to_block_addr k = k" using assms(6) aitb.translate_idem by simp
  have aa: "rmw_translate_to_block_addr a = a" using assms(5) rmwb.translate_idem by blast
  have wf: "buf_wf ait_translate_to_block_addr (ait_buffer c)" using assms(1) by (simp add: ait_inv_def)
  have "ensures (buf_insert ait_translate_to_block_addr k (new_ait_entry clk t a bm) (ait_buffer c)) (\<lambda>b'.
      buf_wf ait_translate_to_block_addr b' \<and> buf_max_entries b' = buf_max_entries (ait_buffer c) \<and>
      entry_map b' = (k, (new_ait_entry clk t a bm)\<lparr>buffer_index := of_nat (length (entry_map (ait_buffer c)))\<rparr>)
        # entry_map (ait_buffer c))"
    using buf_insert_ensures [OF wf, of k "new_ait_entry clk t a bm"] idem assms(7,8) by simp
  then obtain b bi where b: "buf_insert ait_translate_to_block_addr k (new_ait_entry clk t a bm) (ait_buffer c) = Inr b"
      "buf_wf ait_translate_to_block_addr b"
      "entry_map b = (k, (new_ait_entry clk t a bm)\<lparr>buffer_index := bi\<rparr>) # entry_map (ait_buffer c)"
    by (auto simp: ensures_iff)
  define e where "e = ait_assign_callback (req_callback req) ((new_ait_entry clk t a bm)\<lparr>buffer_index := bi\<rparr>)"
  note fresh = ait_fresh_entry [OF assms(4) aa e_def]
  let ?c = "c\<lparr>ait_table := tb, ait_buffer := buf_set k e b, ait_lsq := (ait_lsq c)\<lparr>queue := rest\<rparr>\<rparr>"
  have em: "entry_map (buf_set k e b) = (k, e) # entry_map (ait_buffer c)" using b(3) by (simp add: buf_set_def)
  have wf': "buf_wf ait_translate_to_block_addr (buf_set k e b)"
    by (rule buf_set_wf [OF b(2)]) (simp add: b(3))
  have tok: "table_ok tb" using assms(1,9) by (auto simp: ait_inv_def ait_ctx_def)
  have "ait_ctx ninv minv ?c" using ait_inv_ctx [OF assms(1)] tok by simp
  moreover have "ait_entry_owes k e = request_owes req"
    using fresh(4) assms(5) by (simp add: request_owes_def has_callback_def)
  ultimately have "ait_inv ninv minv nw mw x y ?c \<and> ait_owes ?c = ait_owes c"
    using em wf' fresh(1-3) assms(6)
    by (intro ait_served [OF assms(1,2), of ?c k e]) simp_all
  moreover from this obtain c' where "ait_event cnt ?c = Inr c'" "ait_inv ninv minv nw mw x y c'"
      "ait_lsq c' = ait_lsq ?c" "ait_owes c' = ait_owes ?c"
    using ait_inv_event [OF _ assms(3)] by blast
  moreover have "ait_serve cnt k req rest (c\<lparr>ait_buffer := b, ait_table := tb\<rparr>) = ait_event cnt ?c"
    by (simp add: ait_serve_def b(3) e_def)
  ultimately show ?thesis using b(1) by auto
qed

lemma ait_serve_reused:
  assumes "ait_inv ninv minv nw mw x y c" "queue (ait_lsq c) = req # rest" "cnt \<in> set ait_event_names"
    and "t = Read_hit \<or> t = Write_hit" "rmw_translate_to_block_addr (req_addr req) = a"
    and "k = ait_translate_to_block_addr a"
    and "map_of (entry_map (ait_buffer c)) k = Some d" "\<not> pending d"
    and "tb = ait_table c \<or> tb = record_write a (ait_table c)"
  shows "\<exists>e c'. ait_assign_new_request clk t a bm d = Inr e \<and>
    ait_serve cnt k req rest (c\<lparr>ait_buffer := buf_set k e (ait_buffer c), ait_table := tb\<rparr>) = Inr c' \<and>
    ait_inv ninv minv nw mw x y c' \<and> ait_owes c' = ait_owes c \<and> queue (ait_lsq c') = rest"
proof -
  have aa: "rmw_translate_to_block_addr a = a" using assms(5) rmwb.translate_idem by blast
  have k: "k \<in> fst ` set (entry_map (ait_buffer c))" by (rule map_of_Some_key [OF assms(7)])
  obtain e1 where e1: "ait_assign_new_request clk t a bm d = Inr e1"
      "ait_entry_ok (ait_translate_to_block_addr a) (ait_assign_callback (req_callback req) e1)"
      "ait_media_waits k (ait_assign_callback (req_callback req) e1) = {#}"
      "ait_lmem_waits k (ait_assign_callback (req_callback req) e1) = {#}"
      "ait_entry_owes k (ait_assign_callback (req_callback req) e1) =
        (if req_callback req \<noteq> Cb_null then {#(req_callback req, a)#} else {#})"
    by (rule ait_reused_entry [OF assms(4) aa assms(8)])
  define e where "e = ait_assign_callback (req_callback req) e1"
  let ?c = "c\<lparr>ait_table := tb, ait_buffer := buf_set k e (ait_buffer c), ait_lsq := (ait_lsq c)\<lparr>queue := rest\<rparr>\<rparr>"
  have wf': "buf_wf ait_translate_to_block_addr (buf_set k e (ait_buffer c))"
    using assms(1) k by (intro buf_set_wf) (simp_all add: ait_inv_def)
  have tok: "table_ok tb" using assms(1,9) by (auto simp: ait_inv_def ait_ctx_def)
  have "ait_ctx ninv minv ?c" using ait_inv_ctx [OF assms(1)] tok by simp
  moreover have "ait_entry_owes k e = request_owes req"
    using e1(5) assms(5) by (simp add: request_owes_def has_callback_def e_def)
  ultimately have "ait_inv ninv minv nw mw x y ?c \<and> ait_owes ?c = ait_owes c"
    using wf' e1(2-4) assms(6-8)
    by (intro ait_served [OF assms(1,2), of ?c k e]) (simp_all add: e_def buf_set_def)
  moreover from this obtain c' where "ait_event cnt ?c = Inr c'" "ait_inv ninv minv nw mw x y c'"
      "ait_lsq c' = ait_lsq ?c" "ait_owes c' = ait_owes ?c"
    using ait_inv_event [OF _ assms(3)] by blast
  moreover have "ait_serve cnt k req rest (c\<lparr>ait_buffer := buf_set k e1 (ait_buffer c), ait_table := tb\<rparr>) =
      ait_event cnt ?c"
    by (simp add: ait_serve_def buf_set_def update_update_same e_def)
  ultimately show ?thesis using e1(1) by auto
qed

text \<open>
  One tick of the load/store queue: nothing, or the front request is taken by its block, which is
  idle; no callback is lost or duplicated.
\<close>

lemma shl_1U_ait [simp]:
  "shl_1U (ait_block_offset_rmw a) = Inr (push_bit (unat (ait_block_offset_rmw a)) 1)"
  using ait_rmw_index_lt_16 [of a] by (simp add: shl_1U_def)

lemma ait_tick_lsq_ok:
  assumes "ait_inv ninv minv nw mw x y c"
  shows "ensures (ait_tick_lsq clk c) (\<lambda>c'. ait_inv ninv minv nw mw x y c' \<and> ait_owes c' = ait_owes c \<and>
    (c' = c \<or> queue (ait_lsq c') = tl (queue (ait_lsq c))))"
proof (cases "queue (ait_lsq c)")
  case Nil
  then show ?thesis using assms by (simp add: ait_tick_lsq_def)
next
  case (Cons req rest)
  define a where "a = rmw_translate_to_block_addr (req_addr req)"
  define k where "k = ait_translate_to_block_addr a"
  obtain bm where bm: "shl_1U (ait_block_offset_rmw a) = Inr bm" by simp
  have kk: "ait_translate_to_block_addr k = k" unfolding k_def by (rule aitb.translate_idem)
  show ?thesis
  proof (cases "map_of (entry_map (ait_buffer c)) k")
    case None
    obtain room c1 where ev: "ait_check_and_evict c = Inr (room, c1)" "ait_inv ninv minv nw mw x y c1"
        "ait_lsq c1 = ait_lsq c" "ait_owes c1 = ait_owes c"
        "room \<longrightarrow> \<not> buf_full (ait_buffer c1) \<and> (c1 = c \<or> ait_evicted c c1)" "\<not> room \<longrightarrow> c1 = c"
      using ait_check_and_evict_ok [OF assms] by blast
    show ?thesis
    proof (cases room)
      case False
      then show ?thesis using assms None ev(1,6) Cons bm kk
        by (cases "req_type req")
          (simp_all add: ait_tick_lsq_def ait_tick_lsq_read_def ait_tick_lsq_write_def buf_find_def Let_def
            flip: a_def k_def del: shl_1U_ait)
    next
      case True
      have q: "queue (ait_lsq c1) = req # rest" using ev(3) Cons by simp
      have n: "map_of (entry_map (ait_buffer c1)) k = None" "\<not> buf_full (ait_buffer c1)"
        using True ev(5) None by (auto simp: ait_evicted_def delete_conv')
      note new = ait_serve_new [OF ev(2) q _ _ a_def [symmetric] k_def n, where clk = clk and bm = bm]
      show ?thesis
      proof (cases "req_type req")
        case Base_read
        obtain b c' where "buf_insert ait_translate_to_block_addr k (new_ait_entry clk Read_miss a bm) (ait_buffer c1) = Inr b"
            "ait_serve ''read_access'' k req rest (c1\<lparr>ait_buffer := b, ait_table := ait_table c1\<rparr>) = Inr c'"
            "ait_inv ninv minv nw mw x y c'" "ait_owes c' = ait_owes c1" "queue (ait_lsq c') = rest"
          using new [of "''read_access''" Read_miss "ait_table c1"] by auto
        then show ?thesis using None Cons bm kk ev(1,4) True Base_read
          by (simp add: ait_tick_lsq_def ait_tick_lsq_read_def buf_find_def Let_def
              flip: a_def k_def del: shl_1U_ait)
      next
        case Base_write
        obtain b c' where "buf_insert ait_translate_to_block_addr k (new_ait_entry clk Write_miss a bm) (ait_buffer c1) = Inr b"
            "ait_serve ''write_access'' k req rest
              (c1\<lparr>ait_buffer := b, ait_table := record_write a (ait_table c1)\<rparr>) = Inr c'"
            "ait_inv ninv minv nw mw x y c'" "ait_owes c' = ait_owes c1" "queue (ait_lsq c') = rest"
          using new [of "''write_access''" Write_miss "record_write a (ait_table c1)"] by auto
        then show ?thesis using None Cons bm kk ev(1,4) True Base_write
          by (simp add: ait_tick_lsq_def ait_tick_lsq_write_def Let_def
              flip: a_def k_def del: shl_1U_ait)
      qed
    qed
  next
    case (Some d)
    show ?thesis
    proof (cases "pending d")
      case True
      then show ?thesis using assms Some Cons bm kk
        by (cases "req_type req")
          (simp_all add: ait_tick_lsq_def ait_tick_lsq_read_def ait_tick_lsq_write_def buf_find_def Let_def
            flip: a_def k_def del: shl_1U_ait)
    next
      case False
      note used = ait_serve_reused [OF assms Cons _ _ a_def [symmetric] k_def Some False, where clk = clk and bm = bm]
      show ?thesis
      proof (cases "req_type req")
        case Base_read
        obtain e c' where "ait_assign_new_request clk Read_hit a bm d = Inr e"
            "ait_serve ''read_access'' k req rest
              (c\<lparr>ait_buffer := buf_set k e (ait_buffer c), ait_table := ait_table c\<rparr>) = Inr c'"
            "ait_inv ninv minv nw mw x y c'" "ait_owes c' = ait_owes c" "queue (ait_lsq c') = rest"
          using used [of "''read_access''" Read_hit "ait_table c"] by auto
        then show ?thesis using assms Some Cons bm kk False Base_read
          by (simp add: ait_tick_lsq_def ait_tick_lsq_read_def buf_find_def Let_def
              flip: a_def k_def del: shl_1U_ait)
      next
        case Base_write
        obtain e c' where "ait_assign_new_request clk Write_hit a bm d = Inr e"
            "ait_serve ''write_access'' k req rest
              (c\<lparr>ait_buffer := buf_set k e (ait_buffer c), ait_table := record_write a (ait_table c)\<rparr>) = Inr c'"
            "ait_inv ninv minv nw mw x y c'" "ait_owes c' = ait_owes c" "queue (ait_lsq c') = rest"
          using used [of "''write_access''" Write_hit "record_write a (ait_table c)"] by auto
        then show ?thesis using Some Cons bm kk False Base_write
          by (simp add: ait_tick_lsq_def ait_tick_lsq_write_def Let_def
              flip: a_def k_def del: shl_1U_ait)
      qed
    qed
  qed
qed


section \<open>The local-memory queue keeps the invariant\<close>

text \<open>The request at the front of the queue belongs to an entry that waits for it.\<close>

lemma lmemq_front_entry:
  assumes "ait_inv ninv minv nw mw x y c" "queue (ait_lmemq c) = r # rest"
  defines "k \<equiv> ait_translate_to_block_addr (req_addr r)"
  obtains e where "map_of (entry_map (ait_buffer c)) k = Some e" "waiting_action_clk_update e"
    and "ait_lmem_waits k e = {#(req_type r, req_addr r)#}"
    and "ait_media_waits k e = {#}" "ait_state e \<in> {Pending_read_dram, Pending_write_dram}"
    and "rmw_translate_to_block_addr (req_addr r) = req_addr r"
proof -
  have "(req_type r, req_addr r) \<in># collect ait_lmem_waits (entry_map (ait_buffer c))"
  proof -
    have "lmemq_content (queue (ait_lmemq c)) = collect ait_lmem_waits (entry_map (ait_buffer c))"
      using assms(1) by (simp add: ait_inv_def)
    then show ?thesis using assms(2) by (simp flip: \<open>lmemq_content _ = _\<close>)
  qed
  from collect_elem [OF this] obtain l e where e: "(l, e) \<in> set (entry_map (ait_buffer c))"
      "(req_type r, req_addr r) \<in># ait_lmem_waits l e" by blast
  have l: "map_of (entry_map (ait_buffer c)) l = Some e"
    using e(1) ait_inv_distinct [OF assms(1)] by simp
  have ok: "ait_entry_ok l e" by (rule ait_inv_entry [OF assms(1) l])
  have "req_addr r = rmw_block_addr (ait_pending_request e)"
    using e(2) by (auto simp: ait_lmem_waits_def split: if_splits)
  then have "l = k" "rmw_translate_to_block_addr (req_addr r) = req_addr r"
    using ok by (simp_all add: ait_entry_ok_def k_def)
  then show ?thesis
    using that [of e] l e(2) by (auto simp: ait_lmem_waits_def ait_media_waits_def split: if_splits)
qed

lemma ait_lmemq_setup_ok:
  assumes "ait_inv ninv minv nw mw x y c" "\<not> rq_empty (ait_lmemq c)"
  shows "ait_inv ninv minv nw mw x y (ait_lmemq_setup c)" "ait_owes (ait_lmemq_setup c) = ait_owes c"
    and "pending_front (lmemq_state (ait_lmemq_setup c))"
    and "ait_local_memory (ait_lmemq_setup c) = ait_local_memory c"
    and "ait_lmemq (ait_lmemq_setup c) = ait_lmemq c"
proof -
  have l: "lmemq_ok (lmemq_state c) (queue (ait_lmemq c)) (mw (ait_local_memory c) + y)"
    using assms(1) by (simp add: ait_inv_def)
  let ?st = "(lmemq_state c)\<lparr>pending_front := True, subreq_pending_index := - 1\<rparr>"
  have s: "ait_lmemq_setup c = (if pending_front (lmemq_state c) then c else c\<lparr>lmemq_state := ?st\<rparr>)"
    using l by (auto simp: ait_lmemq_setup_def lmemq_ok_def Let_def)
  have "lmemq_ok ?st (queue (ait_lmemq c)) (mw (ait_local_memory c) + y)" if "\<not> pending_front (lmemq_state c)"
    using l that assms(2) by (auto simp: lmemq_ok_def lmemq_waits_def rq_empty_def)
  then show "ait_inv ninv minv nw mw x y (ait_lmemq_setup c)" "ait_owes (ait_lmemq_setup c) = ait_owes c"
      "pending_front (lmemq_state (ait_lmemq_setup c))"
      "ait_local_memory (ait_lmemq_setup c) = ait_local_memory c"
      "ait_lmemq (ait_lmemq_setup c) = ait_lmemq c"
    using assms(1) unfolding s by (simp_all add: ait_inv_def ait_owes_def)
qed

lemma ait_lmemq_finish_ok:
  assumes "ait_inv ninv minv nw mw x y c" "queue (ait_lmemq c) = r # rest" "small_clk clk"
    and "pending_front (lmemq_state c)" "subreq_pending_index (lmemq_state c) = 3"
    and "subreq_served (lmemq_state c) ! 3"
  shows "ensures (ait_lmemq_finish clk r rest c) (\<lambda>c'. ait_inv ninv minv nw mw x y c' \<and> ait_owes c' = ait_owes c)"
proof -
  let ?k = "ait_translate_to_block_addr (req_addr r)"
  obtain e where e: "map_of (entry_map (ait_buffer c)) ?k = Some e" "waiting_action_clk_update e"
      "ait_lmem_waits ?k e = {#(req_type r, req_addr r)#}" "ait_media_waits ?k e = {#}"
      "ait_state e \<in> {Pending_read_dram, Pending_write_dram}"
    by (rule lmemq_front_entry [OF assms(1,2)])
  let ?e = "e\<lparr>next_action_clk := clk + 1, waiting_action_clk_update := False\<rparr>"
  let ?st = "(lmemq_state c)\<lparr>pending_front := False, subreq_served := map (\<lambda>_. False) (subreq_served (lmemq_state c))\<rparr>"
  let ?c = "c\<lparr>ait_lmemq := (ait_lmemq c)\<lparr>queue := rest\<rparr>, lmemq_state := ?st\<rparr>"
  have ok: "ait_entry_ok ?k ?e"
    using ait_inv_entry [OF assms(1) e(1)] e(5) suc_neq_clk_invalid [OF assms(3)]
    by (auto simp: ait_entry_ok_def)
  have w: "ait_media_waits ?k ?e = {#}" "ait_lmem_waits ?k ?e = {#}" "ait_entry_owes ?k ?e = ait_entry_owes ?k e"
    by (simp_all add: ait_waits_defs)
  have l: "lmemq_ok (lmemq_state c) (queue (ait_lmemq c)) (mw (ait_local_memory c) + y)"
    using assms(1) by (simp add: ait_inv_def)
  have "lmemq_ok ?st rest (mw (ait_local_memory c) + y)"
    using l assms(4-6) by (auto simp: lmemq_ok_def lmemq_waits_def)
  moreover have "rq_wf ((ait_lmemq c)\<lparr>queue := rest\<rparr>)"
    using assms(1,2) by (intro rq_wf_shorter) (simp_all add: ait_inv_def ait_ctx_def)
  moreover have "ait_ctx ninv minv c" by (rule ait_inv_ctx [OF assms(1)])
  ultimately have "ait_inv ninv minv nw mw x y (?c\<lparr>ait_buffer := buf_set ?k ?e (ait_buffer ?c)\<rparr>)"
    and "collect ait_entry_owes (entry_map (buf_set ?k ?e (ait_buffer c))) + ait_entry_owes ?k e =
      collect ait_entry_owes (entry_map (ait_buffer c)) + ait_entry_owes ?k ?e"
    using ait_inv_set [OF assms(1) e(1) ok, of ?c x y] assms(1,2) e(3,4) w
    by (simp_all add: ait_inv_def)
  then show ?thesis
    using e(1) w(3) by (simp add: ait_lmemq_finish_def Let_def ait_owes_def)
qed


lemma unat_subreq: "0 \<le> i \<Longrightarrow> i \<le> 3 \<Longrightarrow> unat (of_int i * cpu_cl_size :: addr_t) = nat i * 64"
proof -
  assume "0 \<le> i" "i \<le> 3"
  then have "i = 0 \<or> i = 1 \<or> i = 2 \<or> i = 3" by auto
  then show ?thesis by (auto simp: cpu_cl_size_def)
qed

text \<open>The four sub-requests address the four cache lines of the block, in order.\<close>

lemma subreq_addr_offset:
  assumes "rmw_translate_to_block_addr a = a" "0 \<le> i" "i \<le> 3"
  shows "unat (rmw_block_offset_cl (subreq_addr a i)) = nat i"
    and "rmw_translate_to_block_addr (subreq_addr a i) = a"
proof -
  let ?x = "of_int i * cpu_cl_size :: addr_t"
  have u: "unat ?x = nat i * 64" by (rule unat_subreq [OF assms(2,3)])
  have lt: "unat ?x < 2 ^ 8" unfolding u using assms(2,3) by simp
  note t = rmwb.translate_add_lt [OF lt, of a, unfolded assms(1)]
  show "rmw_translate_to_block_addr (subreq_addr a i) = a" using t(1) by (simp add: subreq_addr_def)
  have "unat (rmw_block_offset (subreq_addr a i)) = nat i * 64" using t(2) u by (simp add: subreq_addr_def)
  then show "unat (rmw_block_offset_cl (subreq_addr a i)) = nat i"
    by (simp add: rmw_block_offset_cl_def unat_shift_6)
qed

text \<open>A served sub-request: its line is marked, and nothing is owed for it any more.\<close>

lemma lmemq_ok_serve:
  assumes "lmemq_ok st q owed" "pending_front st" "0 \<le> subreq_pending_index st"
    and "owed' = {#}"
  shows "lmemq_ok (st\<lparr>subreq_served := (subreq_served st)[nat (subreq_pending_index st) := True]\<rparr>) q owed'"
proof -
  let ?i = "subreq_pending_index st"
  have i: "int (nat ?i) = ?i" using assms(3) by simp
  have "int j \<le> ?i" if "j < 4" "(subreq_served st)[nat ?i := True] ! j" for j
    using assms(1,2) that i by (cases "j = nat ?i") (auto simp: lmemq_ok_def)
  moreover have "(subreq_served st)[nat ?i := True] ! j" if "int j < ?i" for j
    using assms(1,2) that i by (cases "j = nat ?i") (auto simp: lmemq_ok_def)
  ultimately show ?thesis using assms by (auto simp: lmemq_ok_def)
qed

context ait_levels
begin

lemma ait_lmemq_next_ok:
  assumes "ait_inv ninv minv nowes mowes x {#} c" "queue (ait_lmemq c) = r # rest" "small_clk clk"
    and "full mops (ait_local_memory c) = Inr False" "pending_front (lmemq_state c)"
  defines "i \<equiv> subreq_pending_index (lmemq_state c)"
  assumes "i < 3" "i = - 1 \<or> subreq_served (lmemq_state c) ! nat i"
  shows "ensures (ait_lmemq_next mops clk r c) (\<lambda>c'. ait_inv ninv minv nowes mowes x {#} c' \<and> ait_owes c' = ait_owes c)"
proof -
  let ?k = "ait_translate_to_block_addr (req_addr r)"
  obtain e where e: "map_of (entry_map (ait_buffer c)) ?k = Some e"
      "rmw_translate_to_block_addr (req_addr r) = req_addr r"
    by (rule lmemq_front_entry [OF assms(1,2)])
  have l: "lmemq_ok (lmemq_state c) (r # rest) (mowes (ait_local_memory c))"
    using assms(1,2) by (simp add: ait_inv_def)
  then have i: "- 1 \<le> i" "length (subreq_served (lmemq_state c)) = 4"
    by (simp_all add: lmemq_ok_def i_def)
  have "lmemq_waits (lmemq_state c) (r # rest) = {#}"
    using assms(8) by (auto simp: lmemq_waits_def i_def)
  then have none: "mowes (ait_local_memory c) = {#}" using l by (simp add: lmemq_ok_def)
  let ?a = "subreq_addr (req_addr r) (i + 1)"
  let ?q = "new_base_request (req_type r) ?a clk Cb_ait_lmemq_subreq"
  have m: "minv (ait_local_memory c)" using ait_inv_ctx [OF assms(1)] by (simp add: ait_ctx_def)
  have q: "small_clk (req_arrive ?q)" using assms(3) by simp
  obtain m' q' det nc where iss: "issue_request mops (ait_local_memory c) ?q = Inr (m', q', True, det, nc)"
    using lmem.not_full_issues [OF m assms(4) q] by (auto simp: ensures_iff)
  then have m': "minv m'" "mowes m' = (if \<not> det \<and> req_type r = Base_read then {#(Cb_ait_lmemq_subreq, ?a)#} else {#})"
    using lmem.issue_ok [OF m q] lmem.issue_owes [OF m q] none by (simp_all add: is_read_with_callback_def)
  let ?st = "(lmemq_state c)\<lparr>subreq_pending_index := i + 1\<rparr>"
  let ?c = "c\<lparr>lmemq_state := ?st, ait_local_memory := m'\<rparr>"
  have st: "lmemq_ok ?st (r # rest) {#(Cb_ait_lmemq_subreq, ?a)#}"
  proof -
    have "\<not> subreq_served (lmemq_state c) ! nat (i + 1)"
    proof
      assume "subreq_served (lmemq_state c) ! nat (i + 1)"
      moreover have "nat (i + 1) < 4" using assms(7) i(1) by simp
      moreover have "\<forall>j < 4. subreq_served (lmemq_state c) ! j \<longrightarrow> int j \<le> i"
        using l assms(5) by (simp add: lmemq_ok_def i_def)
      ultimately have "int (nat (i + 1)) \<le> i" by blast
      then show False using i(1) by simp
    qed
    moreover have "subreq_served (lmemq_state c) ! j" if "int j < i + 1" for j
    proof (cases "int j < i")
      case False
      then have "j = nat i" "i \<noteq> - 1" using that by auto
      then show ?thesis using assms(8) by simp
    qed (use l assms(5) in \<open>simp add: lmemq_ok_def i_def\<close>)
    moreover have "int j \<le> i + 1" if "j < 4" "subreq_served (lmemq_state c) ! j" for j
    proof -
      have "\<forall>j < 4. subreq_served (lmemq_state c) ! j \<longrightarrow> int j \<le> i"
        using l assms(5) by (simp add: lmemq_ok_def i_def)
      then have "int j \<le> i" using that by blast
      then show ?thesis by simp
    qed
    ultimately show ?thesis
      using i assms(5,7) unfolding lmemq_ok_def by (simp add: lmemq_waits_def)
  qed
  have st0: "lmemq_ok ?st (r # rest) {#}" using st by (auto simp: lmemq_ok_def)
  have ctx: "ait_ctx ninv minv ?c" using ait_inv_ctx [OF assms(1)] m'(1) by simp
  have idx: "req_addr r + of_int (i + 1) * cpu_cl_size = ?a" by (simp add: subreq_addr_def)
  have tr: "ait_lmemq_next mops clk r c =
      (case req_type r of
         Base_write \<Rightarrow> ait_event ''lmem_write_access'' (ait_lmemq_callback ?a ?c)
       | Base_read \<Rightarrow> ait_event ''lmem_read_access'' ?c)"
    using e(1) iss
    by (simp add: ait_lmemq_next_def Let_def idx flip: i_def del: of_int_add split: base_request_type.split)
  show ?thesis
  proof (cases "req_type r")
    case Base_read
    have "lmemq_ok ?st (r # rest) (mowes m')" using st st0 m'(2) Base_read by (cases det) simp_all
    then have inv: "ait_inv ninv minv nowes mowes x {#} ?c"
      using assms(1,2) ctx by (simp add: ait_inv_def)
    have "ait_owes ?c = ait_owes c" by (simp add: ait_owes_def)
    then show ?thesis using ait_inv_event [OF inv, of "''lmem_read_access''"] tr Base_read by auto
  next
    case Base_write
    have off: "unat (rmw_block_offset_cl ?a) = nat (i + 1)"
      using subreq_addr_offset(1) [OF e(2), of "i + 1"] i(1) assms(7) by simp
    let ?st' = "?st\<lparr>subreq_served := (subreq_served ?st)[nat (subreq_pending_index ?st) := True]\<rparr>"
    have cb: "ait_lmemq_callback ?a ?c = ?c\<lparr>lmemq_state := ?st'\<rparr>"
      using off by (simp add: ait_lmemq_callback_def)
    have "lmemq_ok ?st' (r # rest) {#}"
      by (rule lmemq_ok_serve [OF st0]) (use assms(5) i(1) in simp_all)
    then have inv: "ait_inv ninv minv nowes mowes x {#} (ait_lmemq_callback ?a ?c)"
      using assms(1,2) ait_ctx_simps(8) [OF ait_inv_ctx [OF assms(1)] m'(1)] m'(2) Base_write
      unfolding cb by (simp add: ait_inv_def)
    have "ait_owes (ait_lmemq_callback ?a ?c) = ait_owes c" unfolding cb by (simp add: ait_owes_def)
    then show ?thesis using ait_inv_event [OF inv, of "''lmem_write_access''"] tr Base_write by auto
  qed
qed

lemma ait_tick_lmemq_ok:
  assumes "ait_inv ninv minv nowes mowes x {#} c" "small_clk clk"
  shows "ensures (ait_tick_lmemq mops clk c) (\<lambda>c'. ait_inv ninv minv nowes mowes x {#} c' \<and> ait_owes c' = ait_owes c)"
proof (cases "rq_empty (ait_lmemq c)")
  case True
  then show ?thesis using assms by (simp add: ait_tick_lmemq_def)
next
  case False
  let ?c = "ait_lmemq_setup c"
  note s = ait_lmemq_setup_ok [OF assms(1) False]
  let ?i = "subreq_pending_index (lmemq_state ?c)"
  obtain r rest where q: "queue (ait_lmemq ?c) = r # rest"
    using False s(5) by (cases "queue (ait_lmemq c)") (auto simp: rq_empty_def)
  have "minv (ait_local_memory ?c)" using ait_inv_ctx [OF s(1)] by (simp add: ait_ctx_def)
  then obtain f where f: "full mops (ait_local_memory ?c) = Inr f"
    using lmem.full_ok by (auto simp: ensures_iff)
  have i: "- 1 \<le> ?i" "?i \<le> 3" "length (subreq_served (lmemq_state ?c)) = 4"
    using s(1) by (auto simp: ait_inv_def lmemq_ok_def)
  consider (full) f | (wait) "\<not> f" "?i \<noteq> - 1" "\<not> subreq_served (lmemq_state ?c) ! nat ?i"
    | (finish) "\<not> f" "?i = 3" "subreq_served (lmemq_state ?c) ! 3"
    | (issue) "\<not> f" "?i < 3" "?i = - 1 \<or> subreq_served (lmemq_state ?c) ! nat ?i"
    using i by fastforce
  then show ?thesis
  proof cases
    case full
    then show ?thesis using False f s by (simp add: ait_tick_lmemq_def Let_def)
  next
    case wait
    then show ?thesis using False f s q i by (simp add: ait_tick_lmemq_def Let_def)
  next
    case finish
    then have "ait_tick_lmemq mops clk c = ait_lmemq_finish clk r rest ?c"
      using False f q i by (simp add: ait_tick_lmemq_def Let_def subreq_cnt_def)
    then show ?thesis
      using ait_lmemq_finish_ok [OF s(1) q assms(2) s(3) finish(2,3)] s(2) by simp
  next
    case issue
    then have "ait_tick_lmemq mops clk c = ait_lmemq_next mops clk r ?c"
      using False f q i by (auto simp: ait_tick_lmemq_def Let_def subreq_cnt_def)
    then show ?thesis
      using ait_lmemq_next_ok [OF s(1) q assms(2) _ s(3) issue(2,3)] f issue(1) s(2) by simp
  qed
qed

end


section \<open>Callbacks keep the invariant\<close>

lemma ait_media_callback_ok:
  assumes "ait_inv ninv minv nw mw (add_mset (Cb_ait_next_level_read, ait_translate_to_block_addr a) x) y c"
    and "small_clk clk"
  shows "ensures (ait_next_level_read_callback a clk c)
    (\<lambda>c'. ait_inv ninv minv nw mw x y c' \<and> ait_owes c' = ait_owes c)"
proof -
  let ?k = "ait_translate_to_block_addr a"
  have "collect ait_media_waits (entry_map (ait_buffer c)) =
      all_owe nw (next_level_components c) + add_mset (Cb_ait_next_level_read, ?k) x"
    using assms(1) by (simp add: ait_inv_def)
  then have "(Cb_ait_next_level_read, ?k) \<in># collect ait_media_waits (entry_map (ait_buffer c))" by simp
  then obtain k e where "(k, e) \<in> set (entry_map (ait_buffer c))" "(Cb_ait_next_level_read, ?k) \<in># ait_media_waits k e"
    using collect_elem by fastforce
  then have e: "map_of (entry_map (ait_buffer c)) ?k = Some e" "waiting_action_clk_update e"
      "ait_state e \<in> {Pending_read_media, Pending_write_media}"
    using ait_inv_distinct [OF assms(1)] by (auto simp: ait_media_waits_def split: if_splits)
  let ?e = "e\<lparr>waiting_action_clk_update := False, next_action_clk := clk + 1\<rparr>"
  have ok: "ait_entry_ok ?k ?e"
    using ait_inv_entry [OF assms(1) e(1)] e(3) suc_neq_clk_invalid [OF assms(2)]
    by (auto simp: ait_entry_ok_def)
  have w: "ait_media_waits ?k e = {#(Cb_ait_next_level_read, ?k)#}" "ait_media_waits ?k ?e = {#}"
      "ait_lmem_waits ?k e = {#}" "ait_lmem_waits ?k ?e = {#}" "ait_entry_owes ?k ?e = ait_entry_owes ?k e"
    using e by (auto simp: ait_waits_defs)
  note set = ait_inv_set [OF assms(1) e(1) ok ait_inv_ctx [OF assms(1)] refl, of x y]
  have "ait_inv ninv minv nw mw x y (c\<lparr>ait_buffer := buf_set ?k ?e (ait_buffer c)\<rparr>)"
    by (rule set(1)) (use assms(1) w in \<open>simp_all add: ait_inv_def\<close>)
  moreover have "collect ait_entry_owes (entry_map (buf_set ?k ?e (ait_buffer c))) =
      collect ait_entry_owes (entry_map (ait_buffer c))"
    using set(2) assms(1) w by (simp add: ait_inv_def)
  ultimately show ?thesis
    using e(1) by (simp add: ait_next_level_read_callback_def Let_def ait_owes_def)
qed

lemma ait_lmem_callback_ok:
  assumes "ait_inv ninv minv nw mw x (add_mset (cb, a) y) c"
  shows "cb = Cb_ait_lmemq_subreq" "y = {#}"
    and "ait_inv ninv minv nw mw x y (ait_lmemq_callback a c)" "ait_owes (ait_lmemq_callback a c) = ait_owes c"
proof -
  let ?st = "lmemq_state c" and ?q = "queue (ait_lmemq c)"
  have l: "lmemq_ok ?st ?q (mw (ait_local_memory c) + add_mset (cb, a) y)"
    using assms by (simp add: ait_inv_def)
  then have sub: "add_mset (cb, a) (mw (ait_local_memory c) + y) \<subseteq># lmemq_waits ?st ?q"
    by (simp add: lmemq_ok_def)
  then have p: "pending_front ?st" "0 \<le> subreq_pending_index ?st"
      "lmemq_waits ?st ?q = {#(Cb_ait_lmemq_subreq, subreq_addr (req_addr (hd ?q)) (subreq_pending_index ?st))#}"
    by (auto simp: lmemq_waits_def split: if_splits)
  then have eq: "cb = Cb_ait_lmemq_subreq" "a = subreq_addr (req_addr (hd ?q)) (subreq_pending_index ?st)"
      "mw (ait_local_memory c) = {#}" "y = {#}"
    using sub by (auto simp: subset_eq_diff_conv)
  obtain r rest where q: "?q = r # rest" using l p(1) by (cases ?q) (auto simp: lmemq_ok_def)
  obtain e where "rmw_translate_to_block_addr (req_addr r) = req_addr r"
    by (rule lmemq_front_entry [OF assms q])
  then have off: "unat (rmw_block_offset_cl a) = nat (subreq_pending_index ?st)"
    using subreq_addr_offset(1) [of "req_addr r" "subreq_pending_index ?st"] eq(2) q p(2) l
    by (simp add: lmemq_ok_def)
  have "lmemq_ok (?st\<lparr>subreq_served := (subreq_served ?st)[nat (subreq_pending_index ?st) := True]\<rparr>) ?q {#}"
    by (rule lmemq_ok_serve [OF l p(1,2) refl])
  then show "cb = Cb_ait_lmemq_subreq" "y = {#}" "ait_inv ninv minv nw mw x y (ait_lmemq_callback a c)"
      "ait_owes (ait_lmemq_callback a c) = ait_owes c"
    using assms eq off by (simp_all add: ait_lmemq_callback_def ait_inv_def ait_owes_def)
qed

context ait_levels
begin

lemma ait_run_media_calls:
  assumes "ait_inv ninv minv nowes mowes (mset (map (\<lambda>(cb, a, t). (cb, ait_translate_to_block_addr a)) calls)) y c"
    and "\<forall>(cb, a, t) \<in> set calls. t = clk" "small_clk clk"
  shows "ensures (ait_run_calls calls c)
    (\<lambda>(c', out). ait_inv ninv minv nowes mowes {#} y c' \<and> ait_owes c' = ait_owes c \<and> out = [])"
  using assms(1,2)
proof (induction calls arbitrary: c)
  case (Cons p calls)
  obtain cb a t where p: "p = (cb, a, t)" by (cases p)
  let ?x = "mset (map (\<lambda>(cb, a, t). (cb, ait_translate_to_block_addr a)) calls)"
  have i: "ait_inv ninv minv nowes mowes (add_mset (cb, ait_translate_to_block_addr a) ?x) y c"
    using Cons.prems(1) by (simp add: p)
  have "(cb, ait_translate_to_block_addr a) \<in># collect ait_media_waits (entry_map (ait_buffer c))"
  proof -
    have "collect ait_media_waits (entry_map (ait_buffer c)) = all_owe nowes (next_level_components c) +
        add_mset (cb, ait_translate_to_block_addr a) ?x" using i by (simp add: ait_inv_def)
    then show ?thesis by simp
  qed
  from collect_elem [OF this] have cb: "cb = Cb_ait_next_level_read"
    by (auto simp: ait_media_waits_def split: if_splits)
  have t: "t = clk" using Cons.prems(2) p by simp
  from ait_media_callback_ok [OF i [unfolded cb] assms(3)] obtain c1 where
    c1: "ait_next_level_read_callback a clk c = Inr c1" "ait_inv ninv minv nowes mowes ?x y c1"
      "ait_owes c1 = ait_owes c"
    by (auto simp: ensures_iff)
  then show ?case using Cons.IH [OF c1(2)] Cons.prems(2) cb t p by simp
qed simp

lemma ait_run_lmem_calls:
  assumes "ait_inv ninv minv nowes mowes x (mset (map (\<lambda>(cb, a, t). (cb, a)) calls)) c"
  shows "ensures (ait_run_calls calls c)
    (\<lambda>(c', out). ait_inv ninv minv nowes mowes x {#} c' \<and> ait_owes c' = ait_owes c \<and> out = [])"
  using assms
proof (induction calls arbitrary: c)
  case (Cons p calls)
  obtain cb a t where p: "p = (cb, a, t)" by (cases p)
  have i: "ait_inv ninv minv nowes mowes x (add_mset (cb, a) (mset (map (\<lambda>(cb, a, t). (cb, a)) calls))) c"
    using Cons.prems by (simp add: p)
  note cb = ait_lmem_callback_ok [OF i]
  show ?case using Cons.IH [OF cb(3)] cb(1,4) p by simp
qed simp

text \<open>A whole cycle of the AIT: no error, the invariant, and the balance with the level above.\<close>

lemma ait_tick_ok:
  assumes "ait_inv ninv minv nowes mowes {#} {#} c" "small_clk clk"
  shows "ensures (ait_tick ops mops clk c) (\<lambda>(c', calls). ait_inv ninv minv nowes mowes {#} {#} c' \<and>
    ait_owes c = ait_owes c' + mset (map (\<lambda>(cb, a, t). (cb, rmw_translate_to_block_addr a)) calls) \<and>
    (\<forall>(cb, a, t) \<in> set calls. t = clk))"
proof -
  from ait_tick_lsq_ok [OF assms(1), of clk] obtain c1 where
    c1: "ait_tick_lsq clk c = Inr c1" "ait_inv ninv minv nowes mowes {#} {#} c1" "ait_owes c1 = ait_owes c"
    by (auto simp: ensures_iff)
  from ait_tick_lmemq_ok [OF c1(2) assms(2)] obtain c2 where
    c2: "ait_tick_lmemq mops clk c1 = Inr c2" "ait_inv ninv minv nowes mowes {#} {#} c2" "ait_owes c2 = ait_owes c"
    using c1(3) by (auto simp: ensures_iff)
  from ait_tick_entries_ok [OF c2(2) assms(2), of "map fst (entry_map (ait_buffer c2))"] obtain c3 calls where
    c3: "ait_tick_internal_buffer ops clk c2 = Inr (c3, calls)" "ait_inv ninv minv nowes mowes {#} {#} c3"
      "ait_owes c = ait_owes c3 + mset (map (\<lambda>(cb, a, t). (cb, rmw_translate_to_block_addr a)) calls)"
      "\<forall>(cb, a, t) \<in> set calls. t = clk"
    using c2(3) by (auto simp: ensures_iff ait_tick_internal_buffer_def)
  have ctrl: "ait_tick_ctrl ops mops clk c = Inr (c3, calls)"
    using c1(1) c2(1) c3(1) by (simp add: ait_tick_ctrl_def)
  have m: "minv (ait_local_memory c3)" using ait_inv_ctx [OF c3(2)] by (simp add: ait_ctx_def)
  obtain m' mcalls where m': "tick mops clk (ait_local_memory c3) = Inr (m', mcalls)" "minv m'"
      "mowes (ait_local_memory c3) = mowes m' + mset (map (\<lambda>(cb, a, t). (cb, a)) mcalls)"
    using lmem.tick_ok [OF m assms(2)] lmem.tick_owes [OF m assms(2)] by (auto simp: ensures_iff)
  have "ait_inv ninv minv nowes mowes {#} (mset (map (\<lambda>(cb, a, t). (cb, a)) mcalls)) (c3\<lparr>ait_local_memory := m'\<rparr>)"
    using c3(2) m'(2,3) by (simp add: ait_inv_def)
  from ait_run_lmem_calls [OF this] obtain c4 where
    c4: "ait_run_calls mcalls (c3\<lparr>ait_local_memory := m'\<rparr>) = Inr (c4, [])" "ait_inv ninv minv nowes mowes {#} {#} c4"
      "ait_owes c4 = ait_owes c3" by (auto simp: ensures_iff ait_owes_def)
  have n: "\<forall>n \<in> set (next_level_components c4). ninv n" using ait_inv_ctx [OF c4(2)] by (simp add: ait_ctx_def)
  obtain ns ncalls where ns: "tick_list ops clk (next_level_components c4) = Inr (ns, ncalls)"
      "length ns = length (next_level_components c4)" "\<forall>n \<in> set ns. ninv n" "\<forall>(cb, a, t) \<in> set ncalls. t = clk"
      "all_owe nowes (next_level_components c4) =
         all_owe nowes ns + mset (map (\<lambda>(cb, a, t). (cb, ait_translate_to_block_addr a)) ncalls)"
    using media.tick_list_ok [OF n assms(2)] media.tick_list_owes [OF n assms(2)] by (auto simp: ensures_iff)
  have "ait_inv ninv minv nowes mowes (mset (map (\<lambda>(cb, a, t). (cb, ait_translate_to_block_addr a)) ncalls)) {#}
      (c4\<lparr>next_level_components := ns\<rparr>)"
    using c4(2) ns(2,3,5) by (simp add: ait_inv_def)
  from ait_run_media_calls [OF this ns(4) assms(2)] obtain c5 where
    c5: "ait_run_calls ncalls (c4\<lparr>next_level_components := ns\<rparr>) = Inr (c5, [])"
      "ait_inv ninv minv nowes mowes {#} {#} c5" "ait_owes c5 = ait_owes c4"
    by (auto simp: ensures_iff ait_owes_def)
  show ?thesis using ctrl m'(1) c4 ns(1) c5 c3(3,4) by (simp add: ait_tick_def)
qed

lemma ait_issue_request_ok:
  assumes "ait_inv ninv minv nowes mowes x y c"
  shows "ensures (ait_issue_request c req) (\<lambda>(c', req', issued, deterministic, next_clk).
    ait_inv ninv minv nowes mowes x y c' \<and> \<not> deterministic \<and>
    issued = (length (queue (ait_lsq c)) < max_entries (ait_lsq c)) \<and>
    ait_owes c' = ait_owes c + (if issued then request_owes req else {#}))"
proof -
  have q: "rq_wf (ait_lsq c)" using assms by (simp add: ait_inv_def)
  show ?thesis
    unfolding ait_issue_request_def ensures_ebind
    by (rule ensures_mono [OF rq.enq_ensures [OF q, of req]])
      (use assms in \<open>auto simp: ait_inv_def ait_owes_def ac_simps\<close>)
qed

text \<open>The AIT answers the RMW controller: one callback for every request that carries one.\<close>

lemma ait_responder:
  "responder (ait_ops ops mops) (ait_inv ninv minv nowes mowes {#} {#}) ait_owes
    rmw_translate_to_block_addr has_callback"
proof
  fix n and r :: base_request
  assume i: "ait_inv ninv minv nowes mowes {#} {#} n"
  note iss = ait_issue_request_ok [OF i, of r]
  show "ensures (issue_request (ait_ops ops mops) n r) (\<lambda>(n', r', issued, deterministic, next_clk).
      ait_inv ninv minv nowes mowes {#} {#} n' \<and> (issued \<longrightarrow> deterministic \<longrightarrow> next_clk \<noteq> clk_invalid))"
    using iss by (auto simp: ait_ops_def elim!: ensures_mono)
  have q: "rq_wf (ait_lsq n)" using i by (simp add: ait_inv_def)
  show "ensures (full (ait_ops ops mops) n) (\<lambda>b. True)"
    using rq.full_spec [OF q] by (simp add: ait_ops_def ait_full_def)
  show "ensures (issue_request (ait_ops ops mops) n r) (\<lambda>(n', r', issued, deterministic, next_clk). issued)"
    if "full (ait_ops ops mops) n = Inr False"
    using iss that rq.full_spec [OF q] q
    by (auto simp: ait_ops_def ait_full_def rq_wf_def elim!: ensures_mono)
  have ns: "\<forall>m \<in> set (next_level_components n). ensures (is_pending ops m) (\<lambda>b. True)"
    using i media.pending_ok by (simp add: ait_inv_def ait_ctx_def)
  show "ensures (is_pending (ait_ops ops mops) n) (\<lambda>b. True)"
    using any_err_ensures [OF ns] by (auto simp: ait_ops_def mc_pending_def elim!: ensures_mono)
  show "ensures (issue_request (ait_ops ops mops) n r) (\<lambda>(n', r', issued, deterministic, next_clk).
      ait_owes n' = ait_owes n + (if issued \<and> \<not> deterministic \<and> has_callback r
        then {#(req_callback r, rmw_translate_to_block_addr (req_addr r))#} else {#}))"
    using iss by (auto simp: ait_ops_def request_owes_def elim!: ensures_mono)
  fix clk assume "small_clk clk"
  from ait_tick_ok [OF i this] show
    "ensures (tick (ait_ops ops mops) clk n) (\<lambda>(n', calls).
      ait_inv ninv minv nowes mowes {#} {#} n' \<and> (\<forall>(cb, a, t) \<in> set calls. t = clk))"
    and "ensures (tick (ait_ops ops mops) clk n) (\<lambda>(n', calls).
      ait_owes n = ait_owes n' + mset (map (\<lambda>(cb, a, t). (cb, rmw_translate_to_block_addr a)) calls))"
    by (auto simp: ait_ops_def elim!: ensures_mono)
qed

end

text \<open>Constant-latency memories satisfy both contracts: \<open>nv_media\<close> is the media of the code.\<close>

interpretation ait_static: ait_levels static_memory_ops static_wf "\<lambda>n. {#}"
    static_memory_ops static_wf "\<lambda>n. {#}"
  by unfold_locales (simp add: static_memory_ops_def static_issue_eq small_neq_clk_invalid)

text \<open>A new controller satisfies the invariant and owes nothing.\<close>

lemma ait_inv_new:
  assumes "n < 2 ^ 64" "threshold \<noteq> 0" "small_clk (be * lat)" "f = none_mapping \<or> f = stride_mapping_4096"
    and "minv mem" "mw mem = {#}" "ninv media" "nw media = {#}"
  shows "ait_inv ninv minv nw mw {#} {#} (connect_next media (new_ait_controller f n q lq threshold be lat mem))"
    and "ait_owes (connect_next media (new_ait_controller f n q lq threshold be lat mem)) = {#}"
proof -
  let ?c = "connect_next media (new_ait_controller f n q lq threshold be lat mem)"
  have "mapping_ok ?c"
    using assms(4) by (auto intro: mapping_ok_none mapping_ok_stride simp: connect_next_def new_ait_controller_def)
  then have "ait_ctx ninv minv ?c"
    using assms by (simp add: ait_ctx_def connect_next_def new_ait_controller_def new_counter_declares table_ok_def)
  moreover have "lmemq_ok (lmemq_state ?c) (queue (ait_lmemq ?c)) (mw (ait_local_memory ?c) + {#})"
    using assms(6) by (simp add: lmemq_ok_def lmemq_waits_def connect_next_def new_ait_controller_def
        less_Suc_eq numeral_eq_Suc)
  ultimately show "ait_inv ninv minv nw mw {#} {#} ?c"
    using assms(1,8) by (simp add: ait_inv_def connect_next_def new_ait_controller_def all_owe_def
        new_internal_buffer_def buf_wf_def new_request_queue_def rq_wf_def)
  show "ait_owes ?c = {#}"
    by (simp add: ait_owes_def connect_next_def new_ait_controller_def new_internal_buffer_def new_request_queue_def)
qed

end
