(* ===== verification/Ait_Props.thy ===== *)
theory Ait_Props
  imports Ait_Inv Rmw_Inv
begin

text \<open>
  What the AIT controller promises: the balance of callbacks over whole runs, when a request at
  the front of its queue is served, which entry makes room, the wear-levelling schedule, and the
  one error path that its counters leave open.
\<close>

section \<open>A concrete controller\<close>

definition ait_example :: "(static_memory, static_memory) ait_controller" where
  "ait_example = connect_next \<lparr>read_latency = 3, write_latency = 3\<rparr>
     (new_ait_controller none_mapping 1 4 4 2 1 5 \<lparr>read_latency = 1, write_latency = 1\<rparr>)"

definition ait_static_ops :: "(static_memory, static_memory) ait_controller component_ops" where
  "ait_static_ops = ait_ops static_memory_ops static_memory_ops"

definition ait_static_inv :: "(static_memory, static_memory) ait_controller \<Rightarrow> bool" where
  "ait_static_inv = ait_inv static_wf static_wf (\<lambda>n. {#}) (\<lambda>n. {#}) {#} {#}"

definition ait_at :: "component_event list \<Rightarrow> (static_memory, static_memory) ait_controller" where
  "ait_at evs = run_state ait_static_ops evs ait_example"

abbreviation ait_req :: "base_request_type \<Rightarrow> addr_t \<Rightarrow> base_request" where
  "ait_req t a \<equiv> new_base_request t a 0 (Cb_client 1)"

abbreviation ait_write_done :: "component_event list" where
  "ait_write_done \<equiv> Ev_issue (ait_req Base_write 0x1140) #
     [Ev_tick 0, Ev_tick 1, Ev_tick 2, Ev_tick 3, Ev_tick 4, Ev_tick 5, Ev_tick 6, Ev_tick 7,
      Ev_tick 8, Ev_tick 9, Ev_tick 10, Ev_tick 11, Ev_tick 12, Ev_tick 13, Ev_tick 14, Ev_tick 15,
      Ev_tick 16, Ev_tick 17, Ev_tick 18]"

lemma ait_levels_static: "ait_levels static_memory_ops static_wf (\<lambda>n. {#}) static_memory_ops static_wf (\<lambda>n. {#})"
  by unfold_locales

lemma ait_example_inv: "ait_static_inv ait_example"
  unfolding ait_example_def ait_static_inv_def
  by (rule ait_inv_new) (simp_all add: small_clk_def static_wf_def)

lemma ait_static_level: "ticking_level ait_static_ops ait_static_inv"
  using ait_static.ait_responder unfolding ait_static_ops_def ait_static_inv_def responder_def by blast

lemma ait_at_inv: "list_all small_event evs \<Longrightarrow> ait_static_inv (ait_at evs)"
  unfolding ait_at_def by (rule ticking_level.run_state_ok [OF ait_static_level ait_example_inv])

section \<open>Callbacks over a run\<close>

text \<open>C6: Over any run of calls of the AIT, no call fails and the callbacks balance: what the
  controller owed at first and the callbacks of the requests it accepted are what it owes at the
  end and the callbacks it invoked, so that each is invoked once and for its own 256-byte block.\<close>

theorem ait_run_balance:
  assumes "ait_levels ops ninv nowes mops minv mowes" "ait_inv ninv minv nowes mowes {#} {#} c"
    and "list_all small_event evs"
  shows "ensures (component_run (ait_ops ops mops) evs c) (\<lambda>(c', accepted, calls).
    ait_owes c + mset (map (\<lambda>r. (req_callback r, rmw_translate_to_block_addr (req_addr r))) (filter has_callback accepted)) =
    ait_owes c' + mset (map (\<lambda>(cb, a, clk). (cb, rmw_translate_to_block_addr a)) calls))"
  by (rule responder.component_run_owes [OF ait_levels.ait_responder [OF assms(1)] assms(2,3)])

theorem ait_run_balance_witness:
  "ensures (component_run ait_static_ops ait_write_done ait_example) (\<lambda>(c', accepted, calls).
    ait_owes c' = {#} \<and> mset (map (\<lambda>(cb, a, clk). (cb, rmw_translate_to_block_addr a)) calls) = {#(Cb_client 1, 0x1100)#})"
proof -
  define evs where "evs = ait_write_done"
  have "list_all small_event evs" by (simp add: small_clk_def evs_def)
  note bal = ait_run_balance [OF ait_levels_static ait_example_inv [unfolded ait_static_inv_def] this,
      folded ait_static_ops_def]
  have o: "ait_owes ait_example = {#}"
    by (simp add: ait_example_def ait_owes_def
        connect_next_def new_ait_controller_def new_internal_buffer_def new_request_queue_def)
  have "case component_run ait_static_ops ait_write_done ait_example of Inl e \<Rightarrow> False
    | Inr (c', accepted, calls) \<Rightarrow> accepted = [ait_req Base_write 0x1140] \<and>
        map (\<lambda>(cb, a, clk). (cb, rmw_translate_to_block_addr a)) calls = [(Cb_client 1, 0x1100)]" by code_simp
  then obtain c' calls where r: "component_run ait_static_ops evs ait_example = Inr (c', [ait_req Base_write 0x1140], calls)"
      "map (\<lambda>(cb, a, clk). (cb, rmw_translate_to_block_addr a)) calls = [(Cb_client 1, 0x1100)]"
    unfolding evs_def [symmetric] by (auto split: sum.splits)
  have "rmw_translate_to_block_addr 0x1140 = 0x1100" by code_simp
  moreover have "mset (map (\<lambda>(cb, a, clk). (cb, rmw_translate_to_block_addr a)) calls) = {#(Cb_client 1, 0x1100)#}"
    unfolding r(2) by simp
  ultimately show ?thesis
    using bal o r(1) unfolding evs_def [symmetric] by (simp add: has_callback_def del: mset_map)
qed

section \<open>Room in the buffer\<close>

definition ait_room :: "('n, 'm) ait_controller \<Rightarrow> bool" where
  "ait_room c \<longleftrightarrow> \<not> buf_full (ait_buffer c) \<or> evictable (\<lambda>e. ait_state e = Ait_end) (entry_map (ait_buffer c))"

lemma ait_check_and_evict_room:
  assumes "ait_inv ninv minv nw mw x y c"
  shows "\<exists>c'. ait_check_and_evict c = Inr (ait_room c, c')"
proof -
  obtain v cl where s: "lru_scan (\<lambda>e. ait_state e = Ait_end) (entry_map (ait_buffer c))
      (addr_invalid, clk_invalid) = (v, cl)" by fastforce
  have "\<forall>(k, e) \<in> set (entry_map (ait_buffer c)). k \<noteq> addr_invalid"
    using assms aitb.translate_neq_invalid by (intro buf_wf_key_valid) (auto simp: ait_inv_def)
  from lru_scan_evictable [OF this, of "\<lambda>e. ait_state e = Ait_end"]
  have v: "v \<noteq> addr_invalid \<longleftrightarrow> evictable (\<lambda>e. ait_state e = Ait_end) (entry_map (ait_buffer c))"
    using s by simp
  have ne: "\<not> ait_evicting c" using assms by (simp add: ait_inv_def ait_ctx_def)
  have "ait_ctx ninv minv (c\<lparr>ait_buffer := b\<rparr>)" for b using ait_inv_ctx [OF assms] by simp
  from ait_event_eq [OF this] show ?thesis
    using s v ne by (auto simp: ait_check_and_evict_def ait_room_def Let_def)
qed

text \<open>\<open>check_and_evict\<close> of the AIT makes room exactly when its buffer is not full or an ended entry
  can be removed; the removed entry is then a least recently used one among the ended entries, no
  owed callback is lost, and without room nothing changes.\<close>

theorem ait_eviction:
  assumes "ait_inv ninv minv nw mw x y c"
  shows "ensures (ait_check_and_evict c) (\<lambda>(room, c').
    room = ait_room c \<and> ait_inv ninv minv nw mw x y c' \<and> ait_owes c' = ait_owes c \<and>
    (if room then \<not> buf_full (ait_buffer c') \<and> (c' = c \<or> buf_full (ait_buffer c) \<and> ait_evicted c c') else c' = c))"
proof -
  obtain c' where "ait_check_and_evict c = Inr (ait_room c, c')"
    using ait_check_and_evict_room [OF assms] by blast
  moreover have "\<not> buf_full (ait_buffer c) \<Longrightarrow> ait_check_and_evict c = Inr (True, c)"
    by (simp add: ait_check_and_evict_def)
  ultimately show ?thesis
    using ait_check_and_evict_ok [OF assms] by (cases "ait_room c") auto
qed

theorem ait_eviction_witness:
  "buf_full (ait_buffer (ait_at ait_write_done)) \<and>
   ensures (ait_check_and_evict (ait_at ait_write_done)) (\<lambda>(room, c'). room \<and> \<not> buf_full (ait_buffer c'))"
proof -
  have a: "ait_room (ait_at ait_write_done) \<and> buf_full (ait_buffer (ait_at ait_write_done))" by code_simp
  have "list_all small_event ait_write_done" by (simp add: small_clk_def)
  from ensures_mono [OF ait_eviction [OF ait_at_inv [OF this, unfolded ait_static_inv_def]],
      where Q = "\<lambda>(room, c'). room \<and> \<not> buf_full (ait_buffer c')"] a
  show ?thesis by (auto split: prod.splits)
qed

section \<open>The load/store queue\<close>

definition ait_ready :: "base_request \<Rightarrow> ('n, 'm) ait_controller \<Rightarrow> bool" where
  "ait_ready r c \<longleftrightarrow>
     (case map_of (entry_map (ait_buffer c)) (ait_translate_to_block_addr (rmw_translate_to_block_addr (req_addr r))) of
        None \<Rightarrow> ait_room c
      | Some e \<Rightarrow> \<not> pending e \<and> (req_type r = Base_read \<longrightarrow> valid_to_read e))"

lemma ait_lsq_waits:
  assumes "ait_inv ninv minv nw mw x y c" "queue (ait_lsq c) = r # rest" "\<not> ait_ready r c"
  shows "ait_tick_lsq clk c = Inr c"
proof (cases "map_of (entry_map (ait_buffer c)) (ait_translate_to_block_addr (rmw_translate_to_block_addr (req_addr r)))")
  case None
  then have "\<not> ait_room c" using assms(3) by (simp add: ait_ready_def)
  then have "ait_check_and_evict c = Inr (False, c)"
    using ait_check_and_evict_room [OF assms(1)] ait_check_and_evict_ok [OF assms(1)] by auto
  then show ?thesis using None assms(2)
    by (cases "req_type r") (simp_all add: ait_tick_lsq_def ait_tick_lsq_read_def ait_tick_lsq_write_def
        buf_find_def Let_def aitb.translate_idem)
next
  case (Some e)
  then show ?thesis using assms(2,3)
    by (cases "req_type r") (auto simp: ait_tick_lsq_def ait_tick_lsq_read_def ait_tick_lsq_write_def
        buf_find_def Let_def aitb.translate_idem ait_ready_def)
qed

lemma ait_serve_queue: "ait_serve n k r rest c = Inr c' \<Longrightarrow> queue (ait_lsq c') = rest"
  by (auto simp: ait_serve_def ait_event_def ebind_eq_Inr split: option.splits)

lemma ait_lsq_goes:
  assumes "ait_inv ninv minv nw mw x y c" "queue (ait_lsq c) = r # rest" "ait_ready r c"
    and "ait_tick_lsq clk c = Inr c'"
  shows "queue (ait_lsq c') = rest"
proof (cases "map_of (entry_map (ait_buffer c)) (ait_translate_to_block_addr (rmw_translate_to_block_addr (req_addr r)))")
  case None
  then have "ait_room c" using assms(3) by (simp add: ait_ready_def)
  then obtain c1 where "ait_check_and_evict c = Inr (True, c1)"
    using ait_check_and_evict_room [OF assms(1)] by auto
  then show ?thesis using None assms(2,4)
    by (cases "req_type r") (auto simp: ait_tick_lsq_def ait_tick_lsq_read_def ait_tick_lsq_write_def
        buf_find_def Let_def aitb.translate_idem ebind_eq_Inr dest: ait_serve_queue)
next
  case (Some e)
  then show ?thesis using assms(2,3,4)
    by (cases "req_type r") (auto simp: ait_tick_lsq_def ait_tick_lsq_read_def ait_tick_lsq_write_def
        buf_find_def Let_def aitb.translate_idem ait_ready_def ebind_eq_Inr dest: ait_serve_queue)
qed

text \<open>C28: The AIT serves the request at the front of its queue in a cycle exactly when the 4096-byte
  block has no entry and there is room, or the entry is idle (and its data valid, for a read);
  then the request leaves the queue and its callback stays owed, and otherwise nothing changes.\<close>

theorem ait_lsq_service:
  assumes "ait_inv ninv minv nw mw x y c" "queue (ait_lsq c) = r # rest"
  shows "ensures (ait_tick_lsq clk c) (\<lambda>c'. ait_inv ninv minv nw mw x y c' \<and> ait_owes c' = ait_owes c \<and>
    (if ait_ready r c then queue (ait_lsq c') = rest else c' = c))"
proof -
  from ait_tick_lsq_ok [OF assms(1), of clk] obtain c' where
    "ait_tick_lsq clk c = Inr c'" "ait_inv ninv minv nw mw x y c'" "ait_owes c' = ait_owes c"
    by (auto simp: ensures_iff)
  then show ?thesis using ait_lsq_waits [OF assms, of clk] ait_lsq_goes [OF assms, of clk c'] by auto
qed

theorem ait_lsq_service_witness:
  "ensures (ait_tick_lsq 9 (ait_at [Ev_issue (ait_req Base_write 0x1140)])) (\<lambda>c'. queue (ait_lsq c') = [])"
proof -
  let ?c = "ait_at [Ev_issue (ait_req Base_write 0x1140)]"
  have "list_all small_event [Ev_issue (ait_req Base_write 0x1140)]" by (simp add: small_clk_def)
  note inv = ait_at_inv [OF this, unfolded ait_static_inv_def]
  have q: "queue (ait_lsq ?c) = [ait_req Base_write 0x1140]" by code_simp
  have "ait_ready (ait_req Base_write 0x1140) ?c" by code_simp
  then show ?thesis using ait_lsq_service [OF inv q, of 9] by (auto elim!: ensures_mono)
qed

section \<open>Wear levelling\<close>

lemma table_at_writes:
  "table_at k (fold record_write ws t) =
     table_at k t + of_nat (length (filter (\<lambda>a. ait_translate_to_block_addr a = k) ws))"
  by (induction ws arbitrary: t) (auto simp: table_at_record)

lemma table_at_update: "table_at k (t\<lparr>write_cnt := (write_cnt t)(k \<mapsto> table_at k t)\<rparr>) = table_at k t"
  by (simp add: table_at_def)

lemma record_writes_threshold:
  "wear_leveling_threshold (fold record_write ws t) = wear_leveling_threshold t"
  "migration_block_entries (fold record_write ws t) = migration_block_entries t"
  "migration_latency (fold record_write ws t) = migration_latency t"
  by (induction ws arbitrary: t) (simp_all add: record_write_def Let_def)

text \<open>C30: After any sequence of recorded writes to a new table, a block migrates when the number of
  writes to the block is one below a multiple of the threshold: the write that asks has been
  recorded before it asks, and \<open>check_wear_leveling\<close> adds one more. The delay is the number of
  entries times the latency of one. Asking does not count as a write.\<close>

theorem ait_wear_leveling_schedule:
  assumes "write_cnt t = Map.empty" "wear_leveling_threshold t = of_nat n" "0 < n" "n < 2 ^ 64"
    and "length ws < 2 ^ 64 - 1"
  shows "\<exists>t'. check_wear_leveling k (fold record_write ws t) =
    Inr (if (length (filter (\<lambda>a. ait_translate_to_block_addr a = k) ws) + 1) mod n = 0
         then migration_block_entries t * migration_latency t else 0, t') \<and>
    (table_at k t' = table_at k (fold record_write ws t))"
proof -
  let ?m = "length (filter (\<lambda>a. ait_translate_to_block_addr a = k) ws)"
  define T where "T = fold record_write ws t"
  have T: "wear_leveling_threshold T = of_nat n" "migration_block_entries T = migration_block_entries t"
      "migration_latency T = migration_latency t"
    by (simp_all add: T_def record_writes_threshold assms(2))
  have m: "?m + 1 < 2 ^ 64" using assms(5) length_filter_le [of "\<lambda>a. ait_translate_to_block_addr a = k" ws] by linarith
  have "table_at k t = 0" using assms(1) by (simp add: table_at_def)
  then have c: "table_at k T + 1 = of_nat (?m + 1)" by (simp add: table_at_writes T_def)
  have nz: "(of_nat n :: 64 word) \<noteq> 0" using unat_of_nat64 [OF assms(4)] assms(3) by (metis less_numeral_extra(3) unat_0)
  have "unat (of_nat (?m + 1) mod of_nat n :: 64 word) = (?m + 1) mod n"
    unfolding unat_mod_distrib unat_of_nat64 [OF m] unat_of_nat64 [OF assms(4)] ..
  then have "(of_nat (?m + 1) mod of_nat n :: 64 word) = 0 \<longleftrightarrow> (?m + 1) mod n = 0"
    by (metis unat_eq_0)
  then show ?thesis
    unfolding T_def [symmetric] check_wear_leveling_def T c using nz by (simp add: table_at_update)
qed

theorem ait_wear_leveling_schedule_witness:
  "\<exists>t'. check_wear_leveling 0x1000 (fold record_write [0x1100, 0x2000]
      \<lparr>write_cnt = Map.empty, wear_leveling_threshold = 2, migration_block_entries = 3, migration_latency = 5\<rparr>) = Inr (15, t')"
proof -
  let ?t = "\<lparr>write_cnt = Map.empty, wear_leveling_threshold = 2, migration_block_entries = 3, migration_latency = 5\<rparr>"
  have "length (filter (\<lambda>a. ait_translate_to_block_addr a = 0x1000) [0x1100, 0x2000]) = 1" by code_simp
  then show ?thesis
    using ait_wear_leveling_schedule [of ?t 2 "[0x1100, 0x2000]" "0x1000"] by auto
qed

section \<open>A media that refuses\<close>

definition issue_refused :: "vans_error + 'n \<times> base_request \<times> base_response \<Rightarrow> bool" where
  "issue_refused m \<longleftrightarrow> (case m of Inl e \<Rightarrow> False | Inr (n, r, issued, deterministic, clk) \<Rightarrow> \<not> issued)"

lemma ait_issue_refused:
  assumes "issue_refused (issue_request ops (next_level_components c ! i)
      (new_base_request t (ait_translate_to_block_addr (rmw_block_addr (ait_pending_request e))) clk Cb_ait_next_level_read))"
    and "counter_add ''next_level_issue_fail'' 1 (ait_cnt_events c) = Inl Out_of_range"
  shows "\<exists>c' d nc. ait_issue_next_level t ops i e clk c = Inr (c', False, d, nc) \<and>
    ait_event ''next_level_issue_fail'' c' = Inl Out_of_range"
  using assms by (auto simp: ait_issue_next_level_def next_issue_def issue_refused_def ait_event_def split: sum.splits)

text \<open>When the media refuses a request of the AIT, the transfer ends in \<open>std::out_of_range\<close>: the
  counter \<open>next_level_issue_fail\<close> that the four transfers increase is not among the declared ones.\<close>

theorem ait_media_refusal_throws:
  assumes "dom (counters (ait_cnt_events c)) = set ait_event_names" "get_next_level k c = Inr (a, i)"
    and "i < length (next_level_components c)"
    and "issue_refused (issue_request ops (next_level_components c ! i)
      (new_base_request Base_read (ait_translate_to_block_addr (rmw_block_addr (ait_pending_request e))) clk Cb_ait_next_level_read))"
    and "issue_refused (issue_request ops (next_level_components c ! i)
      (new_base_request Base_write (ait_translate_to_block_addr (rmw_block_addr (ait_pending_request e))) clk Cb_ait_next_level_read))"
  shows "ait_read_miss_init ops k e clk c = Inl Out_of_range \<and>
    ait_write_miss_init ops k e clk c = Inl Out_of_range \<and>
    ait_write_miss_pending_migration ops k e clk c = Inl Out_of_range \<and>
    ait_write_hit_pending_migration ops k e clk c = Inl Out_of_range"
proof -
  have nd: "''next_level_issue_fail'' \<notin> dom (counters (ait_cnt_events c))"
    unfolding assms(1) by (simp add: ait_event_names_def)
  have n: "counter_add ''next_level_issue_fail'' 1 (ait_cnt_events c) = Inl Out_of_range"
    using nd by (simp add: counter_add_def domIff)
  note r = ait_issue_refused [OF _ n, of ops i _ e clk]
  obtain c1 d1 n1 where r1: "ait_issue_next_level Base_read ops i e clk c = Inr (c1, False, d1, n1)"
      "ait_event ''next_level_issue_fail'' c1 = Inl Out_of_range" using r [OF assms(4)] by blast
  obtain c2 d2 n2 where r2: "ait_issue_next_level Base_write ops i e clk c = Inr (c2, False, d2, n2)"
      "ait_event ''next_level_issue_fail'' c2 = Inl Out_of_range" using r [OF assms(5)] by blast
  show ?thesis
    by (simp only: ait_read_miss_init_def ait_write_miss_init_def ait_write_miss_pending_migration_def
        ait_write_hit_pending_migration_def assms(2) r1 r2 ebind.simps prod.case not_False_eq_True if_True)
qed

text \<open>An RMW buffer without queue entries as the media: it refuses every request.\<close>

theorem ait_media_refusal_throws_witness:
  "ait_read_miss_init (rmw_ops static_memory_ops) 0x1000 (new_ait_entry 3 Read_miss 0x1100 2) 4
     (connect_next (new_rmw_controller none_mapping 1 0 1 1 1 \<lparr>read_latency = 1, write_latency = 1\<rparr>)
       (new_ait_controller none_mapping 1 4 4 2 1 5 \<lparr>read_latency = 1, write_latency = 1\<rparr> ::
         (static_memory rmw_controller, static_memory) ait_controller)) = Inl Out_of_range"
proof -
  let ?c = "connect_next (new_rmw_controller none_mapping 1 0 1 1 1 \<lparr>read_latency = 1, write_latency = 1\<rparr>)
    (new_ait_controller none_mapping 1 4 4 2 1 5 \<lparr>read_latency = 1, write_latency = 1\<rparr> ::
      (static_memory rmw_controller, static_memory) ait_controller)"
  have "dom (counters (ait_cnt_events ?c)) = set ait_event_names"
    by (auto simp: connect_next_def new_ait_controller_def new_counter_def fold_declares split: if_splits)
  moreover have "get_next_level 0x1000 ?c = Inr (0x1000, 0)" "length (next_level_components ?c) = 1"
    "\<And>r. issue_refused (issue_request (rmw_ops static_memory_ops) (next_level_components ?c ! 0) r)"
    by (simp_all add: connect_next_def new_ait_controller_def get_next_level_def none_mapping_def
        rmw_ops_def rmw_issue_request_def new_rmw_controller_def rq_enqueue_def rq_full_def new_request_queue_def
        issue_refused_def)
  ultimately show ?thesis
    using ait_media_refusal_throws [of ?c "0x1000" "0x1000" 0 "rmw_ops static_memory_ops"
        "new_ait_entry 3 Read_miss 0x1100 2" 4] by auto
qed

end
