(* ===== verification/Nvdimm.thy ===== *)
theory Nvdimm
  imports Rmw_Inv Ait_Inv
begin

text \<open>
  The NVDIMM: an RMW buffer over address indirection tables over constant-latency media, as the
  configuration files connect them (\<open>rmw\<close>, \<open>ait\<close>, \<open>nv_media\<close>). The local memory of the AIT is a
  parameter with the contract of a responder. The steps of the system are the calls of its
  interface and the reordering of the two hash maps, whose iteration order C++ leaves open.
\<close>

type_synonym 'm nvdimm = "(static_memory, 'm) ait_controller rmw_controller"

definition nvdimm_ops :: "'m component_ops \<Rightarrow> 'm nvdimm component_ops" where
  "nvdimm_ops mops = rmw_ops (ait_ops static_memory_ops mops)"

text \<open>\<open>connect_next\<close> as the factory calls it: media to the AIT, the AIT to the RMW.\<close>

definition new_nvdimm ::
  "'m nvdimm \<Rightarrow> (static_memory, 'm) ait_controller \<Rightarrow> static_memory \<Rightarrow> 'm nvdimm" where
  "new_nvdimm rmw ait media = connect_next (connect_next media ait) rmw"

definition ait_level_inv ::
  "('m \<Rightarrow> bool) \<Rightarrow> ('m \<Rightarrow> (callback \<times> addr_t) multiset) \<Rightarrow> (static_memory, 'm) ait_controller \<Rightarrow> bool" where
  "ait_level_inv minv mowes = ait_inv static_wf minv (\<lambda>n. {#}) mowes {#} {#}"

definition nvdimm_inv ::
  "('m \<Rightarrow> bool) \<Rightarrow> ('m \<Rightarrow> (callback \<times> addr_t) multiset) \<Rightarrow> 'm nvdimm \<Rightarrow> bool" where
  "nvdimm_inv minv mowes = rmw_inv (ait_level_inv minv mowes) ait_owes {#}"

section \<open>Steps\<close>

definition rehash_rmw :: "(addr_t \<times> rmw_entry) list \<Rightarrow> 'n rmw_controller \<Rightarrow> 'n rmw_controller" where
  "rehash_rmw m c = c\<lparr>rmw_buffer := (rmw_buffer c)\<lparr>entry_map := m\<rparr>\<rparr>"

definition rehash_ait :: "(addr_t \<times> ait_entry) list \<Rightarrow> ('n, 'm) ait_controller \<Rightarrow> ('n, 'm) ait_controller" where
  "rehash_ait m c = c\<lparr>ait_buffer := (ait_buffer c)\<lparr>entry_map := m\<rparr>\<rparr>"

inductive nvdimm_step :: "'m component_ops \<Rightarrow> 'm nvdimm \<Rightarrow> 'm nvdimm \<Rightarrow> bool" for mops where
  step_issue: "issue_request (nvdimm_ops mops) s r = Inr (s', r', resp) \<Longrightarrow> nvdimm_step mops s s'"
| step_tick: "small_clk clk \<Longrightarrow> tick (nvdimm_ops mops) clk s = Inr (s', calls) \<Longrightarrow> nvdimm_step mops s s'"
| step_rehash_rmw: "mset m = mset (entry_map (rmw_buffer s)) \<Longrightarrow> nvdimm_step mops s (rehash_rmw m s)"
| step_rehash_ait: "i < length (next_level_components s) \<Longrightarrow>
    mset m = mset (entry_map (ait_buffer (next_level_components s ! i))) \<Longrightarrow>
    nvdimm_step mops s
      (s\<lparr>next_level_components := (next_level_components s)[i := rehash_ait m (next_level_components s ! i)]\<rparr>)"

text \<open>The configuration of a new NVDIMM, as far as correctness depends on it.\<close>

definition nvdimm_start ::
  "('m \<Rightarrow> bool) \<Rightarrow> ('m \<Rightarrow> (callback \<times> addr_t) multiset) \<Rightarrow> 'm nvdimm \<Rightarrow> bool" where
  "nvdimm_start minv mowes s \<longleftrightarrow>
     (\<exists>rf rmw_entries rmw_lsq_entries rmw_roq_entries a2r r2a rmw_mem.
      \<exists>af ait_entries ait_lsq_entries ait_lmemq_entries threshold block_entries latency mem media.
        rmw_entries < 2 ^ 64 \<and> small_clk a2r \<and> small_clk r2a \<and> static_wf rmw_mem \<and>
        (rf = none_mapping \<or> rf = stride_mapping_4096) \<and>
        ait_entries < 2 ^ 64 \<and> threshold \<noteq> 0 \<and> small_clk (block_entries * latency) \<and>
        (af = none_mapping \<or> af = stride_mapping_4096) \<and>
        minv mem \<and> mowes mem = {#} \<and> static_wf media \<and>
        s = new_nvdimm (new_rmw_controller rf rmw_entries rmw_lsq_entries rmw_roq_entries a2r r2a rmw_mem)
          (new_ait_controller af ait_entries ait_lsq_entries ait_lmemq_entries threshold block_entries latency mem)
          media)"

lemma rehash_distinct:
  "mset m = mset m' \<Longrightarrow> distinct (map fst m') \<Longrightarrow> distinct (map fst m)"
  by (metis distinct_count_atmost_1 mset_map set_mset_mset)

lemma buf_wf_rehash:
  assumes "buf_wf f b" "mset m = mset (entry_map b)"
  shows "buf_wf f (b\<lparr>entry_map := m\<rparr>)"
  using assms rehash_distinct [OF assms(2)] mset_eq_setD [OF assms(2)] mset_eq_length [OF assms(2)]
  by (simp add: buf_wf_def)

lemma rmw_inv_rehash:
  assumes "rmw_inv ninv w x c" "mset m = mset (entry_map (rmw_buffer c))"
  shows "rmw_inv ninv w x (rehash_rmw m c)"
  using assms buf_wf_rehash [of rmw_translate_to_block_addr "rmw_buffer c" m]
    mset_eq_setD [OF assms(2)] collect_mset [OF assms(2), of rmw_waits]
  by (simp add: rmw_inv_def rehash_rmw_def)

lemma ait_inv_rehash:
  assumes "ait_inv ninv minv nw mw x y c" "mset m = mset (entry_map (ait_buffer c))"
  shows "ait_inv ninv minv nw mw x y (rehash_ait m c)" "ait_owes (rehash_ait m c) = ait_owes c"
  using assms buf_wf_rehash [of ait_translate_to_block_addr "ait_buffer c" m]
    mset_eq_setD [OF assms(2)] collect_mset [OF assms(2), of ait_media_waits]
    collect_mset [OF assms(2), of ait_lmem_waits] collect_mset [OF assms(2), of ait_entry_owes]
  by (simp_all add: ait_inv_def rehash_ait_def ait_owes_def)

section \<open>The NVDIMM over any local memory that answers\<close>

locale nvdimm_memory =
  responder mops minv mowes "\<lambda>a. a" is_read_with_callback
  for mops :: "'m component_ops" and minv and mowes
begin

lemma ait_levels: "ait_levels static_memory_ops static_wf (\<lambda>n. {#}) mops minv mowes"
  by unfold_locales (simp add: static_memory_ops_def static_issue_eq small_neq_clk_invalid)

lemma rmw_over_ait: "rmw_next_level (ait_ops static_memory_ops mops) (ait_level_inv minv mowes) ait_owes"
  unfolding rmw_next_level_def ait_level_inv_def by (rule ait_levels.ait_responder [OF ait_levels])

lemma nvdimm_ticking: "ticking_level (nvdimm_ops mops) (nvdimm_inv minv mowes)"
  unfolding nvdimm_ops_def nvdimm_inv_def by (rule rmw_next_level.rmw_ticking_level [OF rmw_over_ait])

lemma nvdimm_issue_inv:
  assumes "nvdimm_inv minv mowes s"
  shows "ensures (issue_request (nvdimm_ops mops) s r) (\<lambda>(s', r', resp). nvdimm_inv minv mowes s')"
  using rmw_issue_request_ok [OF assms [unfolded nvdimm_inv_def], of r]
  by (auto simp: nvdimm_ops_def rmw_ops_def nvdimm_inv_def elim!: ensures_mono)

lemma nvdimm_step_inv:
  assumes "nvdimm_inv minv mowes s" "nvdimm_step mops s t"
  shows "nvdimm_inv minv mowes t"
  using assms(2)
proof cases
  case (step_issue r r' resp)
  then show ?thesis using nvdimm_issue_inv [OF assms(1), of r] by simp
next
  case (step_tick clk calls)
  then show ?thesis using ticking_level.tick_ok [OF nvdimm_ticking assms(1), of clk] by simp
next
  case (step_rehash_rmw m)
  then show ?thesis using rmw_inv_rehash assms(1) by (simp add: nvdimm_inv_def)
next
  case (step_rehash_ait i m)
  let ?n = "next_level_components s ! i"
  have inv: "rmw_inv (ait_level_inv minv mowes) ait_owes {#} s" using assms(1) by (simp add: nvdimm_inv_def)
  then have all: "\<forall>n \<in> set (next_level_components s). ait_level_inv minv mowes n"
    by (simp add: rmw_inv_def rmw_ctx_def)
  then have "ait_level_inv minv mowes ?n" using step_rehash_ait(2) by simp
  then have n: "ait_level_inv minv mowes (rehash_ait m ?n)" "ait_owes (rehash_ait m ?n) = ait_owes ?n"
    using ait_inv_rehash step_rehash_ait(3) unfolding ait_level_inv_def by blast+
  have "\<forall>n \<in> set ((next_level_components s)[i := rehash_ait m ?n]). ait_level_inv minv mowes n"
    using all n(1) set_update_subset_insert [of "next_level_components s" i "rehash_ait m ?n"] by auto
  moreover have "all_owe ait_owes ((next_level_components s)[i := rehash_ait m ?n]) = all_owe ait_owes (next_level_components s)"
    using n(2) by (simp add: all_owe_def map_update flip: nth_map [OF step_rehash_ait(2)])
  ultimately show ?thesis
    using inv step_rehash_ait(1) by (simp add: nvdimm_inv_def rmw_inv_def)
qed

end

lemma nvdimm_start_inv:
  assumes "nvdimm_start minv mowes s"
  shows "nvdimm_inv minv mowes s"
  using assms unfolding nvdimm_start_def nvdimm_inv_def new_nvdimm_def ait_level_inv_def
  by (elim exE conjE, hypsubst) (intro rmw_inv_new ait_inv_new; simp)

context nvdimm_memory
begin

lemma nvdimm_invariant_system:
  "invariant_system (nvdimm_start minv mowes) (nvdimm_step mops) (nvdimm_inv minv mowes)"
  by unfold_locales (rule nvdimm_start_inv nvdimm_step_inv; assumption)+

lemma nvdimm_reachable_inv:
  "nvdimm_start minv mowes s \<Longrightarrow> (nvdimm_step mops)\<^sup>*\<^sup>* s t \<Longrightarrow> nvdimm_inv minv mowes t"
  by (rule invariant_system.reachable_inv [OF nvdimm_invariant_system])

end

interpretation nvdimm_static: nvdimm_memory static_memory_ops static_wf "\<lambda>n. {#}"
  by unfold_locales

interpretation nvdimm_system: invariant_system
    "nvdimm_start static_wf (\<lambda>n. {#})" "nvdimm_step static_memory_ops" "nvdimm_inv static_wf (\<lambda>n. {#})"
  by unfold_locales (rule nvdimm_start_inv nvdimm_static.nvdimm_step_inv; assumption)+


section \<open>Runs\<close>

text \<open>A run of interface calls is a sequence of steps.\<close>

lemma nvdimm_run_steps:
  "list_all small_event evs \<Longrightarrow> component_run (nvdimm_ops mops) evs s = Inr (t, accepted, calls) \<Longrightarrow>
   (nvdimm_step mops)\<^sup>*\<^sup>* s t"
proof (induction evs arbitrary: s accepted calls)
  case (Cons ev evs)
  show ?case
  proof (cases ev)
    case (Ev_issue r)
    then obtain u r' resp acc where "issue_request (nvdimm_ops mops) s r = Inr (u, r', resp)"
        "component_run (nvdimm_ops mops) evs u = Inr (t, acc, calls)"
      using Cons.prems(2) by (auto simp: ebind_eq_Inr)
    then show ?thesis using Cons.IH Cons.prems(1)
      by (auto intro: converse_rtranclp_into_rtranclp nvdimm_step.step_issue)
  next
    case (Ev_tick clk)
    then obtain u cs cs' where "tick (nvdimm_ops mops) clk s = Inr (u, cs)"
        "component_run (nvdimm_ops mops) evs u = Inr (t, accepted, cs')"
      using Cons.prems(2) by (auto simp: ebind_eq_Inr)
    then show ?thesis using Cons.IH Cons.prems(1) Ev_tick
      by (auto intro: converse_rtranclp_into_rtranclp nvdimm_step.step_tick)
  qed
qed simp

lemma run_state_steps:
  "list_all small_event evs \<Longrightarrow> (nvdimm_step mops)\<^sup>*\<^sup>* s (run_state (nvdimm_ops mops) evs s)"
  using nvdimm_run_steps by (fastforce simp: run_state_def split: sum.split)

text \<open>A small NVDIMM, for evaluation.\<close>

definition nvdimm_example :: "static_memory nvdimm" where
  "nvdimm_example =
     new_nvdimm (new_rmw_controller none_mapping 2 4 4 1 1 \<lparr>read_latency = 1, write_latency = 1\<rparr>)
       (new_ait_controller none_mapping 2 4 4 10 1 5 \<lparr>read_latency = 1, write_latency = 1\<rparr>)
       \<lparr>read_latency = 3, write_latency = 3\<rparr>"

lemma nvdimm_example_start: "nvdimm_start static_wf (\<lambda>n. {#}) nvdimm_example"
  unfolding nvdimm_start_def nvdimm_example_def
  by (intro exI conjI; (rule refl)?) (auto simp: small_clk_def static_wf_def)

definition waits_for_ait :: "addr_t \<Rightarrow> 'm nvdimm \<Rightarrow> bool" where
  "waits_for_ait k t \<longleftrightarrow>
     (case map_of (entry_map (rmw_buffer t)) k of None \<Rightarrow> False
      | Some e \<Rightarrow> state e = Pending_ait_r \<and> waiting_action_clk_update e)"

end
