(* ===== verification/Nvdimm_Props.thy ===== *)
theory Nvdimm_Props
  imports Nvdimm
begin

text \<open>
  What holds in every reachable state of an NVDIMM over any local memory that answers reads: no
  call fails, and no entry of the RMW buffer waits for an answer that never comes.
\<close>

lemma nvdimm_static_memory: "nvdimm_memory static_memory_ops static_wf (\<lambda>n. {#})"
  by unfold_locales

definition nvdimm_at :: "component_event list \<Rightarrow> static_memory nvdimm" where
  "nvdimm_at evs = run_state (nvdimm_ops static_memory_ops) evs nvdimm_example"

abbreviation nvdimm_waiting :: "component_event list" where
  "nvdimm_waiting \<equiv> [Ev_issue (new_base_request Base_read 0x40 0 (Cb_client 1)), Ev_tick 0]"

lemma nvdimm_at_reachable:
  "list_all small_event evs \<Longrightarrow> (nvdimm_step static_memory_ops)\<^sup>*\<^sup>* nvdimm_example (nvdimm_at evs)"
  unfolding nvdimm_at_def by (rule run_state_steps)

text \<open>C2: From every reachable state, also after any reordering of the hash maps, every run of
  requests and ticks with clocks below \<open>2^62\<close> returns: no exception, failed assertion or undefined
  behaviour of the RMW buffer, the AIT, the media and the queues between them is reached.\<close>

theorem nvdimm_never_fails:
  assumes "nvdimm_memory mops minv mowes" "nvdimm_start minv mowes s" "(nvdimm_step mops)\<^sup>*\<^sup>* s t"
    and "list_all small_event evs"
  shows "ensures (component_run (nvdimm_ops mops) evs t) (\<lambda>(u, accepted, calls).
    (nvdimm_step mops)\<^sup>*\<^sup>* s u \<and> nvdimm_inv minv mowes u)"
proof -
  have inv: "nvdimm_inv minv mowes t" by (rule nvdimm_memory.nvdimm_reachable_inv [OF assms(1-3)])
  from ticking_level.component_run_ok [OF nvdimm_memory.nvdimm_ticking [OF assms(1)] inv assms(4)]
  obtain u accepted calls where r: "component_run (nvdimm_ops mops) evs t = Inr (u, accepted, calls)"
      "nvdimm_inv minv mowes u" by (auto simp: ensures_iff)
  with nvdimm_run_steps [OF assms(4) r(1)] show ?thesis
    using rtranclp_trans [OF assms(3)] by simp
qed

theorem nvdimm_never_fails_witness:
  "ensures (component_run (nvdimm_ops static_memory_ops) [Ev_tick 1, Ev_tick 2] (nvdimm_at nvdimm_waiting))
     (\<lambda>(u, accepted, calls). (nvdimm_step static_memory_ops)\<^sup>*\<^sup>* nvdimm_example u)"
proof -
  have "list_all small_event nvdimm_waiting" "list_all small_event [Ev_tick 1, Ev_tick 2]"
    by (simp_all add: small_clk_def)
  from nvdimm_never_fails [OF nvdimm_static_memory nvdimm_example_start nvdimm_at_reachable [OF this(1)] this(2)]
  show ?thesis by (auto elim!: ensures_mono)
qed

section \<open>Wake-ups\<close>

text \<open>The promise of an AIT to wake the RMW entry of block \<open>k\<close>: a request in its queue or at work.\<close>

definition ait_will_wake :: "addr_t \<Rightarrow> ('n, 'm) ait_controller \<Rightarrow> bool" where
  "ait_will_wake k a \<longleftrightarrow>
     list_ex (\<lambda>r. req_callback r = Cb_rmw_next_level_read \<and> rmw_translate_to_block_addr (req_addr r) = k)
       (queue (ait_lsq a)) \<or>
     list_ex (\<lambda>(l, d). pending d \<and> ait_cb d = Cb_rmw_next_level_read \<and> rmw_block_addr (ait_pending_request d) = k)
       (entry_map (ait_buffer a))"

lemma all_owe_elem: "x \<in># all_owe w ns \<Longrightarrow> \<exists>n \<in> set ns. x \<in># w n"
  by (induction ns) (auto simp: all_owe_def)

lemma sum_list_elem: "x \<in># sum_list (map f xs) \<Longrightarrow> \<exists>y \<in> set xs. x \<in># f y"
  by (induction xs) auto

lemma ait_owes_will_wake:
  assumes "(Cb_rmw_next_level_read, k) \<in># ait_owes a"
  shows "ait_will_wake k a"
proof -
  consider (queue) r where "r \<in> set (queue (ait_lsq a))" "(Cb_rmw_next_level_read, k) \<in># request_owes r"
    | (entry) l d where "(l, d) \<in> set (entry_map (ait_buffer a))" "(Cb_rmw_next_level_read, k) \<in># ait_entry_owes l d"
    using assms collect_elem [of _ ait_entry_owes] sum_list_elem [of _ request_owes]
    by (fastforce simp: ait_owes_def)
  then show ?thesis
  proof cases
    case queue
    then have "list_ex (\<lambda>r. req_callback r = Cb_rmw_next_level_read \<and> rmw_translate_to_block_addr (req_addr r) = k)
        (queue (ait_lsq a))"
      by (intro list_ex_iff [THEN iffD2] bexI [of _ r]) (simp_all add: request_owes_def split: if_splits)
    then show ?thesis by (simp add: ait_will_wake_def)
  next
    case entry
    then show ?thesis by (force simp: ait_will_wake_def list_ex_iff ait_entry_owes_def split: if_splits)
  qed
qed

text \<open>C3: No lost wake-up: in every reachable state, an entry of the RMW buffer that waits for the
  answer of the AIT has its request in the queue of one of the AITs, or in an entry of its buffer
  that is still pending.\<close>

theorem nvdimm_no_lost_wakeup:
  assumes "nvdimm_memory mops minv mowes" "nvdimm_start minv mowes s" "(nvdimm_step mops)\<^sup>*\<^sup>* s t"
    and "waits_for_ait k t"
  shows "list_ex (ait_will_wake k) (next_level_components t)"
proof -
  have inv: "rmw_inv (ait_level_inv minv mowes) ait_owes {#} t"
    using nvdimm_memory.nvdimm_reachable_inv [OF assms(1-3)] by (simp add: nvdimm_inv_def)
  from assms(4) obtain e where e: "map_of (entry_map (rmw_buffer t)) k = Some e" "state e = Pending_ait_r"
      "waiting_action_clk_update e" by (auto simp: waits_for_ait_def split: option.splits)
  have d: "distinct (map fst (entry_map (rmw_buffer t)))" using inv by (simp add: rmw_inv_def buf_wf_def)
  have "(Cb_rmw_next_level_read, k) \<in># rmw_waits k e" using e by (simp add: rmw_waits_def)
  then have "(Cb_rmw_next_level_read, k) \<in># collect rmw_waits (entry_map (rmw_buffer t))"
    by (subst collect_delete [OF e(1) d, of rmw_waits, symmetric]) simp
  then have "(Cb_rmw_next_level_read, k) \<in># all_owe ait_owes (next_level_components t)"
    using inv by (simp add: rmw_inv_def)
  then show ?thesis using all_owe_elem ait_owes_will_wake by (force simp: list_ex_iff)
qed

theorem nvdimm_no_lost_wakeup_witness:
  "waits_for_ait 0 (nvdimm_at nvdimm_waiting) \<and>
   list_ex (ait_will_wake 0) (next_level_components (nvdimm_at nvdimm_waiting))"
proof -
  have w: "waits_for_ait 0 (nvdimm_at nvdimm_waiting)" by code_simp
  have "list_all small_event nvdimm_waiting" by (simp add: small_clk_def)
  from nvdimm_no_lost_wakeup [OF nvdimm_static_memory nvdimm_example_start nvdimm_at_reachable [OF this] w] w
  show ?thesis by blast
qed

text \<open>C4: In every reachable state the wake-ups the AITs owe are exactly those that entries of the RMW
  buffer wait for, each block at most once: no callback reaches an entry that is not waiting, and
  none is owed for a block that has left the buffer.\<close>

theorem nvdimm_wakeups_match:
  assumes "nvdimm_memory mops minv mowes" "nvdimm_start minv mowes s" "(nvdimm_step mops)\<^sup>*\<^sup>* s t"
  shows "all_owe ait_owes (next_level_components t) =
    image_mset (Pair Cb_rmw_next_level_read) (mset (filter (\<lambda>k. waits_for_ait k t) (map fst (entry_map (rmw_buffer t))))) \<and>
    distinct (map fst (entry_map (rmw_buffer t)))"
proof -
  have inv: "rmw_inv (ait_level_inv minv mowes) ait_owes {#} t"
    using nvdimm_memory.nvdimm_reachable_inv [OF assms] by (simp add: nvdimm_inv_def)
  then have d: "distinct (map fst (entry_map (rmw_buffer t)))" by (simp add: rmw_inv_def buf_wf_def)
  have "collect rmw_waits m = image_mset (Pair Cb_rmw_next_level_read) (mset (filter (\<lambda>k. waits_for_ait k t) (map fst m)))"
    if "\<And>k e. (k, e) \<in> set m \<Longrightarrow> map_of (entry_map (rmw_buffer t)) k = Some e" for m
    using that
  proof (induction m)
    case (Cons p m)
    obtain k e where p: "p = (k, e)" by (cases p)
    then have "map_of (entry_map (rmw_buffer t)) k = Some e" using Cons.prems by simp
    then have "waits_for_ait k t = (state e = Pending_ait_r \<and> waiting_action_clk_update e)"
      by (simp add: waits_for_ait_def)
    then show ?case using Cons p by (simp add: rmw_waits_def)
  qed simp
  from this [of "entry_map (rmw_buffer t)"] show ?thesis
    using inv d by (simp add: rmw_inv_def)
qed

theorem nvdimm_wakeups_match_witness:
  "all_owe ait_owes (next_level_components (nvdimm_at nvdimm_waiting)) = {#(Cb_rmw_next_level_read, 0)#}"
proof -
  have w: "filter (\<lambda>k. waits_for_ait k (nvdimm_at nvdimm_waiting))
      (map fst (entry_map (rmw_buffer (nvdimm_at nvdimm_waiting)))) = [0]" by code_simp
  have "list_all small_event nvdimm_waiting" by (simp add: small_clk_def)
  from nvdimm_wakeups_match [OF nvdimm_static_memory nvdimm_example_start nvdimm_at_reachable [OF this]]
  show ?thesis unfolding w by simp
qed

end
