(* ===== verification/Imc.thy ===== *)
theory Imc
  imports Component
begin

text \<open>
  The integrated memory controller, \<open>src/general/imc.h\<close> and \<open>src/general/imc.cpp\<close>: a write
  pending queue and a read pending queue in front of any next level. Reads are served one per
  cycle when they are older than the oldest write; writes are flushed together, when the write
  queue is full or at every \<open>adr_epoch\<close>-th cycle.
\<close>

record 'n imc_controller = "'n memory_controller" +
  wpq :: base_request_queue
  rpq :: base_request_queue
  imc_curr_clk :: clk_t
  adr_epoch :: clk_t

definition new_imc_controller ::
  "component_mapping_f \<Rightarrow> nat \<Rightarrow> nat \<Rightarrow> clk_t \<Rightarrow> 'n imc_controller" where
  "new_imc_controller f wpq_entries rpq_entries epoch =
     \<lparr>mapping_func = f, next_level_components = [], is_draining = False,
      wpq = new_request_queue wpq_entries, rpq = new_request_queue rpq_entries,
      imc_curr_clk = 0, adr_epoch = epoch\<rparr>"

definition imc_issue_request ::
  "'n imc_controller \<Rightarrow> base_request \<Rightarrow> vans_error + 'n imc_controller \<times> base_request \<times> base_response" where
  "imc_issue_request c request =
     (case req_type request of
        Base_read \<Rightarrow> ebind (rq_enqueue request (rpq c)) (\<lambda>(success, q).
          Inr (c\<lparr>rpq := q\<rparr>, request, success, False, clk_invalid))
      | Base_write \<Rightarrow> ebind (rq_enqueue request (wpq c)) (\<lambda>(success, q).
          Inr (c\<lparr>wpq := q\<rparr>, request, success, False, clk_invalid)))"

definition imc_pending_current :: "'n imc_controller \<Rightarrow> bool" where
  "imc_pending_current c = (rq_pending (wpq c) \<or> rq_pending (rpq c))"

definition imc_full :: "'n imc_controller \<Rightarrow> vans_error + bool" where
  "imc_full c = ebind (rq_full (wpq c)) (\<lambda>w. if w then rq_full (rpq c) else Inr False)"

section \<open>Flushing the write queue\<close>

text \<open>
  One iteration of the loop of \<open>flush_wpq\<close>: the flag says that the loop goes on. The second
  component of the mapping is used, the mapped address is not. A request that the next level
  refuses stays at the front, as the next level left it.
\<close>

definition imc_flush_step ::
  "'n component_ops \<Rightarrow> 'n imc_controller \<Rightarrow> vans_error + bool \<times> 'n imc_controller \<times> call list" where
  "imc_flush_step ops c =
     (case queue (wpq c) of
        [] \<Rightarrow> Inr (False, c, [])
      | req # rest \<Rightarrow>
          if queue (rpq c) \<noteq> [] \<and> req_arrive (hd (queue (rpq c))) < req_arrive req then Inr (False, c, [])
          else ebind (get_next_level (req_addr req) c) (\<lambda>(next_addr, next).
            ebind (next_full ops next c) (\<lambda>full.
            if full then Inr (False, c, [])
            else ebind (next_issue ops next req c) (\<lambda>(c, req, issued, deterministic, next_clk).
              if issued
              then Inr (True, c\<lparr>wpq := (wpq c)\<lparr>queue := rest\<rparr>\<rparr>,
                     invoke_callback (req_callback req) (req_addr req) (imc_curr_clk c))
              else Inr (True, c\<lparr>wpq := (wpq c)\<lparr>queue := req # rest\<rparr>\<rparr>, [])))))"

text \<open>The loop itself, which may run for ever: then its value is \<open>None\<close>.\<close>

partial_function (option) imc_flush_wpq ::
  "'n component_ops \<Rightarrow> 'n imc_controller \<Rightarrow> call list \<Rightarrow> (vans_error + 'n imc_controller \<times> call list) option" where
  "imc_flush_wpq ops c out =
     (case imc_flush_step ops c of
        Inl e \<Rightarrow> Some (Inl e)
      | Inr r \<Rightarrow>
          if fst r then imc_flush_wpq ops (fst (snd r)) (out @ snd (snd r))
          else Some (Inr (fst (snd r), out)))"

section \<open>Ticks\<close>

datatype queue_to_tick = Queue_none | Queue_read | Queue_write

definition imc_queue_to_tick :: "'n imc_controller \<Rightarrow> queue_to_tick" where
  "imc_queue_to_tick c =
     (case (queue (rpq c), queue (wpq c)) of
        ([], []) \<Rightarrow> Queue_none
      | ([], w # ws) \<Rightarrow> Queue_write
      | (r # rs, []) \<Rightarrow> Queue_read
      | (r # rs, w # ws) \<Rightarrow> if req_arrive r < req_arrive w then Queue_read else Queue_write)"

text \<open>The read at the front is issued under its mapped address, which is stored back in the queue.\<close>

definition imc_tick_read ::
  "'n component_ops \<Rightarrow> 'n imc_controller \<Rightarrow> vans_error + 'n imc_controller" where
  "imc_tick_read ops c =
     (case queue (rpq c) of
        [] \<Rightarrow> Inl Undefined_behaviour
      | req # rest \<Rightarrow>
          ebind (get_next_level (req_addr req) c) (\<lambda>(next_addr, next).
          let req = req\<lparr>req_addr := next_addr\<rparr>; c = c\<lparr>rpq := (rpq c)\<lparr>queue := req # rest\<rparr>\<rparr> in
          ebind (next_full ops next c) (\<lambda>full.
            if full then Inr c
            else ebind (next_issue ops next req c) (\<lambda>(c, req, issued, deterministic, next_clk).
              if issued then Inr (c\<lparr>rpq := (rpq c)\<lparr>queue := rest\<rparr>\<rparr>)
              else Inr (c\<lparr>rpq := (rpq c)\<lparr>queue := req # rest\<rparr>\<rparr>)))))"

definition imc_adr_due :: "'n imc_controller \<Rightarrow> bool" where
  "imc_adr_due c \<longleftrightarrow> adr_epoch c \<noteq> 0 \<and> (imc_curr_clk c + 1) mod adr_epoch c = 0"

definition imc_adr ::
  "'n component_ops \<Rightarrow> 'n imc_controller \<Rightarrow> call list \<Rightarrow> (vans_error + 'n imc_controller \<times> call list) option" where
  "imc_adr ops c out = (if imc_adr_due c then imc_flush_wpq ops c out else Some (Inr (c, out)))"

definition imc_tick_queue ::
  "'n component_ops \<Rightarrow> 'n imc_controller \<Rightarrow> (vans_error + 'n imc_controller \<times> call list) option" where
  "imc_tick_queue ops c =
     (case imc_queue_to_tick c of
        Queue_none \<Rightarrow> Some (Inr (c, []))
      | Queue_read \<Rightarrow> Some (ebind (imc_tick_read ops c) (\<lambda>c. Inr (c, [])))
      | Queue_write \<Rightarrow>
          (case rq_full (wpq c) of
             Inl e \<Rightarrow> Some (Inl e)
           | Inr f \<Rightarrow> if f then imc_flush_wpq ops c [] else Some (Inr (c, []))))"

definition imc_tick_ctrl ::
  "'n component_ops \<Rightarrow> clk_t \<Rightarrow> 'n imc_controller \<Rightarrow> (vans_error + 'n imc_controller \<times> call list) option" where
  "imc_tick_ctrl ops curr_clk c =
     (case imc_tick_queue ops (c\<lparr>imc_curr_clk := curr_clk\<rparr>) of
        None \<Rightarrow> None
      | Some (Inl e) \<Rightarrow> Some (Inl e)
      | Some (Inr (c, out)) \<Rightarrow> if rq_empty (wpq c) then Some (Inr (c, out)) else imc_adr ops c out)"

text \<open>\<open>component::tick\<close>: the controller, then the next level, whose callbacks are the client's.\<close>

definition imc_tick ::
  "'n component_ops \<Rightarrow> clk_t \<Rightarrow> 'n imc_controller \<Rightarrow> (vans_error + 'n imc_controller \<times> call list) option" where
  "imc_tick ops curr_clk c =
     (case imc_tick_ctrl ops curr_clk c of
        None \<Rightarrow> None
      | Some m \<Rightarrow> Some (ebind m (\<lambda>(c, out).
          ebind (tick_list ops curr_clk (next_level_components c)) (\<lambda>(ns, calls).
            Inr (c\<lparr>next_level_components := ns\<rparr>, out @ calls)))))"

section \<open>What a flush does\<close>

definition imc_inv :: "('n \<Rightarrow> bool) \<Rightarrow> 'n imc_controller \<Rightarrow> bool" where
  "imc_inv ninv c \<longleftrightarrow>
     rq_wf (wpq c) \<and> rq_wf (rpq c) \<and> mapping_ok c \<and>
     (\<forall>n \<in> set (next_level_components c). ninv n) \<and>
     (\<forall>r \<in> set (queue (wpq c)) \<union> set (queue (rpq c)). small_clk (req_arrive r))"

text \<open>The reasons for the loop to end.\<close>

definition imc_read_first :: "'n imc_controller \<Rightarrow> bool" where
  "imc_read_first c \<longleftrightarrow> queue (rpq c) \<noteq> [] \<and> req_arrive (hd (queue (rpq c))) < req_arrive (hd (queue (wpq c)))"

definition imc_flush_done :: "'n component_ops \<Rightarrow> 'n imc_controller \<Rightarrow> bool" where
  "imc_flush_done ops c \<longleftrightarrow>
     queue (wpq c) = [] \<or> imc_read_first c \<or>
     (\<exists>next_addr next. get_next_level (req_addr (hd (queue (wpq c)))) c = Inr (next_addr, next) \<and>
        next_full ops next c = Inr True)"

text \<open>
  What a flush is meant to do, with nothing of its queue: the given writes go one after the other to the component that the
  address selects, which must not be full and accept; each accepted one is answered at once, with the clock of the controller.
\<close>

fun issue_in_order ::
  "'n component_ops \<Rightarrow> (addr_t \<Rightarrow> vans_error + addr_t \<times> nat) \<Rightarrow> clk_t \<Rightarrow> base_request list \<Rightarrow> 'n list
   \<Rightarrow> ('n list \<times> call list) option" where
  "issue_in_order ops route clk [] ns = Some (ns, [])"
| "issue_in_order ops route clk (w # ws) ns =
     (case route (req_addr w) of
        Inl e \<Rightarrow> None
      | Inr (a, i) \<Rightarrow>
          if \<not> i < length ns \<or> full ops (ns ! i) \<noteq> Inr False then None
          else case issue_request ops (ns ! i) w of
              Inl e \<Rightarrow> None
            | Inr (n, w', issued, deterministic, next_clk) \<Rightarrow>
                if \<not> issued then None
                else map_option (\<lambda>(ns', calls).
                    (ns', (if req_callback w' = Cb_null then [] else [(req_callback w', req_addr w', clk)]) @ calls))
                  (issue_in_order ops route clk ws (ns[i := n])))"

lemma imc_inv_next:
  assumes "imc_inv ninv c" "length ns = length (next_level_components c)" "\<forall>n \<in> set ns. ninv n"
  shows "imc_inv ninv (c\<lparr>next_level_components := ns\<rparr>)"
  using assms by (simp add: imc_inv_def mapping_ok_def)

context next_level
begin

lemma next_issued:
  assumes "\<forall>n \<in> set (next_level_components c). ninv n" "i < length (next_level_components c)"
    and "small_clk (req_arrive r)" "next_full ops i c = Inr False"
  shows "\<exists>ns r' det nc. next_issue ops i r c = Inr (c\<lparr>next_level_components := ns\<rparr>, r', True, det, nc) \<and>
    length ns = length (next_level_components c) \<and> (\<forall>n \<in> set ns. ninv n)"
proof -
  let ?n = "next_level_components c ! i"
  have n: "ninv ?n" using assms(1,2) by simp
  have "full ops ?n = Inr False" using assms(4) by (simp add: next_full_def)
  from not_full_issues [OF n this assms(3)] obtain n' r' det nc where
    i: "issue_request ops ?n r = Inr (n', r', True, det, nc)" by (auto simp: ensures_iff)
  with issue_ok [OF n assms(3)] have n': "ninv n'" by simp
  have "\<forall>m \<in> set ((next_level_components c)[i := n']). ninv m"
    using assms(1) n' set_update_subset_insert [of "next_level_components c" i n'] by auto
  then show ?thesis using i by (auto simp: next_issue_def)
qed

lemma imc_flush_step_ok:
  assumes "imc_inv ninv c"
  shows "(imc_flush_step ops c = Inr (False, c, []) \<and> imc_flush_done ops c) \<or>
    (\<exists>ns calls. imc_flush_step ops c =
        Inr (True, c\<lparr>next_level_components := ns, wpq := (wpq c)\<lparr>queue := tl (queue (wpq c))\<rparr>\<rparr>, calls) \<and>
      queue (wpq c) \<noteq> [] \<and> \<not> imc_read_first c \<and>
      issue_in_order ops (\<lambda>a. get_next_level a c) (imc_curr_clk c) [hd (queue (wpq c))] (next_level_components c) = Some (ns, calls) \<and>
      (\<forall>(cb, a, t) \<in> set calls. t = imc_curr_clk c) \<and>
      imc_inv ninv (c\<lparr>next_level_components := ns, wpq := (wpq c)\<lparr>queue := tl (queue (wpq c))\<rparr>\<rparr>))"
proof (cases "queue (wpq c)")
  case Nil
  then show ?thesis by (simp add: imc_flush_step_def imc_flush_done_def)
next
  case (Cons req rest)
  have n: "\<forall>n \<in> set (next_level_components c). ninv n" "mapping_ok c" using assms by (simp_all add: imc_inv_def)
  from n(2) obtain a' i where g: "get_next_level (req_addr req) c = Inr (a', i)" "i < length (next_level_components c)"
    by (rule get_next_level_ok)
  have "ninv (next_level_components c ! i)" using n(1) g(2) by simp
  then obtain f where f: "next_full ops i c = Inr f"
    using full_ok by (auto simp: next_full_def ensures_iff)
  show ?thesis
  proof (cases "f \<or> imc_read_first c")
    case True
    then show ?thesis using Cons g f
      by (auto simp: imc_flush_step_def imc_flush_done_def imc_read_first_def)
  next
    case False
    have "small_clk (req_arrive req)" using assms Cons by (simp add: imc_inv_def)
    moreover have "next_full ops i c = Inr False" using f False by simp
    ultimately obtain ns r' det nc where i: "next_issue ops i req c = Inr (c\<lparr>next_level_components := ns\<rparr>, r', True, det, nc)"
        "length ns = length (next_level_components c)" "\<forall>n \<in> set ns. ninv n"
      using next_issued [OF n(1) g(2), of req] by blast
    have "rq_wf ((wpq c)\<lparr>queue := rest\<rparr>)"
      using assms Cons by (intro rq_wf_shorter) (simp_all add: imc_inv_def)
    then have "imc_inv ninv (c\<lparr>next_level_components := ns, wpq := (wpq c)\<lparr>queue := rest\<rparr>\<rparr>)"
      using imc_inv_next [OF assms i(2,3)] Cons by (simp add: imc_inv_def mapping_ok_def)
    moreover have "issue_in_order ops (\<lambda>a. get_next_level a c) (imc_curr_clk c) [req] (next_level_components c) =
        Some (ns, invoke_callback (req_callback r') (req_addr r') (imc_curr_clk c))"
      using g f False i(1)
      by (auto simp: next_issue_def next_full_def invoke_callback_def ebind_eq_Inr dest: arg_cong [where f = next_level_components])
    ultimately show ?thesis using Cons g f False i(1)
      by (auto simp: imc_flush_step_def imc_read_first_def invoke_callback_def)
  qed
qed

text \<open>
  A flush ends, without an error: it issues the oldest writes in order, each once, until the
  queue is empty, an older read waits, or the next level is full.
\<close>

lemma imc_flush_wpq_issues:
  assumes "imc_inv ninv c"
  shows "\<exists>k ns calls. k \<le> length (queue (wpq c)) \<and>
    issue_in_order ops (\<lambda>a. get_next_level a c) (imc_curr_clk c) (take k (queue (wpq c))) (next_level_components c) = Some (ns, calls) \<and>
    (\<forall>w \<in> set (take k (queue (wpq c))). queue (rpq c) = [] \<or> req_arrive w \<le> req_arrive (hd (queue (rpq c)))) \<and>
    (let c' = c\<lparr>next_level_components := ns, wpq := (wpq c)\<lparr>queue := drop k (queue (wpq c))\<rparr>\<rparr> in
      imc_flush_wpq ops c out = Some (Inr (c', out @ calls)) \<and> imc_inv ninv c' \<and> imc_flush_done ops c')"
  using assms
proof (induction "length (queue (wpq c))" arbitrary: c out rule: less_induct)
  case less
  consider (stop) "imc_flush_step ops c = Inr (False, c, [])" "imc_flush_done ops c"
    | (go) w ws ns calls where "queue (wpq c) = w # ws" "\<not> imc_read_first c"
      "issue_in_order ops (\<lambda>a. get_next_level a c) (imc_curr_clk c) [w] (next_level_components c) = Some (ns, calls)"
      "imc_flush_step ops c = Inr (True, c\<lparr>next_level_components := ns, wpq := (wpq c)\<lparr>queue := ws\<rparr>\<rparr>, calls)"
      "imc_inv ninv (c\<lparr>next_level_components := ns, wpq := (wpq c)\<lparr>queue := ws\<rparr>\<rparr>)"
    using imc_flush_step_ok [OF less.prems] by (cases "queue (wpq c)") auto
  then show ?case
  proof cases
    case stop
    have "imc_flush_wpq ops c out = Some (Inr (c, out))" using stop(1) by (subst imc_flush_wpq.simps) simp
    then show ?thesis using stop(2) less.prems
      by (intro exI [of _ "0::nat"] exI [of _ "next_level_components c"] exI [of _ "[]"]) simp
  next
    case (go w ws ns calls)
    let ?c = "c\<lparr>next_level_components := ns, wpq := (wpq c)\<lparr>queue := ws\<rparr>\<rparr>"
    have "length (queue (wpq ?c)) < length (queue (wpq c))" using go(1) by simp
    from less.hyps [OF this go(5), of "out @ calls"] obtain k ns' calls' where k: "k \<le> length ws"
        "issue_in_order ops (\<lambda>a. get_next_level a ?c) (imc_curr_clk c) (take k ws) ns = Some (ns', calls')"
        "\<forall>w \<in> set (take k ws). queue (rpq c) = [] \<or> req_arrive w \<le> req_arrive (hd (queue (rpq c)))"
        "imc_flush_wpq ops ?c (out @ calls) = Some (Inr (?c\<lparr>next_level_components := ns', wpq := (wpq ?c)\<lparr>queue := drop k ws\<rparr>\<rparr>, (out @ calls) @ calls'))"
        "imc_inv ninv (?c\<lparr>next_level_components := ns', wpq := (wpq ?c)\<lparr>queue := drop k ws\<rparr>\<rparr>)"
        "imc_flush_done ops (?c\<lparr>next_level_components := ns', wpq := (wpq ?c)\<lparr>queue := drop k ws\<rparr>\<rparr>)"
      by (auto simp: Let_def)
    have "length ns = length (next_level_components c)" 
      using go(3) by (auto split: sum.split_asm if_split_asm)
    then have route: "get_next_level a ?c = get_next_level a c" for a by (simp add: get_next_level_def)
    have "issue_in_order ops (\<lambda>a. get_next_level a c) (imc_curr_clk c) (w # take k ws) (next_level_components c) = Some (ns', calls @ calls')"
      using go(3) k(2) by (auto simp: route split: sum.split_asm if_split_asm)
    moreover have "imc_flush_wpq ops c out = imc_flush_wpq ops ?c (out @ calls)"
      using go(4) by (subst imc_flush_wpq.simps) simp
    moreover have "queue (rpq c) = [] \<or> req_arrive w \<le> req_arrive (hd (queue (rpq c)))"
      using go(1,2) by (auto simp: imc_read_first_def)
    ultimately show ?thesis using k(1,3-6) go(1)
      by (intro exI [of _ "Suc k"] exI [of _ ns'] exI [of _ "calls @ calls'"]) (auto simp del: issue_in_order.simps)
  qed
qed

lemma issue_in_order_clock:
  "issue_in_order ops route clk ws ns = Some (ns', calls) \<Longrightarrow> \<forall>(cb, a, t) \<in> set calls. t = clk"
  by (induction ws arbitrary: ns calls) (fastforce split: sum.split_asm if_split_asm)+

lemma imc_flush_wpq_ok:
  assumes "imc_inv ninv c"
  shows "\<exists>c' calls k. imc_flush_wpq ops c out = Some (Inr (c', out @ calls)) \<and>
    imc_inv ninv c' \<and> imc_flush_done ops c' \<and> queue (wpq c') = drop k (queue (wpq c)) \<and>
    rpq c' = rpq c \<and> imc_curr_clk c' = imc_curr_clk c \<and> (\<forall>(cb, a, t) \<in> set calls. t = imc_curr_clk c)"
  using imc_flush_wpq_issues [OF assms, of out] issue_in_order_clock by (fastforce simp: Let_def)

text \<open>A read is taken from the queue when the next level of its address has room, and only then.\<close>

lemma imc_tick_read_ok:
  assumes "imc_inv ninv c" "queue (rpq c) \<noteq> []"
  shows "ensures (imc_tick_read ops c) (\<lambda>c'. imc_inv ninv c' \<and> wpq c' = wpq c \<and>
    (queue (rpq c') = tl (queue (rpq c)) \<or>
     (\<exists>a i. get_next_level (req_addr (hd (queue (rpq c)))) c = Inr (a, i) \<and> next_full ops i c = Inr True \<and>
        queue (rpq c') = (hd (queue (rpq c)))\<lparr>req_addr := a\<rparr> # tl (queue (rpq c)))))"
proof -
  obtain req rest where q: "queue (rpq c) = req # rest" using assms(2) by (cases "queue (rpq c)") auto
  have n: "\<forall>n \<in> set (next_level_components c). ninv n" "mapping_ok c" using assms by (simp_all add: imc_inv_def)
  from n(2) obtain a i where g: "get_next_level (req_addr req) c = Inr (a, i)" "i < length (next_level_components c)"
    by (rule get_next_level_ok)
  let ?r = "req\<lparr>req_addr := a\<rparr>"
  let ?c = "c\<lparr>rpq := (rpq c)\<lparr>queue := ?r # rest\<rparr>\<rparr>"
  have inv: "imc_inv ninv ?c" using assms(1) q by (simp add: imc_inv_def mapping_ok_def rq_wf_def)
  have "ninv (next_level_components c ! i)" using n(1) g(2) by simp
  then obtain f where f: "next_full ops i ?c = Inr f"
    using full_ok by (auto simp: next_full_def ensures_iff)
  then have fc: "next_full ops i c = Inr f" by (simp add: next_full_def)
  show ?thesis
  proof (cases f)
    case True
    then show ?thesis using q g f fc inv by (simp add: imc_tick_read_def Let_def)
  next
    case False
    have "small_clk (req_arrive ?r)" using assms(1) q by (simp add: imc_inv_def)
    moreover have "next_full ops i ?c = Inr False" using f False by simp
    ultimately obtain ns r' det nc where i: "next_issue ops i ?r ?c = Inr (?c\<lparr>next_level_components := ns\<rparr>, r', True, det, nc)"
        "length ns = length (next_level_components c)" "\<forall>n \<in> set ns. ninv n"
      using next_issued [of ?c i ?r] n(1) g(2) by auto
    have "rq_wf ((rpq c)\<lparr>queue := rest\<rparr>)"
      using assms(1) q by (intro rq_wf_shorter) (simp_all add: imc_inv_def)
    then have "imc_inv ninv (c\<lparr>next_level_components := ns, rpq := (rpq c)\<lparr>queue := rest\<rparr>\<rparr>)"
      using imc_inv_next [OF assms(1) i(2,3)] q by (simp add: imc_inv_def mapping_ok_def)
    then show ?thesis using q g f fc False i(1) by (simp add: imc_tick_read_def Let_def)
  qed
qed

lemma imc_tick_ctrl_ok:
  assumes "imc_inv ninv c"
  shows "\<exists>c' calls. imc_tick_ctrl ops clk c = Some (Inr (c', calls)) \<and> imc_inv ninv c' \<and>
    (\<forall>(cb, a, t) \<in> set calls. t = clk)"
proof -
  let ?c = "c\<lparr>imc_curr_clk := clk\<rparr>"
  have inv: "imc_inv ninv ?c" using assms by (simp add: imc_inv_def mapping_ok_def)
  have wf: "rq_wf (wpq ?c)" using inv by (simp add: imc_inv_def)
  have "\<exists>c1 calls. imc_tick_queue ops ?c = Some (Inr (c1, calls)) \<and> imc_inv ninv c1 \<and>
      imc_curr_clk c1 = clk \<and> (\<forall>(cb, a, t) \<in> set calls. t = clk)"
  proof (cases "imc_queue_to_tick ?c")
    case Queue_none
    then show ?thesis using inv by (simp add: imc_tick_queue_def)
  next
    case Queue_read
    then have "queue (rpq ?c) \<noteq> []" by (auto simp: imc_queue_to_tick_def split: list.splits)
    from imc_tick_read_ok [OF inv this] obtain c1 where "imc_tick_read ops ?c = Inr c1" "imc_inv ninv c1"
      by (auto simp: ensures_iff)
    moreover have "imc_curr_clk c1 = clk"
      using \<open>imc_tick_read ops ?c = Inr c1\<close>
      by (auto simp: imc_tick_read_def next_issue_def Let_def ebind_eq_Inr split: list.splits if_splits)
    ultimately show ?thesis using Queue_read by (simp add: imc_tick_queue_def)
  next
    case Queue_write
    from imc_flush_wpq_ok [OF inv, of "[]"] obtain c1 calls where
      "imc_flush_wpq ops ?c [] = Some (Inr (c1, calls))" "imc_inv ninv c1"
      "imc_curr_clk c1 = clk" "\<forall>(cb, a, t) \<in> set calls. t = clk" by fastforce
    then show ?thesis using Queue_write inv rq.full_spec [OF wf] by (simp add: imc_tick_queue_def)
  qed
  then obtain c1 calls where c1: "imc_tick_queue ops ?c = Some (Inr (c1, calls))" "imc_inv ninv c1"
      "imc_curr_clk c1 = clk" "\<forall>(cb, a, t) \<in> set calls. t = clk" by blast
  from imc_flush_wpq_ok [OF c1(2), of calls] obtain c2 calls2 where
    "imc_flush_wpq ops c1 calls = Some (Inr (c2, calls @ calls2))" "imc_inv ninv c2"
    "\<forall>(cb, a, t) \<in> set calls2. t = clk" using c1(3) by blast
  then show ?thesis using c1 by (auto simp: imc_tick_ctrl_def imc_adr_def)
qed

end

text \<open>A whole cycle of the controller over a level that ticks: it returns and keeps the invariant.\<close>

context ticking_level
begin

lemma imc_tick_ok:
  assumes "imc_inv ninv c" "small_clk clk"
  shows "\<exists>c' calls. imc_tick ops clk c = Some (Inr (c', calls)) \<and> imc_inv ninv c' \<and>
    (\<forall>(cb, a, t) \<in> set calls. t = clk)"
proof -
  from imc_tick_ctrl_ok [OF assms(1), of clk] obtain c1 out where
    c1: "imc_tick_ctrl ops clk c = Some (Inr (c1, out))" "imc_inv ninv c1" "\<forall>(cb, a, t) \<in> set out. t = clk" by blast
  have n: "\<forall>n \<in> set (next_level_components c1). ninv n" using c1(2) by (simp add: imc_inv_def)
  from tick_list_ok [OF n assms(2)] obtain ns calls where
    "tick_list ops clk (next_level_components c1) = Inr (ns, calls)" "length ns = length (next_level_components c1)"
    "\<forall>n \<in> set ns. ninv n" "\<forall>(cb, a, t) \<in> set calls. t = clk" by (auto simp: ensures_iff)
  then show ?thesis using c1 imc_inv_next [OF c1(2)] by (auto simp: imc_tick_def)
qed

end

end
