(* ===== verification/Systems.thy ===== *)
theory Systems
  imports Component
begin

text \<open>
  The components that only route: the root memory controller (\<open>src/general/rmc.h\<close>), the NVRAM
  system (\<open>src/general/nvram_system.h\<close>) and the DDR4 system (\<open>src/general/ddr4_system.h\<close>). Each
  passes a request on in the same call; the address of the request is rewritten in place.
\<close>

section \<open>The root memory controller\<close>

text \<open>The member \<open>start_addr\<close> is only assigned when the configuration has the key.\<close>

record 'n rmc_controller = "'n memory_controller" +
  rmc_start_addr :: "addr_t option"

definition new_rmc_controller :: "component_mapping_f \<Rightarrow> addr_t option \<Rightarrow> 'n rmc_controller" where
  "new_rmc_controller f start =
     \<lparr>mapping_func = f, next_level_components = [], is_draining = False, rmc_start_addr = start\<rparr>"

definition route_request ::
  "'n component_ops \<Rightarrow> base_request \<Rightarrow> ('n, 'x) memory_controller_scheme
   \<Rightarrow> vans_error + ('n, 'x) memory_controller_scheme \<times> base_request \<times> base_response" where
  "route_request ops request c =
     ebind (get_next_level (req_addr request) c) (\<lambda>(next_addr, next).
       next_issue ops next (request\<lparr>req_addr := next_addr\<rparr>) c)"

definition rmc_issue_request ::
  "'n component_ops \<Rightarrow> 'n rmc_controller \<Rightarrow> base_request
   \<Rightarrow> vans_error + 'n rmc_controller \<times> base_request \<times> base_response" where
  "rmc_issue_request ops c request =
     (case rmc_start_addr c of
        None \<Rightarrow> Inl Undefined_behaviour
      | Some start \<Rightarrow>
          if req_addr request < start
          then Inl (Runtime_error ''Internal error, incoming address is lower than the start address of rmc'')
          else route_request ops (request\<lparr>req_addr := req_addr request - start\<rparr>) c)"

definition rmc_full :: "'n rmc_controller \<Rightarrow> vans_error + bool" where
  "rmc_full c = Inl (Runtime_error ''Internal error, function not supposed to be invoked.'')"

definition rmc_drain_current :: "'n rmc_controller \<Rightarrow> 'n rmc_controller" where
  "rmc_drain_current c = c"

definition rmc_pending_current :: "'n rmc_controller \<Rightarrow> bool" where
  "rmc_pending_current c = False"

definition routing_tick ::
  "'n component_ops \<Rightarrow> clk_t \<Rightarrow> ('n, 'x) memory_controller_scheme
   \<Rightarrow> vans_error + ('n, 'x) memory_controller_scheme \<times> call list" where
  "routing_tick ops curr_clk c =
     ebind (tick_list ops curr_clk (next_level_components c)) (\<lambda>(ns, calls).
       Inr (c\<lparr>next_level_components := ns\<rparr>, calls))"

definition rmc_ops :: "'n component_ops \<Rightarrow> 'n rmc_controller component_ops" where
  "rmc_ops ops =
     \<lparr>issue_request = rmc_issue_request ops, full = rmc_full,
      is_pending = mc_pending ops (\<lambda>c. Inr (rmc_pending_current c)),
      drain = mc_drain ops (\<lambda>c. Inr (rmc_drain_current c)),
      tick = routing_tick ops\<rparr>"

section \<open>The NVRAM system\<close>

type_synonym 'n nvram_system_controller = "'n memory_controller"

definition nvram_issue_request ::
  "'n component_ops \<Rightarrow> 'n nvram_system_controller \<Rightarrow> base_request
   \<Rightarrow> vans_error + 'n nvram_system_controller \<times> base_request \<times> base_response" where
  "nvram_issue_request ops c request = route_request ops request c"

definition nvram_full :: "'n component_ops \<Rightarrow> 'n nvram_system_controller \<Rightarrow> vans_error + bool" where
  "nvram_full ops c = any_err (full ops) (next_level_components c)"

definition nvram_drain_current :: "'n nvram_system_controller \<Rightarrow> 'n nvram_system_controller" where
  "nvram_drain_current c = c"

definition nvram_pending_current :: "'n nvram_system_controller \<Rightarrow> bool" where
  "nvram_pending_current c = False"

definition nvram_ops :: "'n component_ops \<Rightarrow> 'n nvram_system_controller component_ops" where
  "nvram_ops ops =
     \<lparr>issue_request = nvram_issue_request ops, full = nvram_full ops,
      is_pending = mc_pending ops (\<lambda>c. Inr (nvram_pending_current c)),
      drain = mc_drain ops (\<lambda>c. Inr (nvram_drain_current c)),
      tick = routing_tick ops\<rparr>"

section \<open>The DDR4 system\<close>

record 'm ddr4_system_controller = "unit memory_controller" +
  ddr4_local_memory :: 'm

definition ddr4_issue_request ::
  "'m component_ops \<Rightarrow> 'm ddr4_system_controller \<Rightarrow> base_request
   \<Rightarrow> vans_error + 'm ddr4_system_controller \<times> base_request \<times> base_response" where
  "ddr4_issue_request mops c request =
     ebind (issue_request mops (ddr4_local_memory c) request) (\<lambda>(m, req, resp).
       Inr (c\<lparr>ddr4_local_memory := m\<rparr>, req, resp))"

definition ddr4_full :: "'m component_ops \<Rightarrow> 'm ddr4_system_controller \<Rightarrow> vans_error + bool" where
  "ddr4_full mops c = full mops (ddr4_local_memory c)"

definition ddr4_drain_current ::
  "'m component_ops \<Rightarrow> 'm ddr4_system_controller \<Rightarrow> vans_error + 'm ddr4_system_controller" where
  "ddr4_drain_current mops c =
     ebind (drain mops (ddr4_local_memory c)) (\<lambda>m. Inr (c\<lparr>ddr4_local_memory := m\<rparr>))"

text \<open>\<open>memory_controller::drain\<close> without next levels, which the configuration does not connect.\<close>

definition ddr4_drain ::
  "'m component_ops \<Rightarrow> 'm ddr4_system_controller \<Rightarrow> vans_error + 'm ddr4_system_controller" where
  "ddr4_drain mops c =
     (if is_draining c
      then Inl (Runtime_error ''Internal error, should not call drain() twice.'')
      else ddr4_drain_current mops (c\<lparr>is_draining := True\<rparr>))"

definition ddr4_pending_current :: "'m component_ops \<Rightarrow> 'm ddr4_system_controller \<Rightarrow> vans_error + bool" where
  "ddr4_pending_current mops c = is_pending mops (ddr4_local_memory c)"

text \<open>The tick of the controller is empty; \<open>component::tick_current\<close> ticks the memory.\<close>

definition ddr4_tick ::
  "'m component_ops \<Rightarrow> clk_t \<Rightarrow> 'm ddr4_system_controller
   \<Rightarrow> vans_error + 'm ddr4_system_controller \<times> call list" where
  "ddr4_tick mops curr_clk c =
     ebind (tick mops curr_clk (ddr4_local_memory c)) (\<lambda>(m, calls).
       Inr (c\<lparr>ddr4_local_memory := m\<rparr>, calls))"

definition ddr4_system_ops :: "'m component_ops \<Rightarrow> 'm ddr4_system_controller component_ops" where
  "ddr4_system_ops mops =
     \<lparr>issue_request = ddr4_issue_request mops, full = ddr4_full mops,
      is_pending = ddr4_pending_current mops, drain = ddr4_drain mops, tick = ddr4_tick mops\<rparr>"

section \<open>Routing keeps the contract of a level\<close>

definition routing_inv :: "('n \<Rightarrow> bool) \<Rightarrow> ('n, 'x) memory_controller_scheme \<Rightarrow> bool" where
  "routing_inv ninv c \<longleftrightarrow> mapping_ok c \<and> (\<forall>n \<in> set (next_level_components c). ninv n)"

lemma routing_inv_next:
  "routing_inv ninv c \<Longrightarrow> length ns = length (next_level_components c) \<Longrightarrow> \<forall>n \<in> set ns. ninv n \<Longrightarrow>
   routing_inv ninv (c\<lparr>next_level_components := ns\<rparr>)"
  by (simp add: routing_inv_def mapping_ok_def)

context next_level
begin

lemma route_request_ok:
  assumes "routing_inv ninv c" "small_clk (req_arrive r)"
  shows "ensures (route_request ops r c) (\<lambda>(c', r', issued, deterministic, next_clk).
    routing_inv ninv c' \<and> (issued \<longrightarrow> deterministic \<longrightarrow> next_clk \<noteq> clk_invalid))"
proof -
  have n: "\<forall>n \<in> set (next_level_components c). ninv n" "mapping_ok c" using assms(1) by (simp_all add: routing_inv_def)
  from n(2) obtain a i where g: "get_next_level (req_addr r) c = Inr (a, i)" "i < length (next_level_components c)"
    by (rule get_next_level_ok)
  have "small_clk (req_arrive (r\<lparr>req_addr := a\<rparr>))" using assms(2) by simp
  from next_issue_ok [OF n(1) g(2) this] show ?thesis
    using g(1) routing_inv_next [OF assms(1)] by (auto simp: route_request_def ensures_iff)
qed

lemma route_request_issues:
  assumes "routing_inv ninv c" "small_clk (req_arrive r)"
    and "\<forall>n \<in> set (next_level_components c). full ops n = Inr False"
  shows "ensures (route_request ops r c) (\<lambda>(c', r', issued, deterministic, next_clk). issued)"
proof -
  have n: "\<forall>n \<in> set (next_level_components c). ninv n" "mapping_ok c" using assms(1) by (simp_all add: routing_inv_def)
  from n(2) obtain a i where g: "get_next_level (req_addr r) c = Inr (a, i)" "i < length (next_level_components c)"
    by (rule get_next_level_ok)
  have "small_clk (req_arrive (r\<lparr>req_addr := a\<rparr>))" using assms(2) by simp
  from not_full_issues [OF _ _ this, of "next_level_components c ! i"] show ?thesis
    using g n(1) assms(3) by (auto simp: route_request_def next_issue_def ensures_iff)
qed

end

lemma any_err_false:
  "any_err f xs = Inr False \<Longrightarrow> \<forall>x \<in> set xs. f x = Inr False"
  by (induction xs) (auto simp: ebind_eq_Inr split: if_splits)

context ticking_level
begin

lemma nvram_ticking_level: "ticking_level (nvram_ops ops) (routing_inv ninv)"
proof
  fix n :: "'a nvram_system_controller" and r :: base_request
  assume i: "routing_inv ninv n"
  then have ns: "\<forall>m \<in> set (next_level_components n). ninv m" by (simp add: routing_inv_def)
  show "ensures (full (nvram_ops ops) n) (\<lambda>b. True)"
    using any_err_ensures [of "next_level_components n" "full ops"] ns full_ok
    by (auto simp: nvram_ops_def nvram_full_def elim!: ensures_mono)
  show "ensures (is_pending (nvram_ops ops) n) (\<lambda>b. True)"
    using any_err_ensures [of "next_level_components n" "is_pending ops"] ns pending_ok
    by (auto simp: nvram_ops_def mc_pending_def elim!: ensures_mono)
  show "ensures (tick (nvram_ops ops) clk n) (\<lambda>(n', calls). routing_inv ninv n' \<and> (\<forall>(cb, a, t) \<in> set calls. t = clk))"
    if "small_clk clk" for clk
    using tick_list_ok [OF ns that] routing_inv_next [OF i]
    by (auto simp: nvram_ops_def routing_tick_def elim!: ensures_mono)
  assume a: "small_clk (req_arrive r)"
  show "ensures (issue_request (nvram_ops ops) n r) (\<lambda>(n', r', issued, deterministic, next_clk).
      routing_inv ninv n' \<and> (issued \<longrightarrow> deterministic \<longrightarrow> next_clk \<noteq> clk_invalid))"
    using route_request_ok [OF i a] by (simp add: nvram_ops_def nvram_issue_request_def)
  show "ensures (issue_request (nvram_ops ops) n r) (\<lambda>(n', r', issued, deterministic, next_clk). issued)"
    if "full (nvram_ops ops) n = Inr False"
    using route_request_issues [OF i a any_err_false] that
    by (simp add: nvram_ops_def nvram_issue_request_def nvram_full_def)
qed

end

end
