(* ===== verification/System_Props.thy ===== *)
theory System_Props
  imports Imc Systems Rmw_Props Nvdimm_Props
begin

text \<open>
  Properties of the controllers above the NVDIMM: the flush loop and the cycle of the integrated
  memory controller, the root memory controller and the NVRAM system.
\<close>

section \<open>The integrated memory controller\<close>

text \<open>An IMC over two interleaved RMW buffers, with a write and a read of the same address queued.\<close>

definition two_rmws :: "static_memory rmw_controller imc_controller" where
  "two_rmws = connect_next rmw_example (connect_next rmw_example (new_imc_controller stride_mapping_4096 1 4 0))"

definition imc_queued :: "base_request list \<Rightarrow> static_memory rmw_controller imc_controller" where
  "imc_queued rs =
     two_rmws\<lparr>wpq := \<lparr>queue = filter (\<lambda>r. req_type r = Base_write) rs, max_entries = 4\<rparr>,
       rpq := \<lparr>queue = filter (\<lambda>r. req_type r = Base_read) rs, max_entries = 4\<rparr>\<rparr>"

lemma rmw_static_next: "next_level (rmw_ops static_memory_ops) (rmw_inv static_wf (\<lambda>n. {#}) {#})"
  using rmw_static.rmw_ticking_level by (simp add: ticking_level_def)

lemma imc_queued_inv:
  assumes "length rs \<le> 4" "list_all (\<lambda>r. small_clk (req_arrive r)) rs"
  shows "imc_inv (rmw_inv static_wf (\<lambda>n. {#}) {#}) (imc_queued rs)"
proof -
  have l: "length (filter P rs) \<le> 4" for P using assms(1) length_filter_le le_trans by blast
  have "mapping_ok (imc_queued rs)"
    by (rule mapping_ok_stride) (simp_all add: imc_queued_def two_rmws_def connect_next_def new_imc_controller_def)
  then show ?thesis
    using assms(2) l rmw_example_inv
    by (auto simp: imc_inv_def imc_queued_def two_rmws_def connect_next_def new_imc_controller_def rq_wf_def list_all_iff)
qed

text \<open>C8: \<open>flush_wpq\<close> returns over every next level that accepts when it is not full. For some \<open>k\<close> it issues exactly the \<open>k\<close>
  oldest writes, one after the other in the order of the queue, each to the component that its address selects, which is
  not full and accepts it, and answers each of them with the current clock; none of them overtakes an older read. These writes leave
  the queue, nothing else of the controller changes, and it stops when the queue is empty, an older read
  waits, or the next level of the front write is full.\<close>

theorem imc_flush_terminates:
  assumes "next_level ops ninv" "imc_inv ninv c"
  shows "\<exists>k ns calls. k \<le> length (queue (wpq c)) \<and>
    issue_in_order ops (\<lambda>a. get_next_level a c) (imc_curr_clk c) (take k (queue (wpq c))) (next_level_components c) = Some (ns, calls) \<and>
    (\<forall>w \<in> set (take k (queue (wpq c))). queue (rpq c) = [] \<or> req_arrive w \<le> req_arrive (hd (queue (rpq c)))) \<and>
    (let c' = c\<lparr>next_level_components := ns, wpq := (wpq c)\<lparr>queue := drop k (queue (wpq c))\<rparr>\<rparr> in
      imc_flush_wpq ops c out = Some (Inr (c', out @ calls)) \<and> imc_inv ninv c' \<and> imc_flush_done ops c')"
  by (rule next_level.imc_flush_wpq_issues [OF assms])

theorem imc_flush_terminates_witness:
  "\<exists>k ns calls. issue_in_order (rmw_ops static_memory_ops) (\<lambda>a. get_next_level a (imc_queued [rmw_req Base_write 0x3040])) 0
      (take k [rmw_req Base_write 0x3040]) (next_level_components (imc_queued [rmw_req Base_write 0x3040])) = Some (ns, calls) \<and>
    imc_flush_wpq (rmw_ops static_memory_ops) (imc_queued [rmw_req Base_write 0x3040]) [] =
      Some (Inr ((imc_queued [rmw_req Base_write 0x3040])\<lparr>next_level_components := ns,
        wpq := \<lparr>queue = drop k [rmw_req Base_write 0x3040], max_entries = 4\<rparr>\<rparr>, calls))"
proof -
  have "imc_inv (rmw_inv static_wf (\<lambda>n. {#}) {#}) (imc_queued [rmw_req Base_write 0x3040])"
    by (rule imc_queued_inv) (simp_all add: small_clk_def)
  from imc_flush_terminates [OF rmw_static_next this, of "[]"]
  have "\<exists>k ns calls. issue_in_order (rmw_ops static_memory_ops) (\<lambda>a. get_next_level a (imc_queued [rmw_req Base_write 0x3040]))
      (imc_curr_clk (imc_queued [rmw_req Base_write 0x3040])) (take k (queue (wpq (imc_queued [rmw_req Base_write 0x3040]))))
      (next_level_components (imc_queued [rmw_req Base_write 0x3040])) = Some (ns, calls) \<and>
    imc_flush_wpq (rmw_ops static_memory_ops) (imc_queued [rmw_req Base_write 0x3040]) [] =
      Some (Inr ((imc_queued [rmw_req Base_write 0x3040])\<lparr>next_level_components := ns,
        wpq := (wpq (imc_queued [rmw_req Base_write 0x3040]))\<lparr>queue :=
          drop k (queue (wpq (imc_queued [rmw_req Base_write 0x3040])))\<rparr>\<rparr>, calls))"
    unfolding Let_def append_Nil by blast
  moreover have "imc_curr_clk (imc_queued [rmw_req Base_write 0x3040]) = 0"
    "wpq (imc_queued [rmw_req Base_write 0x3040]) = \<lparr>queue = [rmw_req Base_write 0x3040], max_entries = 4\<rparr>"
    by (simp_all add: imc_queued_def two_rmws_def connect_next_def new_imc_controller_def)
  ultimately show ?thesis by simp
qed






text \<open>C9: A cycle of the IMC over any level that keeps its contract returns: its loop ends, nothing is
  thrown, its invariant is kept, and every callback it passes on carries the current clock.\<close>

theorem imc_cycle_safe:
  assumes "ticking_level ops ninv" "imc_inv ninv c" "small_clk clk"
  shows "\<exists>c' calls. imc_tick ops clk c = Some (Inr (c', calls)) \<and> imc_inv ninv c' \<and>
    list_all (\<lambda>(cb, a, t). t = clk) calls"
  using ticking_level.imc_tick_ok [OF assms] by (simp add: list_all_iff)

theorem imc_cycle_safe_witness:
  "\<exists>c' calls. imc_tick (rmw_ops static_memory_ops) 5 (imc_queued [rmw_req Base_read 0x3040]) = Some (Inr (c', calls))"
proof -
  have "imc_inv (rmw_inv static_wf (\<lambda>n. {#}) {#}) (imc_queued [rmw_req Base_read 0x3040])"
    by (rule imc_queued_inv) (simp_all add: small_clk_def)
  from imc_cycle_safe [OF rmw_static.rmw_ticking_level this, of 5] show ?thesis
    by (auto simp: small_clk_def)
qed

definition queued_below :: "vans_error + 'm rmw_controller imc_controller \<Rightarrow> addr_t list list" where
  "queued_below m = (case m of Inl e \<Rightarrow> [] | Inr c \<Rightarrow> map (\<lambda>n. map req_addr (queue (rmw_lsq n))) (next_level_components c))"

text \<open>With two interleaved NVDIMMs, the read of an address arrives under its local address, the
  flushed write of the same address under the unmapped one: \<open>flush_wpq\<close> uses the index of the mapping
  and drops its address, so the two go to different blocks of the same NVDIMM.\<close>

theorem imc_write_is_not_mapped:
  "queued_below (imc_tick_read (rmw_ops static_memory_ops) (imc_queued [rmw_req Base_read 0x3040])) = [[], [0x1040]] \<and>
   queued_below (map_sum id (\<lambda>(go, c, calls). c)
     (imc_flush_step (rmw_ops static_memory_ops) (imc_queued [rmw_req Base_write 0x3040]))) = [[], [0x3040]]"
  by code_simp

text \<open>A read that finds the next level full is retried in the next cycle with the address that the
  first attempt has already mapped: the mapping is applied twice and the read ends up in another
  component.\<close>

theorem imc_read_retry_remaps:
  assumes "queue (rpq c) = r # rest" "get_next_level (req_addr r) c = Inr (a, i)" "next_full ops i c = Inr True"
  shows "imc_tick_read ops c = Inr (c\<lparr>rpq := (rpq c)\<lparr>queue := r\<lparr>req_addr := a\<rparr> # rest\<rparr>\<rparr>)"
  using assms by (simp add: imc_tick_read_def Let_def next_full_def)

theorem imc_read_retry_remaps_witness:
  "let c = (imc_queued [rmw_req Base_read 0x3040])\<lparr>next_level_components :=
       [rmw_example, rmw_example\<lparr>rmw_lsq := \<lparr>queue = [rmw_req Base_read 0], max_entries = 1\<rparr>\<rparr>]\<rparr> in
   imc_tick_read (rmw_ops static_memory_ops) c =
     Inr (c\<lparr>rpq := (rpq c)\<lparr>queue := [(rmw_req Base_read 0x3040)\<lparr>req_addr := 0x1040\<rparr>]\<rparr>\<rparr>) \<and>
   get_next_level 0x3040 c = Inr (0x1040, 1) \<and> get_next_level 0x1040 c = Inr (0x40, 1)"
proof -
  let ?c = "(imc_queued [rmw_req Base_read 0x3040])\<lparr>next_level_components :=
       [rmw_example, rmw_example\<lparr>rmw_lsq := \<lparr>queue = [rmw_req Base_read 0], max_entries = 1\<rparr>\<rparr>]\<rparr>"
  have g: "get_next_level 0x3040 ?c = Inr (0x1040, 1)" "get_next_level 0x1040 ?c = Inr (0x40, 1)" by code_simp+
  have "queue (rpq ?c) = [rmw_req Base_read 0x3040]" by (simp add: imc_queued_def)
  moreover have "get_next_level (req_addr (rmw_req Base_read 0x3040)) ?c = Inr (0x1040, 1)" using g(1) by simp
  moreover have "next_full (rmw_ops static_memory_ops) 1 ?c = Inr True" by code_simp
  ultimately show ?thesis using imc_read_retry_remaps [of ?c "rmw_req Base_read 0x3040" "[]" "0x1040" 1] g
    by (simp add: Let_def)
qed

section \<open>The root memory controller\<close>

text \<open>C31: The root memory controller refuses addresses below its start address and sends every other one by its distance to
  the start, under either mapping that a configuration can name: with \<open>none_mapping\<close>, which every
  shipped configuration gives the root, to its first component at that distance; with the stride mapping to
  the 4096-byte pages in turn. Without a configured start address nothing is defined.\<close>

theorem rmc_routing:
  assumes "get_component_mapping_func name = Inr (mapping_func c)" "next_level_components c \<noteq> []"
    and "length (next_level_components c) < 2 ^ 64"
  shows "case rmc_start_addr c of
      None \<Rightarrow> rmc_issue_request ops c r = Inl Undefined_behaviour
    | Some start \<Rightarrow>
        if req_addr r < start
        then rmc_issue_request ops c r = Inl (Runtime_error ''Internal error, incoming address is lower than the start address of rmc'')
        else \<exists>a i. rmc_issue_request ops c r = next_issue ops i (r\<lparr>req_addr := a\<rparr>) c \<and>
          (let d = unat (req_addr r) - unat start; n = length (next_level_components c) in
            if name = ''none_mapping'' then i = 0 \<and> unat a = d
            else i = d div 4096 mod n \<and> unat a = 4096 * (d div 4096 div n) + d mod 4096)"
proof (cases "rmc_start_addr c")
  case (Some start)
  let ?n = "of_nat (length (next_level_components c)) :: 64 word" and ?d = "req_addr r - start"
  have u: "unat ?n = length (next_level_components c)" by (rule unat_of_nat64 [OF assms(3)])
  then have n: "?n \<noteq> 0" using assms(2) by (metis length_0_conv unat_0)
  have d: "unat ?d = unat (req_addr r) - unat start" if "\<not> req_addr r < start" using that by (simp add: unat_sub)
  from assms(1) consider (none) "name = ''none_mapping''" "mapping_func c = none_mapping"
    | (stride) "name = ''stride_mapping(4096)''" "mapping_func c = stride_mapping_4096"
    by (auto simp: get_component_mapping_func_def split: if_splits)
  then obtain a i where m: "mapping_func c ?d ?n = Inr (a, i)"
      "if name = ''none_mapping'' then unat i = 0 \<and> unat a = unat ?d
       else unat i = unat ?d div 4096 mod unat ?n \<and> unat a = 4096 * (unat ?d div 4096 div unat ?n) + unat ?d mod 4096"
  proof cases
    case none
    then show ?thesis by (intro that [of ?d 0]) (simp_all add: none_mapping_def)
  next
    case stride
    obtain a i where "stride_mapping_4096 ?d ?n = Inr (a, i)" using n by (simp add: stride_mapping_4096_def)
    then show ?thesis using stride stride_mapping_unat [of ?d ?n a i] by (intro that [of a i]) simp_all
  qed
  have "unat i < length (next_level_components c)" using m(2) u assms(2) by (auto split: if_splits)
  then have "get_next_level ?d c = Inr (a, unat i)" using m(1) by (simp add: get_next_level_def)
  then have "rmc_issue_request ops c r = next_issue ops (unat i) (r\<lparr>req_addr := a\<rparr>) c" if "\<not> req_addr r < start"
    using that Some by (simp add: rmc_issue_request_def route_request_def)
  moreover have "rmc_issue_request ops c r = Inl (Runtime_error ''Internal error, incoming address is lower than the start address of rmc'')"
    if "req_addr r < start"
    using that Some by (simp add: rmc_issue_request_def)
  ultimately show ?thesis using Some m(2) d u by (auto simp: Let_def intro!: exI [of _ a] exI [of _ "unat i"])
qed (simp add: rmc_issue_request_def)

definition routing_example :: "component_mapping_f \<Rightarrow> static_memory rmw_controller rmc_controller" where
  "routing_example f = connect_next rmw_example (connect_next rmw_example (new_rmc_controller f (Some 0x1000)))"

theorem rmc_routing_witness:
  "(\<exists>a. rmc_issue_request (rmw_ops static_memory_ops) (routing_example none_mapping) (rmw_req Base_read 0x2040) =
      next_issue (rmw_ops static_memory_ops) 0 ((rmw_req Base_read 0x2040)\<lparr>req_addr := a\<rparr>) (routing_example none_mapping) \<and>
      unat a = 0x1040) \<and>
   (\<exists>a. rmc_issue_request (rmw_ops static_memory_ops) (routing_example stride_mapping_4096) (rmw_req Base_read 0x2040) =
      next_issue (rmw_ops static_memory_ops) 1 ((rmw_req Base_read 0x2040)\<lparr>req_addr := a\<rparr>) (routing_example stride_mapping_4096) \<and>
      unat a = 0x40)"
proof -
  have e: "mapping_func (routing_example f) = f" "length (next_level_components (routing_example f)) = 2"
    "rmc_start_addr (routing_example f) = Some 0x1000" for f
    by (simp_all add: routing_example_def connect_next_def new_rmc_controller_def)
  then have l: "next_level_components (routing_example f) \<noteq> []" "length (next_level_components (routing_example f)) < 2 ^ 64" for f
    by (metis list.size(3) zero_neq_numeral) (simp add: e)
  have f: "get_component_mapping_func ''none_mapping'' = Inr (mapping_func (routing_example none_mapping))"
    "get_component_mapping_func ''stride_mapping(4096)'' = Inr (mapping_func (routing_example stride_mapping_4096))"
    by (simp_all add: get_component_mapping_func_def e)
  show ?thesis
    using rmc_routing [OF f(1) l, of "rmw_ops static_memory_ops" "rmw_req Base_read 0x2040"]
      rmc_routing [OF f(2) l, of "rmw_ops static_memory_ops" "rmw_req Base_read 0x2040"]
    by (auto simp: e Let_def)
qed

section \<open>The NVRAM system\<close>

text \<open>C7: An NVRAM system over any number of interleaved NVDIMMs, in any state their invariant allows,
  never fails over a local memory that never throws (over the DDR4 memory only the overflow of its refresh queue is left, as
  for a single NVDIMM): every run of requests and ticks returns and keeps the invariant of all NVDIMMs, and
  afterwards a system that is not full accepts.\<close>

theorem nvram_system_never_fails:
  assumes "nvdimm_memory mops minv mowes" "routing_inv (nvdimm_inv minv mowes) c" "list_all small_event evs"
    and "small_clk (req_arrive r)"
  shows "ensures (component_run (nvram_ops (nvdimm_ops mops)) evs c) (\<lambda>(c', accepted, calls).
    routing_inv (nvdimm_inv minv mowes) c' \<and>
    (nvram_full (nvdimm_ops mops) c' = Inr False \<longrightarrow>
      ensures (nvram_issue_request (nvdimm_ops mops) c' r) (\<lambda>(c'', r', issued, deterministic, clk). issued)))"
proof -
  note t = ticking_level.nvram_ticking_level [OF nvdimm_memory.nvdimm_ticking [OF assms(1)]]
  have a: "ensures (nvram_issue_request (nvdimm_ops mops) c' r) (\<lambda>(c'', r', issued, deterministic, clk). issued)"
    if "routing_inv (nvdimm_inv minv mowes) c'" "nvram_full (nvdimm_ops mops) c' = Inr False" for c'
    using next_level.not_full_issues [OF ticking_level.axioms(1) [OF t] that(1) _ assms(4)] that(2)
    by (simp add: nvram_ops_def)
  show ?thesis
    by (rule ensures_mono [OF ticking_level.component_run_ok [OF t assms(2,3)]]) (use a in \<open>auto split: prod.splits\<close>)
qed

theorem nvram_system_never_fails_witness:
  "ensures (component_run (nvram_ops (nvdimm_ops static_memory_ops)) nvdimm_waiting
      (connect_next nvdimm_example (connect_next nvdimm_example
        \<lparr>mapping_func = stride_mapping_4096, next_level_components = [], is_draining = False\<rparr>)))
    (\<lambda>(c', accepted, calls). routing_inv (nvdimm_inv static_wf (\<lambda>n. {#})) c')"
proof -
  let ?c = "connect_next nvdimm_example (connect_next nvdimm_example
        \<lparr>mapping_func = stride_mapping_4096, next_level_components = [], is_draining = False\<rparr>)"
  have "mapping_ok ?c" by (rule mapping_ok_stride) (simp_all add: connect_next_def)
  then have "routing_inv (nvdimm_inv static_wf (\<lambda>n. {#})) ?c"
    using nvdimm_start_inv [OF nvdimm_example_start] by (simp add: routing_inv_def connect_next_def)
  moreover have "list_all small_event nvdimm_waiting" "small_clk (req_arrive (rmw_req Base_read 0))"
    by (simp_all add: small_clk_def)
  ultimately have r: "ensures (component_run (nvram_ops (nvdimm_ops static_memory_ops)) nvdimm_waiting ?c)
      (\<lambda>(c', accepted, calls). routing_inv (nvdimm_inv static_wf (\<lambda>n. {#})) c' \<and>
        (nvram_full (nvdimm_ops static_memory_ops) c' = Inr False \<longrightarrow>
         ensures (nvram_issue_request (nvdimm_ops static_memory_ops) c' (rmw_req Base_read 0))
           (\<lambda>(c'', r', issued, deterministic, clk). issued)))"
    by (rule nvram_system_never_fails [OF nvdimm_static_memory])
  show ?thesis by (rule ensures_mono [OF r]) auto
qed

end
