(* ===== verification/Ddr4.thy ===== *)
theory Ddr4
  imports Component
begin

text \<open>
  The DDR4 standard of \<open>src/general/ddr4.h\<close> and \<open>src/general/ddr4.cpp\<close> and the data of a DRAM
  node of \<open>src/general/dram.h\<close>: states, levels, commands, the timing table, the state-transfer table
  and the prerequisite table. The \<open>double\<close> timings (\<open>freq\<close>, \<open>tCK\<close>) take no part in the simulation
  and are left out; the \<open>int\<close> timings are integers, whose sums stay far inside 32 bits for timings
  below \<open>2^28\<close> (\<open>timing_ok\<close>).
\<close>

section \<open>States, levels and commands\<close>

datatype dram_state = Pwr_up | Closed | Self_refresh | Pre_pwr_down | Act_pwr_down | Opened | State_undefined

datatype dram_level = Channel | Rank | Bank_group | Bank | Row | Col

fun level_index :: "dram_level \<Rightarrow> nat" where
  "level_index Channel = 0"
| "level_index Rank = 1"
| "level_index Bank_group = 2"
| "level_index Bank = 3"
| "level_index Row = 4"
| "level_index Col = 5"

definition total_levels :: nat where
  "total_levels = 6"

definition all_levels :: "dram_level list" where
  "all_levels = [Channel, Rank, Bank_group, Bank, Row, Col]"

datatype command = ACT | PRE | PREA | RD | WR | RDA | WRA | REF | PDE | PDX | SRE | SRX | Cmd_undefined

fun scope :: "command \<Rightarrow> dram_level" where
  "scope ACT = Row"
| "scope PRE = Bank"
| "scope PREA = Rank"
| "scope RD = Col"
| "scope WR = Col"
| "scope RDA = Col"
| "scope WRA = Col"
| "scope _ = Rank"

datatype dram_req_type = Dram_read | Dram_write | Dram_refresh | Dram_power_down | Dram_self_refresh

fun req_to_cmd :: "dram_req_type \<Rightarrow> command" where
  "req_to_cmd Dram_read = RD"
| "req_to_cmd Dram_write = WR"
| "req_to_cmd Dram_refresh = REF"
| "req_to_cmd Dram_power_down = PDE"
| "req_to_cmd Dram_self_refresh = SRE"

definition is_opening :: "command \<Rightarrow> bool" where
  "is_opening cmd \<longleftrightarrow> cmd = ACT"

fun is_accessing :: "command \<Rightarrow> bool" where
  "is_accessing RD = True"
| "is_accessing WR = True"
| "is_accessing RDA = True"
| "is_accessing WRA = True"
| "is_accessing _ = False"

fun is_closing :: "command \<Rightarrow> bool" where
  "is_closing RDA = True"
| "is_closing WRA = True"
| "is_closing PRE = True"
| "is_closing PREA = True"
| "is_closing _ = False"

definition is_refreshing :: "command \<Rightarrow> bool" where
  "is_refreshing cmd \<longleftrightarrow> cmd = REF"

text \<open>The initial state of a node of each level; the array leaves the last one value-initialised.\<close>

fun init_state :: "dram_level \<Rightarrow> dram_state" where
  "init_state Channel = State_undefined"
| "init_state Rank = Pwr_up"
| "init_state Bank_group = Closed"
| "init_state Bank = Closed"
| "init_state Row = State_undefined"
| "init_state Col = Pwr_up"

section \<open>Timing\<close>

record ddr4_timing =
  nBL :: int
  nCCDS :: int
  nCCDL :: int
  nRTRS :: int
  nCL :: int
  nRCD :: int
  nRP :: int
  nCWL :: int
  nRAS :: int
  nRC :: int
  nRTP :: int
  nWTRS :: int
  nWTRL :: int
  nWR :: int
  nPD :: int
  nXP :: int
  nXPDLL :: int
  nCKESR :: int
  nXSDLL :: int
  nRRDS :: int
  nRRDL :: int
  nFAW :: int
  nRFC :: int
  nREFI :: int
  nXS :: int

record timing_entry =
  te_cmd :: command
  delay :: int
  has_sibling :: bool
  dist :: nat

text \<open>The three ways an entry is written: the defaults, with a sibling, with a distance.\<close>

definition after :: "command \<Rightarrow> int \<Rightarrow> timing_entry" where
  "after cmd d = \<lparr>te_cmd = cmd, delay = d, has_sibling = False, dist = 1\<rparr>"

definition sibling_after :: "command \<Rightarrow> int \<Rightarrow> timing_entry" where
  "sibling_after cmd d = \<lparr>te_cmd = cmd, delay = d, has_sibling = True, dist = 1\<rparr>"

definition nth_after :: "nat \<Rightarrow> command \<Rightarrow> int \<Rightarrow> timing_entry" where
  "nth_after n cmd d = \<lparr>te_cmd = cmd, delay = d, has_sibling = False, dist = n\<rparr>"

text \<open>The calls of \<open>at\<close> in \<open>init_timing_table\<close>, level by level and in their order.\<close>

definition ddr4_timing_channel :: "ddr4_timing \<Rightarrow> (command \<times> timing_entry) list" where
  "ddr4_timing_channel t =
    [(RD, after RD (nBL t)),
     (RD, after RDA (nBL t)),
     (RDA, after RD (nBL t)),
     (RDA, after RDA (nBL t)),
     (WR, after WR (nBL t)),
     (WR, after WRA (nBL t)),
     (WRA, after WR (nBL t)),
     (WRA, after WRA (nBL t))]"

definition ddr4_timing_rank :: "ddr4_timing \<Rightarrow> (command \<times> timing_entry) list" where
  "ddr4_timing_rank t =
    [(RD, after RD (nCCDS t)),
     (RD, after RDA (nCCDS t)),
     (RDA, after RD (nCCDS t)),
     (RDA, after RDA (nCCDS t)),
     (WR, after WR (nCCDS t)),
     (WR, after WRA (nCCDS t)),
     (WRA, after WR (nCCDS t)),
     (WRA, after WRA (nCCDS t)),
     (RD, after WR (nCL t + nBL t + 2 - nCWL t)),
     (RD, after WRA (nCL t + nBL t + 2 - nCWL t)),
     (RDA, after WR (nCL t + nBL t + 2 - nCWL t)),
     (RDA, after WRA (nCL t + nBL t + 2 - nCWL t)),
     (WR, after RD (nCWL t + nBL t + nWTRS t)),
     (WR, after RDA (nCWL t + nBL t + nWTRS t)),
     (WRA, after RD (nCWL t + nBL t + nWTRS t)),
     (WRA, after RDA (nCWL t + nBL t + nWTRS t)),
     (RD, sibling_after RD (nBL t + nRTRS t)),
     (RD, sibling_after RDA (nBL t + nRTRS t)),
     (RDA, sibling_after RD (nBL t + nRTRS t)),
     (RDA, sibling_after RDA (nBL t + nRTRS t)),
     (RD, sibling_after WR (nBL t + nRTRS t)),
     (RD, sibling_after WRA (nBL t + nRTRS t)),
     (RDA, sibling_after WR (nBL t + nRTRS t)),
     (RDA, sibling_after WRA (nBL t + nRTRS t)),
     (RD, sibling_after WR (nCL t + nBL t + nRTRS t - nCWL t)),
     (RD, sibling_after WRA (nCL t + nBL t + nRTRS t - nCWL t)),
     (RDA, sibling_after WR (nCL t + nBL t + nRTRS t - nCWL t)),
     (RDA, sibling_after WRA (nCL t + nBL t + nRTRS t - nCWL t)),
     (WR, sibling_after RD (nCWL t + nBL t + nRTRS t - nCL t)),
     (WR, sibling_after RDA (nCWL t + nBL t + nRTRS t - nCL t)),
     (WRA, sibling_after RD (nCWL t + nBL t + nRTRS t - nCL t)),
     (WRA, sibling_after RDA (nCWL t + nBL t + nRTRS t - nCL t)),
     (RD, after PREA (nRTP t)),
     (WR, after PREA (nCWL t + nBL t + nWR t)),
     (RD, after PDE (nCL t + nBL t + 1)),
     (RDA, after PDE (nCL t + nBL t + 1)),
     (WR, after PDE (nCWL t + nBL t + nWR t)),
     (WRA, after PDE (nCWL t + nBL t + nWR t + 1)),
     (PDX, after RD (nXP t)),
     (PDX, after RDA (nXP t)),
     (PDX, after WR (nXP t)),
     (PDX, after WRA (nXP t)),
     (ACT, after ACT (nRRDS t)),
     (ACT, nth_after 4 ACT (nFAW t)),
     (ACT, after PREA (nRAS t)),
     (PREA, after ACT (nRP t)),
     (PRE, after REF (nRP t)),
     (PREA, after REF (nRP t)),
     (RDA, after REF (nRTP t + nRP t)),
     (WRA, after REF (nCWL t + nBL t + nWR t + nRP t)),
     (REF, after ACT (nRFC t)),
     (ACT, after PDE 1),
     (PDX, after ACT (nXP t)),
     (PDX, after PRE (nXP t)),
     (PDX, after PREA (nXP t)),
     (PRE, after SRE (nRP t)),
     (PREA, after SRE (nRP t)),
     (SRX, after ACT (nXS t)),
     (REF, after REF (nRFC t)),
     (REF, after PDE 1),
     (PDX, after REF (nXP t)),
     (SRX, after REF (nXS t)),
     (PDE, after PDX (nPD t)),
     (PDX, after PDE (nXP t)),
     (PDX, after SRE (nXP t)),
     (SRX, after PDE (nXS t)),
     (SRE, after SRX (nCKESR t)),
     (SRX, after SRE (nXS t))]"

definition ddr4_timing_bank_group :: "ddr4_timing \<Rightarrow> (command \<times> timing_entry) list" where
  "ddr4_timing_bank_group t =
    [(RD, after RD (nCCDL t)),
     (RD, after RDA (nCCDL t)),
     (RDA, after RD (nCCDL t)),
     (RDA, after RDA (nCCDL t)),
     (WR, after WR (nCCDL t)),
     (WR, after WRA (nCCDL t)),
     (WRA, after WR (nCCDL t)),
     (WRA, after WRA (nCCDL t)),
     (WR, after RD (nCWL t + nBL t + nWTRL t)),
     (WR, after RDA (nCWL t + nBL t + nWTRL t)),
     (WRA, after RD (nCWL t + nBL t + nWTRL t)),
     (WRA, after RDA (nCWL t + nBL t + nWTRL t)),
     (ACT, after ACT (nRRDL t))]"

definition ddr4_timing_bank :: "ddr4_timing \<Rightarrow> (command \<times> timing_entry) list" where
  "ddr4_timing_bank t =
    [(ACT, after RD (nRCD t)),
     (ACT, after RDA (nRCD t)),
     (ACT, after WR (nRCD t)),
     (ACT, after WRA (nRCD t)),
     (RD, after PRE (nRTP t)),
     (WR, after PRE (nCWL t + nBL t + nWR t)),
     (RDA, after ACT (nRTP t + nRP t)),
     (WRA, after ACT (nCWL t + nBL t + nWR t + nRP t)),
     (ACT, after ACT (nRC t)),
     (ACT, after PRE (nRAS t)),
     (PRE, after ACT (nRP t))]"

fun ddr4_timing_calls :: "ddr4_timing \<Rightarrow> dram_level \<Rightarrow> (command \<times> timing_entry) list" where
  "ddr4_timing_calls t Channel = ddr4_timing_channel t"
| "ddr4_timing_calls t Rank = ddr4_timing_rank t"
| "ddr4_timing_calls t Bank_group = ddr4_timing_bank_group t"
| "ddr4_timing_calls t Bank = ddr4_timing_bank t"
| "ddr4_timing_calls t Row = []"
| "ddr4_timing_calls t Col = []"

definition timing_table :: "ddr4_timing \<Rightarrow> dram_level \<Rightarrow> command \<Rightarrow> timing_entry list" where
  "timing_table t lev prev = map snd (filter (\<lambda>(c, e). c = prev) (ddr4_timing_calls t lev))"

section \<open>The standard\<close>

record ddr4 =
  ddr4_timings :: ddr4_timing
  mem_size :: "64 word"
  data_width :: int
  level_count :: "dram_level \<Rightarrow> 64 word"

definition prefetch_size :: "64 word" where
  "prefetch_size = 8"

definition channel_width :: "64 word" where
  "channel_width = 64"

definition dram_read_latency :: "ddr4 \<Rightarrow> int" where
  "dram_read_latency s = nCL (ddr4_timings s) + nBL (ddr4_timings s)"

section \<open>Nodes\<close>

text \<open>
  A node of the tree of channel, ranks, bank groups and banks. The row map is keyed by the row
  index as an \<open>int\<close>; \<open>next_at\<close> and \<open>prev_at\<close> are the arrays \<open>next\<close> and \<open>prev\<close> over the commands.
\<close>

record dram_regs =
  node_level :: dram_level
  node_id :: "64 word"
  curr_state :: dram_state
  row_state :: "32 word \<rightharpoonup> dram_state"
  node_clk :: clk_t
  next_at :: "command \<Rightarrow> clk_t"
  prev_at :: "command \<Rightarrow> clk_t list"

datatype dram = Dram (regs: dram_regs) (children: "dram list")

fun close_bank :: "dram \<Rightarrow> dram" where
  "close_bank (Dram r cs) = Dram (r\<lparr>curr_state := Closed, row_state := Map.empty\<rparr>) cs"

fun close_group :: "dram \<Rightarrow> dram" where
  "close_group (Dram r cs) = Dram r (map close_bank cs)"

definition bank_closed :: "dram \<Rightarrow> bool" where
  "bank_closed d \<longleftrightarrow> curr_state (regs d) = Closed"

text \<open>All banks of the groups of a rank are closed.\<close>

definition all_closed :: "dram list \<Rightarrow> bool" where
  "all_closed groups \<longleftrightarrow> list_all (\<lambda>group. list_all bank_closed (children group)) groups"

section \<open>State transfers\<close>

fun bank_activate :: "32 word \<Rightarrow> dram \<Rightarrow> dram" where
  "bank_activate i (Dram r cs) =
     Dram (r\<lparr>curr_state := Opened, row_state := (row_state r)(i \<mapsto> Opened)\<rparr>) cs"

fun rank_precharge_all :: "dram \<Rightarrow> dram" where
  "rank_precharge_all (Dram r cs) = Dram r (map close_group cs)"

fun set_state :: "dram_state \<Rightarrow> dram \<Rightarrow> dram" where
  "set_state s (Dram r cs) = Dram (r\<lparr>curr_state := s\<rparr>) cs"

fun rank_power_down :: "dram \<Rightarrow> dram" where
  "rank_power_down (Dram r cs) = set_state (if all_closed cs then Pre_pwr_down else Act_pwr_down) (Dram r cs)"

definition state_trans_table :: "dram_level \<Rightarrow> command \<Rightarrow> (dram \<Rightarrow> 32 word \<Rightarrow> dram) option" where
  "state_trans_table lev cmd =
     (case lev of
        Bank \<Rightarrow>
          (case cmd of
             ACT \<Rightarrow> Some (\<lambda>d i. bank_activate i d)
           | PRE \<Rightarrow> Some (\<lambda>d i. close_bank d)
           | RD \<Rightarrow> Some (\<lambda>d i. d)
           | WR \<Rightarrow> Some (\<lambda>d i. d)
           | RDA \<Rightarrow> Some (\<lambda>d i. close_bank d)
           | WRA \<Rightarrow> Some (\<lambda>d i. close_bank d)
           | _ \<Rightarrow> None)
      | Rank \<Rightarrow>
          (case cmd of
             PREA \<Rightarrow> Some (\<lambda>d i. rank_precharge_all d)
           | REF \<Rightarrow> Some (\<lambda>d i. d)
           | PDE \<Rightarrow> Some (\<lambda>d i. rank_power_down d)
           | PDX \<Rightarrow> Some (\<lambda>d i. set_state Pwr_up d)
           | SRE \<Rightarrow> Some (\<lambda>d i. set_state Self_refresh d)
           | SRX \<Rightarrow> Some (\<lambda>d i. set_state Pwr_up d)
           | _ \<Rightarrow> None)
      | _ \<Rightarrow> None)"

section \<open>Prerequisites\<close>

definition wrong_prereq :: vans_error where
  "wrong_prereq = Runtime_error ''Wrong prereq triggered.''"

definition rank_access_prereq :: "dram \<Rightarrow> command \<Rightarrow> 32 word \<Rightarrow> vans_error + command" where
  "rank_access_prereq d cmd i =
     (case curr_state (regs d) of
        Pwr_up \<Rightarrow> Inr Cmd_undefined
      | Act_pwr_down \<Rightarrow> Inr PDX
      | Pre_pwr_down \<Rightarrow> Inr PDX
      | Self_refresh \<Rightarrow> Inr SRX
      | _ \<Rightarrow> Inl wrong_prereq)"

definition bank_access_prereq :: "dram \<Rightarrow> command \<Rightarrow> 32 word \<Rightarrow> vans_error + command" where
  "bank_access_prereq d cmd i =
     (case curr_state (regs d) of
        Closed \<Rightarrow> Inr ACT
      | Opened \<Rightarrow> Inr (if row_state (regs d) i \<noteq> None then cmd else PRE)
      | _ \<Rightarrow> Inl wrong_prereq)"

definition rank_refresh_prereq :: "dram \<Rightarrow> command \<Rightarrow> 32 word \<Rightarrow> vans_error + command" where
  "rank_refresh_prereq d cmd i = Inr (if all_closed (children d) then REF else PREA)"

definition rank_power_down_prereq :: "dram \<Rightarrow> command \<Rightarrow> 32 word \<Rightarrow> vans_error + command" where
  "rank_power_down_prereq d cmd i =
     (case curr_state (regs d) of
        Pwr_up \<Rightarrow> Inr PDE
      | Act_pwr_down \<Rightarrow> Inr PDE
      | Pre_pwr_down \<Rightarrow> Inr PDE
      | Self_refresh \<Rightarrow> Inr SRX
      | _ \<Rightarrow> Inl wrong_prereq)"

definition rank_self_refresh_prereq :: "dram \<Rightarrow> command \<Rightarrow> 32 word \<Rightarrow> vans_error + command" where
  "rank_self_refresh_prereq d cmd i =
     (case curr_state (regs d) of
        Pwr_up \<Rightarrow> Inr SRE
      | Act_pwr_down \<Rightarrow> Inr PDX
      | Pre_pwr_down \<Rightarrow> Inr PDX
      | Self_refresh \<Rightarrow> Inr SRE
      | _ \<Rightarrow> Inl wrong_prereq)"

definition prereq_table :: "dram_level \<Rightarrow> command \<Rightarrow> (dram \<Rightarrow> command \<Rightarrow> 32 word \<Rightarrow> vans_error + command) option" where
  "prereq_table lev cmd =
     (case lev of
        Rank \<Rightarrow>
          (case cmd of
             RD \<Rightarrow> Some rank_access_prereq
           | WR \<Rightarrow> Some rank_access_prereq
           | REF \<Rightarrow> Some rank_refresh_prereq
           | PDE \<Rightarrow> Some rank_power_down_prereq
           | SRE \<Rightarrow> Some rank_self_refresh_prereq
           | _ \<Rightarrow> None)
      | Bank \<Rightarrow>
          (case cmd of
             RD \<Rightarrow> Some bank_access_prereq
           | WR \<Rightarrow> Some bank_access_prereq
           | _ \<Rightarrow> None)
      | _ \<Rightarrow> None)"

end
