(* ===== verification/Dram.thy ===== *)
theory Dram
  imports Ddr4
begin

text \<open>
  The tree of nodes of \<open>src/general/dram.h\<close> for the DDR4 standard: construction, \<open>decode\<close> (the
  command that is needed first), \<open>check\<close> (whether the command may be issued now) and \<open>update\<close> (its
  effect on states and timing). Mapped addresses are the arrays the code passes around; reading
  behind their end, or a child that does not exist, is undefined behaviour. \<open>get_next\<close> is in the theory
  \<open>Dram_Next\<close>.
\<close>

lemma ebind_cong [fundef_cong]:
  "m = m' \<Longrightarrow> (\<And>x. m' = Inr x \<Longrightarrow> f x = g x) \<Longrightarrow> ebind m f = ebind m' g"
  by (cases m') auto

lemma map_err_cong [fundef_cong]:
  "xs = ys \<Longrightarrow> (\<And>x. x \<in> set ys \<Longrightarrow> f x = g x) \<Longrightarrow> map_err f xs = map_err g ys"
proof (induction ys arbitrary: xs)
  case (Cons y ys)
  have "map_err f ys = map_err g ys" using Cons.IH [OF refl] Cons.prems(2) by simp
  then show ?case using Cons.prems by simp
qed simp

definition addr_at :: "64 word list \<Rightarrow> nat \<Rightarrow> vans_error + 64 word" where
  "addr_at addr i = (if i < length addr then Inr (addr ! i) else Inl Undefined_behaviour)"

lemma child_size [simp]: "i < length cs \<Longrightarrow> size (cs ! i) < Suc (size_list size cs)"
  by (metis less_Suc_eq_le nat_less_le nth_mem size_list_estimation' order_refl)

section \<open>Construction\<close>

text \<open>The level of the children; rows and columns have no instances.\<close>

fun child_level :: "dram_level \<Rightarrow> dram_level option" where
  "child_level Channel = Some Rank"
| "child_level Rank = Some Bank_group"
| "child_level Bank_group = Some Bank"
| "child_level _ = None"

definition max_dist :: "ddr4_timing \<Rightarrow> dram_level \<Rightarrow> command \<Rightarrow> nat" where
  "max_dist t lev cmd = foldr max (map dist (timing_table t lev cmd)) 0"

definition new_regs :: "ddr4 \<Rightarrow> dram_level \<Rightarrow> 64 word \<Rightarrow> dram_regs" where
  "new_regs s lev i =
     \<lparr>node_level = lev, node_id = i, curr_state = init_state lev, row_state = Map.empty, node_clk = 0,
      next_at = (\<lambda>cmd. 0),
      prev_at = (\<lambda>cmd. replicate (max_dist (ddr4_timings s) lev cmd) clk_invalid)\<rparr>"

function new_dram :: "ddr4 \<Rightarrow> dram_level \<Rightarrow> 64 word \<Rightarrow> dram" where
  "new_dram s lev i =
     Dram (new_regs s lev i)
       (case child_level lev of
          None \<Rightarrow> []
        | Some l \<Rightarrow> map (\<lambda>k. new_dram s l (of_nat k)) [0..<unat (level_count s l)])"
  by pat_completeness auto
termination
proof (relation "measure (\<lambda>(s, lev, i). 5 - level_index lev)", goal_cases)
  case (2 s lev i l k)
  then show ?case by (cases lev) auto
qed simp

declare new_dram.simps [simp del]

section \<open>Decode\<close>

function dram_decode :: "command \<Rightarrow> 64 word list \<Rightarrow> dram \<Rightarrow> vans_error + command" where
  "dram_decode cmd addr (Dram r cs) =
     ebind (addr_at addr (level_index (node_level r) + 1)) (\<lambda>child_id.
     ebind (case prereq_table (node_level r) cmd of
              None \<Rightarrow> Inr Cmd_undefined
            | Some f \<Rightarrow> f (Dram r cs) cmd (ucast child_id)) (\<lambda>pcmd.
       if pcmd \<noteq> Cmd_undefined then Inr pcmd
       else if cs = [] then Inr cmd
       else if unat child_id < length cs then dram_decode cmd addr (cs ! unat child_id)
       else Inl Undefined_behaviour))"
  by pat_completeness auto
termination by (relation "measure (\<lambda>(cmd, addr, d). size d)") auto

section \<open>Check\<close>

function dram_check :: "command \<Rightarrow> 64 word list \<Rightarrow> clk_t \<Rightarrow> dram \<Rightarrow> vans_error + bool" where
  "dram_check cmd addr clk (Dram r cs) =
     (if next_at r cmd \<noteq> clk_invalid \<and> clk < next_at r cmd then Inr False
      else ebind (addr_at addr (level_index (node_level r) + 1)) (\<lambda>child_id.
        if node_level r = scope cmd \<or> cs = [] then Inr True
        else if unat child_id < length cs then dram_check cmd addr clk (cs ! unat child_id)
        else Inl Undefined_behaviour))"
  by pat_completeness auto
termination by (relation "measure (\<lambda>(cmd, addr, clk, d). size d)") auto

section \<open>Update\<close>

fun set_node_clk :: "clk_t \<Rightarrow> dram \<Rightarrow> dram" where
  "set_node_clk clk (Dram r cs) = Dram (r\<lparr>node_clk := clk\<rparr>) cs"

text \<open>A state transfer may change the children, which are then the ones the command goes on to.\<close>

definition transferred :: "command \<Rightarrow> 64 word \<Rightarrow> dram \<Rightarrow> dram" where
  "transferred cmd child_id d =
     (case state_trans_table (node_level (regs d)) cmd of None \<Rightarrow> d | Some f \<Rightarrow> f d (ucast child_id))"

lemma size_close_bank [simp]: "size (close_bank d) = size d"
  by (cases d) simp

lemma size_close_group [simp]: "size (close_group d) = size d"
  by (cases d) (simp add: comp_def)

lemma size_transferred [simp]: "size (transferred cmd i d) = size d"
  by (cases d) (auto simp: transferred_def state_trans_table_def comp_def split: dram_level.split command.split)

function dram_update_state :: "command \<Rightarrow> 64 word list \<Rightarrow> dram \<Rightarrow> vans_error + dram" where
  "dram_update_state cmd addr d =
     ebind (addr_at addr (level_index (node_level (regs d)) + 1)) (\<lambda>child_id.
       let d' = transferred cmd child_id d; cs = children d' in
       if node_level (regs d) = scope cmd \<or> cs = [] then Inr d'
       else if unat child_id < length cs
       then ebind (dram_update_state cmd addr (cs ! unat child_id)) (\<lambda>c.
              Inr (Dram (regs d') (cs[unat child_id := c])))
       else Inl Undefined_behaviour)"
  by pat_completeness auto
termination
proof (relation "measure (\<lambda>(cmd, addr, d). size d)", goal_cases)
  case (2 cmd addr d child_id d' cs)
  then have "size (cs ! unat child_id) < Suc (size_list size (children d'))" by simp
  also have "Suc (size_list size (children d')) = size d'" by (cases d') simp
  also have "size d' = size d" using 2 by simp
  finally show ?case by simp
qed simp

declare dram_update_state.simps [simp del]

definition raise_next :: "timing_entry \<Rightarrow> clk_t \<Rightarrow> dram_regs \<Rightarrow> dram_regs" where
  "raise_next t clk r =
     r\<lparr>next_at := (next_at r)(te_cmd t := max (next_at r (te_cmd t)) (clk + of_int (delay t)))\<rparr>"

text \<open>A command to a sibling: only the entries for siblings count.\<close>

fun sibling_timing :: "clk_t \<Rightarrow> timing_entry list \<Rightarrow> dram_regs \<Rightarrow> dram_regs" where
  "sibling_timing clk [] r = r"
| "sibling_timing clk (t # ts) r =
     sibling_timing clk ts (if has_sibling t then raise_next t clk r else r)"

text \<open>
  A command to the node: the delay counts from the \<open>dist\<close>-th last command of the kind. The guard
  against commands that were never issued compares an unsigned number with zero.
\<close>

fun own_timing :: "command \<Rightarrow> timing_entry list \<Rightarrow> dram_regs \<Rightarrow> vans_error + dram_regs" where
  "own_timing cmd [] r = Inr r"
| "own_timing cmd (t # ts) r =
     (if has_sibling t then own_timing cmd ts r
      else if 0 < dist t \<and> dist t \<le> length (prev_at r cmd)
      then (let past_clk = prev_at r cmd ! (dist t - 1) in
            own_timing cmd ts (if past_clk < 0 then r else raise_next t past_clk r))
      else Inl Undefined_behaviour)"

definition push_prev :: "command \<Rightarrow> clk_t \<Rightarrow> dram_regs \<Rightarrow> dram_regs" where
  "push_prev cmd clk r =
     (if prev_at r cmd = [] then r
      else r\<lparr>prev_at := (prev_at r)(cmd := clk # butlast (prev_at r cmd))\<rparr>)"

function dram_update_timing ::
  "ddr4_timing \<Rightarrow> command \<Rightarrow> 64 word list \<Rightarrow> clk_t \<Rightarrow> dram \<Rightarrow> vans_error + dram" where
  "dram_update_timing t cmd addr clk (Dram r cs) =
     ebind (addr_at addr (level_index (node_level r))) (\<lambda>i.
       if node_id r \<noteq> i
       then Inr (Dram (sibling_timing clk (timing_table t (node_level r) cmd) r) cs)
       else ebind (own_timing cmd (timing_table t (node_level r) cmd) (push_prev cmd clk r)) (\<lambda>r.
            ebind (map_err (dram_update_timing t cmd addr clk) cs) (\<lambda>cs.
              Inr (Dram r cs))))"
  by pat_completeness auto
termination
  by (relation "measure (\<lambda>(t, cmd, addr, clk, d). size d)")
    (auto simp: less_Suc_eq_le intro: size_list_estimation')

definition dram_update ::
  "ddr4_timing \<Rightarrow> command \<Rightarrow> 64 word list \<Rightarrow> clk_t \<Rightarrow> dram \<Rightarrow> vans_error + dram" where
  "dram_update t cmd addr clk d =
     ebind (dram_update_state cmd addr (set_node_clk clk d)) (dram_update_timing t cmd addr clk)"

end
