(* ===== verification/Dram_Mapping.thy ===== *)
theory Dram_Mapping
  imports Dram
begin

text \<open>
  \<open>dram_mapping\<close> of \<open>src/general/mapping.h\<close> for the DDR4 standard: how a logic address is cut into
  the indices of channel, rank, bank group, bank, row and column. The members that the
  constructor loads and never uses are left out.
\<close>

record dram_mapping =
  tx_bit_width :: "64 word"
  addr_bit_width :: "64 word list"
  code :: "64 word"

definition substr_err :: "nat \<Rightarrow> nat \<Rightarrow> string \<Rightarrow> vans_error + string" where
  "substr_err pos n s = (if length s < pos then Inl Out_of_range else Inr (take n (drop pos s)))"

definition mapping_level :: "string \<Rightarrow> 64 word" where
  "mapping_level this_level =
     (if this_level = ''Ch'' then 0
      else if this_level = ''Ra'' then 1
      else if this_level = ''Bg'' then 2
      else if this_level = ''Ba'' then 3
      else if this_level = ''Ro'' then 4
      else if this_level = ''Co'' then 5
      else 0)"

fun encode_mapping :: "string \<Rightarrow> nat list \<Rightarrow> 64 word \<Rightarrow> vans_error + 64 word" where
  "encode_mapping media_func [] c = Inr c"
| "encode_mapping media_func (i # ks) c =
     ebind (substr_err (i * 2) 2 media_func) (\<lambda>this_level.
       encode_mapping media_func ks (c OR push_bit (i * 4) (mapping_level this_level AND 0xf)))"

definition new_dram_mapping :: "ddr4 \<Rightarrow> string \<Rightarrow> vans_error + dram_mapping" where
  "new_dram_mapping s media_func =
     (let tx_size = channel_width * prefetch_size div 8 in
      if \<not> is_pwr_of_2 tx_size
      then Inl (Runtime_error ''Transaction size not supported (not power of 2)'')
      else let widths = map (\<lambda>l. of_nat (log2 (level_count s l))) all_levels;
               widths = widths[total_levels - 1 := widths ! (total_levels - 1) - of_nat (log2 prefetch_size)] in
        ebind (encode_mapping media_func [0..<total_levels] 0) (\<lambda>c.
          Inr \<lparr>tx_bit_width = of_nat (log2 tx_size), addr_bit_width = widths, code = c\<rparr>))"

text \<open>The level that is the \<open>i\<close>-th in the configured order, most significant first.\<close>

definition level_of_code :: "64 word \<Rightarrow> nat \<Rightarrow> nat" where
  "level_of_code c i = unat (drop_bit (i * 4) c AND 0xf)"

fun dram_map_loop :: "dram_mapping \<Rightarrow> nat list \<Rightarrow> addr_t \<Rightarrow> 64 word list \<Rightarrow> vans_error + 64 word list" where
  "dram_map_loop m [] logic_addr mapped_addr = Inr mapped_addr"
| "dram_map_loop m (level # levels) logic_addr mapped_addr =
     (if length (addr_bit_width m) \<le> level \<or> length mapped_addr \<le> level then Inl Undefined_behaviour
      else ebind (shl_1U (addr_bit_width m ! level)) (\<lambda>b.
        dram_map_loop m levels (drop_bit (unat (addr_bit_width m ! level)) logic_addr)
          (mapped_addr[level := logic_addr AND ucast (b - 1)])))"

definition dram_map :: "dram_mapping \<Rightarrow> addr_t \<Rightarrow> vans_error + 64 word list" where
  "dram_map m logic_addr =
     dram_map_loop m (map (level_of_code (code m)) (rev [0..<total_levels]))
       (drop_bit (unat (tx_bit_width m)) logic_addr) (replicate total_levels 0)"

definition dram_rev_map :: "64 word list \<Rightarrow> vans_error + addr_t" where
  "dram_rev_map mapped_addr =
     Inl (Runtime_error ''dram_mapping: reverse dram_mapping not implemented yet'')"

section \<open>The order of the levels\<close>

lemma unat_mapping_level: "unat (mapping_level s) < total_levels"
  by (simp add: mapping_level_def total_levels_def)

lemma mapping_level_bits: "bit (mapping_level s) n \<Longrightarrow> n < 4"
proof (rule ccontr)
  assume b: "bit (mapping_level s) n" and "\<not> n < 4"
  have "mapping_level s = take_bit 4 (mapping_level s)"
    by (simp add: mapping_level_def)
  then show False using b \<open>\<not> n < 4\<close> by (metis bit_take_bit_iff)
qed

lemma and_0xf: "(w :: 64 word) AND 0xf = take_bit 4 w"
  by (simp add: take_bit_eq_mask mask_eq_exp_minus_1)

lemma encode_mapping_bits:
  assumes "encode_mapping f ks c = Inr c'" "n < 64"
  shows "bit c' n \<longleftrightarrow> bit c n \<or>
    (\<exists>i \<in> set ks. i * 4 \<le> n \<and> bit (mapping_level (take 2 (drop (i * 2) f))) (n - i * 4))"
  using assms(1)
proof (induction ks arbitrary: c)
  case (Cons i ks)
  let ?l = "mapping_level (take 2 (drop (i * 2) f))"
  have l: "?l AND 0xf = ?l" by (simp add: mapping_level_def)
  from Cons.prems have e: "encode_mapping f ks (c OR push_bit (i * 4) (?l AND 0xf)) = Inr c'"
    by (auto simp: substr_err_def split: if_splits)
  from Cons.IH [OF e] show ?case unfolding l
    using assms(2) by (auto simp: bit_or_iff bit_push_bit_iff)
qed simp

text \<open>Reading the code gives back the levels in the order in which the string names them.\<close>

lemma level_of_code_encoded:
  assumes "encode_mapping f [0..<total_levels] 0 = Inr c" "i < total_levels"
  shows "level_of_code c i = unat (mapping_level (take 2 (drop (i * 2) f)))"
proof -
  let ?l = "mapping_level (take 2 (drop (i * 2) f))"
  have "take_bit 4 (drop_bit (i * 4) c) = ?l"
  proof (rule bit_word_eqI)
    fix n
    assume "n < LENGTH(64)"
    have "bit c (i * 4 + n) \<longleftrightarrow> bit ?l n" if "n < 4"
    proof -
      have "i * 4 + n < 64" using assms(2) that by (simp add: total_levels_def)
      note b = encode_mapping_bits [OF assms(1) this]
      have "k = i" if k: "k * 4 \<le> i * 4 + n" "bit (mapping_level s) (i * 4 + n - k * 4)" for k s
        using mapping_level_bits [OF k(2)] k(1) \<open>n < 4\<close> by arith
      then have "(\<exists>k \<in> set [0..<total_levels]. k * 4 \<le> i * 4 + n \<and>
          bit (mapping_level (take 2 (drop (k * 2) f))) (i * 4 + n - k * 4)) \<longleftrightarrow> bit ?l n"
        using assms(2) by (metis add_diff_cancel_left' atLeastLessThan_iff le_add1 set_upt zero_le)
      then show ?thesis unfolding b by simp
    qed
    then show "bit (take_bit 4 (drop_bit (i * 4) c)) n \<longleftrightarrow> bit ?l n"
      using mapping_level_bits by (auto simp: bit_take_bit_iff bit_drop_bit_eq)
  qed
  then show ?thesis by (simp add: level_of_code_def and_0xf)
qed

section \<open>Inverting the mapping\<close>

definition mapping_order :: "dram_mapping \<Rightarrow> nat list" where
  "mapping_order m = map (level_of_code (code m)) (rev [0..<total_levels])"

text \<open>The levels are named once each and every width fits the 32-bit shift.\<close>

definition dram_mapping_wf :: "dram_mapping \<Rightarrow> bool" where
  "dram_mapping_wf m \<longleftrightarrow> length (addr_bit_width m) = total_levels \<and> list_all (\<lambda>w. unat w < 32) (addr_bit_width m) \<and>
     distinct (mapping_order m) \<and> list_all (\<lambda>l. l < total_levels) (mapping_order m) \<and> unat (tx_bit_width m) < 64"

definition level_width :: "dram_mapping \<Rightarrow> nat \<Rightarrow> nat" where
  "level_width m l = unat (addr_bit_width m ! l)"

text \<open>The number of the transaction that a list of levels, least significant first, spells.\<close>

fun dram_unmap :: "dram_mapping \<Rightarrow> nat list \<Rightarrow> 64 word list \<Rightarrow> nat" where
  "dram_unmap m [] addr = 0"
| "dram_unmap m (l # ls) addr = unat (addr ! l) + 2 ^ level_width m l * dram_unmap m ls addr"

lemma dram_unmap_cong:
  "(\<And>l. l \<in> set ls \<Longrightarrow> addr ! l = addr' ! l) \<Longrightarrow> dram_unmap m ls addr = dram_unmap m ls addr'"
  by (induction ls) auto

lemma ucast_shl_1U:
  assumes "unat w < 32" 
  shows "\<exists>b. shl_1U w = Inr b \<and> (ucast (b - 1) :: 64 word) = mask (unat w)"
proof -
  have "(push_bit (unat w) 1 :: 32 word) - 1 = mask (unat w)"
    by (simp add: mask_eq_exp_minus_1 push_bit_eq_mult)
  moreover have "(ucast (mask (unat w) :: 32 word) :: 64 word) = mask (unat w)"
    using assms by (intro bit_word_eqI) (auto simp: bit_simps)
  ultimately show ?thesis using assms by (auto simp: shl_1U_def)
qed

lemma unat_shr: "unat (drop_bit n (a :: 64 word)) = unat a div 2 ^ n"
  by (simp only: unat_drop_bit_eq) (simp only: drop_bit_eq_div)

lemma dram_map_loop_unmap:
  assumes "list_all (\<lambda>l. l < length (addr_bit_width m) \<and> l < length addr0 \<and> level_width m l < 32) ls" "distinct ls"
  shows "ensures (dram_map_loop m ls la addr0) (\<lambda>addr. length addr = length addr0 \<and>
    (\<forall>l. l \<notin> set ls \<longrightarrow> addr ! l = addr0 ! l) \<and> (\<forall>l \<in> set ls. unat (addr ! l) < 2 ^ level_width m l) \<and>
    dram_unmap m ls addr = unat la mod 2 ^ sum_list (map (level_width m) ls))"
  using assms
proof (induction ls arbitrary: la addr0)
  case (Cons l ls)
  let ?w = "addr_bit_width m ! l"
  let ?addr = "addr0[l := la AND mask (unat ?w)]"
  let ?la = "drop_bit (unat ?w) la"
  have l: "l < length (addr_bit_width m)" "l < length addr0" "unat ?w < 32" "l \<notin> set ls"
    using Cons.prems by (simp_all add: level_width_def)
  obtain b where b: "shl_1U ?w = Inr b" "(ucast (b - 1) :: 64 word) = mask (unat ?w)"
    using ucast_shl_1U [OF l(3)] by blast
  obtain addr where addr: "dram_map_loop m ls ?la ?addr = Inr addr" "length addr = length addr0"
      "\<forall>k. k \<notin> set ls \<longrightarrow> addr ! k = ?addr ! k" "\<forall>k \<in> set ls. unat (addr ! k) < 2 ^ level_width m k"
      "dram_unmap m ls addr = unat ?la mod 2 ^ sum_list (map (level_width m) ls)"
    using Cons.IH [of ?addr ?la] Cons.prems by (auto simp: ensures_iff)
  have low: "unat (la AND mask (unat ?w)) = unat la mod 2 ^ unat ?w"
    by (simp only: take_bit_eq_mask [symmetric] unsigned_take_bit_eq) (simp only: take_bit_eq_mod)
  note high = unat_shr [of "unat ?w" la]
  have at: "unat (addr ! l) = unat la mod 2 ^ unat ?w" using addr(3) l(2,4) low by simp
  have "dram_unmap m (l # ls) addr = unat la mod 2 ^ sum_list (map (level_width m) (l # ls))"
    by (simp add: at addr(5) high level_width_def power_add mod_mult2_eq)
  moreover have "unat (addr ! l) < 2 ^ level_width m l" by (simp add: at level_width_def)
  ultimately show ?case using addr b l by (auto simp: nth_list_update)
qed simp

theorem dram_map_unmap:
  assumes "dram_mapping_wf m"
  shows "ensures (dram_map m la) (\<lambda>addr. length addr = total_levels \<and>
    (\<forall>l < total_levels. unat (addr ! l) < 2 ^ level_width m l) \<and>
    dram_unmap m (mapping_order m) addr =
      unat la div 2 ^ unat (tx_bit_width m) mod 2 ^ sum_list (map (level_width m) (mapping_order m)))"
proof -
  have "length (mapping_order m) = total_levels" by (simp add: mapping_order_def)
  moreover have "set (mapping_order m) \<subseteq> {..<total_levels}" using assms by (auto simp: dram_mapping_wf_def list_all_iff)
  ultimately have all: "set (mapping_order m) = {..<total_levels}"
    using assms by (intro card_subset_eq) (auto simp: dram_mapping_wf_def distinct_card)
  have "list_all (\<lambda>l. l < length (addr_bit_width m) \<and> l < length (replicate total_levels (0 :: 64 word)) \<and> level_width m l < 32)
      (mapping_order m)"
    using assms by (auto simp: dram_mapping_wf_def list_all_iff level_width_def)
  from dram_map_loop_unmap [OF this, of "drop_bit (unat (tx_bit_width m)) la"] assms show ?thesis
    by (auto simp: dram_map_def dram_mapping_wf_def mapping_order_def [symmetric] all unat_shr elim!: ensures_mono)
qed

section \<open>The constructed mapping\<close>

definition level_names :: "string list" where
  "level_names = [''Ch'', ''Ra'', ''Bg'', ''Ba'', ''Ro'', ''Co'']"

text \<open>An organisation that the mapping can hold: counts that fit 32 bits, and columns for at least one burst.\<close>

definition counts_ok :: "ddr4 \<Rightarrow> bool" where
  "counts_ok s \<longleftrightarrow> list_all (\<lambda>l. level_count s l \<noteq> 0 \<and> level_count s l < 2 ^ 32) all_levels \<and> 8 \<le> level_count s Col"

lemma take_drop_concat:
  "list_all (\<lambda>t. length t = 2) ts \<Longrightarrow> i < length ts \<Longrightarrow> take 2 (drop (i * 2) (concat ts)) = ts ! i"
proof (induction ts arbitrary: i)
  case (Cons t ts)
  then show ?case by (cases i) auto
qed simp

lemma log2_32: "n \<noteq> 0 \<Longrightarrow> n < 2 ^ 32 \<Longrightarrow> log2 n < 32 \<and> 2 ^ log2 n \<le> unat n"
proof -
  assume "n \<noteq> 0" "n < 2 ^ 32"
  then have b: "2 ^ log2 n \<le> unat n" "unat n < 2 ^ 32" using log2_bounds [of n] by (auto simp: word_less_nat_alt)
  then have "(2 :: nat) ^ log2 n < 2 ^ 32" by linarith
  then show ?thesis using b(1) power_less_imp_less_exp [of "2 :: nat" "log2 n" 32] by simp
qed

lemma counts_col:
  assumes "counts_ok s"
  shows "3 \<le> log2 (level_count s Col)"
proof -
  have "8 \<le> unat (level_count s Col)" using assms by (simp add: counts_ok_def word_le_nat_alt)
  moreover have "unat (level_count s Col) < 2 ^ Suc (log2 (level_count s Col))"
    using log2_bounds [of "level_count s Col"] assms by (auto simp: counts_ok_def all_levels_def)
  ultimately have "(2 :: nat) ^ 3 < 2 ^ Suc (log2 (level_count s Col))" by simp
  then have "3 < Suc (log2 (level_count s Col))" by (rule power_less_imp_less_exp [rotated]) simp
  then show ?thesis by simp
qed

lemma log2_prefetch: "log2 prefetch_size = 3"
  by code_simp

lemma new_dram_mapping_wf:
  assumes m: "new_dram_mapping s (concat ts) = Inr m" and ts: "mset ts = mset level_names" and s: "counts_ok s"
  shows "dram_mapping_wf m" "tx_bit_width m = 6"
    "mapping_order m = rev (map (\<lambda>t. unat (mapping_level t)) ts)"
    "\<And>l. level_width m (level_index l) = log2 (level_count s l) - (if l = Col then 3 else 0)"
proof -
  have tx: "channel_width * prefetch_size div 8 = 64" by (simp add: channel_width_def prefetch_size_def)
  have lg: "of_nat (log2 64) = (6 :: 64 word)" "is_pwr_of_2 64" by code_simp+
  let ?ws = "map (\<lambda>l. of_nat (log2 (level_count s l)) :: 64 word) all_levels"
  let ?widths = "?ws[total_levels - 1 := ?ws ! (total_levels - 1) - of_nat (log2 prefetch_size)]"
  obtain c where c: "encode_mapping (concat ts) [0..<total_levels] 0 = Inr c"
      and meq: "m = \<lparr>tx_bit_width = 6, addr_bit_width = ?widths, code = c\<rparr>"
    using m lg by (auto simp: new_dram_mapping_def Let_def tx ebind_eq_Inr)
  have n: "length ts = total_levels" using mset_eq_length [OF ts] by (simp add: level_names_def total_levels_def)
  have "set ts = set level_names" using ts by (metis set_mset_mset)
  then have two: "list_all (\<lambda>t. length t = 2) ts" by (auto simp: list_all_iff level_names_def)
  have "level_of_code c i = unat (mapping_level (ts ! i))" if "i < total_levels" for i
    using level_of_code_encoded [OF c that] take_drop_concat [OF two, of i] n that by simp
  then have "map (level_of_code c) [0..<total_levels] = map (\<lambda>t. unat (mapping_level t)) ts"
    using n by (intro nth_equalityI) simp_all
  then have order: "mapping_order m = rev (map (\<lambda>t. unat (mapping_level t)) ts)"
    by (simp add: mapping_order_def meq rev_map [symmetric])
  have bits: "log2 (level_count s l) < 32" for l
    using s log2_32 by (cases l) (auto simp: counts_ok_def all_levels_def)
  have u: "unat (of_nat (log2 (level_count s l)) :: 64 word) = log2 (level_count s l)" for l
    by (rule unat_of_nat64) (rule less_trans [OF bits], simp)
  have col: "unat (of_nat (log2 (level_count s Col)) - 3 :: 64 word) = log2 (level_count s Col) - 3"
    using u [of Col] counts_col [OF s] by (simp add: unat_sub word_le_nat_alt)
  have w: "level_width m (level_index l) = log2 (level_count s l) - (if l = Col then 3 else 0)" for l
    using u [of l] col by (cases l) (simp_all add: level_width_def meq all_levels_def total_levels_def log2_prefetch)
  then show "\<And>l. level_width m (level_index l) = log2 (level_count s l) - (if l = Col then 3 else 0)" .
  have len: "length (addr_bit_width m) = total_levels" by (simp add: meq all_levels_def total_levels_def)
  have "unat w < 32" if "w \<in> set (addr_bit_width m)" for w
  proof -
    from that obtain i where i: "i < total_levels" "w = addr_bit_width m ! i"
      unfolding in_set_conv_nth len by blast
    then have "i \<in> {0, 1, 2, 3, 4, 5}" by (auto simp: total_levels_def)
    then have "i = level_index (all_levels ! i)" by (elim insertE emptyE) (simp_all add: all_levels_def)
    then obtain l where "i = level_index l" by blast
    then have "unat w = log2 (level_count s l) - (if l = Col then 3 else 0)" using w [of l] i(2) by (simp add: level_width_def)
    then show ?thesis using bits [of l] by linarith
  qed
  moreover have "mset (map (\<lambda>t. unat (mapping_level t)) ts) = mset (map (\<lambda>t. unat (mapping_level t)) level_names)"
    using ts by simp
  then have "mset (mapping_order m) = mset [0, 1, 2, 3, 4, 5]"
    unfolding order by (simp add: level_names_def mapping_level_def)
  then have "distinct (mapping_order m)" "set (mapping_order m) = {0, 1, 2, 3, 4, 5}"
    using mset_eq_imp_distinct_iff [of "mapping_order m" "[0, 1, 2, 3, 4, 5]"] mset_eq_setD [of "mapping_order m" "[0, 1, 2, 3, 4, 5]"]
    by simp_all
  ultimately show "dram_mapping_wf m"
    by (auto simp: dram_mapping_wf_def list_all_iff meq total_levels_def all_levels_def)
  show "tx_bit_width m = 6" by (simp add: meq)
  show "mapping_order m = rev (map (\<lambda>t. unat (mapping_level t)) ts)" by (rule order)
qed

end
