(* ===== verification/Dram_Memory.thy ===== *)
theory Dram_Memory
  imports Dram_Mapping
begin

text \<open>
  The DDR4 memory of \<open>src/general/dram_memory.h\<close>: requests, the media controller with its four queues
  and its pending queue, the command scheduler, refresh, and the component \<open>dram_memory\<close> that maps
  addresses. \<open>update_serving_requests\<close> has an empty body and is left out, as are the text output,
  \<open>coreid\<close>, \<open>queue_size\<close> and \<open>id\<close>, which nothing reads.
\<close>

section \<open>Requests\<close>

text \<open>\<open>arrive\<close> and \<open>depart\<close> are \<open>long\<close>: 64 bits, compared as signed or unsigned numbers as the code does.\<close>

record dram_request =
  dr_first_cmd :: bool
  dr_logic :: addr_t
  dr_mapped :: "64 word list"
  dr_type :: dram_req_type
  dr_arrive :: "64 word"
  dr_depart :: "64 word"
  dr_callback :: callback

definition new_dram_request :: "base_request \<Rightarrow> dram_request" where
  "new_dram_request req =
     \<lparr>dr_first_cmd = True, dr_logic = req_addr req, dr_mapped = [],
      dr_type = (case req_type req of Base_read \<Rightarrow> Dram_read | Base_write \<Rightarrow> Dram_write),
      dr_arrive = req_arrive req, dr_depart = req_depart req, dr_callback = req_callback req\<rparr>"

text \<open>A request made from a mapped address; its logic address is not initialised and not read.\<close>

definition new_mapped_request :: "64 word list \<Rightarrow> dram_req_type \<Rightarrow> dram_request" where
  "new_mapped_request addr type =
     \<lparr>dr_first_cmd = True, dr_logic = 0, dr_mapped = addr, dr_type = type,
      dr_arrive = - 1, dr_depart = - 1, dr_callback = Cb_null\<rparr>"

section \<open>The controller\<close>

record dram_controller =
  dm_spec :: ddr4
  dm_channel :: dram
  dm_clk :: clk_t
  last_refreshed_clk :: clk_t
  write_prior_mode :: bool
  report_epoch :: clk_t
  report_cnt :: "64 word"
  act_queue :: "dram_request request_queue"
  misc_queue :: "dram_request request_queue"
  read_queue :: "dram_request request_queue"
  write_queue :: "dram_request request_queue"
  pending_queue :: "dram_request list"
  dm_start_addr :: addr_t

definition new_dram_controller :: "ddr4 \<Rightarrow> dram \<Rightarrow> clk_t \<Rightarrow> nat \<Rightarrow> addr_t \<Rightarrow> dram_controller" where
  "new_dram_controller s channel epoch queue_size start =
     \<lparr>dm_spec = s, dm_channel = channel, dm_clk = 0, last_refreshed_clk = 0, write_prior_mode = False,
      report_epoch = epoch, report_cnt = 0,
      act_queue = new_request_queue queue_size, misc_queue = new_request_queue queue_size,
      read_queue = new_request_queue queue_size, write_queue = new_request_queue queue_size,
      pending_queue = [], dm_start_addr = start\<rparr>"

text \<open>References to the queues of the controller.\<close>

datatype dram_queue = Q_act | Q_misc | Q_read | Q_write

fun get_queue :: "dram_req_type \<Rightarrow> dram_queue" where
  "get_queue Dram_read = Q_read"
| "get_queue Dram_write = Q_write"
| "get_queue _ = Q_misc"

fun the_queue :: "dram_queue \<Rightarrow> dram_controller \<Rightarrow> dram_request request_queue" where
  "the_queue Q_act c = act_queue c"
| "the_queue Q_misc c = misc_queue c"
| "the_queue Q_read c = read_queue c"
| "the_queue Q_write c = write_queue c"

fun set_queue :: "dram_queue \<Rightarrow> dram_request request_queue \<Rightarrow> dram_controller \<Rightarrow> dram_controller" where
  "set_queue Q_act q c = c\<lparr>act_queue := q\<rparr>"
| "set_queue Q_misc q c = c\<lparr>misc_queue := q\<rparr>"
| "set_queue Q_read q c = c\<lparr>read_queue := q\<rparr>"
| "set_queue Q_write q c = c\<lparr>write_queue := q\<rparr>"

section \<open>Issue\<close>

definition dram_report :: "dram_controller \<Rightarrow> dram_controller" where
  "dram_report c = (if report_epoch c = 0 then c else c\<lparr>report_cnt := report_cnt c + 1\<rparr>)"

text \<open>A read of a logic address that a queued write has departs in the next cycle.\<close>

definition dram_fast_forward :: "dram_request \<Rightarrow> dram_controller \<Rightarrow> dram_controller" where
  "dram_fast_forward request c =
     (if dr_type request = Dram_read \<and> list_ex (\<lambda>wr. dr_logic request = dr_logic wr) (queue (write_queue c))
      then c\<lparr>pending_queue := pending_queue c @ [request\<lparr>dr_depart := dm_clk c + 1\<rparr>],
             read_queue := (read_queue c)\<lparr>queue := butlast (queue (read_queue c))\<rparr>\<rparr>
      else c)"

definition dram_issue_request ::
  "dram_request \<Rightarrow> dram_controller \<Rightarrow> vans_error + dram_controller \<times> base_response" where
  "dram_issue_request request c =
     (let request = request\<lparr>dr_arrive := dm_clk c\<rparr>; q = get_queue (dr_type request) in
      ebind (rq_enqueue request (the_queue q c)) (\<lambda>(issued, q').
        if \<not> issued then Inr (c, False, False, clk_invalid)
        else Inr (dram_fast_forward request (dram_report (set_queue q q' c)), True, False, clk_invalid)))"

section \<open>Tick\<close>

definition dram_serve_pending :: "dram_controller \<Rightarrow> dram_controller \<times> call list" where
  "dram_serve_pending c =
     (case pending_queue c of
        [] \<Rightarrow> (c, [])
      | request # rest \<Rightarrow>
          if dr_depart request \<le> dm_clk c \<and> dr_callback request \<noteq> Cb_null
          then (c\<lparr>pending_queue := rest\<rparr>, [(dr_callback request, dr_logic request + dm_start_addr c, dm_clk c)])
          else (c, []))"

definition refresh_overflow :: vans_error where
  "refresh_overflow = Runtime_error ''DRAM: Queue full, cannot issue refresh request.''"

fun dram_refresh_ranks :: "dram list \<Rightarrow> dram_controller \<Rightarrow> vans_error + dram_controller" where
  "dram_refresh_ranks [] c = Inr c"
| "dram_refresh_ranks (rank # ranks) c =
     (let addr_vec = (replicate (total_levels - 1) 0)
            [0 := node_id (regs (dm_channel c)), 1 := node_id (regs rank)] in
      ebind (dram_issue_request (new_mapped_request addr_vec Dram_refresh) c) (\<lambda>(c, res, deterministic, next_clk).
        if \<not> res then Inl refresh_overflow else dram_refresh_ranks ranks c))"

definition dram_refresh :: "dram_controller \<Rightarrow> vans_error + dram_controller" where
  "dram_refresh c =
     (if of_int (nREFI (ddr4_timings (dm_spec c))) \<le> dm_clk c - last_refreshed_clk c
      then ebind (dram_refresh_ranks (children (dm_channel c)) c) (\<lambda>c.
             Inr (c\<lparr>last_refreshed_clk := dm_clk c\<rparr>))
      else Inr c)"

definition dram_write_prior :: "dram_controller \<Rightarrow> dram_controller" where
  "dram_write_prior c =
     (if rq_size (write_queue c)
      then c\<lparr>write_prior_mode :=
             (if \<not> rq_size (read_queue c) then True
              else sint (dr_arrive (hd (queue (write_queue c)))) < sint (dr_arrive (hd (queue (read_queue c)))))\<rparr>
      else if rq_size (read_queue c) then c\<lparr>write_prior_mode := False\<rparr>
      else c)"

definition dram_pick_queue :: "dram_controller \<Rightarrow> dram_queue" where
  "dram_pick_queue c =
     (if rq_size (act_queue c) then Q_act
      else if rq_size (misc_queue c) then Q_misc
      else if write_prior_mode c then Q_write
      else Q_read)"

definition get_first_cmd :: "dram_request \<Rightarrow> dram_controller \<Rightarrow> vans_error + command" where
  "get_first_cmd req c = dram_decode (req_to_cmd (dr_type req)) (dr_mapped req) (dm_channel c)"

definition dram_is_ready :: "dram_request \<Rightarrow> dram_controller \<Rightarrow> vans_error + bool" where
  "dram_is_ready req c =
     ebind (get_first_cmd req c) (\<lambda>cmd. dram_check cmd (dr_mapped req) (dm_clk c) (dm_channel c))"

definition issue_cmd :: "command \<Rightarrow> 64 word list \<Rightarrow> dram_controller \<Rightarrow> vans_error + dram_controller" where
  "issue_cmd cmd addr_vec c =
     ebind (dram_update (ddr4_timings (dm_spec c)) cmd addr_vec (dm_clk c) (dm_channel c)) (\<lambda>d.
       Inr (c\<lparr>dm_channel := d\<rparr>))"

text \<open>
  After the command. An opening request moves to the queue of opened rows; to move it within that
  queue would use an iterator that the insertion has invalidated.
\<close>

definition dram_after_cmd ::
  "dram_queue \<Rightarrow> dram_request \<Rightarrow> dram_request list \<Rightarrow> command \<Rightarrow> dram_controller
   \<Rightarrow> vans_error + dram_controller" where
  "dram_after_cmd q req rest cmd c =
     (let popped = set_queue q ((the_queue q c)\<lparr>queue := rest\<rparr>) in
      if \<not> (is_accessing cmd \<or> is_refreshing cmd)
      then if is_opening cmd
           then if q = Q_act then Inl Undefined_behaviour
                else Inr (popped (c\<lparr>act_queue := (act_queue c)\<lparr>queue := queue (act_queue c) @ [req]\<rparr>\<rparr>))
           else Inr c
      else if dr_type req = Dram_read
      then Inr (popped (c\<lparr>pending_queue := pending_queue c @
             [req\<lparr>dr_depart := dm_clk c + of_int (dram_read_latency (dm_spec c))\<rparr>]\<rparr>))
      else Inr (popped c))"

definition dram_schedule :: "dram_queue \<Rightarrow> dram_controller \<Rightarrow> vans_error + dram_controller" where
  "dram_schedule q c =
     (case queue (the_queue q c) of
        [] \<Rightarrow> Inr c
      | req # rest \<Rightarrow>
          ebind (dram_is_ready req c) (\<lambda>ready.
            if \<not> ready then Inr c
            else let req = req\<lparr>dr_first_cmd := False\<rparr>;
                     c = set_queue q ((the_queue q c)\<lparr>queue := req # rest\<rparr>) c in
              ebind (get_first_cmd req c) (\<lambda>cmd.
              ebind (issue_cmd cmd (dr_mapped req) c) (dram_after_cmd q req rest cmd))))"

definition dram_tick :: "clk_t \<Rightarrow> dram_controller \<Rightarrow> vans_error + dram_controller \<times> call list" where
  "dram_tick new_clk c =
     (let (c, calls) = dram_serve_pending (c\<lparr>dm_clk := new_clk\<rparr>) in
      ebind (dram_refresh c) (\<lambda>c.
        let c = dram_write_prior c in
        ebind (dram_schedule (dram_pick_queue c) c) (\<lambda>c. Inr (c, calls))))"

definition dram_drain :: "dram_controller \<Rightarrow> vans_error + dram_controller" where
  "dram_drain c = Inr c"

definition dram_pending :: "dram_controller \<Rightarrow> vans_error + bool" where
  "dram_pending c = Inr (pending_queue c \<noteq> [])"

definition dram_full :: "dram_controller \<Rightarrow> vans_error + bool" where
  "dram_full c = ebind (rq_full (read_queue c)) (\<lambda>f. if f then Inr True else rq_full (write_queue c))"

section \<open>The component\<close>

record dram_memory =
  mapper :: dram_mapping
  dm_ctrl :: dram_controller
  max_addr :: addr_t

definition new_dram_memory ::
  "ddr4 \<Rightarrow> string \<Rightarrow> clk_t \<Rightarrow> nat \<Rightarrow> addr_t \<Rightarrow> vans_error + dram_memory" where
  "new_dram_memory s media_func epoch queue_size start =
     ebind (new_dram_mapping s media_func) (\<lambda>m.
       let d = new_dram s Channel 0 in
       if \<not> is_pwr_of_2 (level_count s Channel) \<or> \<not> is_pwr_of_2 (level_count s Rank)
       then Inl (Runtime_error ''Count of channel and rank not supported (not power of 2)'')
       else Inr \<lparr>mapper = m, dm_ctrl = new_dram_controller s d epoch queue_size start,
              max_addr = foldl (*) (channel_width div 8) (map (level_count s) all_levels)\<rparr>)"

definition dram_memory_issue_request ::
  "dram_memory \<Rightarrow> base_request \<Rightarrow> vans_error + dram_memory \<times> base_request \<times> base_response" where
  "dram_memory_issue_request m req =
     (let inner_req = new_dram_request req in
      ebind (dram_map (mapper m) (dr_logic inner_req)) (\<lambda>addr.
      ebind (dram_issue_request (inner_req\<lparr>dr_mapped := addr\<rparr>) (dm_ctrl m)) (\<lambda>(c, resp).
        Inr (m\<lparr>dm_ctrl := c\<rparr>, req, resp))))"

definition dram_memory_tick :: "clk_t \<Rightarrow> dram_memory \<Rightarrow> vans_error + dram_memory \<times> call list" where
  "dram_memory_tick curr_clk m =
     ebind (dram_tick curr_clk (dm_ctrl m)) (\<lambda>(c, calls). Inr (m\<lparr>dm_ctrl := c\<rparr>, calls))"

definition dram_memory_ops :: "dram_memory component_ops" where
  "dram_memory_ops =
     \<lparr>issue_request = dram_memory_issue_request,
      full = (\<lambda>m. dram_full (dm_ctrl m)),
      is_pending = (\<lambda>m. dram_pending (dm_ctrl m)),
      drain = (\<lambda>m. ebind (dram_drain (dm_ctrl m)) (\<lambda>c. Inr (m\<lparr>dm_ctrl := c\<rparr>))),
      tick = dram_memory_tick\<rparr>"

end
