(* ===== verification/Dram_Inv.thy ===== *)
theory Dram_Inv
  imports Dram_Memory
begin

text \<open>
  Well-formed DRAM trees: every node has its level, its index among its siblings, as many children
  as the organisation says and clock lists as long as the timing table needs; ranks are powered
  up and banks are opened or closed. On them \<open>decode\<close>, \<open>check\<close> and \<open>update\<close> return, and what they
  return is described by the bank that an address selects.
\<close>

section \<open>Well-formed trees\<close>

definition regs_ok :: "ddr4_timing \<Rightarrow> dram_regs \<Rightarrow> bool" where
  "regs_ok t r \<longleftrightarrow> (\<forall>cmd. length (prev_at r cmd) = max_dist t (node_level r) cmd) \<and>
     (node_level r = Rank \<longrightarrow> curr_state r = Pwr_up) \<and>
     (node_level r = Bank \<longrightarrow> curr_state r = Opened \<or> curr_state r = Closed \<and> row_state r = Map.empty)"

fun dram_ok :: "ddr4 \<Rightarrow> dram \<Rightarrow> bool" where
  "dram_ok s (Dram r cs) \<longleftrightarrow> regs_ok (ddr4_timings s) r \<and>
     (case child_level (node_level r) of
        None \<Rightarrow> cs = []
      | Some l \<Rightarrow> list_all2 (\<lambda>i c. node_level (regs c) = l \<and> node_id (regs c) = of_nat i) [0..<unat (level_count s l)] cs) \<and>
     list_all (dram_ok s) cs"

lemma dram_ok_length: "dram_ok s (Dram r cs) \<Longrightarrow> child_level (node_level r) = Some l \<Longrightarrow> length cs = unat (level_count s l)"
  by (auto dest: list_all2_lengthD)

text \<open>Trees of the same shape whose nodes are related one by one.\<close>

fun tree_rel :: "(dram_regs \<Rightarrow> dram_regs \<Rightarrow> bool) \<Rightarrow> dram \<Rightarrow> dram \<Rightarrow> bool" where
  "tree_rel R (Dram r cs) (Dram r' cs') \<longleftrightarrow> R r r' \<and> list_all2 (tree_rel R) cs cs'"

lemma tree_rel_refl: "(\<And>r. R r r) \<Longrightarrow> tree_rel R d d"
  by (induction d) (auto simp: list_all2_same)

lemma tree_rel_mono: "tree_rel R d d' \<Longrightarrow> (\<And>r r'. R r r' \<Longrightarrow> S r r') \<Longrightarrow> tree_rel S d d'"
  by (induction R d d' rule: tree_rel.induct) (auto simp: list_all2_conv_all_nth)

lemma tree_rel_regs: "tree_rel R d d' \<Longrightarrow> R (regs d) (regs d') \<and> list_all2 (tree_rel R) (children d) (children d')"
  by (cases d; cases d') simp

text \<open>A change that keeps level, index and well-formedness of every node.\<close>

definition keeps :: "ddr4_timing \<Rightarrow> dram_regs \<Rightarrow> dram_regs \<Rightarrow> bool" where
  "keeps t r r' \<longleftrightarrow> node_level r' = node_level r \<and> node_id r' = node_id r \<and> (regs_ok t r \<longrightarrow> regs_ok t r')"

lemma dram_ok_rel: "tree_rel (keeps (ddr4_timings s)) d d' \<Longrightarrow> dram_ok s d \<Longrightarrow> dram_ok s d'"
proof (induction "keeps (ddr4_timings s)" d d' rule: tree_rel.induct)
  case (1 r cs r' cs')
  have rel: "list_all2 (tree_rel (keeps (ddr4_timings s))) cs cs'" and k: "keeps (ddr4_timings s) r r'"
    using "1.prems"(1) by simp_all
  then have same: "length cs' = length cs" by (simp add: list_all2_lengthD)
  have "keeps (ddr4_timings s) (regs (cs ! i)) (regs (cs' ! i))" if "i < length cs" for i
    using tree_rel_regs list_all2_nthD [OF rel that] by blast
  note same = same this [unfolded keeps_def]
  have "dram_ok s (cs' ! i)" if "i < length cs" for i
    using "1.hyps" [OF nth_mem nth_mem list_all2_nthD [OF rel that]] that same(1) "1.prems"(2)
    by (simp add: list_all_length)
  then have "list_all (dram_ok s) cs'" using same(1) by (simp add: list_all_length)
  then show ?case
    using "1.prems"(2) k same by (auto simp: keeps_def list_all2_conv_all_nth split: option.splits)
qed

lemma dram_ok_new: "dram_ok s (new_dram s lev i)"
proof (induction s lev i rule: new_dram.induct)
  case (1 s lev i)
  have "regs_ok (ddr4_timings s) (new_regs s lev i)"
    by (auto simp: regs_ok_def new_regs_def)
  moreover have lev: "node_level (regs (new_dram s l j)) = l" "node_id (regs (new_dram s l j)) = j" for l j
    by (subst new_dram.simps, simp add: new_regs_def)+
  moreover have "node_level (new_regs s lev i) = lev" by (simp add: new_regs_def)
  ultimately show ?case using 1
    by (subst new_dram.simps) (auto simp: list_all_iff list_all2_conv_all_nth split: option.split)
qed

section \<open>Addresses\<close>

text \<open>Only rank, bank group and bank select a child; a refresh address has five elements.\<close>

definition dram_addr_ok :: "ddr4 \<Rightarrow> 64 word list \<Rightarrow> bool" where
  "dram_addr_ok s addr \<longleftrightarrow> 5 \<le> length addr \<and>
     list_all (\<lambda>l. addr ! level_index l < level_count s l) [Rank, Bank_group, Bank]"

lemma addr_at_ok: "dram_addr_ok s addr \<Longrightarrow> i < 5 \<Longrightarrow> addr_at addr i = Inr (addr ! i)"
  by (simp add: dram_addr_ok_def addr_at_def)

lemma child_level_index: "child_level lev = Some l \<Longrightarrow> level_index l = Suc (level_index lev) \<and> level_index lev < 3 \<and> l \<in> {Rank, Bank_group, Bank}"
  by (cases lev) auto

text \<open>The child an address selects exists wherever there are children.\<close>

lemma dram_ok_child:
  assumes "dram_ok s (Dram r cs)" "dram_addr_ok s addr" "level_index (node_level r) < 4"
  shows "addr_at addr (level_index (node_level r) + 1) = Inr (addr ! (level_index (node_level r) + 1))"
    and "cs \<noteq> [] \<Longrightarrow> unat (addr ! (level_index (node_level r) + 1)) < length cs"
    and "cs = [] \<longleftrightarrow> node_level r = Bank"
proof -
  show "addr_at addr (level_index (node_level r) + 1) = Inr (addr ! (level_index (node_level r) + 1))"
    using assms(3) by (intro addr_at_ok [OF assms(2)]) simp
  show "unat (addr ! (level_index (node_level r) + 1)) < length cs" if "cs \<noteq> []"
  proof (cases "child_level (node_level r)")
    case (Some l)
    then show ?thesis
      using dram_ok_length [OF assms(1) Some] child_level_index [OF Some] assms(2)
      by (cases "node_level r") (auto simp: dram_addr_ok_def word_less_nat_alt numeral_eq_Suc)
  qed (use assms(1) that in simp)
  show "cs = [] \<longleftrightarrow> node_level r = Bank"
  proof (cases "child_level (node_level r)")
    case (Some l)
    then have "unat (level_count s l) \<noteq> 0"
      using child_level_index [OF Some] assms(2) by (auto simp: dram_addr_ok_def word_less_nat_alt)
    then show ?thesis using dram_ok_length [OF assms(1) Some] Some by auto
  next
    case None
    then show ?thesis using assms(1,3) by (cases "node_level r") auto
  qed
qed

lemma dram_ok_nth: "dram_ok s (Dram r cs) \<Longrightarrow> i < length cs \<Longrightarrow> dram_ok s (cs ! i) \<and>
    child_level (node_level r) = Some (node_level (regs (cs ! i))) \<and> node_id (regs (cs ! i)) = of_nat i"
  by (auto simp: list_all_length list_all2_conv_all_nth split: option.splits)

lemma dram_ok_nth_level:
  assumes "dram_ok s (Dram r cs)" "i < length cs"
  shows "level_index (node_level (regs (cs ! i))) = Suc (level_index (node_level r))"
    "level_index (node_level (regs (cs ! i))) < 4"
  using child_level_index [of "node_level r" "node_level (regs (cs ! i))"] dram_ok_nth [OF assms] by auto

text \<open>The bank of an address.\<close>

function bank_of :: "64 word list \<Rightarrow> dram \<Rightarrow> dram" where
  "bank_of addr (Dram r cs) =
     (let i = unat (addr ! (level_index (node_level r) + 1)) in
      if i < length cs then bank_of addr (cs ! i) else Dram r cs)"
  by pat_completeness auto
termination by (relation "measure (\<lambda>(addr, d). size d)") auto

lemma bank_of_ok:
  "dram_ok s d \<Longrightarrow> dram_addr_ok s addr \<Longrightarrow> level_index (node_level (regs d)) < 4 \<Longrightarrow>
   dram_ok s (bank_of addr d) \<and> node_level (regs (bank_of addr d)) = Bank \<and> children (bank_of addr d) = []"
proof (induction addr d rule: bank_of.induct)
  case (1 addr r cs)
  note ch = dram_ok_child [OF "1.prems"(1,2) "1.prems"(3) [simplified]]
  show ?case
  proof (cases "cs = []")
    case True
    then show ?thesis using "1.prems" ch(3) by simp
  next
    case False
    note lt = ch(2) [OF False]
    have "dram_ok s (cs ! unat (addr ! (level_index (node_level r) + 1)))"
      using dram_ok_nth [OF "1.prems"(1) lt] by simp
    from "1.IH" [OF refl lt this "1.prems"(2) dram_ok_nth_level(2) [OF "1.prems"(1) lt]] show ?thesis
      using lt by (simp add: Let_def)
  qed
qed

section \<open>Decode and check\<close>

text \<open>The command that an access to a row needs first, by the state of its bank.\<close>

definition access_cmd :: "command \<Rightarrow> 32 word \<Rightarrow> dram \<Rightarrow> command" where
  "access_cmd cmd row b =
     (if curr_state (regs b) = Closed then ACT
      else if row_state (regs b) row \<noteq> None then cmd
      else PRE)"

lemma decode_access:
  "cmd = RD \<or> cmd = WR \<Longrightarrow> dram_ok s d \<Longrightarrow> dram_addr_ok s addr \<Longrightarrow> level_index (node_level (regs d)) < 4 \<Longrightarrow>
   dram_decode cmd addr d = Inr (access_cmd cmd (ucast (addr ! 4)) (bank_of addr d))"
proof (induction cmd addr d rule: dram_decode.induct)
  case (1 cmd addr r cs)
  let ?i = "addr ! (level_index (node_level r) + 1)"
  note ch = dram_ok_child [OF "1.prems"(2,3) "1.prems"(4) [simplified]]
  have ok: "regs_ok (ddr4_timings s) r" using "1.prems"(2) by simp
  show ?case
  proof (cases "node_level r = Bank")
    case True
    then have "cs = []" using ch(3) by simp
    moreover have "bank_access_prereq (Dram r cs) cmd (ucast (addr ! 4)) = Inr (access_cmd cmd (ucast (addr ! 4)) (Dram r cs))"
      using ok True by (auto simp: bank_access_prereq_def access_cmd_def regs_ok_def)
    moreover have "prereq_table Bank cmd = Some bank_access_prereq"
      using "1.prems"(1) by (auto simp: prereq_table_def)
    moreover have "access_cmd cmd (ucast (addr ! 4)) (Dram r cs) \<noteq> Cmd_undefined"
      using "1.prems"(1) by (auto simp: access_cmd_def)
    ultimately show ?thesis using True ch(1) by (simp add: numeral_eq_Suc)
  next
    case False
    then have ne: "cs \<noteq> []" using ch(3) by simp
    have pre: "(case prereq_table (node_level r) cmd of None \<Rightarrow> Inr Cmd_undefined
        | Some f \<Rightarrow> f (Dram r cs) cmd (ucast ?i)) = Inr Cmd_undefined"
      using False "1.prems"(1,4) ok
      by (cases "node_level r") (auto simp: prereq_table_def rank_access_prereq_def regs_ok_def)
    note lt = ch(2) [OF ne]
    have "dram_ok s (cs ! unat ?i)" using dram_ok_nth [OF "1.prems"(2) lt] by simp
    from "1.IH" [OF ch(1) pre _ ne lt "1.prems"(1) this "1.prems"(3) dram_ok_nth_level(2) [OF "1.prems"(2) lt]]
    show ?thesis using ch(1) pre [unfolded add_Suc_right add_0_right One_nat_def] ne lt by (simp add: Let_def)
  qed
qed

text \<open>A refresh first needs all banks of its rank closed.\<close>

lemma decode_refresh:
  assumes "dram_ok s d" "dram_addr_ok s addr" "node_level (regs d) = Channel"
  shows "dram_decode REF addr d =
    Inr (if all_closed (children (children d ! unat (addr ! 1))) then REF else PREA)"
proof (cases d)
  case (Dram r cs)
  have ok: "dram_ok s (Dram r cs)" and r: "node_level r = Channel" using assms Dram by simp_all
  note ch = dram_ok_child [OF ok assms(2)]
  then have lt: "unat (addr ! 1) < length cs" "cs \<noteq> []" and at: "addr_at addr 1 = Inr (addr ! 1)"
    using r by simp_all
  obtain q ds where q: "cs ! unat (addr ! 1) = Dram q ds" by (cases "cs ! unat (addr ! 1)")
  then have "node_level q = Rank" using dram_ok_nth [OF ok lt(1)] r by simp
  moreover have "addr_at addr 2 = Inr (addr ! 2)" by (rule addr_at_ok [OF assms(2)]) simp
  ultimately show ?thesis
    using Dram r lt at q by (auto simp: prereq_table_def rank_refresh_prereq_def numeral_2_eq_2)
qed

lemma check_ok:
  "dram_ok s d \<Longrightarrow> dram_addr_ok s addr \<Longrightarrow> level_index (node_level (regs d)) < 4 \<Longrightarrow>
   ensures (dram_check cmd addr clk d) (\<lambda>b. True)"
proof (induction cmd addr clk d rule: dram_check.induct)
  case (1 cmd addr clk r cs)
  let ?i = "addr ! (level_index (node_level r) + 1)"
  note ch = dram_ok_child [OF "1.prems"(1,2) "1.prems"(3) [simplified]]
  show ?case
  proof (cases "node_level r = scope cmd \<or> cs = []")
    case False
    then have lt: "unat ?i < length cs" using ch(2) by simp
    have "dram_ok s (cs ! unat ?i)" using dram_ok_nth [OF "1.prems"(1) lt] by simp
    from "1.IH" [OF _ ch(1) False lt this "1.prems"(2) dram_ok_nth_level(2) [OF "1.prems"(1) lt]]
    show ?thesis using False ch(1) lt by simp
  qed (use ch(1) in auto)
qed

section \<open>Update\<close>

text \<open>The commands that the controller issues.\<close>

definition plain_cmd :: "command \<Rightarrow> bool" where
  "plain_cmd cmd \<longleftrightarrow> cmd \<in> {ACT, PRE, PREA, RD, WR, REF}"

text \<open>A change of states alone, and one of clocks alone.\<close>

definition state_change :: "ddr4_timing \<Rightarrow> dram_regs \<Rightarrow> dram_regs \<Rightarrow> bool" where
  "state_change t r r' \<longleftrightarrow> keeps t r r' \<and> next_at r' = next_at r \<and> prev_at r' = prev_at r"

definition clock_change :: "ddr4_timing \<Rightarrow> dram_regs \<Rightarrow> dram_regs \<Rightarrow> bool" where
  "clock_change t r r' \<longleftrightarrow> keeps t r r' \<and> curr_state r' = curr_state r \<and> row_state r' = row_state r \<and>
     (\<forall>cmd. next_at r cmd \<le> next_at r' cmd)"

lemma state_change_refl [simp]: "state_change t r r"
  by (simp add: state_change_def keeps_def)

lemma clock_change_refl [simp]: "clock_change t r r"
  by (simp add: clock_change_def keeps_def)

lemma keeps_trans: "keeps t r r' \<Longrightarrow> keeps t r' r'' \<Longrightarrow> keeps t r r''"
  by (simp add: keeps_def)

lemma state_change_trans: "state_change t r r' \<Longrightarrow> state_change t r' r'' \<Longrightarrow> state_change t r r''"
  by (auto simp: state_change_def intro: keeps_trans)

lemma clock_change_trans: "clock_change t r r' \<Longrightarrow> clock_change t r' r'' \<Longrightarrow> clock_change t r r''"
  by (auto simp: clock_change_def intro: keeps_trans order_trans)

lemma tree_rel_trans:
  assumes "\<And>r r' r''. R r r' \<Longrightarrow> R r' r'' \<Longrightarrow> R r r''"
  shows "tree_rel R d d' \<Longrightarrow> tree_rel R d' d'' \<Longrightarrow> tree_rel R d d''"
proof (induction d arbitrary: d' d'')
  case (Dram r cs)
  obtain r' cs' r'' cs'' where d: "d' = Dram r' cs'" "d'' = Dram r'' cs''" by (metis dram.exhaust)
  then show ?case
    using Dram assms by (auto simp: list_all2_conv_all_nth)
qed

text \<open>Related trees have related banks.\<close>

lemma tree_rel_bank:
  assumes "\<And>r r'. R r r' \<Longrightarrow> node_level r' = node_level r"
  shows "tree_rel R d d' \<Longrightarrow> tree_rel R (bank_of addr d) (bank_of addr d')"
proof (induction addr d arbitrary: d' rule: bank_of.induct)
  case (1 addr r cs)
  obtain r' cs' where d: "d' = Dram r' cs'" by (cases d')
  have l: "node_level r' = node_level r" "length cs' = length cs" using "1.prems" d assms
    by (auto dest: list_all2_lengthD)
  let ?i = "unat (addr ! (level_index (node_level r) + 1))"
  show ?case
  proof (cases "?i < length cs")
    case True
    then have "tree_rel R (cs ! ?i) (cs' ! ?i)" using "1.prems" d by (auto dest: list_all2_nthD)
    then show ?thesis using "1.IH" [OF refl True] True d l by (simp add: Let_def)
  qed (use "1.prems" d l in \<open>simp add: Let_def\<close>)
qed

lemma close_bank_change:
  assumes "node_level (regs b) \<noteq> Rank"
  shows "tree_rel (state_change t) b (close_bank b)"
proof (cases b)
  case (Dram r cs)
  then have "state_change t r (r\<lparr>curr_state := Closed, row_state := Map.empty\<rparr>)"
    using assms by (auto simp: state_change_def keeps_def regs_ok_def)
  then show ?thesis using Dram by (simp add: list_all2_same tree_rel_refl)
qed

lemma transferred_change:
  assumes "dram_ok s d" "plain_cmd cmd"
  shows "tree_rel (state_change (ddr4_timings s)) d (transferred cmd i d)"
proof (cases d)
  case (Dram r cs)
  have same: "list_all2 (tree_rel (state_change (ddr4_timings s))) xs xs" for xs
    by (simp add: list_all2_same tree_rel_refl)
  have ok: "dram_ok s (Dram r cs)" using assms(1) Dram by simp
  consider "node_level r = Bank" | "node_level r = Rank" "cmd = PREA" | "transferred cmd i d = d"
    using assms(2) Dram by (cases "node_level r") (auto simp: plain_cmd_def transferred_def state_trans_table_def)
  then show ?thesis
  proof cases
    case 1
    have "state_change (ddr4_timings s) r (r\<lparr>curr_state := Opened, row_state := (row_state r)(k \<mapsto> Opened)\<rparr>)" for k
      using 1 by (auto simp: state_change_def keeps_def regs_ok_def)
    then show ?thesis
      using 1 assms(2) Dram close_bank_change [of d "ddr4_timings s"] same
      by (auto simp: transferred_def state_trans_table_def plain_cmd_def)
  next
    case 2
    have "tree_rel (state_change (ddr4_timings s)) g (close_group g)" if "g \<in> set cs" for g
    proof (cases g)
      case (Dram q ds)
      from that obtain k where k: "k < length cs" "g = cs ! k" unfolding in_set_conv_nth by blast
      have "dram_ok s g" "child_level Rank = Some (node_level (regs g))"
        using dram_ok_nth [OF ok k(1)] 2(1) unfolding k(2) by simp_all
      then have q: "dram_ok s (Dram q ds)" "node_level q = Bank_group" unfolding Dram by simp_all
      have "node_level (regs b) \<noteq> Rank" if "b \<in> set ds" for b
      proof -
        from that obtain m where "m < length ds" "b = ds ! m" unfolding in_set_conv_nth by blast
        then show ?thesis using dram_ok_nth [OF q(1), of m] q(2) by auto
      qed
      then show ?thesis
        using Dram close_bank_change by (simp add: list_all2_map2 list_all2_same)
    qed
    then show ?thesis
      using 2 Dram by (simp add: transferred_def state_trans_table_def list_all2_map2 list_all2_same)
  qed (simp add: tree_rel_refl)
qed

lemma update_state_ok:
  "dram_ok s d \<Longrightarrow> dram_addr_ok s addr \<Longrightarrow> level_index (node_level (regs d)) < 4 \<Longrightarrow> plain_cmd cmd \<Longrightarrow>
    ensures (dram_update_state cmd addr d) (tree_rel (state_change (ddr4_timings s)) d)"
proof (induction cmd addr d rule: dram_update_state.induct)
  case (1 cmd addr d)
  let ?R = "state_change (ddr4_timings s)"
  let ?i = "addr ! (level_index (node_level (regs d)) + 1)"
  obtain r' cs' where d': "transferred cmd ?i d = Dram r' cs'" by (cases "transferred cmd ?i d")
  have at: "addr_at addr (level_index (node_level (regs d)) + 1) = Inr ?i"
    by (rule addr_at_ok [OF "1.prems"(2)]) (use "1.prems"(3) in simp)
  have rel: "tree_rel ?R d (Dram r' cs')" using transferred_change [OF "1.prems"(1,4)] d' by metis
  then have "tree_rel (keeps (ddr4_timings s)) d (Dram r' cs')"
    by (rule tree_rel_mono) (simp add: state_change_def)
  then have ok: "dram_ok s (Dram r' cs')" by (rule dram_ok_rel) (rule "1.prems"(1))
  have l: "node_level r' = node_level (regs d)" using tree_rel_regs [OF rel] by (simp add: state_change_def keeps_def)
  show ?case
  proof (cases "node_level (regs d) = scope cmd \<or> cs' = []")
    case True
    then show ?thesis using at d' rel by (subst dram_update_state.simps) (simp add: Let_def)
  next
    case False
    note ch = dram_ok_child [OF ok "1.prems"(2) "1.prems"(3) [folded l]]
    have lt: "unat ?i < length cs'" using ch(2) False l by simp
    have child: "dram_ok s (cs' ! unat ?i)" using dram_ok_nth [OF ok lt] by simp
    have cs: "children (transferred cmd ?i d) = cs'" using d' by simp
    have "ensures (dram_update_state cmd addr (cs' ! unat ?i)) (tree_rel ?R (cs' ! unat ?i))"
      by (rule "1.IH" [OF at refl refl, unfolded cs])
        (rule False lt child "1.prems" dram_ok_nth_level(2) [OF ok lt])+
    then obtain c where c: "dram_update_state cmd addr (cs' ! unat ?i) = Inr c" "tree_rel ?R (cs' ! unat ?i) c"
      by (auto simp: ensures_iff)
    have "list_all2 (tree_rel ?R) cs' cs'" by (simp add: list_all2_same tree_rel_refl)
    from list_all2_update_cong [OF this c(2), of "unat ?i"] have "list_all2 (tree_rel ?R) cs' (cs'[unat ?i := c])" by simp
    then have "tree_rel ?R (Dram r' cs') (Dram r' (cs'[unat ?i := c]))" by simp
    from tree_rel_trans [OF state_change_trans rel this] show ?thesis
      using at d' c(1) False lt by (subst dram_update_state.simps) (simp add: Let_def)
  qed
qed

text \<open>The effect of an access command on the bank it names; opening one opens the row.\<close>

definition bank_effect :: "command \<Rightarrow> 32 word \<Rightarrow> dram \<Rightarrow> dram" where
  "bank_effect cmd row b = (if cmd = ACT then bank_activate row b else if cmd = PRE then close_bank b else b)"

lemma update_state_bank:
  "dram_ok s d \<Longrightarrow> dram_addr_ok s addr \<Longrightarrow> level_index (node_level (regs d)) < 4 \<Longrightarrow> cmd \<in> {ACT, PRE, RD, WR} \<Longrightarrow>
    ensures (dram_update_state cmd addr d) (\<lambda>d'. bank_of addr d' = bank_effect cmd (ucast (addr ! 4)) (bank_of addr d))"
proof (induction cmd addr d rule: dram_update_state.induct)
  case (1 cmd addr d)
  obtain r cs where d: "d = Dram r cs" by (cases d)
  let ?i = "addr ! (level_index (node_level r) + 1)"
  have ok: "dram_ok s (Dram r cs)" using "1.prems"(1) d by simp
  note ch = dram_ok_child [OF ok "1.prems"(2) "1.prems"(3) [unfolded d dram.sel]]
  show ?case
  proof (cases "node_level r = Bank")
    case True
    then have "cs = []" using ch(3) by simp
    moreover have "transferred cmd ?i d = bank_effect cmd (ucast (addr ! 4)) d"
      by (use "1.prems"(4) in \<open>elim insertE emptyE\<close>)
        (simp_all add: True d transferred_def state_trans_table_def bank_effect_def numeral_eq_Suc)
    moreover have "children (bank_effect cmd (ucast (addr ! 4)) (Dram r [])) = []"
      and "regs (bank_effect cmd (ucast (addr ! 4)) (Dram r [])) =
        regs (bank_effect cmd (ucast (addr ! 4)) (Dram r []))"
      by (simp_all add: bank_effect_def)
    moreover have "bank_of addr (bank_effect cmd (ucast (addr ! 4)) (Dram r [])) = bank_effect cmd (ucast (addr ! 4)) (Dram r [])"
      by (simp add: bank_effect_def)
    ultimately show ?thesis
      using True d ch(1) by (subst dram_update_state.simps) (simp add: Let_def)
  next
    case False
    have t: "transferred cmd j d = d" for j
      using False "1.prems"(4) d "1.prems"(3) by (cases "node_level r") (auto simp: transferred_def state_trans_table_def)
    have ne: "cs \<noteq> []" using False ch(3) by simp
    note lt = ch(2) [OF ne]
    have s: "node_level r \<noteq> scope cmd" using "1.prems"(4) False "1.prems"(3) d by auto
    have c: "dram_ok s (cs ! unat ?i)" using dram_ok_nth [OF ok lt] by simp
    have cs: "children (transferred cmd ?i d) = cs" using t d by simp
    have at: "addr_at addr (level_index (node_level (regs d)) + 1) = Inr ?i" using ch(1) d by simp
    have nb: "\<not> (node_level (regs d) = scope cmd \<or> cs = [])" using s ne d by simp
    have "ensures (dram_update_state cmd addr (cs ! unat ?i))
        (\<lambda>d'. bank_of addr d' = bank_effect cmd (ucast (addr ! 4)) (bank_of addr (cs ! unat ?i)))"
      by (rule "1.IH" [OF at refl refl, unfolded cs])
        (rule nb lt c "1.prems" dram_ok_nth_level(2) [OF ok lt])+
    then obtain c' where c': "dram_update_state cmd addr (cs ! unat ?i) = Inr c'"
        "bank_of addr c' = bank_effect cmd (ucast (addr ! 4)) (bank_of addr (cs ! unat ?i))"
      by (auto simp: ensures_iff)
    then show ?thesis
      using d t ch(1) s ne lt by (subst dram_update_state.simps) (simp add: Let_def)
  qed
qed

end
