(* ===== verification/Dram_Timing.thy ===== *)
theory Dram_Timing
  imports Dram_Inv
begin

text \<open>
  The clocks of a DRAM tree. A history of issued commands determines, for every node, the clocks
  of the last commands that it remembers, and bounds its \<open>next\<close> array from below: what \<open>check\<close> lets
  through respects every entry of the timing table against the whole history.
\<close>

section \<open>Entries\<close>

lemma timing_dist: "list_all (\<lambda>(c, e). 0 < dist e) (ddr4_timing_calls t lev)"
  by (cases lev) (simp_all add: ddr4_timing_channel_def ddr4_timing_rank_def ddr4_timing_bank_group_def
      ddr4_timing_bank_def after_def sibling_after_def nth_after_def)

lemma timing_table_iff: "e \<in> set (timing_table t lev cmd) \<longleftrightarrow> (cmd, e) \<in> set (ddr4_timing_calls t lev)"
  by (force simp: timing_table_def)

lemma foldr_max_ge: "(x :: nat) \<in> set xs \<Longrightarrow> x \<le> foldr max xs 0"
  by (induction xs) auto

lemma timing_table_dist:
  assumes "e \<in> set (timing_table t lev cmd)"
  shows "0 < dist e" "dist e \<le> max_dist t lev cmd"
  using assms timing_dist [of t lev] foldr_max_ge [of "dist e" "map dist (timing_table t lev cmd)"]
  by (auto simp: timing_table_iff list_all_iff max_dist_def)

section \<open>One node\<close>

lemma raise_next_simps [simp]:
  "node_level (raise_next e clk r) = node_level r" "node_id (raise_next e clk r) = node_id r"
  "curr_state (raise_next e clk r) = curr_state r" "row_state (raise_next e clk r) = row_state r"
  "prev_at (raise_next e clk r) = prev_at r"
  "next_at (raise_next e clk r) c =
     (if c = te_cmd e then max (next_at r c) (clk + of_int (delay e)) else next_at r c)"
  by (simp_all add: raise_next_def)

text \<open>A change of \<open>next\<close> alone, upwards.\<close>

definition raised :: "dram_regs \<Rightarrow> dram_regs \<Rightarrow> bool" where
  "raised r r' \<longleftrightarrow> node_level r' = node_level r \<and> node_id r' = node_id r \<and> curr_state r' = curr_state r \<and>
     row_state r' = row_state r \<and> prev_at r' = prev_at r \<and> (\<forall>c. next_at r c \<le> next_at r' c)"

lemma raised_refl [simp]: "raised r r"
  by (simp add: raised_def)

lemma raised_trans: "raised r r' \<Longrightarrow> raised r' r'' \<Longrightarrow> raised r r''"
  by (auto simp: raised_def intro: order_trans)

lemma raised_raise_next [simp]: "raised r (raise_next e clk r)"
  by (simp add: raised_def)

lemma sibling_timing_raised:
  "raised r (sibling_timing clk ts r) \<and>
   (\<forall>e \<in> set ts. has_sibling e \<longrightarrow> clk + of_int (delay e) \<le> next_at (sibling_timing clk ts r) (te_cmd e))"
proof (induction ts arbitrary: r)
  case (Cons e ts)
  let ?r = "if has_sibling e then raise_next e clk r else r"
  have "raised r ?r" by simp
  moreover have "has_sibling e \<Longrightarrow> clk + of_int (delay e) \<le> next_at ?r (te_cmd e)" by simp
  moreover have "next_at ?r (te_cmd e) \<le> next_at (sibling_timing clk ts ?r) (te_cmd e)"
    using Cons.IH [of ?r] by (simp add: raised_def)
  ultimately show ?case using Cons.IH [of ?r] by (auto intro: raised_trans order_trans)
qed simp

lemma own_timing_raised:
  assumes "\<forall>e \<in> set ts. 0 < dist e \<and> dist e \<le> length (prev_at r cmd)"
  shows "ensures (own_timing cmd ts r) (\<lambda>r'. raised r r' \<and>
    (\<forall>e \<in> set ts. \<not> has_sibling e \<longrightarrow> prev_at r cmd ! (dist e - 1) + of_int (delay e) \<le> next_at r' (te_cmd e)))"
  using assms
proof (induction ts arbitrary: r)
  case (Cons e ts)
  show ?case
  proof (cases "has_sibling e")
    case True
    then show ?thesis using Cons by simp
  next
    case False
    let ?past = "prev_at r cmd ! (dist e - 1)"
    let ?r = "raise_next e ?past r"
    obtain r' where r': "own_timing cmd ts ?r = Inr r'" "raised ?r r'"
        "\<forall>e \<in> set ts. \<not> has_sibling e \<longrightarrow> prev_at r cmd ! (dist e - 1) + of_int (delay e) \<le> next_at r' (te_cmd e)"
      using Cons.IH [of ?r] Cons.prems by (auto simp: ensures_iff)
    have "?past + of_int (delay e) \<le> next_at ?r (te_cmd e)" by simp
    also have "\<dots> \<le> next_at r' (te_cmd e)" using r'(2) unfolding raised_def by blast
    finally show ?thesis
      using False Cons.prems r' raised_trans [OF raised_raise_next r'(2)] by simp
  qed
qed simp

lemma push_prev_simps [simp]:
  "node_level (push_prev cmd clk r) = node_level r" "node_id (push_prev cmd clk r) = node_id r"
  "curr_state (push_prev cmd clk r) = curr_state r" "row_state (push_prev cmd clk r) = row_state r"
  "next_at (push_prev cmd clk r) = next_at r" "length (prev_at (push_prev cmd clk r) c) = length (prev_at r c)"
  by (simp_all add: push_prev_def)

lemma keeps_raised: "raised r r' \<Longrightarrow> keeps t r r'"
  by (simp add: raised_def keeps_def regs_ok_def)

lemma keeps_push_prev: "keeps t r (push_prev cmd clk r)"
  by (simp add: keeps_def regs_ok_def)

lemma own_node_ok:
  assumes "regs_ok t r"
  shows "ensures (own_timing cmd (timing_table t (node_level r) cmd) (push_prev cmd clk r)) (\<lambda>r'.
    clock_change t r r' \<and> raised (push_prev cmd clk r) r' \<and>
    (\<forall>e \<in> set (timing_table t (node_level r) cmd). \<not> has_sibling e \<longrightarrow>
       prev_at (push_prev cmd clk r) cmd ! (dist e - 1) + of_int (delay e) \<le> next_at r' (te_cmd e)))"
proof -
  have "\<forall>e \<in> set (timing_table t (node_level r) cmd). 0 < dist e \<and> dist e \<le> length (prev_at (push_prev cmd clk r) cmd)"
    using assms timing_table_dist by (auto simp: regs_ok_def)
  from own_timing_raised [OF this] show ?thesis
    by (rule ensures_mono) (use keeps_trans [OF keeps_push_prev keeps_raised] in \<open>auto simp: clock_change_def raised_def\<close>)
qed

section \<open>The tree\<close>

lemma map_err_nth:
  "map_err f xs = Inr ys \<Longrightarrow> length ys = length xs \<and> (\<forall>k < length xs. f (xs ! k) = Inr (ys ! k))"
proof (induction xs arbitrary: ys)
  case (Cons x xs)
  then obtain z zs where "f x = Inr z" "map_err f xs = Inr zs" "ys = z # zs" by (auto simp: ebind_eq_Inr)
  then show ?case using Cons.IH by (auto simp: nth_Cons split: nat.split)
qed simp

lemma map_err_ok:
  "\<forall>x \<in> set xs. ensures (f x) (R x) \<Longrightarrow> ensures (map_err f xs) (list_all2 R xs)"
proof (induction xs)
  case (Cons x xs)
  then show ?case by (auto simp: ensures_iff)
qed simp

lemma update_timing_ok:
  "dram_ok s d \<Longrightarrow> dram_addr_ok s addr \<Longrightarrow> level_index (node_level (regs d)) < 4 \<Longrightarrow>
   ensures (dram_update_timing (ddr4_timings s) cmd addr clk d) (tree_rel (clock_change (ddr4_timings s)) d)"
proof (induction "ddr4_timings s" cmd addr clk d rule: dram_update_timing.induct)
  case (1 cmd addr clk r cs)
  let ?t = "ddr4_timings s"
  have at: "addr_at addr (level_index (node_level r)) = Inr (addr ! level_index (node_level r))"
    by (rule addr_at_ok [OF "1.prems"(2)]) (use "1.prems"(3) in simp)
  have ok: "regs_ok ?t r" using "1.prems"(1) by simp
  show ?case
  proof (cases "node_id r = addr ! level_index (node_level r)")
    case False
    have "clock_change ?t r (sibling_timing clk (timing_table ?t (node_level r) cmd) r)"
      using sibling_timing_raised [of r clk "timing_table ?t (node_level r) cmd"] keeps_raised
      by (auto simp: clock_change_def raised_def)
    then show ?thesis using at False by (simp add: list_all2_same tree_rel_refl)
  next
    case True
    obtain r' where r': "own_timing cmd (timing_table ?t (node_level r) cmd) (push_prev cmd clk r) = Inr r'"
        "clock_change ?t r r'" using own_node_ok [OF ok, of cmd clk] by (auto simp: ensures_iff)
    have "\<forall>c \<in> set cs. ensures (dram_update_timing ?t cmd addr clk c) (tree_rel (clock_change ?t) c)"
    proof
      fix c
      assume c: "c \<in> set cs"
      then obtain k where k: "k < length cs" "c = cs ! k" unfolding in_set_conv_nth by blast
      have "dram_ok s c" using dram_ok_nth [OF "1.prems"(1) k(1)] k(2) by simp
      moreover have "level_index (node_level (regs c)) < 4" using dram_ok_nth_level(2) [OF "1.prems"(1) k(1)] k(2) by simp
      ultimately show "ensures (dram_update_timing ?t cmd addr clk c) (tree_rel (clock_change ?t) c)"
        using "1.hyps" [OF at _ r'(1) c] True "1.prems"(2) by simp
    qed
    from map_err_ok [OF this] show ?thesis using at True r' by (auto simp: ensures_iff)
  qed
qed

text \<open>The whole update.\<close>

lemma update_ok:
  assumes "dram_ok s d" "dram_addr_ok s addr" "node_level (regs d) = Channel" "plain_cmd cmd"
  shows "ensures (dram_update (ddr4_timings s) cmd addr clk d) (\<lambda>d'. \<exists>e. dram_ok s d' \<and> node_level (regs d') = Channel \<and>
    node_id (regs d') = node_id (regs d) \<and>
    tree_rel (state_change (ddr4_timings s)) (set_node_clk clk d) e \<and>
    dram_update_state cmd addr (set_node_clk clk d) = Inr e \<and>
    dram_update_timing (ddr4_timings s) cmd addr clk e = Inr d' \<and>
    tree_rel (clock_change (ddr4_timings s)) e d')"
proof -
  obtain r cs where d: "d = Dram r cs" by (cases d)
  have 0: "dram_ok s (set_node_clk clk d)" using assms(1) d by (simp add: regs_ok_def)
  have l: "node_level (regs (set_node_clk clk d)) = Channel" "node_id (regs (set_node_clk clk d)) = node_id (regs d)"
    using assms(3) d by simp_all
  obtain e where e: "dram_update_state cmd addr (set_node_clk clk d) = Inr e"
      "tree_rel (state_change (ddr4_timings s)) (set_node_clk clk d) e"
    using update_state_ok [OF 0 assms(2) _ assms(4)] l by (auto simp: ensures_iff)
  have "tree_rel (keeps (ddr4_timings s)) (set_node_clk clk d) e"
    using tree_rel_mono [OF e(2)] by (simp add: state_change_def)
  then have 1: "dram_ok s e" by (rule dram_ok_rel) (rule 0)
  have l1: "node_level (regs e) = Channel" "node_id (regs e) = node_id (regs d)"
    using tree_rel_regs [OF e(2)] l by (simp_all add: state_change_def keeps_def)
  obtain d' where d': "dram_update_timing (ddr4_timings s) cmd addr clk e = Inr d'"
      "tree_rel (clock_change (ddr4_timings s)) e d'"
    using update_timing_ok [OF 1 assms(2)] l1 by (auto simp: ensures_iff)
  have "tree_rel (keeps (ddr4_timings s)) e d'"
    using tree_rel_mono [OF d'(2)] by (simp add: clock_change_def)
  then have "dram_ok s d'" by (rule dram_ok_rel) (rule 1)
  moreover have "node_level (regs d') = Channel" "node_id (regs d') = node_id (regs d)"
    using tree_rel_regs [OF d'(2)] l1 by (simp_all add: clock_change_def keeps_def)
  ultimately show ?thesis using e d' by (simp add: dram_update_def)
qed

section \<open>Nodes by path\<close>

text \<open>A node is named by the indices of the children that lead to it.\<close>

fun node_at :: "64 word list \<Rightarrow> dram \<Rightarrow> dram" where
  "node_at [] d = d"
| "node_at (i # p) d = node_at p (children d ! unat i)"

fun path_ok :: "64 word list \<Rightarrow> dram \<Rightarrow> bool" where
  "path_ok [] d \<longleftrightarrow> True"
| "path_ok (i # p) d \<longleftrightarrow> unat i < length (children d) \<and> path_ok p (children d ! unat i)"

lemma node_at_rel: "tree_rel R d d' \<Longrightarrow> path_ok p d \<Longrightarrow> tree_rel R (node_at p d) (node_at p d') \<and> path_ok p d'"
proof (induction p arbitrary: d d')
  case (Cons i p)
  then show ?case
    by (cases d; cases d') (auto dest: list_all2_nthD list_all2_lengthD)
qed simp

lemma node_at_ok:
  "dram_ok s d \<Longrightarrow> path_ok p d \<Longrightarrow> level_index (node_level (regs d)) < 4 \<Longrightarrow>
   dram_ok s (node_at p d) \<and> level_index (node_level (regs (node_at p d))) = level_index (node_level (regs d)) + length p \<and>
   level_index (node_level (regs d)) + length p < 4"
proof (induction p arbitrary: d)
  case (Cons i p)
  obtain r cs where d: "d = Dram r cs" by (cases d)
  have i: "unat i < length cs" "path_ok p (cs ! unat i)" and ok: "dram_ok s (Dram r cs)"
    using Cons.prems d by simp_all
  show ?case
    using Cons.IH [OF _ i(2) dram_ok_nth_level(2) [OF ok i(1)]] dram_ok_nth [OF ok i(1)] dram_ok_nth_level [OF ok i(1)] d
    by simp
qed simp

text \<open>
  A command with address \<open>addr\<close> hits the node with indices \<open>f\<close>, counted from its channel, or a
  sibling of it.
\<close>

definition own_hit :: "64 word list \<Rightarrow> 64 word list \<Rightarrow> bool" where
  "own_hit addr f \<longleftrightarrow> take (length f) addr = f"

definition sibling_hit :: "64 word list \<Rightarrow> 64 word list \<Rightarrow> bool" where
  "sibling_hit addr f \<longleftrightarrow> take (length f - 1) addr = butlast f \<and> \<not> own_hit addr f"

lemma hit_rec [simp]:
  "own_hit (a # addr) [i] \<longleftrightarrow> a = i"
  "own_hit (a # addr) (i # j # f) \<longleftrightarrow> a = i \<and> own_hit addr (j # f)"
  "sibling_hit (a # addr) [i] \<longleftrightarrow> a \<noteq> i"
  "sibling_hit (a # addr) (i # j # f) \<longleftrightarrow> a = i \<and> sibling_hit addr (j # f)"
  by (auto simp: own_hit_def sibling_hit_def)

text \<open>How the clocks of one node change.\<close>

definition node_timing ::
  "ddr4_timing \<Rightarrow> command \<Rightarrow> clk_t \<Rightarrow> bool \<Rightarrow> bool \<Rightarrow> dram_regs \<Rightarrow> dram_regs \<Rightarrow> bool" where
  "node_timing t cmd clk own sibling r r' \<longleftrightarrow>
     (if own then own_timing cmd (timing_table t (node_level r) cmd) (push_prev cmd clk r) = Inr r'
      else r' = (if sibling then sibling_timing clk (timing_table t (node_level r) cmd) r else r))"

lemma update_timing_node:
  assumes "dram_ok s d" "level_index (node_level (regs d)) < 4" "path_ok p d"
    and "dram_update_timing (ddr4_timings s) cmd addr clk d = Inr d'"
  shows "node_timing (ddr4_timings s) cmd clk
    (own_hit (drop (level_index (node_level (regs d))) addr) (node_id (regs d) # p))
    (sibling_hit (drop (level_index (node_level (regs d))) addr) (node_id (regs d) # p))
    (regs (node_at p d)) (regs (node_at p d'))"
  using assms
proof (induction p arbitrary: d d')
  case Nil
  obtain r cs where d: "d = Dram r cs" by (cases d)
  let ?l = "level_index (node_level r)"
  from Nil.prems(4) d have l: "?l < length addr" by (auto simp: addr_at_def split: if_splits)
  then have a: "addr_at addr ?l = Inr (addr ! ?l)" "drop ?l addr = addr ! ?l # drop (Suc ?l) addr"
    by (simp_all add: addr_at_def Cons_nth_drop_Suc)
  show ?case using Nil.prems(4) d a by (auto simp: node_timing_def ebind_eq_Inr split: if_splits)
next
  case (Cons i p)
  obtain r cs where d: "d = Dram r cs" by (cases d)
  let ?l = "level_index (node_level r)"
  let ?c = "cs ! unat i"
  have i: "unat i < length cs" "path_ok p ?c" and ok: "dram_ok s (Dram r cs)" using Cons.prems d by simp_all
  from Cons.prems(4) d have l: "?l < length addr" by (auto simp: addr_at_def split: if_splits)
  then have a: "addr_at addr ?l = Inr (addr ! ?l)" "drop ?l addr = addr ! ?l # drop (Suc ?l) addr"
    by (simp_all add: addr_at_def Cons_nth_drop_Suc)
  have c: "dram_ok s ?c" "node_id (regs ?c) = i" "level_index (node_level (regs ?c)) = Suc ?l"
      "level_index (node_level (regs ?c)) < 4"
    using dram_ok_nth [OF ok i(1)] dram_ok_nth_level [OF ok i(1)] by simp_all
  show ?case
  proof (cases "node_id r = addr ! ?l")
    case True
    then obtain r' cs' where d': "d' = Dram r' cs'" "map_err (dram_update_timing (ddr4_timings s) cmd addr clk) cs = Inr cs'"
      using Cons.prems(4) d a(1) by (auto simp: ebind_eq_Inr)
    then have "dram_update_timing (ddr4_timings s) cmd addr clk ?c = Inr (cs' ! unat i)"
      using map_err_nth [OF d'(2)] i(1) by simp
    from Cons.IH [OF c(1,4) i(2) this] show ?thesis using d d'(1) a(2) c(2,3) True by simp
  next
    case False
    then have "children d' = cs" using Cons.prems(4) d a(1) by auto
    then show ?thesis using d a(2) False by (simp add: node_timing_def)
  qed
qed

section \<open>Histories\<close>

text \<open>The commands that were issued, the latest one first, each with its address and its clock.\<close>

type_synonym dram_history = "(command \<times> 64 word list \<times> clk_t) list"

fun issue_all :: "ddr4_timing \<Rightarrow> dram_history \<Rightarrow> dram \<Rightarrow> vans_error + dram" where
  "issue_all t [] d = Inr d"
| "issue_all t ((cmd, addr, clk) # h) d = ebind (issue_all t h d) (dram_update t cmd addr clk)"

definition history_ok :: "ddr4 \<Rightarrow> dram_history \<Rightarrow> bool" where
  "history_ok s h \<longleftrightarrow> list_all (\<lambda>(cmd, addr, clk). plain_cmd cmd \<and> dram_addr_ok s addr \<and> small_clk clk) h"

definition own_clks :: "dram_history \<Rightarrow> command \<Rightarrow> 64 word list \<Rightarrow> clk_t list" where
  "own_clks h cmd f = map (\<lambda>(c, a, clk). clk) (filter (\<lambda>(c, a, clk). c = cmd \<and> own_hit a f) h)"

definition sibling_clks :: "dram_history \<Rightarrow> command \<Rightarrow> 64 word list \<Rightarrow> clk_t list" where
  "sibling_clks h cmd f = map (\<lambda>(c, a, clk). clk) (filter (\<lambda>(c, a, clk). c = cmd \<and> sibling_hit a f) h)"

text \<open>What a node knows of a history.\<close>

definition node_history :: "ddr4_timing \<Rightarrow> dram_history \<Rightarrow> 64 word list \<Rightarrow> dram_regs \<Rightarrow> bool" where
  "node_history t h f r \<longleftrightarrow>
     (\<forall>cmd. prev_at r cmd = take (max_dist t (node_level r) cmd)
        (own_clks h cmd f @ replicate (max_dist t (node_level r) cmd) clk_invalid)) \<and>
     (\<forall>cmd e. (cmd, e) \<in> set (ddr4_timing_calls t (node_level r)) \<longrightarrow>
        (\<forall>clk \<in> set (if has_sibling e then sibling_clks h cmd f else drop (dist e - 1) (own_clks h cmd f)).
           clk + of_int (delay e) \<le> next_at r (te_cmd e)))"

lemma own_clks_Cons:
  "own_clks ((cmd, addr, clk) # h) c f = (if c = cmd \<and> own_hit addr f then [clk] else []) @ own_clks h c f"
  by (simp add: own_clks_def)

lemma sibling_clks_Cons:
  "sibling_clks ((cmd, addr, clk) # h) c f = (if c = cmd \<and> sibling_hit addr f then [clk] else []) @ sibling_clks h c f"
  by (simp add: sibling_clks_def)

lemma not_both_hits: "\<not> (own_hit addr f \<and> sibling_hit addr f)"
  by (simp add: sibling_hit_def)

lemma in_drop_Cons: "x \<in> set (drop n (y # xs)) \<Longrightarrow> (n \<le> length xs \<and> x = (y # xs) ! n) \<or> x \<in> set (drop n xs)"
proof (cases n)
  case (Suc m)
  assume "x \<in> set (drop n (y # xs))"
  with Suc have x: "x \<in> set (drop m xs)" by simp
  then have m: "m < length xs" by (metis drop_all empty_iff linorder_not_less list.set(1))
  then have "drop m xs = xs ! m # drop n xs" using Suc by (simp add: Cons_nth_drop_Suc)
  then show ?thesis using x m Suc by auto
qed simp

lemma push_prev_history:
  assumes "prev_at r cmd = take m (xs @ replicate m clk_invalid)"
  shows "prev_at (push_prev cmd clk r) cmd = take m ((clk # xs) @ replicate m clk_invalid)"
proof (cases m)
  case (Suc k)
  define zs where "zs = xs @ replicate m clk_invalid"
  have m: "m \<le> length zs" by (simp add: zs_def)
  have "butlast (take m zs) = take k zs" using butlast_take [OF m] Suc by simp
  moreover have "prev_at r cmd = take m zs" unfolding zs_def by (rule assms)
  moreover have "take m zs \<noteq> []" using m Suc by auto
  ultimately have "prev_at (push_prev cmd clk r) cmd = clk # take k zs" by (simp add: push_prev_def)
  also have "\<dots> = take m (clk # zs)" using Suc by simp
  finally show ?thesis by (simp add: zs_def)
qed (use assms in \<open>simp add: push_prev_def\<close>)

lemma node_history_own:
  assumes h: "node_history t h f r" and ok: "regs_ok t r" and own: "own_hit addr f"
    and r': "own_timing cmd (timing_table t (node_level r) cmd) (push_prev cmd clk r) = Inr r'"
  shows "node_history t ((cmd, addr, clk) # h) f r'"
proof -
  from own_node_ok [OF ok, of cmd clk] r' have raise: "raised (push_prev cmd clk r) r'"
    and new: "\<And>e. e \<in> set (timing_table t (node_level r) cmd) \<Longrightarrow> \<not> has_sibling e \<Longrightarrow>
       prev_at (push_prev cmd clk r) cmd ! (dist e - 1) + of_int (delay e) \<le> next_at r' (te_cmd e)"
    by auto
  have l: "node_level r' = node_level r" and mono: "next_at r c \<le> next_at r' c"
    and prev: "prev_at r' = prev_at (push_prev cmd clk r)" for c
    using raise by (simp_all add: raised_def)
  have no_sib: "\<not> sibling_hit addr f" using own not_both_hits by blast
  let ?m = "max_dist t (node_level r)"
  have p: "prev_at r' cmd = take (?m cmd) ((clk # own_clks h cmd f) @ replicate (?m cmd) clk_invalid)"
    unfolding prev using h by (intro push_prev_history) (simp add: node_history_def)
  have "prev_at r' c = take (?m c) (own_clks ((cmd, addr, clk) # h) c f @ replicate (?m c) clk_invalid)" for c
  proof (cases "c = cmd")
    case True
    then show ?thesis using p own by (simp add: own_clks_Cons)
  next
    case False
    then have "prev_at r' c = prev_at r c" unfolding prev by (simp add: push_prev_def)
    then show ?thesis using h False by (simp add: node_history_def own_clks_Cons)
  qed
  moreover have "x + of_int (delay e) \<le> next_at r' (te_cmd e)"
    if e: "(c, e) \<in> set (ddr4_timing_calls t (node_level r))"
      and x: "x \<in> set (if has_sibling e then sibling_clks ((cmd, addr, clk) # h) c f
        else drop (dist e - 1) (own_clks ((cmd, addr, clk) # h) c f))" for c e x
  proof -
    have old: "x + of_int (delay e) \<le> next_at r' (te_cmd e)"
      if "x \<in> set (if has_sibling e then sibling_clks h c f else drop (dist e - 1) (own_clks h c f))"
    proof -
      have "x + of_int (delay e) \<le> next_at r (te_cmd e)" using h e that by (auto simp: node_history_def)
      then show ?thesis using mono order_trans by blast
    qed
    show ?thesis
    proof (cases "c = cmd \<and> \<not> has_sibling e")
      case True
      then have "x \<in> set (drop (dist e - 1) (clk # own_clks h cmd f))" using x own by (simp add: own_clks_Cons)
      from in_drop_Cons [OF this] show ?thesis
      proof
        assume n: "dist e - 1 \<le> length (own_clks h cmd f) \<and> x = (clk # own_clks h cmd f) ! (dist e - 1)"
        have m: "e \<in> set (timing_table t (node_level r) cmd)" using e True by (simp add: timing_table_iff)
        have "dist e - 1 < ?m cmd" using timing_table_dist [OF m] by simp
        then have "prev_at r' cmd ! (dist e - 1) = x"
          unfolding p using n by (subst nth_take) (auto simp: nth_append nth_Cons split: nat.split)
        then show ?thesis using new [OF m] True unfolding prev by simp
      qed (use old True in simp)
    next
      case False
      then show ?thesis using old x own no_sib by (auto simp: own_clks_Cons sibling_clks_Cons split: if_splits)
    qed
  qed
  ultimately show ?thesis unfolding node_history_def l by blast
qed

lemma node_history_step:
  assumes h: "node_history t h f r" and ok: "regs_ok t r"
    and n: "node_timing t cmd clk (own_hit addr f) (sibling_hit addr f) r r'"
  shows "node_history t ((cmd, addr, clk) # h) f r'"
proof -
  consider "own_hit addr f" | "\<not> own_hit addr f" "sibling_hit addr f" | "\<not> own_hit addr f" "\<not> sibling_hit addr f" by blast
  then show ?thesis
  proof cases
    case 1
    then show ?thesis using node_history_own [OF h ok 1] n by (simp add: node_timing_def)
  next
    case 2
    define ts where "ts = timing_table t (node_level r) cmd"
    have r': "r' = sibling_timing clk ts r" using n 2 by (simp add: node_timing_def ts_def)
    have raise: "raised r r'" and new: "e \<in> set ts \<Longrightarrow> has_sibling e \<Longrightarrow> clk + of_int (delay e) \<le> next_at r' (te_cmd e)" for e
      using sibling_timing_raised [of r clk ts] r' by auto
    have l: "node_level r' = node_level r" and mono: "next_at r c \<le> next_at r' c" and prev: "prev_at r' = prev_at r" for c
      using raise by (simp_all add: raised_def)
    have "x + of_int (delay e) \<le> next_at r' (te_cmd e)"
      if e: "(c, e) \<in> set (ddr4_timing_calls t (node_level r))"
        and x: "x \<in> set (if has_sibling e then sibling_clks ((cmd, addr, clk) # h) c f
          else drop (dist e - 1) (own_clks ((cmd, addr, clk) # h) c f))" for c e x
    proof (cases "x \<in> set (if has_sibling e then sibling_clks h c f else drop (dist e - 1) (own_clks h c f))")
      case True
      then have "x + of_int (delay e) \<le> next_at r (te_cmd e)" using h e by (auto simp: node_history_def)
      then show ?thesis using mono order_trans by blast
    next
      case False
      then have "c = cmd" "has_sibling e" "x = clk"
        using x 2 by (auto simp: own_clks_Cons sibling_clks_Cons split: if_splits)
      then show ?thesis using new e by (simp add: ts_def timing_table_iff)
    qed
    moreover have "prev_at r' c = take (max_dist t (node_level r) c)
        (own_clks ((cmd, addr, clk) # h) c f @ replicate (max_dist t (node_level r) c) clk_invalid)" for c
      using h 2 by (simp add: node_history_def own_clks_Cons prev)
    ultimately show ?thesis unfolding node_history_def l by blast
  next
    case 3
    then show ?thesis using h n by (simp add: node_history_def node_timing_def own_clks_Cons sibling_clks_Cons)
  qed
qed

section \<open>Valid clocks\<close>

text \<open>
  A value of \<open>next\<close> that equals \<open>clk_invalid\<close> switches its constraint off. It is not reached when the delays are
  non-negative, below \<open>2^31\<close>, and positive where they count from an earlier command than the last.
\<close>

definition entry_ok :: "timing_entry \<Rightarrow> bool" where
  "entry_ok e \<longleftrightarrow> 0 \<le> delay e \<and> delay e < 2 ^ 31 \<and> (1 < dist e \<longrightarrow> 0 < delay e)"

definition timing_ok :: "ddr4_timing \<Rightarrow> bool" where
  "timing_ok t \<longleftrightarrow> list_all (\<lambda>l. list_all (\<lambda>(c, e). entry_ok e) (ddr4_timing_calls t l)) all_levels"

lemma timing_ok_entry: "timing_ok t \<Longrightarrow> (c, e) \<in> set (ddr4_timing_calls t l) \<Longrightarrow> entry_ok e"
  by (cases l) (auto simp: timing_ok_def all_levels_def list_all_iff)

lemma unat_clk_plus_delay:
  assumes "small_clk clk" "0 \<le> d" "d < 2 ^ 31"
  shows "unat (clk + of_int d) = unat clk + nat d"
proof -
  have d: "of_int d = (of_nat (nat d) :: 64 word)" using assms(2) by simp
  have n: "unat (of_nat (nat d) :: 64 word) = nat d" using assms(3) by (intro unat_of_nat64) simp
  have "unat clk + nat d < 2 ^ 64" using assms by (simp add: small_clk_def nat_less_iff)
  then show ?thesis unfolding d using n unat_add_lem [of clk "of_nat (nat d)"] by simp
qed

lemma clk_plus_delay_valid:
  assumes "small_clk clk" "0 \<le> d" "d < 2 ^ 31"
  shows "clk + of_int d \<noteq> clk_invalid"
proof
  assume "clk + of_int d = clk_invalid"
  then have "unat clk + nat d = 2 ^ 64 - 1" using unat_clk_plus_delay [OF assms] unat_clk_invalid by metis
  then show False using assms by (simp add: small_clk_def nat_less_iff)
qed

lemma invalid_plus_delay_valid:
  assumes "0 < d" "d < 2 ^ 31"
  shows "clk_invalid + of_int d \<noteq> clk_invalid"
proof -
  have "unat (0 + of_int d :: 64 word) = nat d"
    using unat_clk_plus_delay [of 0 d] assms by (simp add: small_clk_def)
  then have "of_int d \<noteq> (0 :: 64 word)" using assms by (metis add_0 nat_eq_iff2 order_less_irrefl unat_0 nat_0_iff not_less)
  then show ?thesis by simp
qed

definition clocks_valid :: "dram_regs \<Rightarrow> bool" where
  "clocks_valid r \<longleftrightarrow> (\<forall>c. next_at r c \<noteq> clk_invalid) \<and>
     (\<forall>c. \<forall>k \<in> set (prev_at r c). small_clk k \<or> k = clk_invalid)"

lemma clocks_valid_raise:
  "clocks_valid r \<Longrightarrow> clk + of_int (delay e) \<noteq> clk_invalid \<Longrightarrow> clocks_valid (raise_next e clk r)"
  by (auto simp: clocks_valid_def max_def)

lemma clocks_valid_sibling:
  assumes "small_clk clk" "\<forall>e \<in> set ts. entry_ok e"
  shows "clocks_valid r \<Longrightarrow> clocks_valid (sibling_timing clk ts r)"
  using assms(2)
proof (induction ts arbitrary: r)
  case (Cons e ts)
  then have "clk + of_int (delay e) \<noteq> clk_invalid"
    using clk_plus_delay_valid [OF assms(1)] by (simp add: entry_ok_def)
  then show ?case using Cons clocks_valid_raise by simp
qed simp

lemma clocks_valid_own:
  assumes "\<forall>e \<in> set ts. entry_ok e"
  shows "clocks_valid r \<Longrightarrow> (prev_at r cmd \<noteq> [] \<Longrightarrow> small_clk (hd (prev_at r cmd))) \<Longrightarrow>
    own_timing cmd ts r = Inr r' \<Longrightarrow> clocks_valid r'"
  using assms
proof (induction ts arbitrary: r)
  case (Cons e ts)
  show ?case
  proof (cases "has_sibling e")
    case True
    then show ?thesis using Cons by simp
  next
    case False
    let ?past = "prev_at r cmd ! (dist e - 1)"
    have n: "0 < dist e" "dist e \<le> length (prev_at r cmd)" and run: "own_timing cmd ts (raise_next e ?past r) = Inr r'"
      using Cons.prems(3) False by (auto split: if_splits)
    have e: "entry_ok e" using Cons.prems(4) by simp
    have "?past + of_int (delay e) \<noteq> clk_invalid"
    proof (cases "small_clk ?past")
      case True
      then show ?thesis using clk_plus_delay_valid e by (simp add: entry_ok_def)
    next
      case False
      moreover have "prev_at r cmd \<noteq> []" using n by auto
      ultimately have "dist e \<noteq> 1" using Cons.prems(2) by (auto simp: hd_conv_nth)
      moreover have "?past \<in> set (prev_at r cmd)" using n by (intro nth_mem) simp
      then have "?past = clk_invalid" using False Cons.prems(1) unfolding clocks_valid_def by blast
      ultimately show ?thesis using invalid_plus_delay_valid e n by (simp add: entry_ok_def)
    qed
    then have "clocks_valid (raise_next e ?past r)" by (rule clocks_valid_raise [OF Cons.prems(1)])
    then show ?thesis using Cons.IH [OF _ _ run] Cons.prems by simp
  qed
qed simp

lemma clocks_valid_push_prev:
  assumes "clocks_valid r" "small_clk clk"
  shows "clocks_valid (push_prev cmd clk r)"
    and "prev_at (push_prev cmd clk r) cmd \<noteq> [] \<Longrightarrow> small_clk (hd (prev_at (push_prev cmd clk r) cmd))"
  using assms by (auto simp: clocks_valid_def push_prev_def dest!: in_set_butlastD)

lemma clocks_valid_step:
  assumes "timing_ok t" "small_clk clk" "clocks_valid r" "node_timing t cmd clk own sibling r r'"
  shows "clocks_valid r'"
proof -
  have "\<forall>e \<in> set (timing_table t (node_level r) cmd). entry_ok e"
    using timing_ok_entry [OF assms(1)] by (auto simp: timing_table_iff)
  then show ?thesis
    using clocks_valid_own [OF _ clocks_valid_push_prev [OF assms(3,2), of cmd]] clocks_valid_sibling [OF assms(2) _ assms(3)] assms(3,4)
    by (auto simp: node_timing_def split: if_splits)
qed

section \<open>Every node knows the history\<close>

lemma new_dram_node:
  "path_ok p (new_dram s lev i) \<Longrightarrow> \<exists>l j. regs (node_at p (new_dram s lev i)) = new_regs s l j"
proof (induction p arbitrary: lev i)
  case Nil
  then show ?case by (subst new_dram.simps) auto
next
  case (Cons k p)
  have ch: "children (new_dram s lev i) =
      (case child_level lev of None \<Rightarrow> [] | Some l \<Rightarrow> map (\<lambda>k. new_dram s l (of_nat k)) [0..<unat (level_count s l)])"
    by (subst new_dram.simps) simp
  from Cons.prems obtain l where l: "child_level lev = Some l"
      "unat k < unat (level_count s l)" "path_ok p (new_dram s l (of_nat (unat k)))"
    unfolding path_ok.simps ch by (auto split: option.splits)
  then show ?case using Cons.IH [OF l(3)] by (simp add: ch)
qed

lemma regs_new_dram [simp]: "regs (new_dram s lev i) = new_regs s lev i"
  by (subst new_dram.simps) simp

definition nodes_know :: "ddr4 \<Rightarrow> dram_history \<Rightarrow> dram \<Rightarrow> bool" where
  "nodes_know s h d \<longleftrightarrow> dram_ok s d \<and> node_level (regs d) = Channel \<and> node_id (regs d) = 0 \<and>
     (\<forall>p. path_ok p d \<longrightarrow> node_history (ddr4_timings s) h (0 # p) (regs (node_at p d)) \<and> clocks_valid (regs (node_at p d)))"

lemma nodes_know_new: "nodes_know s [] (new_dram s Channel 0)"
proof -
  have "node_history (ddr4_timings s) [] f (new_regs s l j)" "clocks_valid (new_regs s l j)" for f l j
    by (auto simp: node_history_def new_regs_def own_clks_def sibling_clks_def clocks_valid_def clk_invalid_def)
  then have "node_history (ddr4_timings s) [] f (regs (node_at p (new_dram s Channel 0))) \<and>
      clocks_valid (regs (node_at p (new_dram s Channel 0)))" if "path_ok p (new_dram s Channel 0)" for p f
    using new_dram_node [OF that] by metis
  then show ?thesis by (simp add: nodes_know_def dram_ok_new new_regs_def)
qed

lemma nodes_know_update:
  assumes know: "nodes_know s h d" and t: "timing_ok (ddr4_timings s)"
    and c: "plain_cmd cmd" "dram_addr_ok s addr" "small_clk clk"
  shows "ensures (dram_update (ddr4_timings s) cmd addr clk d) (nodes_know s ((cmd, addr, clk) # h))"
proof -
  let ?t = "ddr4_timings s"
  have ok: "dram_ok s d" "node_level (regs d) = Channel" "node_id (regs d) = 0"
    using know by (simp_all add: nodes_know_def)
  obtain d' e where u: "dram_update ?t cmd addr clk d = Inr d'" "dram_ok s d'" "node_level (regs d') = Channel"
      "node_id (regs d') = node_id (regs d)" "tree_rel (state_change ?t) (set_node_clk clk d) e"
      "dram_update_timing ?t cmd addr clk e = Inr d'" "tree_rel (clock_change ?t) e d'"
    using update_ok [OF ok(1) c(2) ok(2) c(1), of clk] by (auto simp: ensures_iff)
  have "tree_rel (keeps ?t) (set_node_clk clk d) e" using tree_rel_mono [OF u(5)] by (simp add: state_change_def)
  moreover have "dram_ok s (set_node_clk clk d)" using ok(1) by (cases d) (simp add: regs_ok_def)
  ultimately have ok_e: "dram_ok s e" by (rule dram_ok_rel)
  have id_e: "node_level (regs e) = Channel" "node_id (regs e) = 0"
    using tree_rel_regs [OF u(5)] ok by (cases d; simp add: state_change_def keeps_def)+
  have "node_history ?t ((cmd, addr, clk) # h) (0 # p) (regs (node_at p d')) \<and> clocks_valid (regs (node_at p d'))"
    if p: "path_ok p d'" for p
  proof -
    have swap: "tree_rel R x y \<Longrightarrow> tree_rel (\<lambda>r r'. R r' r) y x" for R x y
      by (induction R x y rule: tree_rel.induct) (auto simp: list_all2_conv_all_nth)
    have pe: "path_ok p e" using node_at_rel [OF swap [OF u(7)] p] by simp
    have pc: "path_ok p (set_node_clk clk d)" using node_at_rel [OF swap [OF u(5)] pe] by simp
    then have pd: "path_ok p d" by (cases d; cases p) auto
    have same: "next_at (regs (node_at p (set_node_clk clk d))) = next_at (regs (node_at p d))"
      "prev_at (regs (node_at p (set_node_clk clk d))) = prev_at (regs (node_at p d))"
      "node_level (regs (node_at p (set_node_clk clk d))) = node_level (regs (node_at p d))"
      by (cases d; cases p; simp)+
    have st: "state_change ?t (regs (node_at p (set_node_clk clk d))) (regs (node_at p e))"
      using node_at_rel [OF u(5) pc] tree_rel_regs by blast
    have "node_history ?t h (0 # p) (regs (node_at p d))" "clocks_valid (regs (node_at p d))"
      using know pd by (simp_all add: nodes_know_def)
    then have hist: "node_history ?t h (0 # p) (regs (node_at p e))" "clocks_valid (regs (node_at p e))"
      using st same by (simp_all add: node_history_def clocks_valid_def state_change_def keeps_def)
    have "regs_ok ?t (regs (node_at p e))"
      using node_at_ok [OF ok_e pe] id_e by (cases "node_at p e") simp
    moreover have "node_timing ?t cmd clk (own_hit addr (0 # p)) (sibling_hit addr (0 # p)) (regs (node_at p e)) (regs (node_at p d'))"
      using update_timing_node [OF ok_e _ pe u(6)] id_e by simp
    ultimately show ?thesis using node_history_step [OF hist(1)] clocks_valid_step [OF t c(3) hist(2)] by blast
  qed
  then show ?thesis using u ok(3) by (simp add: nodes_know_def)
qed

lemma nodes_know_all:
  assumes "timing_ok (ddr4_timings s)" "history_ok s h"
  shows "ensures (issue_all (ddr4_timings s) h (new_dram s Channel 0)) (nodes_know s h)"
  using assms(2)
proof (induction h)
  case Nil
  show ?case by (simp add: nodes_know_new)
next
  case (Cons x h)
  obtain cmd addr clk where x: "x = (cmd, addr, clk)" by (cases x)
  then have c: "plain_cmd cmd" "dram_addr_ok s addr" "small_clk clk" and h: "history_ok s h"
    using Cons.prems by (simp_all add: history_ok_def)
  obtain d where "issue_all (ddr4_timings s) h (new_dram s Channel 0) = Inr d" "nodes_know s h d"
    using Cons.IH [OF h] by (auto simp: ensures_iff)
  then show ?case using nodes_know_update [OF _ assms(1) c] x by simp
qed

section \<open>What a check lets through\<close>

lemma check_node:
  "dram_check cmd addr clk d = Inr True \<Longrightarrow> dram_ok s d \<Longrightarrow> dram_addr_ok s addr \<Longrightarrow>
   level_index (node_level (regs d)) + m \<le> level_index (scope cmd) \<Longrightarrow> level_index (node_level (regs d)) + m < 4 \<Longrightarrow>
   path_ok (take m (drop (Suc (level_index (node_level (regs d)))) addr)) d \<and>
   (let k = next_at (regs (node_at (take m (drop (Suc (level_index (node_level (regs d)))) addr)) d)) cmd in
    k = clk_invalid \<or> k \<le> clk)"
proof (induction cmd addr clk d arbitrary: m rule: dram_check.induct)
  case (1 cmd addr clk r cs)
  let ?l = "level_index (node_level r)"
  have l: "?l < 4" "?l + m \<le> level_index (scope cmd)" "?l + m < 4" using "1.prems"(4,5) by simp_all
  have at: "addr_at addr (?l + 1) = Inr (addr ! (?l + 1))"
    and ch: "cs \<noteq> [] \<Longrightarrow> unat (addr ! (?l + 1)) < length cs" "cs = [] \<longleftrightarrow> node_level r = Bank"
    using dram_ok_child [OF "1.prems"(2,3) l(1)] by simp_all
  have free: "next_at r cmd = clk_invalid \<or> next_at r cmd \<le> clk"
    using "1.prems"(1) by (auto split: if_splits)
  show ?case
  proof (cases m)
    case 0
    then show ?thesis using free by simp
  next
    case (Suc k)
    have "node_level r \<noteq> scope cmd" using l(2) Suc by auto
    moreover have "node_level r \<noteq> Bank" using l(3) Suc by auto
    ultimately have ne: "\<not> (node_level r = scope cmd \<or> cs = [])" using ch(2) by simp
    then have lt: "unat (addr ! (?l + 1)) < length cs" using ch(1) by simp
    let ?c = "cs ! unat (addr ! (?l + 1))"
    have c: "dram_check cmd addr clk ?c = Inr True"
      using "1.prems"(1) at ne lt by (auto split: if_splits)
    have ok: "dram_ok s ?c" "level_index (node_level (regs ?c)) = Suc ?l"
      using dram_ok_nth [OF "1.prems"(2) lt] dram_ok_nth_level [OF "1.prems"(2) lt] by simp_all
    have nf: "\<not> (next_at r cmd \<noteq> clk_invalid \<and> clk < next_at r cmd)" using free by auto
    have d: "drop (Suc ?l) addr = addr ! (?l + 1) # drop (Suc (Suc ?l)) addr"
      using "1.prems"(3) l by (simp add: Cons_nth_drop_Suc dram_addr_ok_def)
    have "path_ok (take k (drop (Suc (Suc ?l)) addr)) ?c \<and>
        (let n = next_at (regs (node_at (take k (drop (Suc (Suc ?l)) addr)) ?c)) cmd in n = clk_invalid \<or> n \<le> clk)"
      using "1.IH" [OF nf at ne lt c ok(1) "1.prems"(3), of k] ok(2) l Suc by simp
    then show ?thesis using d Suc lt by simp
  qed
qed

text \<open>
  The history never contradicts the timing table: a command that may be issued now keeps the
  distance of every entry to the commands that it counts from.
\<close>

definition timing_respected :: "ddr4_timing \<Rightarrow> dram_history \<Rightarrow> command \<Rightarrow> 64 word list \<Rightarrow> clk_t \<Rightarrow> bool" where
  "timing_respected t h cmd addr clk \<longleftrightarrow>
     (\<forall>lev prev e. (prev, e) \<in> set (ddr4_timing_calls t lev) \<and> te_cmd e = cmd \<and> level_index lev \<le> level_index (scope cmd) \<longrightarrow>
        (let f = take (Suc (level_index lev)) addr in
         \<forall>k \<in> set (if has_sibling e then sibling_clks h prev f else drop (dist e - 1) (own_clks h prev f)).
           int (unat k) + delay e \<le> int (unat clk)))"

lemma history_clks_small:
  assumes "history_ok s h"
  shows "k \<in> set (own_clks h c f) \<Longrightarrow> small_clk k" "k \<in> set (sibling_clks h c f) \<Longrightarrow> small_clk k"
  using assms by (auto simp: own_clks_def sibling_clks_def history_ok_def list_all_iff)

lemma check_respects_history:
  assumes "nodes_know s h d" "timing_ok (ddr4_timings s)" "history_ok s h"
    and "dram_check cmd addr clk d = Inr True" "dram_addr_ok s addr" "addr ! 0 = 0"
  shows "timing_respected (ddr4_timings s) h cmd addr clk"
  unfolding timing_respected_def Let_def
proof (intro allI impI ballI, elim conjE)
  fix lev prev e k
  let ?f = "take (Suc (level_index lev)) addr"
  assume e: "(prev, e) \<in> set (ddr4_timing_calls (ddr4_timings s) lev)" "te_cmd e = cmd"
      "level_index lev \<le> level_index (scope cmd)"
    and k: "k \<in> set (if has_sibling e then sibling_clks h prev ?f else drop (dist e - 1) (own_clks h prev ?f))"
  have lev: "level_index lev < 4" using e(1) by (cases lev) auto
  have d: "dram_ok s d" "node_level (regs d) = Channel" using assms(1) by (simp_all add: nodes_know_def)
  let ?p = "take (level_index lev) (drop 1 addr)"
  from check_node [OF assms(4) d(1) assms(5), of "level_index lev"] d(2) e(3) lev
  have p: "path_ok ?p d" and n: "next_at (regs (node_at ?p d)) cmd = clk_invalid \<or> next_at (regs (node_at ?p d)) cmd \<le> clk"
    by (simp_all add: Let_def)
  have f: "?f = 0 # ?p" using assms(5,6) by (cases addr) (simp_all add: dram_addr_ok_def)
  have "length ?p = level_index lev" using assms(5) lev by (auto simp: dram_addr_ok_def min_def)
  then have "level_index (node_level (regs (node_at ?p d))) = level_index lev"
    using node_at_ok [OF d(1) p] d(2) by simp
  then have l: "node_level (regs (node_at ?p d)) = lev"
    by (cases lev; cases "node_level (regs (node_at ?p d))") simp_all
  have know: "node_history (ddr4_timings s) h ?f (regs (node_at ?p d))" "clocks_valid (regs (node_at ?p d))"
    using assms(1) p unfolding f by (simp_all add: nodes_know_def)
  then have "k + of_int (delay e) \<le> next_at (regs (node_at ?p d)) cmd"
    using k e l by (auto simp: node_history_def)
  also have "\<dots> \<le> clk" using n know(2) by (auto simp: clocks_valid_def)
  finally have le: "unat (k + of_int (delay e)) \<le> unat clk" by (simp add: word_le_nat_alt)
  have "small_clk k"
    using k history_clks_small [OF assms(3)] set_drop_subset [of "dist e - 1" "own_clks h prev ?f"] by (auto split: if_splits)
  moreover have ok: "0 \<le> delay e" "delay e < 2 ^ 31" using timing_ok_entry [OF assms(2) e(1)] by (simp_all add: entry_ok_def)
  ultimately have "unat (k + of_int (delay e)) = unat k + nat (delay e)" by (rule unat_clk_plus_delay)
  then have "unat k + nat (delay e) \<le> unat clk" using le by simp
  then have "int (unat k) + int (nat (delay e)) \<le> int (unat clk)" by linarith
  then show "int (unat k) + delay e \<le> int (unat clk)" using ok(1) by simp
qed

end
