(* ===== verification/Dram_Memory_Inv.thy ===== *)
theory Dram_Memory_Inv
  imports Dram_Timing
begin

text \<open>
  The invariant of the DDR4 media controller: its tree is well-formed, its queues hold requests of
  their kind with addresses inside the organisation, and at most one request waits for a row that has
  been opened for it, and the row is open. Every operation keeps it; the only
  exception that a tick can end in is the overflow of the refresh queue.
\<close>

section \<open>One permitted exception\<close>

definition fails_only :: "'e \<Rightarrow> 'e + 'a \<Rightarrow> ('a \<Rightarrow> bool) \<Rightarrow> bool" where
  "fails_only e m P \<longleftrightarrow> (case m of Inl e' \<Rightarrow> e' = e | Inr x \<Rightarrow> P x)"

lemma fails_only_simps [simp]:
  "fails_only e (Inr x) P = P x" "fails_only e (Inl e') P = (e' = e)"
  by (simp_all add: fails_only_def)

lemma fails_only_ebind: "fails_only e (ebind m f) P \<longleftrightarrow> fails_only e m (\<lambda>x. fails_only e (f x) P)"
  by (cases m) (auto simp: fails_only_def)

lemma fails_only_mono: "fails_only e m P \<Longrightarrow> (\<And>x. P x \<Longrightarrow> Q x) \<Longrightarrow> fails_only e m Q"
  by (cases m) auto

lemma ensures_fails_only: "ensures m P \<Longrightarrow> fails_only e m P"
  by (cases m) auto

lemma fails_only_bindI:
  "fails_only e m Q \<Longrightarrow> (\<And>x. Q x \<Longrightarrow> fails_only e (f x) P) \<Longrightarrow> fails_only e (ebind m f) P"
  by (auto simp: fails_only_ebind elim: fails_only_mono)

section \<open>The invariant\<close>

definition row_open :: "64 word list \<Rightarrow> dram \<Rightarrow> bool" where
  "row_open addr d \<longleftrightarrow> curr_state (regs (bank_of addr d)) = Opened \<and> row_state (regs (bank_of addr d)) (ucast (addr ! 4)) \<noteq> None"

definition channel_ok :: "ddr4 \<Rightarrow> dram \<Rightarrow> bool" where
  "channel_ok s d \<longleftrightarrow> dram_ok s d \<and> node_level (regs d) = Channel \<and> node_id (regs d) = 0"

definition requests_ok :: "ddr4 \<Rightarrow> dram_req_type set \<Rightarrow> dram_request list \<Rightarrow> bool" where
  "requests_ok s types rs \<longleftrightarrow> list_all (\<lambda>r. dram_addr_ok s (dr_mapped r) \<and> dr_type r \<in> types) rs"

lemma requests_ok_simps [simp]:
  "requests_ok s types []"
  "requests_ok s types (r # rs) \<longleftrightarrow> dram_addr_ok s (dr_mapped r) \<and> dr_type r \<in> types \<and> requests_ok s types rs"
  "requests_ok s types (rs @ rs') \<longleftrightarrow> requests_ok s types rs \<and> requests_ok s types rs'"
  by (auto simp: requests_ok_def)

lemma requests_ok_butlast: "requests_ok s types rs \<Longrightarrow> requests_ok s types (butlast rs)"
  by (auto simp: requests_ok_def list_all_iff dest: in_set_butlastD)

definition dram_inv :: "ddr4 \<Rightarrow> addr_t \<Rightarrow> dram_controller \<Rightarrow> bool" where
  "dram_inv s start c \<longleftrightarrow> dm_spec c = s \<and> dm_start_addr c = start \<and> channel_ok s (dm_channel c) \<and>
     rq_wf (read_queue c) \<and> rq_wf (write_queue c) \<and> rq_wf (misc_queue c) \<and>
     requests_ok s {Dram_read} (queue (read_queue c)) \<and> requests_ok s {Dram_write} (queue (write_queue c)) \<and>
     requests_ok s {Dram_refresh} (queue (misc_queue c)) \<and>
     requests_ok s {Dram_read, Dram_write} (queue (act_queue c)) \<and> length (queue (act_queue c)) \<le> 1 \<and>
     list_all (\<lambda>r. row_open (dr_mapped r) (dm_channel c)) (queue (act_queue c)) \<and>
     list_all (\<lambda>r. dr_type r = Dram_read) (pending_queue c)"

text \<open>The reads that wait for their callback.\<close>

definition dram_owed :: "dram_request list \<Rightarrow> (callback \<times> addr_t) multiset" where
  "dram_owed rs = mset (map (\<lambda>r. (dr_callback r, dr_logic r))
     (filter (\<lambda>r. dr_type r = Dram_read \<and> dr_callback r \<noteq> Cb_null) rs))"

lemma dram_owed_simps [simp]:
  "dram_owed [] = {#}"
  "dram_owed (r # rs) = (if dr_type r = Dram_read \<and> dr_callback r \<noteq> Cb_null
     then {#(dr_callback r, dr_logic r)#} else {#}) + dram_owed rs"
  "dram_owed (rs @ rs') = dram_owed rs + dram_owed rs'"
  by (simp_all add: dram_owed_def)

lemma dram_owed_other: "requests_ok s types rs \<Longrightarrow> Dram_read \<notin> types \<Longrightarrow> dram_owed rs = {#}"
  by (induction rs) auto

definition dram_owes :: "dram_controller \<Rightarrow> (callback \<times> addr_t) multiset" where
  "dram_owes c = dram_owed (pending_queue c @ queue (act_queue c) @ queue (read_queue c))"

section \<open>Issue\<close>

lemma dram_report_simps [simp]:
  "dm_spec (dram_report c) = dm_spec c" "dm_start_addr (dram_report c) = dm_start_addr c"
  "dm_channel (dram_report c) = dm_channel c" "dm_clk (dram_report c) = dm_clk c"
  "read_queue (dram_report c) = read_queue c" "write_queue (dram_report c) = write_queue c"
  "misc_queue (dram_report c) = misc_queue c" "act_queue (dram_report c) = act_queue c"
  "pending_queue (dram_report c) = pending_queue c" "last_refreshed_clk (dram_report c) = last_refreshed_clk c"
  by (simp_all add: dram_report_def)

lemma dram_issue_ok:
  assumes inv: "dram_inv s start c" and r: "dram_addr_ok s (dr_mapped r)" "dr_type r \<in> {Dram_read, Dram_write, Dram_refresh}"
  shows "ensures (dram_issue_request r c) (\<lambda>(c', issued, deterministic, clk). dram_inv s start c' \<and>
    \<not> deterministic \<and> clk = clk_invalid \<and>
    issued = (length (queue (the_queue (get_queue (dr_type r)) c)) < max_entries (the_queue (get_queue (dr_type r)) c)) \<and>
    dm_channel c' = dm_channel c \<and> dm_clk c' = dm_clk c \<and> queue (act_queue c') = queue (act_queue c) \<and>
    dram_owes c' = dram_owes c + (if issued then dram_owed [r] else {#}))"
proof -
  let ?r = "r\<lparr>dr_arrive := dm_clk c\<rparr>"
  let ?q = "get_queue (dr_type r)"
  have wf: "rq_wf (the_queue ?q c)" using inv r(2) by (auto simp: dram_inv_def)
  from rq.enq_ensures [OF wf, of ?r] obtain ok q' where q': "rq_enqueue ?r (the_queue ?q c) = Inr (ok, q')" "rq_wf q'"
      "max_entries q' = max_entries (the_queue ?q c)" "ok = (length (queue (the_queue ?q c)) < max_entries (the_queue ?q c))"
      "queue q' = queue (the_queue ?q c) @ (if ok then [?r] else [])"
    by (auto simp: ensures_iff)
  show ?thesis
  proof (cases ok)
    case False
    then show ?thesis using q' inv by (simp add: dram_issue_request_def Let_def)
  next
    case True
    define c1 where "c1 = dram_report (set_queue ?q q' c)"
    have res: "dram_issue_request r c = Inr (dram_fast_forward ?r c1, True, False, clk_invalid)"
      using q'(1) True by (simp add: dram_issue_request_def Let_def c1_def)
    have b: "dram_inv s start c1" "dm_channel c1 = dm_channel c" "dm_clk c1 = dm_clk c" "queue (act_queue c1) = queue (act_queue c)"
        "pending_queue c1 = pending_queue c" "dram_owes c1 = dram_owes c + dram_owed [r]"
      using inv q' True r by (auto simp: c1_def dram_inv_def dram_owes_def)
    show ?thesis
    proof (cases "dr_type r = Dram_read \<and> list_ex (\<lambda>wr. dr_logic r = dr_logic wr) (queue (write_queue c1))")
      case True
      have rq: "queue (read_queue c1) = queue (read_queue c) @ [?r]" "rq_wf (read_queue c1)"
        using True q' \<open>ok\<close> by (auto simp: c1_def)
      have "dram_inv s start (dram_fast_forward ?r c1)"
        using b(1) True rq by (auto simp: dram_fast_forward_def dram_inv_def rq_wf_def)
      moreover have "dram_owes (dram_fast_forward ?r c1) = dram_owes c + dram_owed [r]"
        using b(4,5) True rq by (simp add: dram_fast_forward_def dram_owes_def)
      ultimately show ?thesis using res b True q'(4) \<open>ok\<close> by (simp add: dram_fast_forward_def)
    next
      case False
      then have "dram_fast_forward ?r c1 = c1" by (auto simp: dram_fast_forward_def)
      then show ?thesis using res b q'(4) \<open>ok\<close> by simp
    qed
  qed
qed

section \<open>Serving and refreshing\<close>

lemma dram_serve_pending_ok:
  assumes "dram_inv s start c" "dram_serve_pending c = (c', calls)"
  shows "dram_inv s start c' \<and> dm_channel c' = dm_channel c \<and> dm_clk c' = dm_clk c \<and>
    list_all (\<lambda>(cb, a, t). t = dm_clk c) calls \<and>
    dram_owes c = dram_owes c' + mset (map (\<lambda>(cb, a, t). (cb, a - start)) calls)"
  using assms
  by (auto simp: dram_serve_pending_def dram_inv_def dram_owes_def split: list.splits if_splits)

text \<open>The address of a refresh is inside the organisation.\<close>

definition refresh_addr :: "dram \<Rightarrow> dram \<Rightarrow> 64 word list" where
  "refresh_addr d rank = (replicate (total_levels - 1) 0)[0 := node_id (regs d), 1 := node_id (regs rank)]"

lemma refresh_addr_eq: "refresh_addr d rank = [node_id (regs d), node_id (regs rank), 0, 0, 0]"
  by (simp add: refresh_addr_def total_levels_def numeral_eq_Suc)

definition ddr4_ok :: "ddr4 \<Rightarrow> bool" where
  "ddr4_ok s \<longleftrightarrow> list_all (\<lambda>l. level_count s l \<noteq> 0) [Rank, Bank_group, Bank]"

lemma refresh_addr_ok:
  assumes "ddr4_ok s" "channel_ok s d" "rank \<in> set (children d)"
  shows "dram_addr_ok s (refresh_addr d rank)"
proof -
  obtain r cs where d: "d = Dram r cs" by (cases d)
  obtain k where k: "k < length cs" "rank = cs ! k" using assms(3) d unfolding dram.sel by (metis dram.sel(2) in_set_conv_nth)
  have ok: "dram_ok s (Dram r cs)" "node_level r = Channel" using assms(2) d by (simp_all add: channel_ok_def del: dram_ok.simps)
  have "length cs = unat (level_count s Rank)" using dram_ok_length [OF ok(1)] ok(2) by simp
  moreover have "node_id (regs rank) = of_nat k" using dram_ok_nth [OF ok(1) k(1)] k(2) by simp
  ultimately have "node_id (regs rank) < level_count s Rank"
    using k(1) unsigned_less [of "level_count s Rank", where ?'a = nat]
    by (simp add: word_less_nat_alt unat_of_nat64)
  then show ?thesis using assms(1) by (simp add: dram_addr_ok_def refresh_addr_eq ddr4_ok_def word_gt_0)
qed

lemma dram_refresh_ranks_ok:
  assumes "ddr4_ok s"
  shows "dram_inv s start c \<Longrightarrow> set ranks \<subseteq> set (children (dm_channel c)) \<Longrightarrow>
    fails_only refresh_overflow (dram_refresh_ranks ranks c) (\<lambda>c'. dram_inv s start c' \<and>
      dm_channel c' = dm_channel c \<and> dm_clk c' = dm_clk c \<and> dram_owes c' = dram_owes c)"
proof (induction ranks arbitrary: c)
  case (Cons rank ranks)
  let ?r = "new_mapped_request (refresh_addr (dm_channel c) rank) Dram_refresh"
  have "channel_ok s (dm_channel c)" using Cons.prems by (simp add: dram_inv_def)
  then have "dram_addr_ok s (dr_mapped ?r)"
    using refresh_addr_ok [OF assms] Cons.prems(2) by (simp add: new_mapped_request_def)
  from dram_issue_ok [OF Cons.prems(1) this] obtain c1 iss where
      c1: "dram_issue_request ?r c = Inr (c1, iss, False, clk_invalid)" "dram_inv s start c1"
        "dm_channel c1 = dm_channel c" "dm_clk c1 = dm_clk c" "dram_owes c1 = dram_owes c"
    by (auto simp: new_mapped_request_def ensures_iff split: if_splits)
  show ?case
  proof (cases iss)
    case False
    then show ?thesis using c1(1) by (simp add: refresh_addr_def Let_def)
  next
    case True
    have "set ranks \<subseteq> set (children (dm_channel c1))" using Cons.prems(2) c1(3) by simp
    from Cons.IH [OF c1(2) this] show ?thesis
      using c1 [unfolded refresh_addr_def] True by (simp add: Let_def)
  qed
qed simp

lemma dram_refresh_ok:
  assumes "ddr4_ok s" "dram_inv s start c"
  shows "fails_only refresh_overflow (dram_refresh c) (\<lambda>c'. dram_inv s start c' \<and>
    dm_channel c' = dm_channel c \<and> dm_clk c' = dm_clk c \<and> dram_owes c' = dram_owes c)"
proof -
  have "dram_inv s start c1 \<Longrightarrow> dram_inv s start (c1\<lparr>last_refreshed_clk := k\<rparr>) \<and>
      dram_owes (c1\<lparr>last_refreshed_clk := k\<rparr>) = dram_owes c1" for c1 k
    by (simp add: dram_inv_def dram_owes_def)
  then show ?thesis
    using dram_refresh_ranks_ok [OF assms order_refl] assms(2)
    by (auto simp: dram_refresh_def fails_only_ebind elim!: fails_only_mono)
qed

lemma dram_write_prior_ok:
  "dram_inv s start c \<Longrightarrow> dram_inv s start (dram_write_prior c)"
  "dm_channel (dram_write_prior c) = dm_channel c" "dm_clk (dram_write_prior c) = dm_clk c"
  "dram_owes (dram_write_prior c) = dram_owes c"
  by (auto simp: dram_write_prior_def dram_inv_def dram_owes_def)

section \<open>Scheduling\<close>

text \<open>
  A command is legal in the state of the banks: accesses go to open rows, a closed bank is
  activated, a bank with another row open is precharged, and a rank is refreshed when all its banks are closed.
\<close>

definition state_legal :: "command \<Rightarrow> 64 word list \<Rightarrow> dram \<Rightarrow> bool" where
  "state_legal cmd addr d \<longleftrightarrow>
     (let b = bank_of addr d; row = ucast (addr ! 4); closed = all_closed (children (children d ! unat (addr ! 1))) in
      case cmd of
        ACT \<Rightarrow> curr_state (regs b) = Closed
      | PRE \<Rightarrow> curr_state (regs b) \<noteq> Closed \<and> row_state (regs b) row = None
      | RD \<Rightarrow> row_open addr d
      | WR \<Rightarrow> row_open addr d
      | REF \<Rightarrow> closed
      | PREA \<Rightarrow> \<not> closed
      | _ \<Rightarrow> False)"

definition issues :: "ddr4 \<Rightarrow> clk_t \<Rightarrow> dram \<Rightarrow> dram \<Rightarrow> bool" where
  "issues s clk d d' \<longleftrightarrow> (\<exists>cmd addr. plain_cmd cmd \<and> dram_addr_ok s addr \<and> dram_check cmd addr clk d = Inr True \<and>
     state_legal cmd addr d \<and> dram_update (ddr4_timings s) cmd addr clk d = Inr d')"

lemma channel_ok_simps: "channel_ok s d \<Longrightarrow> dram_ok s d \<and> level_index (node_level (regs d)) < 4"
  by (simp add: channel_ok_def)

lemma bank_open_or_closed:
  assumes "channel_ok s d" "dram_addr_ok s addr"
  shows "curr_state (regs (bank_of addr d)) = Opened \<or> curr_state (regs (bank_of addr d)) = Closed"
proof -
  obtain r cs where b: "bank_of addr d = Dram r cs" by (cases "bank_of addr d")
  show ?thesis using bank_of_ok [of s d addr] channel_ok_simps [OF assms(1)] assms(2) b by (auto simp: regs_ok_def)
qed

text \<open>The command that a request needs first.\<close>

lemma first_cmd_access:
  assumes "channel_ok s (dm_channel c)" "dram_addr_ok s (dr_mapped r)" "dr_type r \<in> {Dram_read, Dram_write}"
  shows "get_first_cmd r c = Inr (access_cmd (req_to_cmd (dr_type r)) (ucast (dr_mapped r ! 4)) (bank_of (dr_mapped r) (dm_channel c)))"
  unfolding get_first_cmd_def using assms channel_ok_simps by (intro decode_access) auto

lemma access_cmd_legal:
  assumes "channel_ok s d" "dram_addr_ok s addr" "cmd = RD \<or> cmd = WR"
    and "c = access_cmd cmd (ucast (addr ! 4)) (bank_of addr d)"
  shows "plain_cmd c" "state_legal c addr d" "c \<in> {ACT, PRE, cmd}" "row_open addr d \<longleftrightarrow> c = cmd"
  using bank_open_or_closed [OF assms(1,2)] assms(3,4)
  by (auto simp: access_cmd_def plain_cmd_def state_legal_def row_open_def Let_def)

lemma refresh_cmd_legal:
  assumes "channel_ok s d" "dram_addr_ok s addr"
  obtains c where "dram_decode REF addr d = Inr c" "plain_cmd c" "state_legal c addr d" "c = REF \<or> c = PREA"
  using decode_refresh [of s d addr] assms by (auto simp: channel_ok_def plain_cmd_def state_legal_def Let_def)

text \<open>What an update leaves: the tree, and the row that an activation opened.\<close>

lemma tree_rel_bank_state:
  "tree_rel (clock_change t) d d' \<Longrightarrow> curr_state (regs (bank_of addr d')) = curr_state (regs (bank_of addr d)) \<and>
    row_state (regs (bank_of addr d')) = row_state (regs (bank_of addr d))"
  using tree_rel_regs [OF tree_rel_bank [of "clock_change t" d d' addr]] by (simp add: clock_change_def keeps_def)

lemma bank_of_set_clk:
  assumes "channel_ok s d" "dram_addr_ok s addr"
  shows "bank_of addr (set_node_clk clk d) = bank_of addr d"
proof (cases d)
  case (Dram r cs)
  then have "dram_ok s (Dram r cs)" "node_level r = Channel" using assms(1) by (simp_all add: channel_ok_def del: dram_ok.simps)
  then show ?thesis using dram_ok_child [of s r cs addr] assms(2) Dram by (auto simp: Let_def)
qed

lemma channel_update_ok:
  assumes "channel_ok s d" "dram_addr_ok s addr" "plain_cmd cmd"
  shows "ensures (dram_update (ddr4_timings s) cmd addr clk d) (\<lambda>d'. channel_ok s d' \<and> (cmd = ACT \<longrightarrow> row_open addr d'))"
proof -
  from assms(1) have ok: "dram_ok s d" "node_level (regs d) = Channel" by (simp_all add: channel_ok_def)
  obtain d' e where u: "dram_update (ddr4_timings s) cmd addr clk d = Inr d'" "dram_ok s d'" "node_level (regs d') = Channel"
      "node_id (regs d') = node_id (regs d)" "dram_update_state cmd addr (set_node_clk clk d) = Inr e"
      "tree_rel (clock_change (ddr4_timings s)) e d'"
    using update_ok [OF ok(1) assms(2) ok(2) assms(3), of clk] by (auto simp: ensures_iff)
  have "row_open addr d'" if "cmd = ACT"
  proof -
    have "dram_ok s (set_node_clk clk d)" "level_index (node_level (regs (set_node_clk clk d))) < 4"
      using ok by (cases d; simp add: regs_ok_def)+
    then have "bank_of addr e = bank_activate (ucast (addr ! 4)) (bank_of addr d)"
      using update_state_bank [of s "set_node_clk clk d" addr cmd] that u(5) assms(2) bank_of_set_clk [OF assms(1,2)]
      by (simp add: bank_effect_def)
    then show ?thesis using tree_rel_bank_state [OF u(6), of addr]
      by (cases "bank_of addr d") (simp add: row_open_def)
  qed
  then show ?thesis using u assms(1) by (simp add: channel_ok_def)
qed

text \<open>The part of a scheduling step that all queues share.\<close>

lemma dram_schedule_front:
  assumes "channel_ok s (dm_channel c)" "dm_spec c = s" "dram_addr_ok s (dr_mapped r)"
    and "get_first_cmd r c = Inr cmd" "plain_cmd cmd" "state_legal cmd (dr_mapped r) (dm_channel c)"
    and "queue (the_queue q c) = r # rest"
  shows "dram_schedule q c = Inr c \<or>
    (\<exists>d'. channel_ok s d' \<and> (cmd = ACT \<longrightarrow> row_open (dr_mapped r) d') \<and> issues s (dm_clk c) (dm_channel c) d' \<and>
      dram_schedule q c = dram_after_cmd q (r\<lparr>dr_first_cmd := False\<rparr>) rest cmd
        (set_queue q ((the_queue q c)\<lparr>queue := r\<lparr>dr_first_cmd := False\<rparr> # rest\<rparr>) (c\<lparr>dm_channel := d'\<rparr>)))"
proof -
  obtain ready where ready: "dram_check cmd (dr_mapped r) (dm_clk c) (dm_channel c) = Inr ready"
    using check_ok [of s "dm_channel c" "dr_mapped r"] channel_ok_simps [OF assms(1)] assms(3) by (auto simp: ensures_iff)
  obtain d' where d': "dram_update (ddr4_timings s) cmd (dr_mapped r) (dm_clk c) (dm_channel c) = Inr d'"
      "channel_ok s d'" "cmd = ACT \<longrightarrow> row_open (dr_mapped r) d'"
    using channel_update_ok [OF assms(1,3,5)] by (auto simp: ensures_iff)
  have first: "get_first_cmd (r\<lparr>dr_first_cmd := False\<rparr>) (set_queue q qq c) = Inr cmd" for qq
    using assms(4) by (cases q) (simp_all add: get_first_cmd_def)
  have issue: "issue_cmd cmd (dr_mapped r) (set_queue q qq c) = Inr (set_queue q qq (c\<lparr>dm_channel := d'\<rparr>))" for qq
    using d'(1) assms(2) by (cases q) (simp_all add: issue_cmd_def)
  show ?thesis
  proof (cases ready)
    case True
    then have "issues s (dm_clk c) (dm_channel c) d'"
      using assms(3,5,6) ready d'(1) by (auto simp: issues_def)
    then show ?thesis
      using True d' assms(4,7) ready first issue by (auto simp: dram_schedule_def dram_is_ready_def Let_def)
  next
    case False
    then show ?thesis using assms(4,7) ready by (simp add: dram_schedule_def dram_is_ready_def)
  qed
qed

definition schedule_post :: "ddr4 \<Rightarrow> addr_t \<Rightarrow> dram_controller \<Rightarrow> dram_controller \<Rightarrow> bool" where
  "schedule_post s start c c' \<longleftrightarrow> dram_inv s start c' \<and> dram_owes c' = dram_owes c \<and> dm_clk c' = dm_clk c \<and>
     (dm_channel c' = dm_channel c \<or> issues s (dm_clk c) (dm_channel c) (dm_channel c'))"

lemma schedule_post_refl: "dram_inv s start c \<Longrightarrow> schedule_post s start c c"
  by (simp add: schedule_post_def)

lemma dram_schedule_act_ok:
  assumes "dram_inv s start c" "queue (act_queue c) = r # rest"
  shows "ensures (dram_schedule Q_act c) (schedule_post s start c)"
proof -
  have rest: "rest = []" using assms by (cases rest) (auto simp: dram_inv_def)
  have ok: "channel_ok s (dm_channel c)" "dm_spec c = s" "dram_addr_ok s (dr_mapped r)" "dr_type r \<in> {Dram_read, Dram_write}"
      "row_open (dr_mapped r) (dm_channel c)"
    using assms by (simp_all add: dram_inv_def)
  define cmd where "cmd = req_to_cmd (dr_type r)"
  have rw: "cmd = RD \<or> cmd = WR" using ok(4) by (auto simp: cmd_def)
  note legal = access_cmd_legal [OF ok(1,3) rw refl]
  have same: "access_cmd cmd (ucast (dr_mapped r ! 4)) (bank_of (dr_mapped r) (dm_channel c)) = cmd"
    using legal(4) ok(5) by simp
  have first: "get_first_cmd r c = Inr cmd" using first_cmd_access [OF ok(1,3,4)] same by (simp add: cmd_def)
  from dram_schedule_front [OF ok(1,2,3) first, of Q_act rest] legal(1,2) same assms(2)
  consider "dram_schedule Q_act c = Inr c" | d' where "channel_ok s d'" "issues s (dm_clk c) (dm_channel c) d'"
      "dram_schedule Q_act c = dram_after_cmd Q_act (r\<lparr>dr_first_cmd := False\<rparr>) rest cmd
        (set_queue Q_act ((act_queue c)\<lparr>queue := r\<lparr>dr_first_cmd := False\<rparr> # rest\<rparr>) (c\<lparr>dm_channel := d'\<rparr>))"
    by auto
  then show ?thesis
  proof cases
    case 1
    then show ?thesis using schedule_post_refl [OF assms(1)] by simp
  next
    case 2
    have acc: "is_accessing cmd" using rw by auto
    show ?thesis
      using 2 acc assms rest ok(4)
      by (auto simp: dram_after_cmd_def Let_def schedule_post_def dram_inv_def dram_owes_def)
  qed
qed

lemma dram_schedule_misc_ok:
  assumes "dram_inv s start c" "queue (act_queue c) = []"
  shows "ensures (dram_schedule Q_misc c) (schedule_post s start c)"
proof (cases "queue (misc_queue c)")
  case Nil
  then show ?thesis using schedule_post_refl [OF assms(1)] by (simp add: dram_schedule_def)
next
  case (Cons r rest)
  have ok: "channel_ok s (dm_channel c)" "dm_spec c = s" "dram_addr_ok s (dr_mapped r)" "dr_type r = Dram_refresh"
    using assms Cons by (simp_all add: dram_inv_def)
  obtain cmd where cmd: "dram_decode REF (dr_mapped r) (dm_channel c) = Inr cmd" "plain_cmd cmd"
      "state_legal cmd (dr_mapped r) (dm_channel c)" "cmd = REF \<or> cmd = PREA"
    by (rule refresh_cmd_legal [OF ok(1,3)])
  have first: "get_first_cmd r c = Inr cmd" using cmd(1) ok(4) by (simp add: get_first_cmd_def)
  from dram_schedule_front [OF ok(1,2,3) first cmd(2,3), of Q_misc rest] Cons
  consider "dram_schedule Q_misc c = Inr c" | d' where "channel_ok s d'" "issues s (dm_clk c) (dm_channel c) d'"
      "dram_schedule Q_misc c = dram_after_cmd Q_misc (r\<lparr>dr_first_cmd := False\<rparr>) rest cmd
        (set_queue Q_misc ((misc_queue c)\<lparr>queue := r\<lparr>dr_first_cmd := False\<rparr> # rest\<rparr>) (c\<lparr>dm_channel := d'\<rparr>))"
    by auto
  then show ?thesis
  proof cases
    case 1
    then show ?thesis using schedule_post_refl [OF assms(1)] by simp
  next
    case 2
    show ?thesis
      using 2 cmd(4) assms Cons ok(4)
      by (auto simp: dram_after_cmd_def Let_def is_refreshing_def is_opening_def schedule_post_def dram_inv_def dram_owes_def
          rq_wf_def)
  qed
qed

lemma dram_schedule_access_ok:
  assumes "dram_inv s start c" "queue (act_queue c) = []" "q = Q_read \<or> q = Q_write"
  shows "ensures (dram_schedule q c) (schedule_post s start c)"
proof (cases "queue (the_queue q c)")
  case Nil
  then show ?thesis using schedule_post_refl [OF assms(1)] by (simp add: dram_schedule_def)
next
  case (Cons r rest)
  have ok: "channel_ok s (dm_channel c)" "dm_spec c = s" "dram_addr_ok s (dr_mapped r)" "dr_type r \<in> {Dram_read, Dram_write}"
    using assms Cons by (auto simp: dram_inv_def)
  define cmd where "cmd = req_to_cmd (dr_type r)"
  have rw: "cmd = RD \<or> cmd = WR" using ok(4) by (auto simp: cmd_def)
  define c0 where "c0 = access_cmd cmd (ucast (dr_mapped r ! 4)) (bank_of (dr_mapped r) (dm_channel c))"
  note legal = access_cmd_legal [OF ok(1,3) rw c0_def]
  have first: "get_first_cmd r c = Inr c0" using first_cmd_access [OF ok(1,3,4)] by (simp add: cmd_def c0_def)
  from dram_schedule_front [OF ok(1,2,3) first legal(1,2) Cons]
  consider "dram_schedule q c = Inr c" | d' where "channel_ok s d'" "issues s (dm_clk c) (dm_channel c) d'"
      "c0 = ACT \<longrightarrow> row_open (dr_mapped r) d'"
      "dram_schedule q c = dram_after_cmd q (r\<lparr>dr_first_cmd := False\<rparr>) rest c0
        (set_queue q ((the_queue q c)\<lparr>queue := r\<lparr>dr_first_cmd := False\<rparr> # rest\<rparr>) (c\<lparr>dm_channel := d'\<rparr>))"
    by auto
  then show ?thesis
  proof cases
    case 1
    then show ?thesis using schedule_post_refl [OF assms(1)] by simp
  next
    case 2
    consider (act) "c0 = ACT" | (pre) "c0 = PRE" | (acc) "c0 = cmd" "is_accessing c0" "\<not> is_opening c0"
      using legal(3) rw by (auto simp: is_opening_def)
    then show ?thesis
    proof cases
      case act
      then show ?thesis
        using 2 assms Cons
        by (auto simp: dram_after_cmd_def Let_def is_refreshing_def is_opening_def schedule_post_def dram_inv_def dram_owes_def
          rq_wf_def)
    next
      case pre
      then show ?thesis
        using 2 assms Cons
        by (auto simp: dram_after_cmd_def Let_def is_refreshing_def is_opening_def schedule_post_def dram_inv_def dram_owes_def
          rq_wf_def)
    next
      case acc
      then show ?thesis
        using 2 assms Cons
        by (auto simp: dram_after_cmd_def Let_def schedule_post_def dram_inv_def dram_owes_def rq_wf_def)
    qed
  qed
qed

lemma dram_schedule_ok:
  assumes "dram_inv s start c"
  shows "ensures (dram_schedule (dram_pick_queue c) c) (schedule_post s start c)"
proof (cases "queue (act_queue c)")
  case Nil
  then show ?thesis
    using dram_schedule_misc_ok [OF assms Nil] dram_schedule_access_ok [OF assms Nil]
    by (simp add: dram_pick_queue_def rq_size_def)
next
  case (Cons r rest)
  then show ?thesis using dram_schedule_act_ok [OF assms Cons] by (simp add: dram_pick_queue_def rq_size_def)
qed

section \<open>A cycle\<close>

lemma dram_tick_ok:
  assumes "ddr4_ok s" "dram_inv s start c"
  shows "fails_only refresh_overflow (dram_tick clk c) (\<lambda>(c', calls). dram_inv s start c' \<and> dm_clk c' = clk \<and>
    list_all (\<lambda>(cb, a, t). t = clk) calls \<and>
    dram_owes c = dram_owes c' + mset (map (\<lambda>(cb, a, t). (cb, a - start)) calls) \<and>
    (dm_channel c' = dm_channel c \<or> issues s clk (dm_channel c) (dm_channel c')))"
proof -
  obtain c1 calls where c1: "dram_serve_pending (c\<lparr>dm_clk := clk\<rparr>) = (c1, calls)" by fastforce
  have "dram_inv s start (c\<lparr>dm_clk := clk\<rparr>)" using assms(2) by (simp add: dram_inv_def)
  from dram_serve_pending_ok [OF this c1]
  have p: "dram_inv s start c1" "dm_channel c1 = dm_channel c" "dm_clk c1 = clk" "list_all (\<lambda>(cb, a, t). t = clk) calls"
      "dram_owes c = dram_owes c1 + mset (map (\<lambda>(cb, a, t). (cb, a - start)) calls)"
    by (simp_all add: dram_owes_def)
  have "fails_only refresh_overflow (dram_schedule (dram_pick_queue (dram_write_prior c2)) (dram_write_prior c2))
      (\<lambda>c'. dram_inv s start c' \<and> dm_clk c' = clk \<and> dram_owes c' = dram_owes c1 \<and>
         (dm_channel c' = dm_channel c \<or> issues s clk (dm_channel c) (dm_channel c')))"
    if "dram_inv s start c2 \<and> dm_channel c2 = dm_channel c1 \<and> dm_clk c2 = dm_clk c1 \<and> dram_owes c2 = dram_owes c1" for c2
  proof -
    have "dram_inv s start (dram_write_prior c2)" using that dram_write_prior_ok(1) by blast
    from ensures_fails_only [OF dram_schedule_ok [OF this], of refresh_overflow] show ?thesis
      by (rule fails_only_mono) (use that p(2,3) dram_write_prior_ok(2-4) in \<open>auto simp: schedule_post_def\<close>)
  qed
  then have s: "fails_only refresh_overflow (ebind (dram_refresh c1) (\<lambda>c. let c = dram_write_prior c in dram_schedule (dram_pick_queue c) c))
      (\<lambda>c'. dram_inv s start c' \<and> dm_clk c' = clk \<and> dram_owes c' = dram_owes c1 \<and>
         (dm_channel c' = dm_channel c \<or> issues s clk (dm_channel c) (dm_channel c')))"
    unfolding Let_def by (rule fails_only_bindI [OF dram_refresh_ok [OF assms(1) p(1)]])
  have "dram_tick clk c = ebind (ebind (dram_refresh c1) (\<lambda>c. let c = dram_write_prior c in dram_schedule (dram_pick_queue c) c))
      (\<lambda>c. Inr (c, calls))"
    using c1 by (cases "dram_refresh c1") (simp_all add: dram_tick_def Let_def)
  then show ?thesis
    using s p(4,5) by (auto simp: fails_only_ebind elim!: fails_only_mono)
qed

end
