(* ===== verification/Dram_System.thy ===== *)
theory Dram_System
  imports Dram_Memory_Inv
begin

text \<open>
  The DDR4 memory as a component: its invariant, the history of the commands that it has issued,
  and its place in the contract of responders. A tick can end in one exception, the overflow of
  the refresh queue; \<open>skip_failure\<close> is the component that ignores such a tick, and a run of the
  real component is a run of that one or ends in the exception.
\<close>

section \<open>Ignoring one exception\<close>

definition skip_failure :: "vans_error \<Rightarrow> 'n component_ops \<Rightarrow> 'n component_ops" where
  "skip_failure e ops = ops\<lparr>tick := (\<lambda>clk n.
     case tick ops clk n of Inl e' \<Rightarrow> if e' = e then Inr (n, []) else Inl e' | Inr x \<Rightarrow> Inr x)\<rparr>"

lemma skip_failure_simps [simp]:
  "issue_request (skip_failure e ops) = issue_request ops" "full (skip_failure e ops) = full ops"
  "is_pending (skip_failure e ops) = is_pending ops" "drain (skip_failure e ops) = drain ops"
  by (simp_all add: skip_failure_def)

text \<open>Operations that agree with others, up to one exception in a tick.\<close>

definition same_or_fails :: "'e \<Rightarrow> 'e + 'a \<Rightarrow> 'e + 'a \<Rightarrow> bool" where
  "same_or_fails e m m' \<longleftrightarrow> m = m' \<or> m = Inl e"

lemma same_or_fails_refl [simp]: "same_or_fails e m m"
  by (simp add: same_or_fails_def)

lemma same_or_fails_ebind:
  "same_or_fails e m m' \<Longrightarrow> (\<And>x. same_or_fails e (f x) (f' x)) \<Longrightarrow> same_or_fails e (ebind m f) (ebind m' f')"
proof (cases "m = Inl e")
  case False
  assume "same_or_fails e m m'" "\<And>x. same_or_fails e (f x) (f' x)"
  with False show ?thesis by (cases m') (auto simp: same_or_fails_def)
qed (simp add: same_or_fails_def)

lemma same_or_fails_only: "same_or_fails e m m' \<Longrightarrow> ensures m' P \<Longrightarrow> fails_only e m P"
  by (auto simp: same_or_fails_def ensures_fails_only)

definition ops_upto :: "vans_error \<Rightarrow> 'n component_ops \<Rightarrow> 'n component_ops \<Rightarrow> bool" where
  "ops_upto e ops ops' \<longleftrightarrow> (\<exists>t. ops = ops'\<lparr>tick := t\<rparr> \<and> (\<forall>clk n. same_or_fails e (t clk n) (tick ops' clk n)))"

lemma skip_failure_upto: "ops_upto e ops (skip_failure e ops)"
proof -
  have "ops = (skip_failure e ops)\<lparr>tick := tick ops\<rparr>" by (simp add: skip_failure_def)
  moreover have "same_or_fails e (tick ops clk n) (tick (skip_failure e ops) clk n)" for clk n
    by (auto simp: skip_failure_def same_or_fails_def split: sum.split)
  ultimately show ?thesis unfolding ops_upto_def by blast
qed

lemma component_run_upto:
  assumes "ops_upto e ops ops'"
  shows "same_or_fails e (component_run ops evs n) (component_run ops' evs n)"
proof (induction evs arbitrary: n)
  case (Cons ev evs)
  obtain t where t: "ops = ops'\<lparr>tick := t\<rparr>" "\<And>clk n. same_or_fails e (t clk n) (tick ops' clk n)"
    using assms by (auto simp: ops_upto_def)
  show ?case
  proof (cases ev)
    case (Ev_issue r)
    then show ?thesis using t(1) Cons.IH
      by (auto simp: split_def intro!: same_or_fails_ebind)
  next
    case (Ev_tick clk)
    then show ?thesis using t Cons.IH
      by (auto simp: split_def intro!: same_or_fails_ebind)
  qed
qed simp

section \<open>Histories\<close>

text \<open>Each command was let through by the timing table and the states that the commands before it had left.\<close>

fun legal_history :: "ddr4 \<Rightarrow> dram_history \<Rightarrow> bool" where
  "legal_history s [] \<longleftrightarrow> True"
| "legal_history s ((cmd, addr, clk) # h) \<longleftrightarrow> legal_history s h \<and>
     (addr ! 0 = 0 \<longrightarrow> timing_respected (ddr4_timings s) h cmd addr clk) \<and>
     (\<exists>d. issue_all (ddr4_timings s) h (new_dram s Channel 0) = Inr d \<and> state_legal cmd addr d)"

definition has_history :: "ddr4 \<Rightarrow> dram \<Rightarrow> bool" where
  "has_history s d \<longleftrightarrow> (\<exists>h. history_ok s h \<and> legal_history s h \<and> issue_all (ddr4_timings s) h (new_dram s Channel 0) = Inr d)"

lemma has_history_issues:
  assumes "has_history s d" "issues s clk d d'" "small_clk clk" "timing_ok (ddr4_timings s)"
  shows "has_history s d'"
proof -
  obtain h where h: "history_ok s h" "legal_history s h" "issue_all (ddr4_timings s) h (new_dram s Channel 0) = Inr d"
    using assms(1) by (auto simp: has_history_def)
  obtain cmd addr where c: "plain_cmd cmd" "dram_addr_ok s addr" "dram_check cmd addr clk d = Inr True"
      "state_legal cmd addr d" "dram_update (ddr4_timings s) cmd addr clk d = Inr d'"
    using assms(2) by (auto simp: issues_def)
  have "nodes_know s h d" using nodes_know_all [OF assms(4) h(1)] h(3) by simp
  from check_respects_history [OF this assms(4) h(1) c(3,2)]
  have "legal_history s ((cmd, addr, clk) # h)" using h(2,3) c(4) by simp
  moreover have "history_ok s ((cmd, addr, clk) # h)" using h(1) c(1,2) assms(3) by (simp add: history_ok_def)
  moreover have "issue_all (ddr4_timings s) ((cmd, addr, clk) # h) (new_dram s Channel 0) = Inr d'" using h(3) c(5) by simp
  ultimately show ?thesis unfolding has_history_def by blast
qed

section \<open>The invariant of the memory\<close>

definition dram_memory_inv :: "ddr4 \<Rightarrow> addr_t \<Rightarrow> dram_memory \<Rightarrow> bool" where
  "dram_memory_inv s start m \<longleftrightarrow> counts_ok s \<and> timing_ok (ddr4_timings s) \<and> dram_mapping_wf (mapper m) \<and>
     list_all (\<lambda>l. 2 ^ level_width (mapper m) (level_index l) \<le> unat (level_count s l)) [Rank, Bank_group, Bank] \<and>
     dram_inv s start (dm_ctrl m) \<and> has_history s (dm_channel (dm_ctrl m))"

definition dram_memory_owes :: "dram_memory \<Rightarrow> (callback \<times> addr_t) multiset" where
  "dram_memory_owes m = dram_owes (dm_ctrl m)"

lemma counts_ddr4_ok: "counts_ok s \<Longrightarrow> ddr4_ok s"
  by (auto simp: counts_ok_def ddr4_ok_def all_levels_def)

lemma new_dram_memory_inv:
  assumes m: "new_dram_memory s (concat ts) epoch n start = Inr m"
    and ts: "mset ts = mset level_names" and s: "counts_ok s" "timing_ok (ddr4_timings s)"
  shows "dram_memory_inv s start m" "dram_memory_owes m = {#}"
proof -
  obtain p where p: "new_dram_mapping s (concat ts) = Inr p" "mapper m = p"
      "dm_ctrl m = new_dram_controller s (new_dram s Channel 0) epoch n start"
    using m by (auto simp: new_dram_memory_def ebind_eq_Inr Let_def split: if_splits)
  note w = new_dram_mapping_wf [OF p(1) ts s(1)]
  have fits: "2 ^ level_width p (level_index l) \<le> unat (level_count s l)" if "l \<noteq> Col" for l
    using w(4) [of l] that log2_32 [of "level_count s l"] s(1) by (cases l) (auto simp: counts_ok_def all_levels_def)
  have "dram_inv s start (dm_ctrl m)"
    unfolding p(3) by (simp add: dram_inv_def new_dram_controller_def new_request_queue_def channel_ok_def dram_ok_new
        new_regs_def rq_wf_def)
  moreover have "has_history s (dm_channel (dm_ctrl m))"
    unfolding has_history_def p(3) by (rule exI [of _ "[]"]) (simp add: new_dram_controller_def history_ok_def)
  moreover have "list_all (\<lambda>l. 2 ^ level_width p (level_index l) \<le> unat (level_count s l)) [Rank, Bank_group, Bank]"
    using fits [of Rank] fits [of Bank_group] fits [of Bank] by simp
  ultimately show "dram_memory_inv s start m" using w(1) s p(2) by (simp add: dram_memory_inv_def)
  show "dram_memory_owes m = {#}"
    by (simp add: dram_memory_owes_def dram_owes_def p(3) new_dram_controller_def new_request_queue_def)
qed

text \<open>Mapped addresses are inside the organisation.\<close>

lemma dram_map_in_range:
  assumes "dram_memory_inv s start m"
  shows "ensures (dram_map (mapper m) a) (dram_addr_ok s)"
proof -
  have wf: "dram_mapping_wf (mapper m)" using assms by (simp add: dram_memory_inv_def)
  have w: "2 ^ level_width (mapper m) (level_index l) \<le> unat (level_count s l)" if "l \<in> {Rank, Bank_group, Bank}" for l
    using assms that by (auto simp: dram_memory_inv_def)
  show ?thesis
  proof (rule ensures_mono [OF dram_map_unmap [OF wf]], elim conjE)
    fix addr :: "64 word list"
    assume addr: "length addr = total_levels" "\<forall>l < total_levels. unat (addr ! l) < 2 ^ level_width (mapper m) l"
    have "addr ! level_index l < level_count s l" if "l \<in> {Rank, Bank_group, Bank}" for l
    proof -
      have "level_index l < total_levels" by (cases l) (simp_all add: total_levels_def)
      then have "unat (addr ! level_index l) < 2 ^ level_width (mapper m) (level_index l)" using addr(2) by blast
      then show ?thesis using w [OF that] by (simp add: word_less_nat_alt)
    qed
    from this [of Rank] this [of Bank_group] this [of Bank]
    have "list_all (\<lambda>l. addr ! level_index l < level_count s l) [Rank, Bank_group, Bank]" by simp
    then show "dram_addr_ok s addr" using addr(1) by (simp add: dram_addr_ok_def total_levels_def)
  qed
qed

lemma dram_memory_issue_ok:
  assumes "dram_memory_inv s start m"
  shows "ensures (dram_memory_issue_request m r) (\<lambda>(m', r', issued, deterministic, clk). dram_memory_inv s start m' \<and>
    r' = r \<and> \<not> deterministic \<and>
    issued = (case req_type r of
        Base_read \<Rightarrow> length (queue (read_queue (dm_ctrl m))) < max_entries (read_queue (dm_ctrl m))
      | Base_write \<Rightarrow> length (queue (write_queue (dm_ctrl m))) < max_entries (write_queue (dm_ctrl m))) \<and>
    dram_memory_owes m' = dram_memory_owes m +
      (if issued \<and> is_read_with_callback r then {#(req_callback r, req_addr r)#} else {#}))"
proof -
  let ?i = "new_dram_request r"
  obtain addr where addr: "dram_map (mapper m) (dr_logic ?i) = Inr addr" "dram_addr_ok s addr"
    using dram_map_in_range [OF assms] by (auto simp: ensures_iff)
  have inv: "dram_inv s start (dm_ctrl m)" using assms by (simp add: dram_memory_inv_def)
  have t: "dr_type ?i = (case req_type r of Base_read \<Rightarrow> Dram_read | Base_write \<Rightarrow> Dram_write)"
      "dr_callback ?i = req_callback r" "dr_logic ?i = req_addr r"
    by (simp_all add: new_dram_request_def)
  from dram_issue_ok [OF inv, of "?i\<lparr>dr_mapped := addr\<rparr>"] addr(2) obtain c iss clk where
      c: "dram_issue_request (?i\<lparr>dr_mapped := addr\<rparr>) (dm_ctrl m) = Inr (c, iss, False, clk)" "dram_inv s start c"
        "iss = (length (queue (the_queue (get_queue (dr_type ?i)) (dm_ctrl m))) < max_entries (the_queue (get_queue (dr_type ?i)) (dm_ctrl m)))"
        "dm_channel c = dm_channel (dm_ctrl m)"
        "dram_owes c = dram_owes (dm_ctrl m) + (if iss then dram_owed [?i\<lparr>dr_mapped := addr\<rparr>] else {#})"
    using t(1) by (auto simp: ensures_iff split: base_request_type.splits)
  have "dram_memory_inv s start (m\<lparr>dm_ctrl := c\<rparr>)" using assms c(2,4) by (simp add: dram_memory_inv_def)
  then show ?thesis
    using addr(1) c t by (simp add: dram_memory_issue_request_def Let_def dram_memory_owes_def is_read_with_callback_def
        split: base_request_type.split)
qed

lemma dram_memory_tick_ok:
  assumes "dram_memory_inv s start m" "small_clk clk"
  shows "fails_only refresh_overflow (dram_memory_tick clk m) (\<lambda>(m', calls). dram_memory_inv s start m' \<and>
    list_all (\<lambda>(cb, a, t). t = clk) calls \<and>
    dram_memory_owes m = dram_memory_owes m' + mset (map (\<lambda>(cb, a, t). (cb, a - start)) calls))"
proof -
  have inv: "dram_inv s start (dm_ctrl m)" "ddr4_ok s" "timing_ok (ddr4_timings s)" "has_history s (dm_channel (dm_ctrl m))"
    using assms(1) counts_ddr4_ok by (simp_all add: dram_memory_inv_def)
  have "dram_memory_inv s start (m\<lparr>dm_ctrl := c\<rparr>)"
    if "dram_inv s start c" "dm_channel c = dm_channel (dm_ctrl m) \<or> issues s clk (dm_channel (dm_ctrl m)) (dm_channel c)" for c
  proof -
    have "has_history s (dm_channel c)" using that(2) has_history_issues [OF inv(4) _ assms(2) inv(3)] inv(4) by auto
    then show ?thesis using assms(1) that(1) by (simp add: dram_memory_inv_def)
  qed
  then show ?thesis
    using dram_tick_ok [OF inv(2,1), of clk]
    by (auto simp: dram_memory_tick_def fails_only_ebind dram_memory_owes_def elim!: fails_only_mono)
qed

section \<open>The contract\<close>

abbreviation dram_skip_ops :: "dram_memory component_ops" where
  "dram_skip_ops \<equiv> skip_failure refresh_overflow dram_memory_ops"

interpretation dram_mem: responder dram_skip_ops "dram_memory_inv s 0" dram_memory_owes "\<lambda>a. a" is_read_with_callback for s
proof
  fix m :: dram_memory and r :: base_request and clk :: clk_t
  assume inv: "dram_memory_inv s 0 m"
  have ops: "issue_request dram_memory_ops = dram_memory_issue_request" "full dram_memory_ops = (\<lambda>m. dram_full (dm_ctrl m))"
      "is_pending dram_memory_ops = (\<lambda>m. dram_pending (dm_ctrl m))" "tick dram_memory_ops = dram_memory_tick"
    by (simp_all add: dram_memory_ops_def)
  have i: "issue_request dram_skip_ops m r = dram_memory_issue_request m r" by (simp add: ops)
  note ok = dram_memory_issue_ok [OF inv, of r]
  have wf: "rq_wf (read_queue (dm_ctrl m))" "rq_wf (write_queue (dm_ctrl m))"
    using inv by (simp_all add: dram_memory_inv_def dram_inv_def)
  show "ensures (issue_request dram_skip_ops m r) (\<lambda>(n', r', issued, deterministic, next_clk).
      dram_memory_inv s 0 n' \<and> (issued \<longrightarrow> deterministic \<longrightarrow> next_clk \<noteq> clk_invalid))"
    unfolding i by (rule ensures_mono [OF ok]) auto
  show "ensures (full dram_skip_ops m) (\<lambda>b. True)"
    using wf by (simp add: ops dram_full_def rq.full_spec)
  show "ensures (is_pending dram_skip_ops m) (\<lambda>b. True)"
    by (simp add: ops dram_pending_def)
  show "ensures (issue_request dram_skip_ops m r) (\<lambda>(n', r', issued, deterministic, next_clk).
      dram_memory_owes n' = dram_memory_owes m + (if issued \<and> \<not> deterministic \<and> is_read_with_callback r
        then {#(req_callback r, req_addr r)#} else {#}))"
    unfolding i by (rule ensures_mono [OF ok]) auto
  show "ensures (issue_request dram_skip_ops m r) (\<lambda>(n', r', issued, deterministic, next_clk). issued)"
    if "full dram_skip_ops m = Inr False"
  proof -
    have "length (queue (read_queue (dm_ctrl m))) \<noteq> max_entries (read_queue (dm_ctrl m))"
      "length (queue (write_queue (dm_ctrl m))) \<noteq> max_entries (write_queue (dm_ctrl m))"
      using that wf by (auto simp: ops dram_full_def rq.full_spec split: if_splits)
    then show ?thesis
      unfolding i using wf by (intro ensures_mono [OF ok])
        (auto simp: rq_wf_def split: base_request_type.splits)
  qed
  assume "small_clk clk"
  note t = dram_memory_tick_ok [OF inv this]
  have "ensures (tick dram_skip_ops clk m) (\<lambda>(m', calls). dram_memory_inv s 0 m' \<and>
      list_all (\<lambda>(cb, a, t). t = clk) calls \<and>
      dram_memory_owes m = dram_memory_owes m' + mset (map (\<lambda>(cb, a, t). (cb, a - 0)) calls))"
    using t inv by (cases "dram_memory_tick clk m") (auto simp: skip_failure_def ops)
  then show "ensures (tick dram_skip_ops clk m) (\<lambda>(n', calls). dram_memory_inv s 0 n' \<and> (\<forall>(cb, a, t) \<in> set calls. t = clk))"
    and "ensures (tick dram_skip_ops clk m) (\<lambda>(n', calls).
      dram_memory_owes m = dram_memory_owes n' + mset (map (\<lambda>(cb, a, t). (cb, a)) calls))"
    by (auto elim!: ensures_mono simp: list_all_iff)
qed

lemma dram_run_upto: "same_or_fails refresh_overflow (component_run dram_memory_ops evs m) (component_run dram_skip_ops evs m)"
  by (rule component_run_upto [OF skip_failure_upto])

end
