(* ===== verification/Nvdimm_Ddr4.thy ===== *)
theory Nvdimm_Ddr4
  imports Dram_System Nvdimm Systems
begin

text \<open>
  The NVDIMM and the DDR4 system with the DDR4 memory as the local memory that the configuration files give
  them. Only the tick of the memory can end in an exception; the operations of the AIT
  and the RMW buffer use the other methods of the levels below, so that a run over the real memory
  is a run over the one that ignores the exception, or ends in it.
\<close>

section \<open>Operations do not depend on the tick below\<close>

named_theorems tick_free \<open>operations that do not use the tick of their next levels\<close>

lemma next_issue_tick [tick_free]: "next_issue (ops\<lparr>tick := t\<rparr>) = next_issue ops"
  by (simp add: fun_eq_iff next_issue_def)

lemma ait_tick_lmemq_tick [tick_free]: "ait_tick_lmemq (mops\<lparr>tick := t\<rparr>) = ait_tick_lmemq mops"
proof -
  have next_eq: "ait_lmemq_next (mops\<lparr>tick := t\<rparr>) = ait_lmemq_next mops" by (intro ext) (simp add: ait_lmemq_next_def Let_def)
  have full_eq: "full (mops\<lparr>tick := t\<rparr>) = full mops" by simp
  show ?thesis by (intro ext) (unfold ait_tick_lmemq_def next_eq full_eq, rule refl)
qed

lemma rmw_issue_next_tick [tick_free]:
  "rmw_issue_read_next_level (ops\<lparr>tick := t\<rparr>) = rmw_issue_read_next_level ops"
  "rmw_issue_write_next_level (ops\<lparr>tick := t\<rparr>) = rmw_issue_write_next_level ops"
  by (intro ext, simp add: rmw_issue_read_next_level_def rmw_issue_write_next_level_def tick_free)+

lemma rmw_state_trans_tick:
  "rel_option (\<lambda>f g. f (ops\<lparr>tick := t\<rparr>) = g ops) (rmw_state_trans ty st) (rmw_state_trans ty st)"
  by (cases ty; cases st) (simp_all add: fun_eq_iff tick_free
      rmw_write_rmw_init_def rmw_write_rmw_pending_ait_r_def rmw_write_rmw_pending_read_def rmw_write_rmw_pending_ait_w_def
      rmw_write_rmw_pending_modify_def rmw_write_rmw_pending_write_def rmw_write_comb_init_def rmw_write_comb_pending_ait_w_def
      rmw_write_comb_pending_modify_def rmw_write_comb_pending_write_def rmw_write_patch_init_def rmw_write_patch_pending_ait_w_def
      rmw_write_patch_pending_modify_def rmw_write_patch_pending_write_def rmw_flush_back_init_def rmw_flush_back_pending_ait_w_def
      rmw_flush_back_pending_write_def rmw_read_cold_init_def rmw_read_cold_pending_ait_r_def rmw_read_cold_pending_read_def
      rmw_read_cold_pending_readout_def rmw_read_ff_init_def rmw_read_ff_pending_readout_def)

lemma rmw_state_transfer_tick [tick_free]: "rmw_state_transfer (ops\<lparr>tick := t\<rparr>) = rmw_state_transfer ops"
proof (intro ext)
  fix clk k e c
  show "rmw_state_transfer (ops\<lparr>tick := t\<rparr>) clk k e c = rmw_state_transfer ops clk k e c"
    using rmw_state_trans_tick [where ops = ops and t = t and ty = "rmw_type (pending_request e)" and st = "state e"]
    by (cases "rmw_state_trans (rmw_type (pending_request e)) (state e) :: 'a rmw_trans option")
      (simp_all add: rmw_state_transfer_def)
qed

lemma rmw_tick_ctrl_tick [tick_free]: "rmw_tick_ctrl (ops\<lparr>tick := t\<rparr>) = rmw_tick_ctrl ops"
proof -
  have e: "rmw_tick_entry (ops\<lparr>tick := t\<rparr>) = rmw_tick_entry ops" by (intro ext) (simp add: rmw_tick_entry_def tick_free split: option.split)
  have "rmw_tick_entries (ops\<lparr>tick := t\<rparr>) clk ks = rmw_tick_entries ops clk ks" for clk ks
  proof (induction ks)
    case (Cons k ks)
    show ?case by (intro ext) (unfold rmw_tick_entries.simps e Cons.IH, rule refl)
  qed (simp add: fun_eq_iff)
  then show ?thesis by (intro ext) (simp add: rmw_tick_ctrl_def rmw_tick_internal_buffer_def)
qed

section \<open>Up to one exception\<close>

lemma same_or_fails_ebind_same:
  "(\<And>x. same_or_fails e (f x) (f' x)) \<Longrightarrow> same_or_fails e (ebind m f) (ebind m f')"
  by (rule same_or_fails_ebind) simp_all

lemma tick_list_upto:
  assumes "ops_upto e ops ops'"
  shows "same_or_fails e (tick_list ops clk ns) (tick_list ops' clk ns)"
proof (induction ns)
  case (Cons n ns)
  have "same_or_fails e (tick ops clk n) (tick ops' clk n)" using assms by (auto simp: ops_upto_def)
  then show ?case using Cons by (auto simp: split_def intro!: same_or_fails_ebind)
qed simp

lemma ait_ops_upto:
  assumes "ops_upto e mops mops'"
  shows "ops_upto e (ait_ops ops mops) (ait_ops ops mops')"
proof -
  obtain t where t: "mops = mops'\<lparr>tick := t\<rparr>" "\<And>clk n. same_or_fails e (t clk n) (tick mops' clk n)"
    using assms by (auto simp: ops_upto_def)
  have "ait_tick_ctrl ops mops = ait_tick_ctrl ops mops'" by (intro ext) (simp add: ait_tick_ctrl_def t(1) tick_free)
  then have "same_or_fails e (ait_tick ops mops clk c) (ait_tick ops mops' clk c)" for clk c
    using t by (auto simp: ait_tick_def split_def intro!: same_or_fails_ebind same_or_fails_ebind_same)
  moreover have "ait_ops ops mops = (ait_ops ops mops')\<lparr>tick := ait_tick ops mops\<rparr>" by (simp add: ait_ops_def)
  ultimately show ?thesis unfolding ops_upto_def by (auto simp: ait_ops_def)
qed

text \<open>The drain and the pending query of the RMW buffer ask the levels below, which do not differ in them.\<close>

lemma rmw_ops_upto:
  assumes "ops_upto e ops ops'"
  shows "ops_upto e (rmw_ops ops) (rmw_ops ops')"
proof -
  obtain t where t: "ops = ops'\<lparr>tick := t\<rparr>" using assms by (auto simp: ops_upto_def)
  have "rmw_tick_ctrl ops = rmw_tick_ctrl ops'" unfolding t by (rule rmw_tick_ctrl_tick)
  then have "same_or_fails e (rmw_tick ops clk c) (rmw_tick ops' clk c)" for clk c
    using tick_list_upto [OF assms]
    by (auto simp: rmw_tick_def split_def intro!: same_or_fails_ebind same_or_fails_ebind_same)
  moreover have "rmw_ops ops = (rmw_ops ops')\<lparr>tick := rmw_tick ops\<rparr>"
    by (simp add: rmw_ops_def t mc_pending_def fun_eq_iff mc_drain_def)
  ultimately show ?thesis unfolding ops_upto_def by (auto simp: rmw_ops_def)
qed

lemma nvdimm_ddr4_upto: "ops_upto refresh_overflow (nvdimm_ops dram_memory_ops) (nvdimm_ops dram_skip_ops)"
  unfolding nvdimm_ops_def by (intro rmw_ops_upto ait_ops_upto skip_failure_upto)

interpretation nvdimm_ddr4: nvdimm_memory dram_skip_ops "dram_memory_inv s 0" dram_memory_owes for s
  by unfold_locales

section \<open>The DDR4 system\<close>

context responder
begin

lemma ddr4_system_responder:
  "responder (ddr4_system_ops ops) (\<lambda>c. ninv (ddr4_local_memory c)) (\<lambda>c. owes (ddr4_local_memory c)) block answers"
proof
  fix c :: "'a ddr4_system_controller" and r :: base_request and clk :: clk_t
  assume n: "ninv (ddr4_local_memory c)"
  show "ensures (full (ddr4_system_ops ops) c) (\<lambda>b. True)" "ensures (is_pending (ddr4_system_ops ops) c) (\<lambda>b. True)"
    using full_ok [OF n] pending_ok [OF n] by (simp_all add: ddr4_system_ops_def ddr4_full_def ddr4_pending_current_def)
  show "ensures (issue_request (ddr4_system_ops ops) c r) (\<lambda>(n', r', issued, deterministic, next_clk).
      ninv (ddr4_local_memory n') \<and> (issued \<longrightarrow> deterministic \<longrightarrow> next_clk \<noteq> clk_invalid))"
    and "ensures (issue_request (ddr4_system_ops ops) c r) (\<lambda>(n', r', issued, deterministic, next_clk).
      owes (ddr4_local_memory n') = owes (ddr4_local_memory c) +
        (if issued \<and> \<not> deterministic \<and> answers r then {#(req_callback r, block (req_addr r))#} else {#}))"
    if "small_clk (req_arrive r)"
  proof -
    note i = issue_ok [OF n that] issue_owes [OF n that]
    from i(1) obtain m r' resp where "issue_request ops (ddr4_local_memory c) r = Inr (m, r', resp)"
      by (auto simp: ensures_iff)
    then show "ensures (issue_request (ddr4_system_ops ops) c r) (\<lambda>(n', r', issued, deterministic, next_clk).
        ninv (ddr4_local_memory n') \<and> (issued \<longrightarrow> deterministic \<longrightarrow> next_clk \<noteq> clk_invalid))"
      and "ensures (issue_request (ddr4_system_ops ops) c r) (\<lambda>(n', r', issued, deterministic, next_clk).
        owes (ddr4_local_memory n') = owes (ddr4_local_memory c) +
          (if issued \<and> \<not> deterministic \<and> answers r then {#(req_callback r, block (req_addr r))#} else {#}))"
      using i
      by (simp_all add: ddr4_system_ops_def ddr4_issue_request_def split_def)
  qed
  show "ensures (issue_request (ddr4_system_ops ops) c r) (\<lambda>(n', r', issued, deterministic, next_clk). issued)"
    if "full (ddr4_system_ops ops) c = Inr False" "small_clk (req_arrive r)"
    using not_full_issues [OF n _ that(2)] that(1)
    by (auto simp: ddr4_system_ops_def ddr4_full_def ddr4_issue_request_def ensures_iff)
  assume c: "small_clk clk"
  show "ensures (tick (ddr4_system_ops ops) clk c) (\<lambda>(n', calls).
      ninv (ddr4_local_memory n') \<and> (\<forall>(cb, a, t) \<in> set calls. t = clk))"
    and "ensures (tick (ddr4_system_ops ops) clk c) (\<lambda>(n', calls).
      owes (ddr4_local_memory c) = owes (ddr4_local_memory n') + mset (map (\<lambda>(cb, a, t). (cb, block a)) calls))"
    using tick_ok [OF n c] tick_owes [OF n c]
    by (auto simp: ddr4_system_ops_def ddr4_tick_def ensures_iff)
qed

end

lemma ddr4_system_upto:
  assumes "ops_upto e mops mops'"
  shows "ops_upto e (ddr4_system_ops mops) (ddr4_system_ops mops')"
proof -
  obtain t where t: "mops = mops'\<lparr>tick := t\<rparr>" "\<And>clk n. same_or_fails e (t clk n) (tick mops' clk n)"
    using assms by (auto simp: ops_upto_def)
  have "same_or_fails e (ddr4_tick mops clk c) (ddr4_tick mops' clk c)" for clk c
    using t by (auto simp: ddr4_tick_def intro!: same_or_fails_ebind)
  moreover have "ddr4_system_ops mops = (ddr4_system_ops mops')\<lparr>tick := ddr4_tick mops\<rparr>"
    by (simp add: ddr4_system_ops_def t(1) fun_eq_iff ddr4_issue_request_def ddr4_full_def ddr4_pending_current_def ddr4_drain_def ddr4_drain_current_def)
  ultimately show ?thesis unfolding ops_upto_def by (auto simp: ddr4_system_ops_def)
qed

interpretation ddr4_sys: responder "ddr4_system_ops dram_skip_ops" "\<lambda>c. dram_memory_inv s 0 (ddr4_local_memory c)"
  "\<lambda>c. dram_memory_owes (ddr4_local_memory c)" "\<lambda>a. a" is_read_with_callback for s
  by (rule dram_mem.ddr4_system_responder)

end
