(* ===== verification/Dram_Next.thy ===== *)
theory Dram_Next
  imports Dram_Timing
begin

text \<open>
  \<open>DRAM::get_next\<close> of \<open>src/general/dram.h\<close>, the first clock at which a command may be issued. The controller never calls it and
  uses \<open>check\<close> in every cycle instead; the two agree on every tree that commands have been issued to.
\<close>

section \<open>The next clock of a command\<close>

text \<open>The loop from a node down to the scope of the command; the comparison of an unsigned index with zero is always true.\<close>

function next_loop :: "command \<Rightarrow> 64 word list \<Rightarrow> nat \<Rightarrow> clk_t \<Rightarrow> dram \<Rightarrow> vans_error + clk_t" where
  "next_loop cmd addr l next_clk (Dram r cs) =
     (if l < level_index (scope cmd) \<and> cs \<noteq> []
      then ebind (addr_at addr (l + 1)) (\<lambda>i.
        if unat i < length cs
        then let node = cs ! unat i in next_loop cmd addr (l + 1) (max next_clk (next_at (regs node) cmd)) node
        else Inl Undefined_behaviour)
      else Inr next_clk)"
  by pat_completeness auto
termination by (relation "measure (\<lambda>(cmd, addr, l, next_clk, d). size d)") auto

definition dram_get_next :: "command \<Rightarrow> 64 word list \<Rightarrow> dram \<Rightarrow> vans_error + clk_t" where
  "dram_get_next cmd addr d =
     next_loop cmd addr (level_index (node_level (regs d))) (max (node_clk (regs d)) (next_at (regs d) cmd)) d"

section \<open>Agreement with the check\<close>

lemma next_loop_returns:
  "dram_ok s d \<Longrightarrow> dram_addr_ok s addr \<Longrightarrow> level_index (node_level (regs d)) < 4 \<Longrightarrow>
   ensures (next_loop cmd addr (level_index (node_level (regs d))) a d) (\<lambda>c. a \<le> c)"
proof (induction cmd addr "level_index (node_level (regs d))" a d rule: next_loop.induct)
  case (1 cmd addr a r cs)
  let ?l = "level_index (node_level r)"
  have l: "?l < 4" using "1.prems"(3) by simp
  note ch = dram_ok_child [OF "1.prems"(1,2) l]
  show ?case
  proof (cases "?l < level_index (scope cmd) \<and> cs \<noteq> []")
    case True
    let ?i = "unat (addr ! (?l + 1))"
    have i: "?i < length cs" using ch(2) True by simp
    note c = dram_ok_nth [OF "1.prems"(1) i] and cl = dram_ok_nth_level [OF "1.prems"(1) i]
    from "1.hyps" [of "addr ! (?l + 1)" "cs ! ?i"] True ch(1) i c cl "1.prems"(2)
    have "ensures (next_loop cmd addr (?l + 1) (max a (next_at (regs (cs ! ?i)) cmd)) (cs ! ?i))
        (\<lambda>c. max a (next_at (regs (cs ! ?i)) cmd) \<le> c)" by (simp del: max.bounded_iff)
    then obtain c where "next_loop cmd addr (?l + 1) (max a (next_at (regs (cs ! ?i)) cmd)) (cs ! ?i) = Inr c"
        "max a (next_at (regs (cs ! ?i)) cmd) \<le> c"
      unfolding ensures_iff by blast
    then show ?thesis using True ch(1) i by (simp add: Let_def)
  qed auto
qed

lemma next_loop_check:
  "dram_ok s d \<Longrightarrow> dram_addr_ok s addr \<Longrightarrow> level_index (node_level (regs d)) < 4 \<Longrightarrow>
   level_index (node_level (regs d)) \<le> level_index (scope cmd) \<Longrightarrow>
   (\<And>p. path_ok p d \<Longrightarrow> clocks_valid (regs (node_at p d))) \<Longrightarrow> a \<le> clk \<Longrightarrow>
   next_loop cmd addr (level_index (node_level (regs d))) (max a (next_at (regs d) cmd)) d = Inr c \<Longrightarrow>
   dram_check cmd addr clk d = Inr (c \<le> clk)"
proof (induction cmd addr clk d arbitrary: a rule: dram_check.induct)
  case (1 cmd addr clk r cs)
  let ?l = "level_index (node_level r)"
  have l: "?l < 4" "?l \<le> level_index (scope cmd)" using "1.prems"(3,4) by simp_all
  note ch = dram_ok_child [OF "1.prems"(1,2) l(1)]
  have v: "next_at r cmd \<noteq> clk_invalid" using "1.prems"(5) [of "[]"] by (simp add: clocks_valid_def)
  have ge: "max a (next_at r cmd) \<le> c"
    using next_loop_returns [OF "1.prems"(1,2), of cmd "max a (next_at r cmd)"] "1.prems"(3,7) by simp
  show ?case
  proof (cases "clk < next_at r cmd")
    case True
    then show ?thesis using v ge by auto
  next
    case free: False
    show ?thesis
    proof (cases "node_level r = scope cmd \<or> cs = []")
      case True
      then have "c = max a (next_at r cmd)" using "1.prems"(7) by auto
      then show ?thesis using True ch(1) free "1.prems"(6) by simp
    next
      case False
      have "?l \<noteq> level_index (scope cmd)" using False by (cases "node_level r"; cases "scope cmd") auto
      then have lt: "?l < level_index (scope cmd)" "cs \<noteq> []" using l(2) False by auto
      let ?i = "unat (addr ! (?l + 1))"
      have i: "?i < length cs" using ch(2) lt(2) by simp
      let ?c = "cs ! ?i"
      note ok = dram_ok_nth [OF "1.prems"(1) i] and cl = dram_ok_nth_level [OF "1.prems"(1) i]
      have p: "path_ok p ?c \<Longrightarrow> clocks_valid (regs (node_at p ?c))" for p
        using "1.prems"(5) [of "addr ! (?l + 1) # p"] i by simp
      have "next_loop cmd addr (level_index (node_level (regs ?c))) (max (max a (next_at r cmd)) (next_at (regs ?c) cmd)) ?c = Inr c"
        using "1.prems"(7) ch(1) lt i cl(1) by (simp add: Let_def)
      with "1.IH" [OF _ ch(1) False i _ "1.prems"(2) cl(2) _ p, of "max a (next_at r cmd)"] ok cl(1) lt(1) free "1.prems"(6)
      have "dram_check cmd addr clk ?c = Inr (c \<le> clk)" by simp
      then show ?thesis using False ch(1) i free by simp
    qed
  qed
qed

text \<open>After any history of commands.\<close>

lemma get_next_check:
  assumes "nodes_know s h d" "dram_addr_ok s addr"
  shows "ensures (dram_get_next cmd addr d) (\<lambda>c. node_clk (regs d) \<le> c \<and>
    (\<forall>clk \<ge> node_clk (regs d). dram_check cmd addr clk d = Inr (c \<le> clk)))"
proof -
  have d: "dram_ok s d" "level_index (node_level (regs d)) < 4" "level_index (node_level (regs d)) \<le> level_index (scope cmd)"
      "\<And>p. path_ok p d \<Longrightarrow> clocks_valid (regs (node_at p d))"
    using assms(1) by (simp_all add: nodes_know_def)
  from next_loop_returns [OF d(1) assms(2) d(2)] obtain c where
    c: "dram_get_next cmd addr d = Inr c" "max (node_clk (regs d)) (next_at (regs d) cmd) \<le> c"
    unfolding dram_get_next_def by (auto simp only: ensures_iff)
  have "dram_check cmd addr clk d = Inr (c \<le> clk)" if "node_clk (regs d) \<le> clk" for clk
    by (rule next_loop_check [OF d(1) assms(2) d(2,3,4) that c(1) [unfolded dram_get_next_def]])
  then show ?thesis using c by simp
qed

end
