(* ===== verification/Dram_Transactions.thy ===== *)
theory Dram_Transactions
  imports Dram_Mapping
begin

text \<open>
  The DDR4 address mapping as a bijection between the 64-byte transactions of an organisation and the vectors
  of its indices.
\<close>

section \<open>The transactions of an organisation\<close>

text \<open>
  The same in terms of the organisation alone: the places of each level, in bursts of eight columns, and the
  number of the 64-byte transaction that a vector of indices has when the given levels follow one another, the least
  significant one first. No bit width of the mapping occurs.
\<close>

fun mapping_name :: "dram_level \<Rightarrow> string" where
  "mapping_name Channel = ''Ch''"
| "mapping_name Rank = ''Ra''"
| "mapping_name Bank_group = ''Bg''"
| "mapping_name Bank = ''Ba''"
| "mapping_name Row = ''Ro''"
| "mapping_name Col = ''Co''"

definition level_places :: "ddr4 \<Rightarrow> dram_level \<Rightarrow> nat" where
  "level_places s l = (if l = Col then unat (level_count s l) div 8 else unat (level_count s l))"

definition transactions :: "ddr4 \<Rightarrow> nat" where
  "transactions s = prod_list (map (level_places s) all_levels)"

fun transaction_number :: "ddr4 \<Rightarrow> dram_level list \<Rightarrow> 64 word list \<Rightarrow> nat" where
  "transaction_number s [] addr = 0"
| "transaction_number s (l # ls) addr = unat (addr ! level_index l) + level_places s l * transaction_number s ls addr"

definition transaction_addr :: "ddr4 \<Rightarrow> 64 word list \<Rightarrow> bool" where
  "transaction_addr s addr \<longleftrightarrow> length addr = total_levels \<and>
     list_all (\<lambda>l. unat (addr ! level_index l) < level_places s l) all_levels"

text \<open>Counts that are powers of two.\<close>

definition pow2_counts :: "ddr4 \<Rightarrow> bool" where
  "pow2_counts s \<longleftrightarrow> list_all (\<lambda>l. unat (level_count s l) = 2 ^ log2 (level_count s l)) all_levels"

lemma in_all_levels [simp]: "l \<in> set all_levels"
  by (cases l) (simp_all add: all_levels_def)

lemma mapping_level_of_name: "unat (mapping_level (mapping_name l)) = level_index l"
  by (cases l) (simp_all add: mapping_level_def)

lemma level_names_map: "map mapping_name all_levels = level_names"
  by (simp add: all_levels_def level_names_def)

lemma level_index_image: "level_index ` set all_levels = {..<total_levels}"
  by (auto simp: all_levels_def total_levels_def)

lemma transaction_number_inj:
  assumes "transaction_number s ls addr = transaction_number s ls addr'"
    and "\<forall>l \<in> set ls. unat (addr ! level_index l) < level_places s l \<and> unat (addr' ! level_index l) < level_places s l"
  shows "\<forall>l \<in> set ls. addr ! level_index l = addr' ! level_index l"
  using assms
proof (induction ls)
  case (Cons l ls)
  let ?p = "level_places s l" and ?x = "unat (addr ! level_index l)" and ?y = "unat (addr' ! level_index l)"
  have b: "?x < ?p" "?y < ?p" using Cons.prems(2) by simp_all
  have e: "?x + ?p * transaction_number s ls addr = ?y + ?p * transaction_number s ls addr'"
    using Cons.prems(1) by simp
  have "?x = ?y" using arg_cong [OF e, of "\<lambda>n. n mod ?p"] b by simp
  moreover have "transaction_number s ls addr = transaction_number s ls addr'"
    using arg_cong [OF e, of "\<lambda>n. n div ?p"] b by simp
  ultimately show ?case using Cons by (simp add: word_unat_eq_iff)
qed simp

lemma transaction_addr_eqI:
  assumes "transaction_addr s addr" "transaction_addr s addr'" "mset ls = mset all_levels"
    and "transaction_number s ls addr = transaction_number s ls addr'"
  shows "addr = addr'"
proof (rule nth_equalityI)
  show "length addr = length addr'" using assms(1,2) by (simp add: transaction_addr_def)
  fix i
  assume "i < length addr"
  then have "i \<in> level_index ` set all_levels" using assms(1) by (simp add: level_index_image transaction_addr_def)
  moreover have "set ls = set all_levels" using assms(3) by (metis set_mset_mset)
  moreover have "\<forall>l \<in> set ls. addr ! level_index l = addr' ! level_index l"
    by (rule transaction_number_inj [OF assms(4)]) (use assms(1,2) in \<open>auto simp: transaction_addr_def list_all_iff\<close>)
  ultimately show "addr ! i = addr' ! i" by auto
qed

lemma transactions_perm: "mset ls = mset all_levels \<Longrightarrow> transactions s = prod_list (map (level_places s) ls)"
  unfolding transactions_def by (metis mset_map prod_mset_prod_list)

lemma dram_map_transaction:
  assumes m: "new_dram_mapping s (concat (map mapping_name ls)) = Inr m" and ls: "mset ls = mset all_levels"
    and s: "counts_ok s" "pow2_counts s"
  shows "ensures (dram_map m a) (\<lambda>addr. transaction_addr s addr \<and>
    transaction_number s (rev ls) addr = unat a div 64 mod transactions s)"
proof -
  have ts: "mset (map mapping_name ls) = mset level_names" using ls by (simp flip: level_names_map)
  note w = new_dram_mapping_wf [OF m ts s(1)]
  have p: "level_places s l = 2 ^ level_width m (level_index l)" for l
  proof -
    have c: "unat (level_count s l) = 2 ^ log2 (level_count s l)" using s(2) by (simp add: pow2_counts_def list_all_iff)
    show ?thesis
    proof (cases "l = Col")
      case True
      then have "log2 (level_count s l) = level_width m (level_index l) + 3" using counts_col [OF s(1)] w(4) [of l] by simp
      then have "unat (level_count s l) = 2 ^ level_width m (level_index l) * 8" using c by (simp add: power_add)
      then show ?thesis using True by (simp add: level_places_def)
    qed (use c w(4) [of l] in \<open>simp add: level_places_def\<close>)
  qed
  have order: "mapping_order m = map level_index (rev ls)"
    using w(3) by (simp add: rev_map mapping_level_of_name comp_def)
  have number: "dram_unmap m (map level_index ks) addr = transaction_number s ks addr" for ks addr
    by (induction ks) (simp_all add: p)
  have size: "2 ^ sum_list (map (level_width m) (map level_index ks)) = prod_list (map (level_places s) ks)" for ks
    by (induction ks) (simp_all add: p power_add)
  have all: "2 ^ sum_list (map (level_width m) (mapping_order m)) = transactions s"
    using transactions_perm [of "rev ls" s] ls by (simp only: order size) simp
  have idx: "level_index l < total_levels" for l by (cases l) (simp_all add: total_levels_def)
  show ?thesis
    by (rule ensures_mono [OF dram_map_unmap [OF w(1)]])
      (use idx in \<open>auto simp: transaction_addr_def list_all_iff p w(2) all number [symmetric] order [symmetric]\<close>)
qed

lemma dram_map_bijective:
  assumes "new_dram_mapping s (concat (map mapping_name ls)) = Inr m" "mset ls = mset all_levels" "counts_ok s" "pow2_counts s"
    and "64 * transactions s \<le> 2 ^ 64"
  shows "bij_betw (\<lambda>k. dram_map m (of_nat (64 * k))) {..<transactions s} (Inr ` {addr. transaction_addr s addr})"
proof -
  have u: "unat (of_nat (64 * k) :: addr_t) div 64 = k" if "k < transactions s" for k
  proof -
    have "64 * k < 2 ^ 64" using assms(5) that by linarith
    then show ?thesis by (subst unat_of_nat64) simp_all
  qed
  have d: "\<exists>addr. dram_map m (of_nat (64 * k)) = Inr addr \<and> transaction_addr s addr \<and> transaction_number s (rev ls) addr = k"
    if "k < transactions s" for k
    using dram_map_transaction [OF assms(1-4), of "of_nat (64 * k)"] u [OF that] that by (auto simp: ensures_iff)
  have r: "mset (rev ls) = mset all_levels" using assms(2) by simp
  show ?thesis
  proof (rule bij_betw_imageI)
    show "inj_on (\<lambda>k. dram_map m (of_nat (64 * k))) {..<transactions s}"
      using d by (intro inj_onI) (metis lessThan_iff sum.inject(2))
    show "(\<lambda>k. dram_map m (of_nat (64 * k))) ` {..<transactions s} = Inr ` {addr. transaction_addr s addr}"
    proof (intro equalityI subsetI)
      fix x
      assume "x \<in> (Inr ` {addr. transaction_addr s addr} :: (vans_error + 64 word list) set)"
      then obtain addr where x: "x = Inr addr" "transaction_addr s addr" by blast
      let ?k = "transaction_number s (rev ls) addr"
      have "transaction_number s ks addr < prod_list (map (level_places s) ks)" for ks
      proof (induction ks)
        case (Cons l ks)
        have "unat (addr ! level_index l) < level_places s l" using x(2) by (simp add: transaction_addr_def list_all_iff)
        moreover have "level_places s l * Suc (transaction_number s ks addr) \<le> level_places s l * prod_list (map (level_places s) ks)"
          using Cons by (intro mult_le_mono) simp_all
        ultimately show ?case by simp
      qed simp
      then have k: "?k < transactions s" by (simp add: transactions_perm [OF r])
      then obtain addr' where a: "dram_map m (of_nat (64 * ?k)) = Inr addr'" "transaction_addr s addr'"
          "transaction_number s (rev ls) addr' = ?k" using d by blast
      have "addr' = addr" by (rule transaction_addr_eqI [OF a(2) x(2) r a(3)])
      then show "x \<in> (\<lambda>k. dram_map m (of_nat (64 * k))) ` {..<transactions s}"
        using a(1) x(1) k by (intro image_eqI [of _ _ ?k]) simp_all
    qed (use d in force)
  qed
qed

end
