(* ===== verification/Dram_Props.thy ===== *)
theory Dram_Props
  imports Nvdimm_Ddr4 Dram_Next Dram_Transactions
begin

text \<open>
  The properties of the DDR4 memory, with witnesses on a small organisation with the timings of
  \<open>config/vans.cfg\<close>.
\<close>

definition cfg_timing :: ddr4_timing where
  "cfg_timing = \<lparr>nBL = 4, nCCDS = 4, nCCDL = 7, nRTRS = 2, nCL = 19, nRCD = 19, nRP = 19, nCWL = 18, nRAS = 43,
     nRC = 62, nRTP = 10, nWTRS = 4, nWTRL = 10, nWR = 20, nPD = 6, nXP = 8, nXPDLL = 0, nCKESR = 7, nXSDLL = 0,
     nRRDS = 4, nRRDL = 7, nFAW = 16, nRFC = 467, nREFI = 10400, nXS = 324\<rparr>"

text \<open>\<open>ranks\<close> ranks of two bank groups with two banks of four rows with sixteen columns, in one channel.\<close>

definition small_ddr4 :: "64 word \<Rightarrow> ddr4" where
  "small_ddr4 ranks = \<lparr>ddr4_timings = cfg_timing, mem_size = 512, data_width = 8,
     level_count = (\<lambda>l. case l of Channel \<Rightarrow> 1 | Rank \<Rightarrow> ranks | Bank_group \<Rightarrow> 2 | Bank \<Rightarrow> 2 | Row \<Rightarrow> 4 | Col \<Rightarrow> 16)\<rparr>"

definition cfg_names :: "string list" where
  "cfg_names = [''Ra'', ''Ba'', ''Bg'', ''Ro'', ''Co'', ''Ch'']"

definition small_memory :: dram_memory where
  "small_memory = (case new_dram_memory (small_ddr4 1) (concat cfg_names) 0 4 0 of Inr m \<Rightarrow> m)"

lemma cfg_names_perm: "mset cfg_names = mset level_names"
  by (simp add: cfg_names_def level_names_def)

lemma small_counts_ok: "counts_ok (small_ddr4 1)" "counts_ok (small_ddr4 2)"
  by code_simp+

lemma cfg_timing_ok: "timing_ok (ddr4_timings (small_ddr4 n))"
proof -
  have "timing_ok cfg_timing" by code_simp
  then show ?thesis by (simp add: small_ddr4_def)
qed

lemma small_memory_new: "new_dram_memory (small_ddr4 1) (concat cfg_names) 0 4 0 = Inr small_memory"
proof -
  have "\<not> (case new_dram_memory (small_ddr4 1) (concat cfg_names) 0 4 0 of Inl e \<Rightarrow> True | Inr m \<Rightarrow> False)" by code_simp
  then show ?thesis by (auto simp: small_memory_def split: sum.splits)
qed

lemma small_memory_inv: "dram_memory_inv (small_ddr4 1) 0 small_memory" "dram_memory_owes small_memory = {#}"
  by (rule new_dram_memory_inv [OF small_memory_new cfg_names_perm small_counts_ok(1) cfg_timing_ok])+

definition client :: "nat \<Rightarrow> base_request_type \<Rightarrow> addr_t \<Rightarrow> component_event" where
  "client n t a = Ev_issue (new_base_request t a 0 (Cb_client n))"

definition ticks :: "nat \<Rightarrow> component_event list" where
  "ticks n = map (\<lambda>k. Ev_tick (of_nat (Suc k))) [0..<n]"

lemma client_small: "small_event (client n t a)"
  by (simp add: client_def small_clk_def)

lemma ticks_small: "n < 2 ^ 61 \<Longrightarrow> list_all small_event (ticks n)"
  by (auto simp: ticks_def list_all_iff small_clk_def unat_of_nat64 simp del: of_nat_Suc)

lemma new_dram_memory_mapper:
  "new_dram_memory s f epoch n start = Inr m \<Longrightarrow> new_dram_mapping s f = Inr (mapper m)"
  by (auto simp: new_dram_memory_def ebind_eq_Inr Let_def split: if_splits)

section \<open>Mapping\<close>

text \<open>C18: For a mapping string that names every level once and counts that are powers of two, the DDR4 address mapping is
  a bijection between the 64-byte transactions of the organisation and its vectors of indices, each index below the
  count of its level, the columns in bursts of eight: the last name of the string is the least significant one, then the name before
  it, and an address beyond the capacity, or inside a transaction, is mapped like its transaction modulo the capacity.\<close>

theorem dram_mapping_roundtrip:
  assumes "new_dram_mapping s (concat (map mapping_name ls)) = Inr m" "mset ls = mset all_levels"
    and "counts_ok s" "pow2_counts s" "64 * transactions s \<le> 2 ^ 64"
  shows "bij_betw (\<lambda>k. dram_map m (of_nat (64 * k))) {..<transactions s} (Inr ` {addr. transaction_addr s addr}) \<and>
    ensures (dram_map m a) (\<lambda>addr. transaction_addr s addr \<and>
      transaction_number s (rev ls) addr = unat a div 64 mod transactions s)"
  using dram_map_bijective [OF assms] dram_map_transaction [OF assms(1-4)] by blast

theorem dram_mapping_roundtrip_witness:
  "(let ls = [Rank, Bank, Bank_group, Row, Col, Channel] in
     bij_betw (\<lambda>k. dram_map (mapper small_memory) (of_nat (64 * k))) {..<32}
       (Inr ` {addr. transaction_addr (small_ddr4 1) addr}) \<and>
     dram_map (mapper small_memory) 0x1540 = Inr [0, 0, 0, 1, 2, 1] \<and>
     transaction_number (small_ddr4 1) (rev ls) [0, 0, 0, 1, 2, 1] = 0x15)"
proof -
  let ?ls = "[Rank, Bank, Bank_group, Row, Col, Channel]"
  have n: "map mapping_name ?ls = cfg_names" by (simp add: cfg_names_def)
  note m = new_dram_memory_mapper [OF small_memory_new, folded n]
  have s: "transactions (small_ddr4 1) = 32" "pow2_counts (small_ddr4 1)" by code_simp+
  have d: "dram_map (mapper small_memory) 0x1540 = Inr [0, 0, 0, 1, 2, 1]" by code_simp
  have l: "mset ?ls = mset all_levels" by (simp add: all_levels_def)
  have "64 * transactions (small_ddr4 1) \<le> 2 ^ 64" by (simp add: s(1))
  from dram_mapping_roundtrip [OF m l small_counts_ok(1) s(2) this, of "0x1540"] show ?thesis
    by (simp add: s(1) d)
qed

section \<open>Commands\<close>

text \<open>C19: The first command that a read or a write needs follows from the bank that its address
  selects: the access itself when its row is open, an activation when the bank is closed, a
  precharge when another row is open. That command can be issued in every well-formed state, keeps
  the tree well-formed, and an activation leaves the row open.\<close>

theorem dram_first_command:
  assumes "channel_ok s d" "dram_addr_ok s addr" "cmd = RD \<or> cmd = WR"
  shows "ensures (dram_decode cmd addr d) (\<lambda>c. c \<in> {ACT, PRE, cmd} \<and> (c = cmd) = row_open addr d \<and>
    state_legal c addr d \<and> ensures (dram_check c addr clk d) (\<lambda>b. True) \<and>
    ensures (dram_update (ddr4_timings s) c addr clk d) (\<lambda>d'. channel_ok s d' \<and> (c = ACT \<longrightarrow> row_open addr d')))"
proof -
  define c where "c = access_cmd cmd (ucast (addr ! 4)) (bank_of addr d)"
  note ok = channel_ok_simps [OF assms(1)]
  have "dram_decode cmd addr d = Inr c" using decode_access [OF assms(3) _ assms(2)] ok by (simp add: c_def)
  moreover note l = access_cmd_legal [OF assms c_def]
  ultimately show ?thesis
    using check_ok [OF conjunct1 [OF ok] assms(2) conjunct2 [OF ok]] channel_update_ok [OF assms(1,2) l(1)] by simp
qed

theorem dram_first_command_witness:
  "ensures (dram_decode RD [0, 0, 0, 1, 2, 1] (dm_channel (dm_ctrl small_memory))) (\<lambda>c. c = ACT)"
proof -
  have inv: "channel_ok (small_ddr4 1) (dm_channel (dm_ctrl small_memory))"
    using small_memory_inv(1) by (simp add: dram_memory_inv_def dram_inv_def)
  have addr: "dram_addr_ok (small_ddr4 1) [0, 0, 0, 1, 2, 1]" by code_simp
  have "curr_state (regs (bank_of [0, 0, 0, 1, 2, 1] (dm_channel (dm_ctrl small_memory)))) = Closed" by code_simp
  then show ?thesis
    using dram_first_command [OF inv addr, of RD 0] by (auto simp: ensures_iff row_open_def state_legal_def Let_def)
qed

text \<open>C10: Every run of requests and ticks of a new DDR4 memory either ends in the overflow of the
  refresh queue or returns, and then the DRAM tree is the result of a history of commands that is legal
  at every step: accesses go to open rows, closed banks are activated, banks with
  another row are precharged, ranks are refreshed when all their banks are closed; and in channel 0 every command keeps
  every delay of the DDR4 timing table to the commands before it, the four-activation window and
  the delays between sibling ranks included.\<close>

theorem dram_run_is_legal:
  assumes "new_dram_memory s (concat ts) epoch n 0 = Inr m" "mset ts = mset level_names"
    and "counts_ok s" "timing_ok (ddr4_timings s)" "list_all small_event evs"
  shows "fails_only refresh_overflow (component_run dram_memory_ops evs m) (\<lambda>(m', accepted, calls).
    \<exists>h. legal_history s h \<and> issue_all (ddr4_timings s) h (new_dram s Channel 0) = Inr (dm_channel (dm_ctrl m')))"
proof -
  note inv = new_dram_memory_inv(1) [OF assms(1-4)]
  from same_or_fails_only [OF dram_run_upto dram_mem.component_run_ok [OF inv assms(5)]] show ?thesis
    by (rule fails_only_mono) (auto simp: dram_memory_inv_def has_history_def)
qed

theorem dram_run_is_legal_witness:
  "fails_only refresh_overflow (component_run dram_memory_ops (client 1 Base_read 0x40 # ticks 2) small_memory)
     (\<lambda>(m', accepted, calls). \<exists>h. legal_history (small_ddr4 1) h \<and> h \<noteq> [])"
proof -
  have ev: "list_all small_event (client 1 Base_read 0x40 # ticks 2)" by (simp add: ticks_small client_small)
  have "\<not> (case component_run dram_memory_ops (client 1 Base_read 0x40 # ticks 2) small_memory of
      Inl e \<Rightarrow> False | Inr (m', accepted, calls) \<Rightarrow> list_all bank_closed (children (hd (children (hd (children (dm_channel (dm_ctrl m'))))))))"
    by code_simp
  moreover have "list_all bank_closed (children (hd (children (hd (children (new_dram (small_ddr4 1) Channel 0))))))" by code_simp
  ultimately show ?thesis
    using dram_run_is_legal [OF small_memory_new cfg_names_perm small_counts_ok(1) cfg_timing_ok ev]
    by (auto simp: fails_only_def split: sum.splits)
qed

text \<open>C23: \<open>get_next\<close> and \<open>check\<close> agree: after any history of commands on a new DRAM tree there is a first clock for
  every command and address, not before the clock of the last command, and from the last command on the check lets the command through
  at exactly that clock and all later ones.\<close>

theorem dram_next_clock:
  assumes "timing_ok (ddr4_timings s)" "history_ok s h" "dram_addr_ok s addr"
  shows "ensures (issue_all (ddr4_timings s) h (new_dram s Channel 0)) (\<lambda>d.
    ensures (dram_get_next cmd addr d) (\<lambda>c. node_clk (regs d) \<le> c \<and>
      (\<forall>clk \<ge> node_clk (regs d). dram_check cmd addr clk d = Inr (c \<le> clk))))"
  by (rule ensures_mono [OF nodes_know_all [OF assms(1,2)] get_next_check [OF _ assms(3)]])

theorem dram_next_clock_witness:
  "ensures (issue_all cfg_timing [(ACT, [0, 0, 0, 1, 2, 1], 100)] (new_dram (small_ddr4 1) Channel 0)) (\<lambda>d.
     dram_get_next RD [0, 0, 0, 1, 2, 1] d = Inr 119 \<and> dram_check RD [0, 0, 0, 1, 2, 1] 118 d = Inr False \<and>
     dram_check RD [0, 0, 0, 1, 2, 1] 150 d = Inr True)"
proof -
  have h: "history_ok (small_ddr4 1) [(ACT, [0, 0, 0, 1, 2, 1], 100)]" "dram_addr_ok (small_ddr4 1) [0, 0, 0, 1, 2, 1]"
    by (simp add: history_ok_def plain_cmd_def small_clk_def, code_simp) code_simp
  have e: "ensures (issue_all cfg_timing [(ACT, [0, 0, 0, 1, 2, 1], 100)] (new_dram (small_ddr4 1) Channel 0)) (\<lambda>d.
      node_clk (regs d) = 100 \<and> dram_get_next RD [0, 0, 0, 1, 2, 1] d = Inr 119)" by code_simp
  have t: "ddr4_timings (small_ddr4 1) = cfg_timing" by (simp add: small_ddr4_def)
  from dram_next_clock [OF cfg_timing_ok h, of RD] e show ?thesis
    unfolding t by (auto simp: ensures_iff)
qed

section \<open>Callbacks\<close>

text \<open>A DDR4 system over a new DDR4 memory answers reads exactly once: after any run that does not
  end in the overflow of the refresh queue, the callbacks of the accepted reads are those that were invoked, with their
  addresses, and those of the reads that still wait; writes are never answered.\<close>

theorem ddr4_system_run_balance:
  assumes "new_dram_memory s (concat ts) epoch n 0 = Inr m" "mset ts = mset level_names"
    and "counts_ok s" "timing_ok (ddr4_timings s)" "ddr4_local_memory c = m" "list_all small_event evs"
  shows "fails_only refresh_overflow (component_run (ddr4_system_ops dram_memory_ops) evs c) (\<lambda>(c', accepted, calls).
    mset (map (\<lambda>r. (req_callback r, req_addr r)) (filter is_read_with_callback accepted)) =
    dram_memory_owes (ddr4_local_memory c') + mset (map (\<lambda>(cb, a, clk). (cb, a)) calls))"
proof -
  have inv: "dram_memory_inv s 0 (ddr4_local_memory c)" "dram_memory_owes (ddr4_local_memory c) = {#}"
    unfolding assms(5) by (rule new_dram_memory_inv [OF assms(1-4)])+
  from same_or_fails_only [OF component_run_upto [OF ddr4_system_upto [OF skip_failure_upto]]
      ddr4_sys.component_run_owes [OF inv(1) assms(6)]] inv(2)
  show ?thesis by (auto elim!: fails_only_mono)
qed

abbreviation small_system :: "dram_memory ddr4_system_controller" where
  "small_system \<equiv> \<lparr>mapping_func = none_mapping, next_level_components = [], is_draining = False,
     ddr4_local_memory = small_memory\<rparr>"

theorem ddr4_system_run_balance_witness:
  "fails_only refresh_overflow (component_run (ddr4_system_ops dram_memory_ops)
     [client 1 Base_write 0x40, client 2 Base_read 0x40, Ev_tick 1] small_system) (\<lambda>(c', accepted, calls).
       length accepted = 2 \<and> calls = [(Cb_client 2, 0x40, 1)] \<and> dram_memory_owes (ddr4_local_memory c') = {#})"
proof -
  have ev: "list_all small_event [client 1 Base_write 0x40, client 2 Base_read 0x40, Ev_tick 1]"
    by (simp add: client_def small_clk_def)
  have "case component_run (ddr4_system_ops dram_memory_ops)
      [client 1 Base_write 0x40, client 2 Base_read 0x40, Ev_tick 1] small_system of Inl e \<Rightarrow> False
    | Inr (c', accepted, calls) \<Rightarrow> map req_callback accepted = [Cb_client 1, Cb_client 2] \<and>
        map req_addr accepted = [0x40, 0x40] \<and> map req_type accepted = [Base_write, Base_read] \<and> calls = [(Cb_client 2, 0x40, 1)]"
    by code_simp
  then show ?thesis
    using ddr4_system_run_balance [OF small_memory_new cfg_names_perm small_counts_ok(1) cfg_timing_ok, of small_system, OF _ ev]
    by (auto simp: fails_only_def is_read_with_callback_def map_eq_Cons_conv split: sum.splits)
qed

text \<open>C11: An NVDIMM whose AIT has the DDR4 memory as its local memory, as the configuration files have it,
  never fails except in the overflow of that memory's refresh queue: every other run of requests
  and ticks returns and keeps the invariants of the RMW buffer, the AIT and the DDR4 memory.\<close>

theorem nvdimm_over_ddr4_safe:
  assumes "nvdimm_start (dram_memory_inv s 0) dram_memory_owes t" "list_all small_event evs"
  shows "fails_only refresh_overflow (component_run (nvdimm_ops dram_memory_ops) evs t) (\<lambda>(u, accepted, calls).
    nvdimm_inv (dram_memory_inv s 0) dram_memory_owes u)"
proof -
  have mem: "nvdimm_memory dram_skip_ops (dram_memory_inv s 0) dram_memory_owes" by unfold_locales
  have inv: "nvdimm_inv (dram_memory_inv s 0) dram_memory_owes t"
    by (rule nvdimm_memory.nvdimm_reachable_inv [OF mem assms(1) rtranclp.rtrancl_refl])
  show ?thesis
    by (rule same_or_fails_only [OF component_run_upto [OF nvdimm_ddr4_upto]
        ticking_level.component_run_ok [OF nvdimm_memory.nvdimm_ticking [OF mem] inv assms(2)]])
qed

definition ddr4_nvdimm :: "dram_memory nvdimm" where
  "ddr4_nvdimm =
     new_nvdimm (new_rmw_controller none_mapping 2 4 4 1 1 \<lparr>read_latency = 1, write_latency = 1\<rparr>)
       (new_ait_controller none_mapping 2 4 4 10 1 5 small_memory)
       \<lparr>read_latency = 3, write_latency = 3\<rparr>"

lemma ddr4_nvdimm_start: "nvdimm_start (dram_memory_inv (small_ddr4 1) 0) dram_memory_owes ddr4_nvdimm"
  unfolding nvdimm_start_def ddr4_nvdimm_def
  by (intro exI conjI; (rule refl)?) (auto simp: small_clk_def static_wf_def small_memory_inv)

theorem nvdimm_over_ddr4_safe_witness:
  "fails_only refresh_overflow (component_run (nvdimm_ops dram_memory_ops) (client 1 Base_read 0x40 # ticks 3) ddr4_nvdimm)
     (\<lambda>(u, accepted, calls). nvdimm_inv (dram_memory_inv (small_ddr4 1) 0) dram_memory_owes u)"
proof -
  have ev: "list_all small_event (client 1 Base_read 0x40 # ticks 3)" by (simp add: ticks_small client_small)
  show ?thesis by (rule nvdimm_over_ddr4_safe [OF ddr4_nvdimm_start ev])
qed

section \<open>Forwarding from the write queue\<close>

lemma dram_tick_calls:
  "dram_tick clk c = Inr (c', calls) \<Longrightarrow> calls = snd (dram_serve_pending (c\<lparr>dm_clk := clk\<rparr>))"
  by (auto simp: dram_tick_def Let_def ebind_eq_Inr split: prod.splits)

text \<open>C24: A read whose address a queued write has is answered from the write queue. With a full read queue it is refused like any
  other read and nothing changes: the room is checked first. Otherwise it is accepted, the read queue stays as it is and, with
  no other answer outstanding, its callback is invoked in the very next cycle; without a callback nothing is invoked.\<close>

theorem dram_write_forwarding:
  assumes "ddr4_ok s" "dram_inv s start c" "dr_type r = Dram_read" "dram_addr_ok s (dr_mapped r)"
    and "list_ex (\<lambda>wr. dr_logic wr = dr_logic r) (queue (write_queue c))" "pending_queue c = []"
  shows "if length (queue (read_queue c)) = max_entries (read_queue c)
    then dram_issue_request r c = Inr (c, False, False, clk_invalid)
    else ensures (dram_issue_request r c) (\<lambda>(c', issued, deterministic, clk). issued \<and> \<not> deterministic \<and>
      read_queue c' = read_queue c \<and> write_queue c' = write_queue c \<and>
      fails_only refresh_overflow (dram_tick (dm_clk c + 1) c') (\<lambda>(c'', calls).
        calls = (if dr_callback r = Cb_null then [] else [(dr_callback r, dr_logic r + start, dm_clk c + 1)])))"
proof -
  have wf: "rq_wf (read_queue c)" using assms(2) by (simp add: dram_inv_def)
  show ?thesis
  proof (cases "length (queue (read_queue c)) = max_entries (read_queue c)")
    case True
    then show ?thesis using assms(3) wf by (simp add: dram_issue_request_def Let_def rq_enqueue_def rq.full_spec)
  next
    case False
    then have room: "length (queue (read_queue c)) < max_entries (read_queue c)" using wf by (simp add: rq_wf_def)
    from dram_issue_ok [OF assms(2,4)] assms(3) room obtain c' clk where
        c': "dram_issue_request r c = Inr (c', True, False, clk)" "dram_inv s start c'" "dm_clk c' = dm_clk c"
      by (auto simp: ensures_iff)
    have "list_ex (\<lambda>wr. dr_logic r = dr_logic wr) (queue (write_queue c))" using assms(5) unfolding list_ex_iff by metis
    moreover have "rq_full (read_queue c) = Inr False" using room by (simp add: rq_full_def)
    ultimately have q: "pending_queue c' = [r\<lparr>dr_arrive := dm_clk c, dr_depart := dm_clk c + 1\<rparr>]"
        "read_queue c' = read_queue c" "write_queue c' = write_queue c"
      using c'(1) assms(3,6) by (auto simp: dram_issue_request_def Let_def rq_enqueue_def dram_fast_forward_def dram_report_def
          split: if_splits)
    have start: "dm_start_addr c' = start" using c'(2) by (simp add: dram_inv_def)
    have "snd (dram_serve_pending (c'\<lparr>dm_clk := dm_clk c + 1\<rparr>)) =
        (if dr_callback r = Cb_null then [] else [(dr_callback r, dr_logic r + start, dm_clk c + 1)])"
      using q(1) start by (simp add: dram_serve_pending_def)
    then have "fails_only refresh_overflow (dram_tick (dm_clk c + 1) c') (\<lambda>(c'', calls).
        calls = (if dr_callback r = Cb_null then [] else [(dr_callback r, dr_logic r + start, dm_clk c + 1)]))"
      using dram_tick_ok [OF assms(1) c'(2), of "dm_clk c + 1"] dram_tick_calls [of "dm_clk c + 1" c']
      by (cases "dram_tick (dm_clk c + 1) c'") auto
    then show ?thesis using c'(1) q(2,3) False by simp
  qed
qed

definition written_memory :: dram_memory where
  "written_memory = run_state dram_skip_ops [client 1 Base_write 0x40] small_memory"

theorem dram_write_forwarding_witness:
  "\<exists>r. dr_logic r = 0x40 \<and> ensures (dram_issue_request r (dm_ctrl written_memory)) (\<lambda>(c', issued, deterministic, clk).
     fails_only refresh_overflow (dram_tick 1 c') (\<lambda>(c'', calls). calls = [(Cb_client 2, 0x40, 1)]))"
proof -
  let ?r = "(new_dram_request (new_base_request Base_read 0x40 0 (Cb_client 2)))\<lparr>dr_mapped := [0, 0, 0, 0, 0, 1]\<rparr>"
  have inv: "dram_memory_inv (small_ddr4 1) 0 written_memory"
    unfolding written_memory_def by (rule dram_mem.run_state_ok [OF small_memory_inv(1)]) (simp add: client_small)
  then have "dram_inv (small_ddr4 1) 0 (dm_ctrl written_memory)" "ddr4_ok (small_ddr4 1)"
    using counts_ddr4_ok by (simp_all add: dram_memory_inv_def)
  moreover have "dram_addr_ok (small_ddr4 1) (dr_mapped ?r)" by code_simp
  moreover have "list_ex (\<lambda>wr. dr_logic wr = dr_logic ?r) (queue (write_queue (dm_ctrl written_memory)))" by code_simp
  moreover have "length (queue (read_queue (dm_ctrl written_memory))) < max_entries (read_queue (dm_ctrl written_memory))" by code_simp
  moreover have "pending_queue (dm_ctrl written_memory) = []" "dm_clk (dm_ctrl written_memory) = 0" by code_simp+
  ultimately have "ensures (dram_issue_request ?r (dm_ctrl written_memory)) (\<lambda>(c', issued, deterministic, clk).
     fails_only refresh_overflow (dram_tick 1 c') (\<lambda>(c'', calls). calls = [(Cb_client 2, 0x40, 1)]))"
    using dram_write_forwarding [of "small_ddr4 1" 0 "dm_ctrl written_memory" ?r]
    by (auto simp: new_dram_request_def elim!: ensures_mono split: if_split_asm)
  then show ?thesis by (intro exI [of _ ?r]) (simp add: new_dram_request_def)
qed

section \<open>Limits of the code\<close>

lemma sibling_timing_none: "\<forall>e \<in> set ts. \<not> has_sibling e \<Longrightarrow> sibling_timing clk ts r = r"
  by (induction ts) simp_all

text \<open>The tree has one channel, with index 0. A command whose mapped address names another channel
  changes the states of that channel's banks but none of its clocks: no delay counts from it, whatever
  the command.\<close>

theorem dram_other_channels_untimed:
  assumes "channel_ok s d" "addr ! 0 \<noteq> 0" "addr \<noteq> []"
  shows "dram_update_timing t cmd addr clk d = Inr d"
proof (cases d)
  case (Dram r cs)
  then have r: "node_level r = Channel" "node_id r = 0" using assms(1) by (simp_all add: channel_ok_def)
  have "list_all (\<lambda>(c, e). \<not> has_sibling e) (ddr4_timing_channel t)" by (simp add: ddr4_timing_channel_def after_def)
  then have "\<forall>e \<in> set (timing_table t Channel cmd). \<not> has_sibling e" by (auto simp: timing_table_iff list_all_iff)
  then show ?thesis using Dram r assms(2,3) by (simp add: addr_at_def sibling_timing_none)
qed

theorem dram_other_channels_untimed_witness:
  "dram_update_timing cfg_timing WR [1, 0, 0, 1, 2, 1] 5 (dm_channel (dm_ctrl small_memory)) = Inr (dm_channel (dm_ctrl small_memory))"
proof -
  have "channel_ok (small_ddr4 1) (dm_channel (dm_ctrl small_memory))"
    using small_memory_inv(1) by (simp add: dram_memory_inv_def dram_inv_def)
  from dram_other_channels_untimed [OF this, of "[1, 0, 0, 1, 2, 1]"] show ?thesis by simp
qed

lemma dram_fast_forward_pending [simp]: "\<exists>rs. pending_queue (dram_fast_forward r c) = pending_queue c @ rs"
  by (simp add: dram_fast_forward_def)

lemma set_queue_pending [simp]: "pending_queue (set_queue q x c) = pending_queue c"
  by (cases q) simp_all

lemma dram_issue_pending: "dram_issue_request r c = Inr (c', resp) \<Longrightarrow> \<exists>rs. pending_queue c' = pending_queue c @ rs"
  using dram_fast_forward_pending [of "r\<lparr>dr_arrive := dm_clk c\<rparr>"
      "dram_report (set_queue (get_queue (dr_type r)) q (c :: dram_controller))" for q]
  by (auto simp: dram_issue_request_def Let_def ebind_eq_Inr split: if_splits)

lemma dram_refresh_pending:
  "dram_refresh_ranks ranks c = Inr c' \<Longrightarrow> \<exists>rs. pending_queue c' = pending_queue c @ rs"
proof (induction ranks arbitrary: c)
  case (Cons rank ranks)
  then obtain c1 resp where c1: "dram_issue_request (new_mapped_request (refresh_addr (dm_channel c) rank) Dram_refresh) c = Inr (c1, resp)"
      "dram_refresh_ranks ranks c1 = Inr c'"
    by (auto simp: Let_def ebind_eq_Inr refresh_addr_def split: if_splits)
  then show ?case using Cons.IH [OF c1(2)] dram_issue_pending [OF c1(1)] by auto
qed simp

lemma dram_after_cmd_pending:
  "dram_after_cmd q r rest cmd c = Inr c' \<Longrightarrow> \<exists>rs. pending_queue c' = pending_queue c @ rs"
  by (auto simp: dram_after_cmd_def Let_def split: if_splits)

lemma dram_schedule_pending:
  assumes "dram_schedule q c = Inr c'"
  shows "\<exists>rs. pending_queue c' = pending_queue c @ rs"
proof (cases "queue (the_queue q c)")
  case (Cons r rest)
  let ?c = "set_queue q ((the_queue q c)\<lparr>queue := r\<lparr>dr_first_cmd := False\<rparr> # rest\<rparr>) c"
  from assms Cons consider "c' = c" | cmd c1 where "issue_cmd cmd (dr_mapped r) ?c = Inr c1"
      "dram_after_cmd q (r\<lparr>dr_first_cmd := False\<rparr>) rest cmd c1 = Inr c'"
    by (auto simp: dram_schedule_def Let_def ebind_eq_Inr split: if_splits)
  then show ?thesis
  proof cases
    case 2
    then show ?thesis using dram_after_cmd_pending [OF 2(2)] by (auto simp: issue_cmd_def ebind_eq_Inr)
  qed simp
qed (use assms in \<open>simp add: dram_schedule_def\<close>)

lemma dram_write_prior_pending [simp]: "pending_queue (dram_write_prior c) = pending_queue c"
  by (simp add: dram_write_prior_def)

definition blocked :: "dram_memory \<Rightarrow> bool" where
  "blocked m \<longleftrightarrow> (\<exists>r rest. pending_queue (dm_ctrl m) = r # rest \<and> dr_callback r = Cb_null)"

lemma dram_tick_blocked:
  assumes "blocked m" "dram_memory_tick clk m = Inr (m', calls)"
  shows "blocked m' \<and> calls = []"
proof -
  obtain r rest where r: "pending_queue (dm_ctrl m) = r # rest" "dr_callback r = Cb_null" using assms(1) by (auto simp: blocked_def)
  obtain c' where c': "dram_tick clk (dm_ctrl m) = Inr (c', calls)" "m' = m\<lparr>dm_ctrl := c'\<rparr>"
    using assms(2) by (auto simp: dram_memory_tick_def ebind_eq_Inr)
  let ?c = "(dm_ctrl m)\<lparr>dm_clk := clk\<rparr>"
  have p: "dram_serve_pending ?c = (?c, [])" using r by (simp add: dram_serve_pending_def)
  then obtain c2 where c2: "dram_refresh ?c = Inr c2"
      "dram_schedule (dram_pick_queue (dram_write_prior c2)) (dram_write_prior c2) = Inr c'"
    using c'(1) by (auto simp: dram_tick_def Let_def ebind_eq_Inr)
  have "\<exists>rs. pending_queue c2 = r # rest @ rs"
    using c2(1) r(1) dram_refresh_pending by (fastforce simp: dram_refresh_def ebind_eq_Inr split: if_splits)
  then have "\<exists>rs. pending_queue c' = r # rs" using dram_schedule_pending [OF c2(2)] by auto
  then show ?thesis using c' r(2) dram_tick_calls [OF c'(1)] p by (auto simp: blocked_def)
qed

text \<open>C39: A read without a callback is never removed from the queue of finished reads: once it is at the
  front, no run of requests and ticks invokes any callback again.\<close>

theorem dram_null_read_blocks:
  assumes "blocked m" "component_run dram_memory_ops evs m = Inr (m', accepted, calls)"
  shows "calls = [] \<and> blocked m'"
  using assms
proof (induction evs arbitrary: m accepted calls)
  case (Cons ev evs)
  show ?case
  proof (cases ev)
    case (Ev_issue r)
    then obtain m1 r' resp acc where m1: "dram_memory_issue_request m r = Inr (m1, r', resp)"
        "component_run dram_memory_ops evs m1 = Inr (m', acc, calls)"
      using Cons.prems(2) by (auto simp: dram_memory_ops_def ebind_eq_Inr split: prod.splits)
    from m1(1) obtain i c where "dram_issue_request i (dm_ctrl m) = Inr (c, resp)" "m1 = m\<lparr>dm_ctrl := c\<rparr>"
      by (auto simp: dram_memory_issue_request_def Let_def ebind_eq_Inr)
    then have "blocked m1" using Cons.prems(1) dram_issue_pending by (fastforce simp: blocked_def)
    then show ?thesis using Cons.IH m1(2) by blast
  next
    case (Ev_tick clk)
    then obtain m1 calls1 calls2 where m1: "dram_memory_tick clk m = Inr (m1, calls1)"
        "component_run dram_memory_ops evs m1 = Inr (m', accepted, calls2)" "calls = calls1 @ calls2"
      using Cons.prems(2) by (auto simp: dram_memory_ops_def ebind_eq_Inr split: prod.splits)
    then show ?thesis using dram_tick_blocked [OF Cons.prems(1) m1(1)] Cons.IH [of m1] by auto
  qed
qed simp

definition blocked_memory :: dram_memory where
  "blocked_memory = run_state dram_memory_ops
     [client 1 Base_write 0x40, Ev_issue (new_base_request Base_read 0x40 0 Cb_null), client 2 Base_read 0x40] small_memory"

theorem dram_null_read_blocks_witness:
  "(case component_run dram_memory_ops (ticks 3) blocked_memory of Inl e \<Rightarrow> False | Inr (m', accepted, calls) \<Rightarrow> calls = [] \<and> blocked m') \<and>
   map dr_callback (pending_queue (dm_ctrl blocked_memory)) = [Cb_null, Cb_client 2]"
proof -
  have p: "map dr_callback (pending_queue (dm_ctrl blocked_memory)) = [Cb_null, Cb_client 2]" by code_simp
  then have "blocked blocked_memory" by (auto simp: blocked_def map_eq_Cons_conv)
  moreover have "case component_run dram_memory_ops (ticks 3) blocked_memory of Inl e \<Rightarrow> False | Inr x \<Rightarrow> True" by code_simp
  ultimately show ?thesis using p dram_null_read_blocks [of blocked_memory "ticks 3"] by (auto split: sum.splits)
qed

text \<open>The queue for refreshes takes one request per rank.\<close>

lemma dram_issue_refresh:
  assumes "rq_wf (misc_queue c)"
  shows "dram_issue_request (new_mapped_request a Dram_refresh) c =
    (if length (queue (misc_queue c)) = max_entries (misc_queue c) then Inr (c, False, False, clk_invalid)
     else Inr (dram_report (c\<lparr>misc_queue := (misc_queue c)\<lparr>queue := queue (misc_queue c) @
       [(new_mapped_request a Dram_refresh)\<lparr>dr_arrive := dm_clk c\<rparr>]\<rparr>\<rparr>), True, False, clk_invalid))"
  using assms by (simp add: dram_issue_request_def Let_def rq_enqueue_def rq.full_spec new_mapped_request_def dram_fast_forward_def)

lemma dram_refresh_ranks_overflow:
  "rq_wf (misc_queue c) \<Longrightarrow> max_entries (misc_queue c) < length (queue (misc_queue c)) + length ranks \<Longrightarrow>
   dram_refresh_ranks ranks c = Inl refresh_overflow"
proof (induction ranks arbitrary: c)
  case (Cons rank ranks)
  note i = dram_issue_refresh [OF Cons.prems(1), of "refresh_addr (dm_channel c) rank", unfolded refresh_addr_def]
  show ?case
  proof (cases "length (queue (misc_queue c)) = max_entries (misc_queue c)")
    case True
    then show ?thesis using i by (simp add: Let_def)
  next
    case False
    then show ?thesis using i Cons.prems by (simp add: Let_def) (rule Cons.IH; simp add: rq_wf_def)
  qed
qed (simp add: rq_wf_def)

text \<open>Before the first refresh: the queue for refreshes is empty.\<close>

definition unrefreshed :: "nat \<Rightarrow> dram_controller \<Rightarrow> bool" where
  "unrefreshed n c \<longleftrightarrow> queue (misc_queue c) = [] \<and> max_entries (misc_queue c) = n \<and> last_refreshed_clk c = 0"

lemma unrefreshed_cong:
  "misc_queue c' = misc_queue c \<Longrightarrow> last_refreshed_clk c' = last_refreshed_clk c \<Longrightarrow> unrefreshed n c' = unrefreshed n c"
  by (simp add: unrefreshed_def)

lemma dram_issue_unrefreshed:
  "dram_issue_request r c = Inr (c', resp) \<Longrightarrow> dr_type r = Dram_read \<or> dr_type r = Dram_write \<Longrightarrow>
   unrefreshed n c' = unrefreshed n c"
  by (rule unrefreshed_cong)
    (auto simp: dram_issue_request_def dram_fast_forward_def dram_report_def Let_def ebind_eq_Inr split: if_splits)

lemma dram_after_cmd_unrefreshed:
  "dram_after_cmd q r rest cmd c = Inr c' \<Longrightarrow> q \<noteq> Q_misc \<Longrightarrow> unrefreshed n c' = unrefreshed n c"
  by (rule unrefreshed_cong; cases q) (auto simp: dram_after_cmd_def Let_def split: if_splits)

lemma dram_schedule_unrefreshed:
  assumes "dram_schedule q c = Inr c'" "q \<noteq> Q_misc"
  shows "unrefreshed n c' = unrefreshed n c"
proof (cases "queue (the_queue q c)")
  case (Cons r rest)
  let ?c = "set_queue q ((the_queue q c)\<lparr>queue := r\<lparr>dr_first_cmd := False\<rparr> # rest\<rparr>) c"
  have e: "unrefreshed n ?c = unrefreshed n c" using assms(2) by (cases q) (simp_all add: unrefreshed_def)
  from assms(1) Cons consider "c' = c" | cmd c1 where "issue_cmd cmd (dr_mapped r) ?c = Inr c1"
      "dram_after_cmd q (r\<lparr>dr_first_cmd := False\<rparr>) rest cmd c1 = Inr c'"
    by (auto simp: dram_schedule_def Let_def ebind_eq_Inr split: if_splits)
  then show ?thesis
  proof cases
    case 2
    then show ?thesis using dram_after_cmd_unrefreshed [OF 2(2) assms(2)] e
      by (auto simp: issue_cmd_def ebind_eq_Inr unrefreshed_def)
  qed simp
qed (use assms in \<open>simp add: dram_schedule_def\<close>)

lemma dram_tick_unrefreshed:
  assumes "dram_tick clk c = Inr (c', calls)" "unrefreshed n c" "clk < of_int (nREFI (ddr4_timings (dm_spec c)))"
  shows "unrefreshed n c'"
proof -
  let ?c = "fst (dram_serve_pending (c\<lparr>dm_clk := clk\<rparr>))"
  have p: "unrefreshed n ?c" "dm_clk ?c = clk" "dm_spec ?c = dm_spec c" 
    using assms(2) by (simp_all add: dram_serve_pending_def unrefreshed_def split: list.split)
  then have "dram_refresh ?c = Inr ?c" using assms(3) by (auto simp: dram_refresh_def unrefreshed_def dest: leD)
  then have t: "dram_schedule (dram_pick_queue (dram_write_prior ?c)) (dram_write_prior ?c) = Inr c'"
    using assms(1) by (auto simp: dram_tick_def split_def Let_def ebind_eq_Inr)
  have w: "unrefreshed n (dram_write_prior ?c)" using p(1) by (simp add: dram_write_prior_def unrefreshed_def)
  then have "dram_pick_queue (dram_write_prior ?c) \<noteq> Q_misc"
    by (simp add: dram_pick_queue_def unrefreshed_def rq_size_def)
  then show ?thesis using dram_schedule_unrefreshed [OF t] w by simp
qed

lemma dram_tick_overflows:
  assumes "dram_inv s start c" "unrefreshed n c" "n < unat (level_count s Rank)" "of_int (nREFI (ddr4_timings s)) \<le> clk"
  shows "dram_tick clk c = Inl refresh_overflow"
proof -
  let ?c = "fst (dram_serve_pending (c\<lparr>dm_clk := clk\<rparr>))"
  have p: "misc_queue ?c = misc_queue c" "last_refreshed_clk ?c = last_refreshed_clk c" "dm_clk ?c = clk" "dm_spec ?c = s"
      "dm_channel ?c = dm_channel c"
    using assms(1) by (simp_all add: dram_serve_pending_def dram_inv_def split: list.split)
  have ch: "channel_ok s (dm_channel c)" "rq_wf (misc_queue c)" using assms(1) by (simp_all add: dram_inv_def)
  obtain r cs where d: "dm_channel c = Dram r cs" by (cases "dm_channel c")
  have "length (children (dm_channel c)) = unat (level_count s Rank)"
    using dram_ok_length [of s r cs Rank] ch(1) unfolding d by (simp add: channel_ok_def del: dram_ok.simps)
  then have "dram_refresh_ranks (children (dm_channel ?c)) ?c = Inl refresh_overflow"
    using assms(2,3) ch(2) by (intro dram_refresh_ranks_overflow) (simp_all add: p unrefreshed_def)
  then have "dram_refresh ?c = Inl refresh_overflow"
    using assms(2,4) by (simp add: dram_refresh_def p unrefreshed_def)
  then show ?thesis by (simp add: dram_tick_def split_def)
qed

lemma dram_memory_tick_unrefreshed:
  assumes "dram_memory_inv s start m" "unrefreshed n (dm_ctrl m)" "n < unat (level_count s Rank)" "small_clk t"
  shows "dram_memory_tick t m = Inl refresh_overflow \<or>
    (\<exists>m' calls. dram_memory_tick t m = Inr (m', calls) \<and> dram_memory_inv s start m' \<and> unrefreshed n (dm_ctrl m') \<and>
      t < of_int (nREFI (ddr4_timings s)))"
proof -
  have c: "dram_inv s start (dm_ctrl m)" "dm_spec (dm_ctrl m) = s"
    using assms(1) by (simp_all add: dram_memory_inv_def dram_inv_def)
  show ?thesis
  proof (cases "dram_memory_tick t m")
    case (Inl e)
    then show ?thesis using dram_memory_tick_ok [OF assms(1,4)] by simp
  next
    case (Inr x)
    obtain m' calls where x: "x = (m', calls)" by (cases x)
    have t: "t < of_int (nREFI (ddr4_timings s))"
    proof (rule ccontr)
      assume "\<not> t < of_int (nREFI (ddr4_timings s))"
      then have "dram_memory_tick t m = Inl refresh_overflow"
        using dram_tick_overflows [OF c(1) assms(2,3)] by (simp add: dram_memory_tick_def)
      then show False using Inr by simp
    qed
    have "dram_memory_inv s start m'" using dram_memory_tick_ok [OF assms(1,4)] Inr x by simp
    moreover have "unrefreshed n (dm_ctrl m')"
      using dram_tick_unrefreshed [of t "dm_ctrl m" _ _ n] Inr x assms(2) c(2) t
      by (auto simp: dram_memory_tick_def ebind_eq_Inr)
    ultimately show ?thesis using Inr x t by simp
  qed
qed

lemma dram_memory_issue_unrefreshed:
  assumes "dram_memory_inv s start m" "unrefreshed n (dm_ctrl m)"
  shows "ensures (dram_memory_issue_request m r) (\<lambda>(m', r', resp). dram_memory_inv s start m' \<and> unrefreshed n (dm_ctrl m'))"
proof -
  obtain m' r' resp where i: "dram_memory_issue_request m r = Inr (m', r', resp)" "dram_memory_inv s start m'"
    using dram_memory_issue_ok [OF assms(1), of r] by (auto simp: ensures_iff)
  from i(1) obtain q where "dram_issue_request q (dm_ctrl m) = Inr (dm_ctrl m', resp)" "dr_type q = Dram_read \<or> dr_type q = Dram_write"
    by (auto simp: dram_memory_issue_request_def Let_def ebind_eq_Inr new_dram_request_def split: base_request_type.splits)
  then show ?thesis using i dram_issue_unrefreshed assms(2) by simp
qed

text \<open>C38: A memory with more ranks than queue entries never gets past its first refresh: all ranks are refreshed at once through the
  one queue. Every run of a new memory, whatever is requested before, throws the overflow at the latest in its first
  cycle that is numbered \<open>nREFI\<close> or later.\<close>

theorem dram_refresh_overflow_throws:
  assumes "new_dram_memory s (concat ts) epoch n start = Inr m" "mset ts = mset level_names"
    and "counts_ok s" "timing_ok (ddr4_timings s)" "n < unat (level_count s Rank)"
    and "list_all small_event evs" "Ev_tick clk \<in> set evs" "of_int (nREFI (ddr4_timings s)) \<le> clk"
  shows "component_run dram_memory_ops evs m = Inl refresh_overflow"
proof -
  have "unrefreshed n (dm_ctrl m)"
    using assms(1) by (auto simp: new_dram_memory_def ebind_eq_Inr Let_def unrefreshed_def new_dram_controller_def
        new_request_queue_def split: if_splits)
  with new_dram_memory_inv(1) [OF assms(1-4)] show ?thesis
    using assms(6,7)
  proof (induction evs arbitrary: m)
    case (Cons ev evs)
    show ?case
    proof (cases ev)
      case (Ev_issue r)
      obtain m' r' resp where i: "dram_memory_issue_request m r = Inr (m', r', resp)" "dram_memory_inv s start m'"
          "unrefreshed n (dm_ctrl m')"
        using dram_memory_issue_unrefreshed [OF Cons.prems(1,2), of r] by (auto simp: ensures_iff)
      then show ?thesis using Cons.IH [OF i(2,3)] Cons.prems Ev_issue by (simp add: dram_memory_ops_def split_def)
    next
      case (Ev_tick t)
      have "small_clk t" using Cons.prems(3) Ev_tick by simp
      from dram_memory_tick_unrefreshed [OF Cons.prems(1,2) assms(5) this] show ?thesis
      proof (elim disjE exE conjE)
        fix m' calls
        assume i: "dram_memory_tick t m = Inr (m', calls)" "dram_memory_inv s start m'" "unrefreshed n (dm_ctrl m')"
          and "t < of_int (nREFI (ddr4_timings s))"
        then have "Ev_tick clk \<in> set evs" using Cons.prems(4) Ev_tick assms(8) by auto
        then show ?thesis using Cons.IH [OF i(2,3)] Cons.prems(3) i(1) Ev_tick by (simp add: dram_memory_ops_def)
      qed (simp add: Ev_tick dram_memory_ops_def)
    qed
  qed simp
qed

theorem dram_refresh_overflow_throws_witness:
  "(case new_dram_memory (small_ddr4 2) (concat cfg_names) 0 1 0 of Inl e \<Rightarrow> False
    | Inr m \<Rightarrow> component_run dram_memory_ops (client 1 Base_read 0x40 # ticks 10400) m = Inl refresh_overflow)"
proof -
  have "case new_dram_memory (small_ddr4 2) (concat cfg_names) 0 1 0 of Inl e \<Rightarrow> False | Inr m \<Rightarrow> True" by code_simp
  then obtain m where m: "new_dram_memory (small_ddr4 2) (concat cfg_names) 0 1 0 = Inr m" by (auto split: sum.splits)
  have t: "timing_ok (ddr4_timings (small_ddr4 2))" by (rule cfg_timing_ok)
  have n: "1 < unat (level_count (small_ddr4 2) Rank)" "of_int (nREFI (ddr4_timings (small_ddr4 2))) \<le> (10400 :: clk_t)"
    by (simp_all add: small_ddr4_def cfg_timing_def)
  have ev: "list_all small_event (client 1 Base_read 0x40 # ticks 10400)" by (simp add: ticks_small client_small)
  have "Ev_tick (of_nat (Suc 10399)) \<in> set (ticks 10400)"
    unfolding ticks_def set_map by (intro imageI) simp
  then have "Ev_tick 10400 \<in> set (client 1 Base_read 0x40 # ticks 10400)" by simp
  from dram_refresh_overflow_throws [OF m cfg_names_perm small_counts_ok(2) t n(1) ev this n(2)] m show ?thesis by simp
qed

end
