(* ===== verification/Cxl.thy ===== *)
theory Cxl
  imports Component
begin

text \<open>
  The CXL side of the repository: the types of \<open>src/cxl/CxlTypes.h\<close>, the memory of
  \<open>src/cxl/mocks/MockCxlMemory.h\<close>, which is the only implementation of \<open>CxlMemory\<close>, the protocol
  handler, the command processor, the host and device interfaces, and the component
  \<open>cxl_system\<close> (\<open>src/general/cxl_system.h\<close>) over them. A byte vector is a list; allocation never runs out of memory.
\<close>

section \<open>Commands and responses\<close>

type_synonym bytes = "8 word list"

datatype cxl_type = Cxl_read | Cxl_write | Cxl_discover | Cxl_invalidate | Cxl_flush | Cxl_allocate | Cxl_deallocate

record cxl_command =
  cmd_type :: cxl_type
  cmd_address :: "64 word"
  cmd_size :: "64 word"
  cmd_data :: bytes

record cxl_response =
  success :: bool
  resp_data :: bytes

text \<open>The eight bytes of an address, as \<open>memcpy\<close> copies them on a little-endian machine.\<close>

definition address_bytes :: "64 word \<Rightarrow> bytes" where
  "address_bytes a = map (\<lambda>i. ucast (drop_bit (8 * i) a)) [0..<8]"

section \<open>The memory\<close>

record cxl_mem =
  next_free_address :: "64 word"
  regions :: "64 word \<rightharpoonup> bytes"

definition new_cxl_mem :: cxl_mem where
  "new_cxl_mem = \<lparr>next_free_address = 1, regions = Map.empty\<rparr>"

text \<open>\<open>read\<close> copies the bytes to the buffer of the caller; \<open>None\<close> is the answer false.\<close>

definition mem_read :: "64 word \<Rightarrow> 64 word \<Rightarrow> cxl_mem \<Rightarrow> bytes option" where
  "mem_read address n m =
     (case regions m address of
        None \<Rightarrow> None
      | Some v \<Rightarrow> if length v < unat n then None else Some (take (unat n) v))"

text \<open>\<open>write\<close> copies \<open>n\<close> bytes (the \<open>size\<close> of the code) from the vector of the caller, which may be shorter.\<close>

definition mem_write :: "64 word \<Rightarrow> bytes \<Rightarrow> 64 word \<Rightarrow> cxl_mem \<Rightarrow> vans_error + bool \<times> cxl_mem" where
  "mem_write address data n m =
     (case regions m address of
        None \<Rightarrow> Inr (False, m)
      | Some v \<Rightarrow>
          if length v < unat n then Inr (False, m)
          else if length data < unat n then Inl Undefined_behaviour
          else Inr (True, m\<lparr>regions := (regions m)(address \<mapsto> take (unat n) data @ drop (unat n) v)\<rparr>))"

definition mem_allocate :: "64 word \<Rightarrow> cxl_mem \<Rightarrow> 64 word \<times> cxl_mem" where
  "mem_allocate n m =
     (let addr = next_free_address m in
      (addr, \<lparr>next_free_address = addr + 1, regions = (regions m)(addr \<mapsto> replicate (unat n) 0)\<rparr>))"

definition mem_deallocate :: "64 word \<Rightarrow> cxl_mem \<Rightarrow> cxl_mem" where
  "mem_deallocate address m = m\<lparr>regions := (regions m)(address := None)\<rparr>"

section \<open>The protocol handler\<close>

text \<open>
  \<open>CxlProtocolHandlerImpl\<close>: what its response callback is told is part of the result of an
  operation. The command callback is stored and never invoked.
\<close>

record protocol_handler =
  ph_memory :: cxl_mem
  has_response_cb :: bool
  has_command_cb :: bool

definition new_protocol_handler :: "cxl_mem \<Rightarrow> protocol_handler" where
  "new_protocol_handler mem = \<lparr>ph_memory = mem, has_response_cb = False, has_command_cb = False\<rparr>"

definition register_response_cb :: "protocol_handler \<Rightarrow> protocol_handler" where
  "register_response_cb h = h\<lparr>has_response_cb := True\<rparr>"

definition register_command_cb :: "protocol_handler \<Rightarrow> protocol_handler" where
  "register_command_cb h = h\<lparr>has_command_cb := True\<rparr>"

definition invoke_response :: "cxl_response \<Rightarrow> protocol_handler \<Rightarrow> cxl_response list" where
  "invoke_response resp h = (if has_response_cb h then [resp] else [])"

definition handler_execute :: "cxl_command \<Rightarrow> cxl_mem \<Rightarrow> vans_error + cxl_mem \<times> cxl_response" where
  "handler_execute cmd m =
     (case cmd_type cmd of
        Cxl_read \<Rightarrow>
          (case mem_read (cmd_address cmd) (cmd_size cmd) m of
             None \<Rightarrow> Inr (m, \<lparr>success = False, resp_data = replicate (unat (cmd_size cmd)) 0\<rparr>)
           | Some v \<Rightarrow> Inr (m, \<lparr>success = True, resp_data = v\<rparr>))
      | Cxl_write \<Rightarrow>
          ebind (mem_write (cmd_address cmd) (cmd_data cmd) (cmd_size cmd) m) (\<lambda>(b, m).
            Inr (m, \<lparr>success = b, resp_data = []\<rparr>))
      | Cxl_allocate \<Rightarrow>
          (case mem_allocate (cmd_size cmd) m of (addr, m) \<Rightarrow>
             Inr (m, if addr \<noteq> 0 then \<lparr>success = True, resp_data = address_bytes addr\<rparr>
                     else \<lparr>success = False, resp_data = []\<rparr>))
      | Cxl_deallocate \<Rightarrow> Inr (mem_deallocate (cmd_address cmd) m, \<lparr>success = True, resp_data = []\<rparr>)
      | _ \<Rightarrow> Inr (m, \<lparr>success = False, resp_data = []\<rparr>))"

definition handler_issue_command ::
  "cxl_command \<Rightarrow> protocol_handler \<Rightarrow> vans_error + protocol_handler \<times> bool \<times> cxl_response list" where
  "handler_issue_command cmd h =
     ebind (handler_execute cmd (ph_memory h)) (\<lambda>(m, response).
       Inr (h\<lparr>ph_memory := m\<rparr>, success response, invoke_response response h))"

section \<open>The command processor\<close>

text \<open>
  \<open>CxlCommandProcessor::handleCommand\<close>. The response goes to the response callback of the
  protocol, which \<open>initialize\<close> sets to a closure that keeps the response inside a callback
  that does nothing; the kept response is the second component of the state.
\<close>

record command_processor =
  cp_memory :: cxl_mem
  kept_response :: "cxl_response option"

definition processor_execute :: "cxl_command \<Rightarrow> cxl_mem \<Rightarrow> vans_error + cxl_mem \<times> cxl_response" where
  "processor_execute cmd m =
     (case cmd_type cmd of
        Cxl_read \<Rightarrow>
          (case mem_read (cmd_address cmd) (cmd_size cmd) m of
             None \<Rightarrow> Inr (m, \<lparr>success = False, resp_data = []\<rparr>)
           | Some v \<Rightarrow> Inr (m, \<lparr>success = True, resp_data = v\<rparr>))
      | Cxl_write \<Rightarrow>
          ebind (mem_write (cmd_address cmd) (cmd_data cmd) (cmd_size cmd) m) (\<lambda>(b, m).
            Inr (m, \<lparr>success = b, resp_data = []\<rparr>))
      | Cxl_allocate \<Rightarrow>
          (case mem_allocate (cmd_size cmd) m of (addr, m) \<Rightarrow>
             Inr (m, \<lparr>success = True, resp_data = address_bytes addr\<rparr>))
      | Cxl_deallocate \<Rightarrow> Inr (mem_deallocate (cmd_address cmd) m, \<lparr>success = True, resp_data = []\<rparr>)
      | _ \<Rightarrow> Inr (m, \<lparr>success = False, resp_data = []\<rparr>))"

text \<open>The protocol is a handler whose callbacks \<open>initialize\<close> has set or not.\<close>

definition processor_handle_command ::
  "cxl_command \<Rightarrow> protocol_handler \<Rightarrow> command_processor \<Rightarrow> vans_error + command_processor" where
  "processor_handle_command cmd protocol p =
     ebind (processor_execute cmd (cp_memory p)) (\<lambda>(m, response).
       case invoke_response response protocol of
         [] \<Rightarrow> Inr (p\<lparr>cp_memory := m\<rparr>)
       | r # rs \<Rightarrow> Inr (p\<lparr>cp_memory := m, kept_response := Some r\<rparr>))"

definition processor_initialize :: "protocol_handler \<Rightarrow> protocol_handler" where
  "processor_initialize protocol = register_response_cb (register_command_cb protocol)"

section \<open>Host and device\<close>

text \<open>
  \<open>CxlHostInterfaceImpl\<close> and \<open>CxlDeviceInterfaceImpl\<close> around one protocol handler: the
  constructor of the device registers the response callback, which stores the response in the host.
\<close>

record cxl_link =
  link_handler :: protocol_handler
  device_attached :: bool
  host_response :: cxl_response
  response_ready :: bool

definition new_cxl_link :: "protocol_handler \<Rightarrow> cxl_response \<Rightarrow> cxl_link" where
  "new_cxl_link h garbage =
     \<lparr>link_handler = register_response_cb h, device_attached = False,
      host_response = garbage, response_ready = False\<rparr>"

definition attach_device :: "cxl_link \<Rightarrow> cxl_link" where
  "attach_device l = l\<lparr>device_attached := True\<rparr>"

definition set_response :: "cxl_response \<Rightarrow> cxl_link \<Rightarrow> cxl_link" where
  "set_response resp l = l\<lparr>host_response := resp, response_ready := True\<rparr>"

definition device_receive_command :: "cxl_command \<Rightarrow> cxl_link \<Rightarrow> vans_error + bool \<times> cxl_link" where
  "device_receive_command cmd l =
     ebind (handler_issue_command cmd (link_handler l)) (\<lambda>(h, ok, responses).
       Inr (ok, fold set_response responses (l\<lparr>link_handler := h\<rparr>)))"

definition host_send_command :: "cxl_command \<Rightarrow> cxl_link \<Rightarrow> vans_error + bool \<times> cxl_link" where
  "host_send_command cmd l =
     (if device_attached l then device_receive_command cmd l else Inr (False, l))"

text \<open>The response is written to the argument of the caller; \<open>None\<close> is the answer false.\<close>

definition host_receive_response :: "cxl_link \<Rightarrow> cxl_response option \<times> cxl_link" where
  "host_receive_response l =
     (if response_ready l then (Some (host_response l), l\<lparr>response_ready := False\<rparr>) else (None, l))"

text \<open>
  \<open>sendResponse\<close> calls \<open>receiveResponse\<close> of the host on its argument, whose \<open>const\<close> it casts
  away: the argument is overwritten. The result is the answer and the argument afterwards.
\<close>

definition device_send_response :: "cxl_response \<Rightarrow> cxl_link \<Rightarrow> bool \<times> cxl_response \<times> cxl_link" where
  "device_send_response response l =
     (case host_receive_response l of
        (None, l) \<Rightarrow> (False, response, l)
      | (Some r, l) \<Rightarrow> (True, r, l))"

section \<open>The component\<close>

text \<open>
  \<open>cxl_memory\<close> is a handler without callbacks over a memory of its own. The component has two of
  them: one in its controller, which serves the requests, and one as \<open>memory_component\<close>. The
  connected components are only ticked.
\<close>

definition new_cxl_memory :: protocol_handler where
  "new_cxl_memory = new_protocol_handler new_cxl_mem"

definition cxl_memory_issue_request ::
  "base_request \<Rightarrow> protocol_handler \<Rightarrow> vans_error + protocol_handler \<times> base_response" where
  "cxl_memory_issue_request req h =
     (let cmd = \<lparr>cmd_type = (case req_type req of Base_read \<Rightarrow> Cxl_read | Base_write \<Rightarrow> Cxl_write),
                 cmd_address = req_addr req, cmd_size = 64, cmd_data = []\<rparr> in
      ebind (handler_issue_command cmd h) (\<lambda>(h, ok, responses). Inr (h, True, True, 0)))"

record 'n cxl_system =
  cxl_ctrl :: protocol_handler
  cxl_memory_component :: protocol_handler
  cxl_next :: "'n list"

definition new_cxl_system :: "'n cxl_system" where
  "new_cxl_system = \<lparr>cxl_ctrl = new_cxl_memory, cxl_memory_component = new_cxl_memory, cxl_next = []\<rparr>"

definition cxl_issue_request ::
  "'n cxl_system \<Rightarrow> base_request \<Rightarrow> vans_error + 'n cxl_system \<times> base_request \<times> base_response" where
  "cxl_issue_request c req =
     ebind (cxl_memory_issue_request req (cxl_ctrl c)) (\<lambda>(h, resp). Inr (c\<lparr>cxl_ctrl := h\<rparr>, req, resp))"

definition cxl_tick :: "'n component_ops \<Rightarrow> clk_t \<Rightarrow> 'n cxl_system \<Rightarrow> vans_error + 'n cxl_system \<times> call list" where
  "cxl_tick ops curr_clk c =
     ebind (tick_list ops curr_clk (cxl_next c)) (\<lambda>(ns, calls). Inr (c\<lparr>cxl_next := ns\<rparr>, calls))"

definition cxl_connect_next :: "'n \<Rightarrow> 'n cxl_system \<Rightarrow> 'n cxl_system" where
  "cxl_connect_next nc c = c\<lparr>cxl_next := cxl_next c @ [nc]\<rparr>"

definition cxl_system_ops :: "'n component_ops \<Rightarrow> 'n cxl_system component_ops" where
  "cxl_system_ops ops =
     \<lparr>issue_request = cxl_issue_request, full = (\<lambda>c. Inr False), is_pending = (\<lambda>c. Inr False),
      drain = Inr, tick = cxl_tick ops\<rparr>"

end
