(* ===== verification/Cxl_Inv.thy ===== *)
theory Cxl_Inv
  imports Cxl
begin

text \<open>
  What the CXL components rely on: the laws of a memory of separate regions, which \<open>MockCxlMemory\<close>
  keeps as long as its 64-bit address counter does not wrap, and the contract of a next level for
  the component \<open>cxl_system\<close>.
\<close>

section \<open>A memory of separate regions\<close>

text \<open>\<open>room m\<close> is the number of addresses that \<open>m\<close> can still give out.\<close>

locale region_memory =
  fixes rd :: "64 word \<Rightarrow> 64 word \<Rightarrow> 'm \<Rightarrow> bytes option"
    and wr :: "64 word \<Rightarrow> bytes \<Rightarrow> 64 word \<Rightarrow> 'm \<Rightarrow> vans_error + bool \<times> 'm"
    and alloc :: "64 word \<Rightarrow> 'm \<Rightarrow> 64 word \<times> 'm"
    and dealloc :: "64 word \<Rightarrow> 'm \<Rightarrow> 'm"
    and ok :: "'m \<Rightarrow> bool"
    and room :: "'m \<Rightarrow> nat"
  assumes write_read: "wr a d n m = Inr (True, m') \<Longrightarrow> unat k \<le> unat n \<Longrightarrow> rd a k m' = Some (take (unat k) d)"
    and write_other: "wr a d n m = Inr (b, m') \<Longrightarrow> c \<noteq> a \<Longrightarrow> rd c k m' = rd c k m"
    and write_keeps: "wr a d n m = Inr (b, m') \<Longrightarrow> ok m \<Longrightarrow> ok m' \<and> room m' = room m"
    and alloc_fresh: "alloc n m = (a, m') \<Longrightarrow> ok m \<Longrightarrow> a \<noteq> 0 \<and> rd a k m = None"
    and alloc_zero: "alloc n m = (a, m') \<Longrightarrow> unat k \<le> unat n \<Longrightarrow> rd a k m' = Some (replicate (unat k) 0)"
    and alloc_other: "alloc n m = (a, m') \<Longrightarrow> c \<noteq> a \<Longrightarrow> rd c k m' = rd c k m"
    and alloc_keeps: "alloc n m = (a, m') \<Longrightarrow> ok m \<Longrightarrow> 1 < room m \<Longrightarrow> ok m' \<and> room m' = room m - 1"
    and dealloc_gone: "rd a k (dealloc a m) = None"
    and dealloc_other: "c \<noteq> a \<Longrightarrow> rd c k (dealloc a m) = rd c k m"
    and dealloc_keeps: "ok m \<Longrightarrow> ok (dealloc a m) \<and> room (dealloc a m) = room m"
begin

text \<open>A region that can be read is not the one that an allocation returns.\<close>

lemma alloc_keeps_read:
  assumes "alloc n m = (a, m')" "ok m" "rd c k m = Some v"
  shows "rd c k m' = Some v"
  using alloc_fresh [OF assms(1,2), of k] alloc_other [OF assms(1), of c k] assms(3) by (cases "c = a") auto

end

definition mem_room :: "cxl_mem \<Rightarrow> nat" where
  "mem_room m = 2 ^ 64 - unat (next_free_address m)"

definition mem_ok :: "cxl_mem \<Rightarrow> bool" where
  "mem_ok m \<longleftrightarrow> next_free_address m \<noteq> 0 \<and> (\<forall>a \<in> dom (regions m). a < next_free_address m)"

lemma mem_ok_next:
  assumes "mem_ok m" "1 < mem_room m"
  shows "unat (next_free_address m + 1) = Suc (unat (next_free_address m))"
  using assms by (simp add: mem_room_def unat_word_ariths)

lemma mem_write_read:
  assumes "mem_write a d n m = Inr (True, m')" "unat k \<le> unat n"
  shows "mem_read a k m' = Some (take (unat k) d)"
  using assms by (auto simp: mem_write_def mem_read_def min_def split: option.splits if_splits)

lemma mem_write_other:
  assumes "mem_write a d n m = Inr (b, m')" "c \<noteq> a"
  shows "mem_read c k m' = mem_read c k m"
  using assms by (auto simp: mem_write_def mem_read_def split: option.splits if_splits)

lemma mem_write_keeps:
  assumes "mem_write a d n m = Inr (b, m')" "mem_ok m"
  shows "mem_ok m' \<and> mem_room m' = mem_room m"
  using assms by (auto simp: mem_write_def mem_ok_def mem_room_def split: option.splits if_splits)

lemma mem_allocate_keeps:
  assumes "mem_allocate n m = (a, m')" "mem_ok m" "1 < mem_room m"
  shows "mem_ok m' \<and> mem_room m' = mem_room m - 1"
proof -
  let ?next = "next_free_address m"
  note s = mem_ok_next [OF assms(2,3)]
  have m': "next_free_address m' = ?next + 1" "dom (regions m') = insert ?next (dom (regions m))"
    using assms(1) by (auto simp: mem_allocate_def Let_def)
  have "?next < ?next + 1" using s by (simp add: word_less_nat_alt)
  then have "\<forall>b \<in> dom (regions m'). b < next_free_address m'"
    using assms(2) order.strict_trans [of _ ?next "?next + 1"] unfolding mem_ok_def m' by blast
  moreover have "next_free_address m' \<noteq> 0" using s m'(1) by (metis nat.distinct(1) unat_0)
  ultimately show ?thesis using s m'(1) by (simp add: mem_ok_def mem_room_def)
qed

interpretation cxl_mem: region_memory mem_read mem_write mem_allocate mem_deallocate mem_ok mem_room
proof
  show "a \<noteq> 0 \<and> mem_read a k m = None" if "mem_allocate n m = (a, m')" "mem_ok m" for n m a m' k
    using that by (auto simp: mem_allocate_def Let_def mem_ok_def mem_read_def split: option.splits)
  show "mem_read a k m' = Some (replicate (unat k) 0)"
    if "mem_allocate n m = (a, m')" "unat k \<le> unat n" for n m a m' k
    using that by (auto simp: mem_allocate_def Let_def mem_read_def min_def)
  show "mem_read c k m' = mem_read c k m" if "mem_allocate n m = (a, m')" "c \<noteq> a" for n m a m' c k
    using that by (auto simp: mem_allocate_def Let_def mem_read_def)
  show "mem_read a k (mem_deallocate a m) = None" for a k m by (simp add: mem_deallocate_def mem_read_def)
  show "mem_read c k (mem_deallocate a m) = mem_read c k m" if "c \<noteq> a" for c a k m
    using that by (simp add: mem_deallocate_def mem_read_def)
  show "mem_ok (mem_deallocate a m) \<and> mem_room (mem_deallocate a m) = mem_room m" if "mem_ok m" for a m
    using that by (auto simp: mem_deallocate_def mem_ok_def mem_room_def)
qed (rule mem_write_read mem_write_other mem_write_keeps mem_allocate_keeps, assumption+)+

lemma new_cxl_mem_ok: "mem_ok new_cxl_mem" "mem_room new_cxl_mem = 2 ^ 64 - 1"
  by (simp_all add: new_cxl_mem_def mem_ok_def mem_room_def)

section \<open>Sequences of commands\<close>

fun handler_run :: "cxl_command list \<Rightarrow> cxl_mem \<Rightarrow> vans_error + cxl_mem \<times> cxl_response list" where
  "handler_run [] m = Inr (m, [])"
| "handler_run (cmd # cmds) m =
     ebind (handler_execute cmd m) (\<lambda>(m, r).
     ebind (handler_run cmds m) (\<lambda>(m, rs). Inr (m, r # rs)))"

text \<open>Commands that neither write nor free the region of an address.\<close>

definition leaves_region :: "64 word \<Rightarrow> cxl_command \<Rightarrow> bool" where
  "leaves_region a cmd \<longleftrightarrow> cmd_type cmd \<in> {Cxl_write, Cxl_deallocate} \<longrightarrow> cmd_address cmd \<noteq> a"

lemma handler_execute_keeps:
  assumes "handler_execute cmd m = Inr (m', r)" "mem_ok m" "1 < mem_room m"
  shows "mem_ok m' \<and> mem_room m - 1 \<le> mem_room m'"
proof (cases "cmd_type cmd")
  case Cxl_write
  then show ?thesis using assms cxl_mem.write_keeps [of _ _ _ m _ m']
    by (fastforce simp: handler_execute_def ebind_eq_Inr)
next
  case Cxl_allocate
  then show ?thesis using assms cxl_mem.alloc_keeps [of _ m _ m']
    by (fastforce simp: handler_execute_def split: prod.splits)
next
  case Cxl_deallocate
  then show ?thesis using assms cxl_mem.dealloc_keeps [of m] by (auto simp: handler_execute_def)
qed (use assms in \<open>auto simp: handler_execute_def split: option.splits\<close>)

lemma handler_execute_read:
  assumes "handler_execute cmd m = Inr (m', r)" "mem_ok m" "leaves_region a cmd" "mem_read a k m = Some v"
  shows "mem_read a k m' = Some v"
proof (cases "cmd_type cmd")
  case Cxl_write
  then show ?thesis using assms cxl_mem.write_other [of _ _ _ m _ m' a k]
    by (fastforce simp: handler_execute_def ebind_eq_Inr leaves_region_def)
next
  case Cxl_allocate
  then show ?thesis using assms cxl_mem.alloc_keeps_read [of _ m _ m' a k v]
    by (fastforce simp: handler_execute_def split: prod.splits)
next
  case Cxl_deallocate
  then show ?thesis using assms cxl_mem.dealloc_other [of a _ k m]
    by (auto simp: handler_execute_def leaves_region_def)
qed (use assms in \<open>auto simp: handler_execute_def split: option.splits\<close>)

lemma handler_run_read:
  assumes "handler_run cmds m = Inr (m', rs)" "mem_ok m" "length cmds < mem_room m"
    and "list_all (leaves_region a) cmds" "mem_read a k m = Some v"
  shows "mem_read a k m' = Some v"
  using assms
proof (induction cmds arbitrary: m rs)
  case (Cons cmd cmds)
  from Cons.prems(1) obtain m1 r rs' where e: "handler_execute cmd m = Inr (m1, r)"
      "handler_run cmds m1 = Inr (m', rs')"
    by (auto simp: ebind_eq_Inr)
  have ok: "mem_ok m1" "mem_room m - 1 \<le> mem_room m1"
    using handler_execute_keeps [OF e(1) Cons.prems(2)] Cons.prems(3) by simp_all
  have "mem_read a k m1 = Some v" using handler_execute_read [OF e(1)] Cons.prems by simp
  then show ?case using Cons.IH [OF e(2) ok(1)] ok(2) Cons.prems(3,4) by simp
qed simp

section \<open>The component as a level\<close>

text \<open>Nothing is ever allocated in the memory behind the component.\<close>

definition cxl_inv :: "('n \<Rightarrow> bool) \<Rightarrow> 'n cxl_system \<Rightarrow> bool" where
  "cxl_inv ninv c \<longleftrightarrow> regions (ph_memory (cxl_ctrl c)) = Map.empty \<and> (\<forall>n \<in> set (cxl_next c). ninv n)"

definition cxl_command_of :: "base_request \<Rightarrow> cxl_command" where
  "cxl_command_of req =
     \<lparr>cmd_type = (case req_type req of Base_read \<Rightarrow> Cxl_read | Base_write \<Rightarrow> Cxl_write),
      cmd_address = req_addr req, cmd_size = 64, cmd_data = []\<rparr>"

lemma cxl_command_fails:
  assumes "regions (ph_memory h) = Map.empty"
  shows "\<exists>responses. handler_issue_command (cxl_command_of req) h = Inr (h, False, responses)"
  using assms
  by (cases "req_type req")
    (simp_all add: handler_issue_command_def handler_execute_def cxl_command_of_def mem_read_def mem_write_def)

lemma cxl_issue_request_eq:
  assumes "cxl_inv ninv c"
  shows "cxl_issue_request c req = Inr (c, req, True, True, 0)"
  using cxl_command_fails [of "cxl_ctrl c" req] assms
  by (auto simp: cxl_issue_request_def cxl_memory_issue_request_def cxl_command_of_def cxl_inv_def Let_def)

context ticking_level
begin

lemma cxl_responder: "responder (cxl_system_ops ops) (cxl_inv ninv) (\<lambda>c. {#}) (\<lambda>a. a) (\<lambda>r. False)"
  if quiet: "\<And>n clk n' calls. ninv n \<Longrightarrow> tick ops clk n = Inr (n', calls) \<Longrightarrow> calls = []"
proof
  fix n :: "'a cxl_system" and r :: base_request and clk
  assume i: "cxl_inv ninv n"
  then have ns: "\<forall>m \<in> set (cxl_next n). ninv m" by (simp add: cxl_inv_def)
  show "ensures (full (cxl_system_ops ops) n) (\<lambda>b. True)" "ensures (is_pending (cxl_system_ops ops) n) (\<lambda>b. True)"
    by (simp_all add: cxl_system_ops_def)
  have q: "calls = []" if "tick_list ops clk ns = Inr (ns', calls)" "\<forall>m \<in> set ns. ninv m" for ns ns' calls
    using that
  proof (induction ns arbitrary: ns' calls)
    case (Cons m ns)
    then show ?case using quiet [of m clk] by (fastforce simp: ebind_eq_Inr)
  qed simp
  show "ensures (tick (cxl_system_ops ops) clk n) (\<lambda>(n', calls). cxl_inv ninv n' \<and> (\<forall>(cb, a, t) \<in> set calls. t = clk))"
    if "small_clk clk"
    using tick_list_ok [OF ns that] i by (auto simp: cxl_system_ops_def cxl_tick_def cxl_inv_def ensures_iff)
  show "ensures (tick (cxl_system_ops ops) clk n) (\<lambda>(n', calls).
      {#} = {#} + mset (map (\<lambda>(cb, a, t). (cb, a)) calls))"
    if "small_clk clk"
    using tick_list_ok [OF ns that] q [OF _ ns] by (auto simp: cxl_system_ops_def cxl_tick_def ensures_iff)
  show "ensures (issue_request (cxl_system_ops ops) n r) (\<lambda>(n', r', issued, deterministic, next_clk).
      cxl_inv ninv n' \<and> (issued \<longrightarrow> deterministic \<longrightarrow> next_clk \<noteq> clk_invalid))"
    "ensures (issue_request (cxl_system_ops ops) n r) (\<lambda>(n', r', issued, deterministic, next_clk). issued)"
    "ensures (issue_request (cxl_system_ops ops) n r) (\<lambda>(n', r', issued, deterministic, next_clk).
      {#} = {#} + (if issued \<and> \<not> deterministic \<and> False then {#(req_callback r, req_addr r)#} else {#}))"
    using i by (simp_all add: cxl_system_ops_def cxl_issue_request_eq clk_invalid_def)
qed

end

end
