(* ===== verification/Cxl_Mocks.thy ===== *)
theory Cxl_Mocks
  imports Cxl
begin

text \<open>
  The mock objects of \<open>src/cxl/mocks\<close>. Host and device answer each other from detached
  threads that sleep and then act: a thread that has not acted yet is an element of a multiset, and any of
  them can act next. The protocol handler hands every command to the command processor.
\<close>

section \<open>Host and device with threads\<close>

record mock_link =
  mh_device :: bool
  md_host :: bool
  sent_command :: cxl_command
  received_response :: cxl_response
  mock_ready :: bool
  to_device :: "cxl_command multiset"
  to_host :: "cxl_response multiset"

definition mock_start :: "mock_link \<Rightarrow> bool" where
  "mock_start l \<longleftrightarrow> \<not> mock_ready l \<and> to_device l = {#} \<and> to_host l = {#}"

definition new_mock_link :: "cxl_command \<Rightarrow> cxl_response \<Rightarrow> mock_link" where
  "new_mock_link garbage_command garbage_response =
     \<lparr>mh_device = False, md_host = False, sent_command = garbage_command,
      received_response = garbage_response, mock_ready = False, to_device = {#}, to_host = {#}\<rparr>"

definition mock_attach_device :: "mock_link \<Rightarrow> mock_link" where
  "mock_attach_device l = l\<lparr>mh_device := True\<rparr>"

definition mock_attach_host :: "mock_link \<Rightarrow> mock_link" where
  "mock_attach_host l = l\<lparr>md_host := True\<rparr>"

text \<open>The answer that the thread of \<open>MockCxlDeviceInterface::receiveCommand\<close> makes up.\<close>

definition mock_device_response :: "cxl_command \<Rightarrow> cxl_response" where
  "mock_device_response cmd =
     \<lparr>success = True,
      resp_data = (case cmd_type cmd of
          Cxl_read \<Rightarrow> replicate (unat (cmd_size cmd)) 0xBB
        | Cxl_write \<Rightarrow> []
        | _ \<Rightarrow> [0x44, 0x45, 0x56])\<rparr>"

definition mock_send_command :: "cxl_command \<Rightarrow> mock_link \<Rightarrow> bool \<times> mock_link" where
  "mock_send_command cmd l =
     (if \<not> mh_device l then (False, l)
      else (True, l\<lparr>sent_command := cmd, mock_ready := False, to_device := add_mset cmd (to_device l)\<rparr>))"

definition mock_receive_command :: "cxl_command \<Rightarrow> mock_link \<Rightarrow> mock_link" where
  "mock_receive_command cmd l = l\<lparr>to_host := add_mset (mock_device_response cmd) (to_host l)\<rparr>"

definition mock_deliver_response :: "cxl_response \<Rightarrow> mock_link \<Rightarrow> mock_link" where
  "mock_deliver_response r l = l\<lparr>received_response := r, mock_ready := True\<rparr>"

definition mock_set_response :: "cxl_response \<Rightarrow> mock_link \<Rightarrow> mock_link" where
  "mock_set_response r l = l\<lparr>received_response := r, mock_ready := True\<rparr>"

definition mock_send_response :: "cxl_response \<Rightarrow> mock_link \<Rightarrow> bool \<times> mock_link" where
  "mock_send_response r l = (if md_host l then (True, mock_deliver_response r l) else (False, l))"

text \<open>\<open>receiveResponse\<close> waits for a while: \<open>None\<close> is the time-out. A response is not consumed.\<close>

definition mock_receive_response :: "mock_link \<Rightarrow> cxl_response option" where
  "mock_receive_response l = (if mock_ready l then Some (received_response l) else None)"

datatype mock_event = Mock_send cxl_command | Mock_device cxl_command | Mock_host cxl_response
  | Mock_receive "cxl_response option"

inductive mock_step :: "mock_link \<Rightarrow> mock_event \<Rightarrow> mock_link \<Rightarrow> bool" where
  send: "mock_send_command cmd l = (True, l') \<Longrightarrow> mock_step l (Mock_send cmd) l'"
| device: "cmd \<in># to_device l \<Longrightarrow>
    mock_step l (Mock_device cmd) (mock_receive_command cmd (l\<lparr>to_device := to_device l - {#cmd#}\<rparr>))"
| host: "r \<in># to_host l \<Longrightarrow>
    mock_step l (Mock_host r) (snd (mock_send_response r (l\<lparr>to_host := to_host l - {#r#}\<rparr>)))"
| receive: "mock_step l (Mock_receive (mock_receive_response l)) l"

inductive_cases mock_step_elim: "mock_step l e l'"

inductive mock_steps :: "mock_link \<Rightarrow> mock_event list \<Rightarrow> mock_link \<Rightarrow> bool" where
  none: "mock_steps l [] l"
| more: "mock_steps l es l1 \<Longrightarrow> mock_step l1 e l2 \<Longrightarrow> mock_steps l (es @ [e]) l2"

fun sent_in :: "mock_event list \<Rightarrow> cxl_command set" where
  "sent_in [] = {}"
| "sent_in (Mock_send cmd # es) = insert cmd (sent_in es)"
| "sent_in (e # es) = sent_in es"

lemma sent_in_append: "sent_in (es @ es') = sent_in es \<union> sent_in es'"
  by (induction es rule: sent_in.induct) auto

text \<open>Everything on its way comes from a command that was sent.\<close>

definition mock_inv :: "cxl_command set \<Rightarrow> mock_link \<Rightarrow> bool" where
  "mock_inv cmds l \<longleftrightarrow>
     set_mset (to_device l) \<subseteq> cmds \<and> set_mset (to_host l) \<subseteq> mock_device_response ` cmds \<and>
     (mock_ready l \<longrightarrow> received_response l \<in> mock_device_response ` cmds)"

lemma mock_inv_mono: "mock_inv cmds l \<Longrightarrow> cmds \<subseteq> cmds' \<Longrightarrow> mock_inv cmds' l"
  unfolding mock_inv_def by blast

lemma mock_step_inv:
  assumes "mock_step l e l'" "mock_inv cmds l"
  shows "mock_inv (cmds \<union> sent_in [e]) l'"
  using assms
proof cases
  case (send cmd)
  then show ?thesis using assms(2) by (auto simp: mock_send_command_def mock_inv_def split: if_splits)
next
  case (device cmd)
  then show ?thesis using assms(2) by (auto simp: mock_receive_command_def mock_inv_def dest: in_diffD)
next
  case (host r)
  then show ?thesis using assms(2)
    by (auto simp: mock_send_response_def mock_deliver_response_def mock_inv_def dest: in_diffD)
qed (use assms(2) in simp)

lemma mock_steps_inv:
  assumes "mock_steps l es l'" "mock_inv {} l"
  shows "mock_inv (sent_in es) l'"
  using assms
proof (induction rule: mock_steps.induct)
  case (more l es l1 e l2)
  then show ?case using mock_step_inv [OF more(2), of "sent_in es"] by (simp add: sent_in_append)
qed simp

lemma mock_received:
  assumes "mock_steps l es l'" "mock_start l"
  shows "mock_step l' (Mock_receive (Some r)) l'' \<Longrightarrow> \<exists>cmd \<in> sent_in es. r = mock_device_response cmd"
proof -
  have "mock_inv {} l" using assms(2) by (simp add: mock_start_def mock_inv_def)
  from mock_steps_inv [OF assms(1) this] have i: "mock_inv (sent_in es) l'" .
  show "mock_step l' (Mock_receive (Some r)) l'' \<Longrightarrow> ?thesis"
    using i by (elim mock_step_elim) (auto simp: mock_receive_response_def mock_inv_def split: if_splits)
qed

section \<open>The mock protocol handler\<close>

text \<open>
  \<open>MockCxlProtocolHandler\<close> with the processor that has set its callbacks. The queue of commands
  is never filled, so \<open>processNextCommand\<close> has nothing to do; \<open>mock_reply\<close> is its answer.
\<close>

record mock_handler =
  mock_protocol :: protocol_handler
  mock_processor :: command_processor
  mock_queue :: "cxl_command list"

definition mock_issue_command :: "cxl_command \<Rightarrow> mock_handler \<Rightarrow> vans_error + bool \<times> mock_handler" where
  "mock_issue_command cmd h =
     (if has_command_cb (mock_protocol h)
      then ebind (processor_handle_command cmd (mock_protocol h) (mock_processor h)) (\<lambda>p.
        Inr (True, h\<lparr>mock_processor := p\<rparr>))
      else Inr (True, h))"

text \<open>The member that \<open>WasReadCommandProcessed\<close> returns is never assigned.\<close>

definition was_read_command_processed :: "mock_handler \<Rightarrow> vans_error + bool" where
  "was_read_command_processed h = Inl Undefined_behaviour"

definition mock_reply :: "cxl_command \<Rightarrow> cxl_response" where
  "mock_reply cmd =
     (case cmd_type cmd of
        Cxl_read \<Rightarrow> \<lparr>success = True, resp_data = replicate (unat (cmd_size cmd)) 0xAA\<rparr>
      | Cxl_write \<Rightarrow> \<lparr>success = True, resp_data = []\<rparr>
      | Cxl_discover \<Rightarrow> \<lparr>success = True, resp_data = [0x43, 0x58, 0x4C, 0x44]\<rparr>
      | Cxl_invalidate \<Rightarrow> \<lparr>success = False, resp_data = []\<rparr>
      | _ \<Rightarrow> \<lparr>success = True, resp_data = []\<rparr>)"

definition mock_process_next :: "mock_handler \<Rightarrow> mock_handler \<times> cxl_response list" where
  "mock_process_next h =
     (if mock_queue h = [] \<or> \<not> has_response_cb (mock_protocol h) then (h, [])
      else (h\<lparr>mock_queue := tl (mock_queue h)\<rparr>, [mock_reply (hd (mock_queue h))]))"

end
