(* ===== verification/Cxl_Props.thy ===== *)
theory Cxl_Props
  imports Cxl_Inv Cxl_Mocks Static_Memory
begin

text \<open>
  Properties of the CXL memory, its protocol handler, the command processor, the exchange between host
  and device, the mock objects and the component \<open>cxl_system\<close>.
\<close>

section \<open>Memory\<close>

definition read_cmd :: "64 word \<Rightarrow> 64 word \<Rightarrow> cxl_command" where
  "read_cmd a n = \<lparr>cmd_type = Cxl_read, cmd_address = a, cmd_size = n, cmd_data = []\<rparr>"

definition write_cmd :: "64 word \<Rightarrow> bytes \<Rightarrow> cxl_command" where
  "write_cmd a d = \<lparr>cmd_type = Cxl_write, cmd_address = a, cmd_size = of_nat (length d), cmd_data = d\<rparr>"

definition allocate_cmd :: "64 word \<Rightarrow> cxl_command" where
  "allocate_cmd n = \<lparr>cmd_type = Cxl_allocate, cmd_address = 0, cmd_size = n, cmd_data = []\<rparr>"

text \<open>C17: A read through the protocol handler returns what the last successful write to the region
  wrote, whatever commands are executed in between, allocations included, as long as none of them
  writes or frees that region and the address counter does not wrap.\<close>

theorem cxl_read_after_write:
  assumes "mem_ok m" "length d < 2 ^ 64" "handler_execute (write_cmd a d) m = Inr (m1, r)" "success r"
    and "list_all (leaves_region a) cmds" "length cmds < mem_room m" "handler_run cmds m1 = Inr (m2, rs)"
    and "unat n \<le> length d"
  shows "handler_execute (read_cmd a n) m2 = Inr (m2, \<lparr>success = True, resp_data = take (unat n) d\<rparr>)"
proof -
  have u: "unat (of_nat (length d) :: 64 word) = length d" by (rule unat_of_nat64 [OF assms(2)])
  from assms(3,4) have w: "mem_write a d (of_nat (length d)) m = Inr (True, m1)"
    by (auto simp: handler_execute_def write_cmd_def ebind_eq_Inr)
  have "mem_read a n m1 = Some (take (unat n) d)" using cxl_mem.write_read [OF w] assms(8) u by simp
  moreover have "mem_ok m1" "mem_room m1 = mem_room m" using cxl_mem.write_keeps [OF w assms(1)] by simp_all
  ultimately have "mem_read a n m2 = Some (take (unat n) d)"
    using handler_run_read [OF assms(7) _ _ assms(5)] assms(6) by simp
  then show ?thesis by (simp add: handler_execute_def read_cmd_def)
qed

definition one_region :: cxl_mem where
  "one_region = snd (mem_allocate 2 new_cxl_mem)"

theorem cxl_read_after_write_witness:
  "handler_execute (read_cmd 1 2) (snd (mem_allocate 4 (one_region\<lparr>regions := [1 \<mapsto> [7, 9]]\<rparr>))) =
     Inr (snd (mem_allocate 4 (one_region\<lparr>regions := [1 \<mapsto> [7, 9]]\<rparr>)), \<lparr>success = True, resp_data = [7, 9]\<rparr>)"
proof -
  have m: "mem_ok one_region" "mem_room one_region = 2 ^ 64 - 2"
    by (simp_all add: one_region_def new_cxl_mem_def mem_allocate_def mem_ok_def mem_room_def Let_def)
  have w: "handler_execute (write_cmd 1 [7, 9]) one_region =
      Inr (one_region\<lparr>regions := [1 \<mapsto> [7, 9]]\<rparr>, \<lparr>success = True, resp_data = []\<rparr>)"
    by (simp add: handler_execute_def write_cmd_def mem_write_def one_region_def new_cxl_mem_def
        mem_allocate_def Let_def)
  have r: "handler_run [allocate_cmd 4] (one_region\<lparr>regions := [1 \<mapsto> [7, 9]]\<rparr>) =
      Inr (snd (mem_allocate 4 (one_region\<lparr>regions := [1 \<mapsto> [7, 9]]\<rparr>)),
        [\<lparr>success = True, resp_data = address_bytes 2\<rparr>])"
    by (simp add: handler_execute_def allocate_cmd_def mem_allocate_def one_region_def new_cxl_mem_def Let_def)
  show ?thesis
    using cxl_read_after_write [OF m(1) _ w _ _ _ r, of 2] m(2) by (simp add: leaves_region_def allocate_cmd_def)
qed

section \<open>Two executors of commands\<close>

text \<open>C32: The command processor and the protocol handler each have their own copy of the command switch. On every command they
  leave the same memory and reach the same undefined behaviour, and their responses agree in success and data but for two cases: to a
  failed read of size \<open>n\<close> the handler answers with \<open>n\<close> zero bytes and the processor with none; and when the address counter
  has wrapped to 0, the handler refuses the allocation that the processor answers with the address 0.\<close>

theorem cxl_processor_agrees:
  "case handler_execute cmd m of
     Inl e \<Rightarrow> processor_execute cmd m = Inl e
   | Inr (m', r) \<Rightarrow>
       if cmd_type cmd = Cxl_read \<and> \<not> success r
       then resp_data r = replicate (unat (cmd_size cmd)) 0 \<and> m' = m \<and>
         processor_execute cmd m = Inr (m', \<lparr>success = False, resp_data = []\<rparr>)
       else if cmd_type cmd = Cxl_allocate \<and> next_free_address m = 0
       then r = \<lparr>success = False, resp_data = []\<rparr> \<and>
         processor_execute cmd m = Inr (m', \<lparr>success = True, resp_data = address_bytes 0\<rparr>)
       else processor_execute cmd m = Inr (m', r)"
proof (cases "cmd_type cmd")
  case Cxl_read
  then show ?thesis by (simp add: processor_execute_def handler_execute_def split: option.split)
next
  case Cxl_write
  then show ?thesis by (simp add: processor_execute_def handler_execute_def split: sum.split)
next
  case Cxl_allocate
  then show ?thesis by (simp add: processor_execute_def handler_execute_def mem_allocate_def Let_def)
qed (simp_all add: processor_execute_def handler_execute_def)

theorem cxl_processor_agrees_witness:
  "handler_execute (read_cmd 5 2) new_cxl_mem = Inr (new_cxl_mem, \<lparr>success = False, resp_data = [0, 0]\<rparr>) \<and>
   processor_execute (read_cmd 5 2) new_cxl_mem = Inr (new_cxl_mem, \<lparr>success = False, resp_data = []\<rparr>) \<and>
   processor_execute (allocate_cmd 8) new_cxl_mem = handler_execute (allocate_cmd 8) new_cxl_mem"
proof -
  have h: "handler_execute (read_cmd 5 2) new_cxl_mem = Inr (new_cxl_mem, \<lparr>success = False, resp_data = [0, 0]\<rparr>)"
    by code_simp
  obtain m r where a: "handler_execute (allocate_cmd 8) new_cxl_mem = Inr (m, r)"
    by (simp add: handler_execute_def allocate_cmd_def mem_allocate_def new_cxl_mem_def Let_def)
  show ?thesis
    using cxl_processor_agrees [of "read_cmd 5 2" new_cxl_mem] cxl_processor_agrees [of "allocate_cmd 8" new_cxl_mem]
    by (simp add: h a) (simp add: read_cmd_def allocate_cmd_def new_cxl_mem_def)
qed

section \<open>Host and device\<close>

fun send_all :: "cxl_command list \<Rightarrow> cxl_link \<Rightarrow> vans_error + cxl_link" where
  "send_all [] l = Inr l"
| "send_all (cmd # cmds) l = ebind (host_send_command cmd l) (\<lambda>(ok, l). send_all cmds l)"

lemma host_send_eq:
  assumes "device_attached l" "has_response_cb (link_handler l)"
  shows "host_send_command cmd l =
    ebind (handler_execute cmd (ph_memory (link_handler l))) (\<lambda>(m, r).
      Inr (success r, l\<lparr>link_handler := (link_handler l)\<lparr>ph_memory := m\<rparr>, host_response := r, response_ready := True\<rparr>))"
  using assms
  by (cases "handler_execute cmd (ph_memory (link_handler l))")
    (auto simp: host_send_command_def device_receive_command_def handler_issue_command_def
      invoke_response_def set_response_def)

lemma send_all_last:
  assumes "device_attached l" "has_response_cb (link_handler l)" "cmds \<noteq> []"
    and "handler_run cmds (ph_memory (link_handler l)) = Inr (m, rs)"
  shows "send_all cmds l =
    Inr (l\<lparr>link_handler := (link_handler l)\<lparr>ph_memory := m\<rparr>, host_response := last rs, response_ready := True\<rparr>)"
  using assms
proof (induction cmds arbitrary: l rs)
  case (Cons cmd cmds)
  from Cons.prems(4) obtain m1 r rs' where e: "handler_execute cmd (ph_memory (link_handler l)) = Inr (m1, r)"
      "handler_run cmds m1 = Inr (m, rs')" "rs = r # rs'"
    by (auto simp: ebind_eq_Inr)
  let ?l = "l\<lparr>link_handler := (link_handler l)\<lparr>ph_memory := m1\<rparr>, host_response := r, response_ready := True\<rparr>"
  have s: "host_send_command cmd l = Inr (success r, ?l)"
    using host_send_eq [OF Cons.prems(1,2)] e(1) by simp
  show ?case
  proof (cases "cmds = []")
    case True
    then show ?thesis using s e by simp
  next
    case False
    have "length rs' = length cmds" if "handler_run cmds m1 = Inr (m, rs')" for cmds m1 rs'
      using that by (induction cmds arbitrary: m1 rs') (auto simp: ebind_eq_Inr)
    then have "rs' \<noteq> []" using e(2) False by fastforce
    then show ?thesis using s e Cons.IH [of ?l rs'] Cons.prems(1,2) False by simp
  qed
qed simp

text \<open>C33: The host delivers each response at most once, and only the last: after commands sent one after
  the other, \<open>receiveResponse\<close> returns the response to the last of them, the earlier ones are
  overwritten, and a second call finds nothing. \<open>sendResponse\<close> of the device does not send its
  argument: it takes that response away from the host and overwrites the argument with it.\<close>

theorem cxl_link_exchange:
  assumes "device_attached l" "has_response_cb (link_handler l)" "cmds \<noteq> []"
    and "handler_run cmds (ph_memory (link_handler l)) = Inr (m, rs)"
  shows "\<exists>l1 l2. send_all cmds l = Inr l1 \<and> ph_memory (link_handler l1) = m \<and>
    host_receive_response l1 = (Some (last rs), l2) \<and> host_receive_response l2 = (None, l2) \<and>
    device_send_response r l1 = (True, last rs, l2) \<and> device_send_response r l2 = (False, r, l2)"
proof -
  let ?l = "l\<lparr>link_handler := (link_handler l)\<lparr>ph_memory := m\<rparr>, host_response := last rs, response_ready := True\<rparr>"
  have "host_receive_response ?l = (Some (last rs), ?l\<lparr>response_ready := False\<rparr>)"
    "host_receive_response (?l\<lparr>response_ready := False\<rparr>) = (None, ?l\<lparr>response_ready := False\<rparr>)"
    by (simp_all add: host_receive_response_def)
  then show ?thesis using send_all_last [OF assms]
    by (intro exI [of _ ?l] exI [of _ "?l\<lparr>response_ready := False\<rparr>"]) (simp add: device_send_response_def)
qed

definition example_link :: cxl_link where
  "example_link = attach_device (new_cxl_link (new_protocol_handler new_cxl_mem) \<lparr>success = False, resp_data = []\<rparr>)"

theorem cxl_link_exchange_witness:
  "\<exists>l1 l2. send_all [allocate_cmd 2, write_cmd 1 [7, 9], read_cmd 1 2] example_link = Inr l1 \<and>
     host_receive_response l1 = (Some \<lparr>success = True, resp_data = [7, 9]\<rparr>, l2) \<and>
     host_receive_response l2 = (None, l2)"
proof -
  have a: "device_attached example_link" "has_response_cb (link_handler example_link)"
    "ph_memory (link_handler example_link) = new_cxl_mem"
    by (simp_all add: example_link_def attach_device_def new_cxl_link_def register_response_cb_def new_protocol_handler_def)
  have r: "handler_run [allocate_cmd 2, write_cmd 1 [7, 9], read_cmd 1 2] new_cxl_mem =
      Inr (\<lparr>next_free_address = 2, regions = [1 \<mapsto> [7, 9]]\<rparr>,
        [\<lparr>success = True, resp_data = address_bytes 1\<rparr>, \<lparr>success = True, resp_data = []\<rparr>,
         \<lparr>success = True, resp_data = [7, 9]\<rparr>])"
    by (simp add: handler_execute_def allocate_cmd_def write_cmd_def read_cmd_def mem_allocate_def mem_write_def
        mem_read_def new_cxl_mem_def Let_def)
  show ?thesis
    using cxl_link_exchange [OF a(1,2), of "[allocate_cmd 2, write_cmd 1 [7, 9], read_cmd 1 2]"] r a(3) by fastforce
qed

section \<open>Mock objects\<close>

text \<open>C34: Whatever the order in which the threads of the mock host and device act, a response that is
  received answers a command that was sent; but not always the last one: after a slow write and a
  read the read can be given the empty answer of the write, and the same response can be received twice.\<close>

theorem cxl_mock_responses:
  assumes "mock_steps l es l'" "mock_start l"
  shows "(\<forall>r l''. mock_step l' (Mock_receive (Some r)) l'' \<longrightarrow> l'' = l' \<and> (\<exists>cmd \<in> sent_in es. r = mock_device_response cmd)) \<and>
    (mh_device l' \<and> md_host l' \<longrightarrow> (\<exists>l1. mock_steps l' [Mock_send c1, Mock_device c1, Mock_send c2, Mock_host (mock_device_response c1),
      Mock_receive (Some (mock_device_response c1)), Mock_receive (Some (mock_device_response c1))] l1))"
proof (intro conjI allI impI)
  fix r l'' assume s: "mock_step l' (Mock_receive (Some r)) l''"
  then show "l'' = l'" by (auto elim: mock_step_elim)
  show "\<exists>cmd \<in> sent_in es. r = mock_device_response cmd" by (rule mock_received [OF assms s])
next
  assume d: "mh_device l' \<and> md_host l'"
  let ?r = "mock_device_response c1"
  define l1 where "l1 = snd (mock_send_command c1 l')"
  define l2 where "l2 = mock_receive_command c1 (l1\<lparr>to_device := to_device l1 - {#c1#}\<rparr>)"
  define l3 where "l3 = snd (mock_send_command c2 l2)"
  define l4 where "l4 = snd (mock_send_response ?r (l3\<lparr>to_host := to_host l3 - {#?r#}\<rparr>))"
  have s1: "mock_step l' (Mock_send c1) l1"
    using d by (intro mock_step.send) (simp add: l1_def mock_send_command_def)
  have s2: "mock_step l1 (Mock_device c1) l2"
    unfolding l2_def using d by (intro mock_step.device) (simp add: l1_def mock_send_command_def)
  have s3: "mock_step l2 (Mock_send c2) l3"
    using d by (intro mock_step.send) (simp add: l3_def l2_def l1_def mock_send_command_def mock_receive_command_def)
  have s4: "mock_step l3 (Mock_host ?r) l4"
    unfolding l4_def using d
    by (intro mock_step.host) (simp add: l3_def l2_def l1_def mock_send_command_def mock_receive_command_def)
  have "mock_receive_response l4 = Some ?r"
    using d by (simp add: l4_def l3_def l2_def l1_def mock_send_command_def mock_receive_command_def
        mock_send_response_def mock_deliver_response_def mock_receive_response_def)
  then have s5: "mock_step l4 (Mock_receive (Some ?r)) l4" using mock_step.receive [of l4] by simp
  have "mock_steps l' ((((([] @ [Mock_send c1]) @ [Mock_device c1]) @ [Mock_send c2]) @ [Mock_host ?r]) @
      [Mock_receive (Some ?r)] @ [Mock_receive (Some ?r)]) l4"
    unfolding append_assoc [symmetric]
    by (intro mock_steps.more [OF mock_steps.more [OF mock_steps.more [OF mock_steps.more [OF mock_steps.more
          [OF mock_steps.more [OF mock_steps.none s1] s2] s3] s4] s5] s5])
  then show "\<exists>l1. mock_steps l' [Mock_send c1, Mock_device c1, Mock_send c2, Mock_host ?r,
      Mock_receive (Some ?r), Mock_receive (Some ?r)] l1" by auto
qed

definition example_mock :: mock_link where
  "example_mock = mock_attach_host (mock_attach_device
     (new_mock_link (read_cmd 0 0) \<lparr>success = False, resp_data = []\<rparr>))"

theorem cxl_mock_responses_witness:
  "\<exists>l1. mock_steps example_mock [Mock_send (write_cmd 5 [1]), Mock_device (write_cmd 5 [1]), Mock_send (read_cmd 5 1),
     Mock_host \<lparr>success = True, resp_data = []\<rparr>, Mock_receive (Some \<lparr>success = True, resp_data = []\<rparr>),
     Mock_receive (Some \<lparr>success = True, resp_data = []\<rparr>)] l1"
proof -
  have "mock_start example_mock" "mh_device example_mock \<and> md_host example_mock"
    by (simp_all add: mock_start_def example_mock_def mock_attach_host_def mock_attach_device_def new_mock_link_def)
  moreover have "mock_device_response (write_cmd 5 [1]) = \<lparr>success = True, resp_data = []\<rparr>"
    by (simp add: mock_device_response_def write_cmd_def)
  ultimately show ?thesis
    using cxl_mock_responses [OF mock_steps.none, of example_mock "write_cmd 5 [1]" "read_cmd 5 1"] by simp
qed

section \<open>The component\<close>

interpretation cxl_static: responder "cxl_system_ops static_memory_ops" "cxl_inv static_wf" "\<lambda>c. {#}" "\<lambda>a. a" "\<lambda>r. False"
  by (rule ticking_level.cxl_responder [OF responder.axioms(1) [OF static_responder]])
    (simp add: static_memory_ops_def static_tick_def)

text \<open>A CXL system stores nothing: no request allocates memory, so that in every run over connected
  components that tick, every command it sends to its protocol handler fails, the memory stays
  empty, and each request is answered at once as done, with completion clock 0.\<close>

theorem cxl_system_stores_nothing:
  assumes "ticking_level ops ninv" "cxl_inv ninv c" "list_all small_event evs"
    and "\<forall>n clk n' calls. ninv n \<longrightarrow> tick ops clk n = Inr (n', calls) \<longrightarrow> calls = []"
  shows "ensures (component_run (cxl_system_ops ops) evs c) (\<lambda>(c', accepted, calls).
    regions (ph_memory (cxl_ctrl c')) = Map.empty \<and> accepted = [] \<and>
    cxl_issue_request c' r = Inr (c', r, True, True, 0) \<and>
    (\<exists>responses. handler_issue_command (cxl_command_of r) (cxl_ctrl c') = Inr (cxl_ctrl c', False, responses)))"
proof -
  have res: "responder (cxl_system_ops ops) (cxl_inv ninv) (\<lambda>c. {#}) (\<lambda>a. a) (\<lambda>r. False)"
    by (rule ticking_level.cxl_responder [OF assms(1)]) (use assms(4) in blast)
  have "ensures (component_run (cxl_system_ops ops) evs c) (\<lambda>(c', accepted, calls). cxl_inv ninv c' \<and> accepted = [])"
    using assms(2,3)
  proof (induction evs arbitrary: c)
    case (Cons ev evs)
    show ?case
    proof (cases ev)
      case (Ev_issue q)
      then show ?thesis using Cons.IH [OF Cons.prems(1)] Cons.prems cxl_issue_request_eq [OF Cons.prems(1), of q]
        by (simp add: cxl_system_ops_def split_def)
    next
      case (Ev_tick clk)
      then obtain m calls where "tick (cxl_system_ops ops) clk c = Inr (m, calls)" "cxl_inv ninv m"
        using ticking_level.tick_ok [OF responder.axioms(1) [OF res] Cons.prems(1), of clk] Cons.prems(2)
        by (auto simp: ensures_iff)
      then show ?thesis using Cons.IH [of m] Cons.prems(2) Ev_tick by (simp add: split_def)
    qed
  qed simp
  then show ?thesis
    by (rule ensures_mono) (auto simp: cxl_issue_request_eq cxl_command_fails cxl_inv_def)
qed

theorem cxl_system_stores_nothing_witness:
  "ensures (component_run (cxl_system_ops static_memory_ops) [Ev_issue (new_base_request Base_write 64 0 Cb_null), Ev_tick 1]
      (cxl_connect_next \<lparr>read_latency = 100, write_latency = 300\<rparr> new_cxl_system))
    (\<lambda>(c', accepted, calls). regions (ph_memory (cxl_ctrl c')) = Map.empty)"
proof -
  let ?c = "cxl_connect_next \<lparr>read_latency = 100, write_latency = 300\<rparr> new_cxl_system"
  have i: "cxl_inv static_wf ?c"
    by (simp add: cxl_inv_def cxl_connect_next_def new_cxl_system_def new_cxl_memory_def new_protocol_handler_def
        new_cxl_mem_def static_wf_def small_clk_def)
  have e: "list_all small_event [Ev_issue (new_base_request Base_write 64 0 Cb_null), Ev_tick 1]"
    by (simp add: small_clk_def)
  have q: "\<forall>n clk n' calls. static_wf n \<longrightarrow> tick static_memory_ops clk n = Inr (n', calls) \<longrightarrow> calls = []"
    by (simp add: static_memory_ops_def static_tick_def)
  show ?thesis
    by (rule ensures_mono [OF cxl_system_stores_nothing
          [OF responder.axioms(1) [OF static_responder] i e q, of "new_base_request Base_read 0 0 Cb_null"]]) auto
qed

end
