(* ===== verification/Text_Input.thy ===== *)
theory Text_Input
  imports Prelude
begin

text \<open>
  The parts of \<open>std::string\<close>, \<open>std::ifstream\<close> and the string conversions that the configuration
  reader (\<open>src/general/config.h\<close>) and the trace reader (\<open>src/general/trace.cpp\<close>) use. A position in
  a string is a \<open>nat option\<close>; \<open>None\<close> is \<open>npos\<close>, the largest \<open>size_t\<close>, so \<open>npos + 1\<close> is \<open>0\<close>.
\<close>

section \<open>Characters and positions\<close>

definition newline :: char where
  "newline = CHR 0x0A"

text \<open>\<open>isspace\<close> in the C locale: the blank and the control characters 9 to 13.\<close>

definition is_space :: "char \<Rightarrow> bool" where
  "is_space c \<longleftrightarrow> c = CHR '' '' \<or> c = CHR 0x09 \<or> c = CHR 0x0A \<or> c = CHR 0x0B \<or> c = CHR 0x0C \<or> c = CHR 0x0D"

definition next_pos :: "nat option \<Rightarrow> nat" where
  "next_pos pos = (case pos of None \<Rightarrow> 0 | Some p \<Rightarrow> Suc p)"

fun find_char :: "char \<Rightarrow> string \<Rightarrow> nat option" where
  "find_char c [] = None"
| "find_char c (d # ds) = (if d = c then Some 0 else map_option Suc (find_char c ds))"

definition find_first_not_of :: "char \<Rightarrow> nat \<Rightarrow> string \<Rightarrow> nat option" where
  "find_first_not_of c pos s =
     (let n = length (takeWhile (\<lambda>d. d = c) (drop pos s)) in
      if pos + n < length s then Some (pos + n) else None)"

lemma find_char_append: "c \<notin> set a \<Longrightarrow> find_char c (a @ c # b) = Some (length a)"
  by (induction a) auto

lemma find_char_none: "c \<notin> set a \<Longrightarrow> find_char c a = None"
  by (induction a) auto

lemma find_char_some: "find_char c s = Some p \<Longrightarrow> p < length s \<and> s ! p = c \<and> c \<notin> set (take p s)"
  by (induction s arbitrary: p) (auto split: if_splits)

section \<open>Files\<close>

text \<open>
  An input file: the characters not read yet and the two flags of the stream. \<open>getline\<close> on a
  stream that is not good leaves the line as it is; otherwise it reads up to the next newline, which is
  dropped, or up to the end of the file, which sets \<open>eof\<close>, and \<open>fail\<close> when nothing was read.
\<close>

record ifstream =
  fs_rest :: string
  fs_eof :: bool
  fs_fail :: bool

definition open_file :: "string \<Rightarrow> ifstream" where
  "open_file content = \<lparr>fs_rest = content, fs_eof = False, fs_fail = False\<rparr>"

definition getline :: "ifstream \<Rightarrow> string \<Rightarrow> ifstream \<times> string" where
  "getline f line =
     (if fs_eof f \<or> fs_fail f then (f\<lparr>fs_fail := True\<rparr>, line)
      else let l = takeWhile (\<lambda>c. c \<noteq> newline) (fs_rest f) in
        case drop (length l) (fs_rest f) of
          [] \<Rightarrow> (f\<lparr>fs_rest := [], fs_eof := True, fs_fail := (l = [])\<rparr>, l)
        | c # r \<Rightarrow> (f\<lparr>fs_rest := r\<rparr>, l))"

definition line_end :: "string \<Rightarrow> string" where
  "line_end l = l @ [newline]"

lemma getline_line:
  assumes "newline \<notin> set l"
  shows "getline (open_file (line_end l @ rest)) line = (open_file rest, l)"
proof -
  have "takeWhile (\<lambda>c. c \<noteq> newline) (l @ newline # rest) = l"
    using assms by (subst takeWhile_append2) auto
  then show ?thesis by (simp add: getline_def open_file_def line_end_def)
qed

lemma getline_last:
  assumes "newline \<notin> set l"
  shows "getline (open_file l) line = (\<lparr>fs_rest = [], fs_eof = True, fs_fail = (l = [])\<rparr>, l)"
proof -
  have t: "takeWhile (\<lambda>c. c \<noteq> newline) l = l" using assms by (auto simp: takeWhile_eq_all_conv)
  show ?thesis by (simp add: getline_def open_file_def Let_def t del: takeWhile_eq_all_conv)
qed

lemma getline_end: "fs_eof f \<or> fs_fail f \<Longrightarrow> getline f line = (f\<lparr>fs_fail := True\<rparr>, line)"
  by (simp add: getline_def)

lemma getline_shrinks:
  assumes "getline f line = (f', line')" "\<not> fs_fail f'"
  shows "length (fs_rest f') < length (fs_rest f)"
proof -
  let ?l = "takeWhile (\<lambda>c. c \<noteq> newline) (fs_rest f)"
  have len: "length ?l + length (drop (length ?l) (fs_rest f)) = length (fs_rest f)"
    using length_takeWhile_le [of "\<lambda>c. c \<noteq> newline" "fs_rest f"] by simp
  show ?thesis
  proof (cases "drop (length ?l) (fs_rest f)")
    case Nil
    then have "?l \<noteq> [] \<and> fs_rest f' = []"
      using assms by (auto simp: getline_def Let_def split: if_splits)
    then show ?thesis using len by (cases ?l) auto
  next
    case (Cons c r)
    then have "fs_rest f' = r" using assms by (auto simp: getline_def Let_def split: if_splits)
    then show ?thesis using len Cons by simp
  qed
qed

section \<open>Numbers\<close>

definition digit_value :: "char \<Rightarrow> nat option" where
  "digit_value c =
     (let n = of_char c :: nat in
      if 48 \<le> n \<and> n \<le> 57 then Some (n - 48)
      else if 97 \<le> n \<and> n \<le> 122 then Some (n - 87)
      else if 65 \<le> n \<and> n \<le> 90 then Some (n - 55)
      else None)"

definition digit :: "nat \<Rightarrow> char \<Rightarrow> nat option" where
  "digit base c = (case digit_value c of None \<Rightarrow> None | Some d \<Rightarrow> if d < base then Some d else None)"

text \<open>The value of the digits at the front, and how many there are.\<close>

fun scan_digits :: "nat \<Rightarrow> nat \<Rightarrow> string \<Rightarrow> nat \<times> nat" where
  "scan_digits base acc [] = (acc, 0)"
| "scan_digits base acc (c # cs) =
     (case digit base c of
        None \<Rightarrow> (acc, 0)
      | Some d \<Rightarrow> (case scan_digits base (acc * base + d) cs of (v, n) \<Rightarrow> (v, Suc n)))"

definition hex_prefix :: "nat \<Rightarrow> string \<Rightarrow> nat" where
  "hex_prefix base s =
     (case s of
        z # x # h # cs \<Rightarrow>
          if base = 16 \<and> z = CHR ''0'' \<and> (x = CHR ''x'' \<or> x = CHR ''X'') \<and> digit 16 h \<noteq> None then 2 else 0
      | _ \<Rightarrow> 0)"

definition sign_length :: "string \<Rightarrow> nat" where
  "sign_length s = (case s of c # cs \<Rightarrow> if c = CHR ''-'' \<or> c = CHR ''+'' then 1 else 0 | [] \<Rightarrow> 0)"

text \<open>
  What \<open>strtol\<close> and \<open>strtoul\<close> read: blanks, a sign, the prefix of base 16, digits. The result is
  the sign, the magnitude and the number of characters read; \<open>None\<close> when there are no digits.
\<close>

definition read_number :: "nat \<Rightarrow> string \<Rightarrow> (bool \<times> nat \<times> nat) option" where
  "read_number base s =
     (let w = length (takeWhile is_space s);
          g = sign_length (drop w s);
          h = hex_prefix base (drop (w + g) s) in
      case scan_digits base 0 (drop (w + g + h) s) of (v, n) \<Rightarrow>
        if n = 0 then None
        else Some (g = 1 \<and> s ! w = CHR ''-'', v, w + g + h + n))"

definition stoul :: "nat \<Rightarrow> string \<Rightarrow> vans_error + 64 word \<times> nat" where
  "stoul base s =
     (case read_number base s of
        None \<Rightarrow> Inl Invalid_argument
      | Some (negative, v, pos) \<Rightarrow>
          if 2 ^ 64 \<le> int v then Inl Out_of_range
          else Inr (if negative then - of_nat v else of_nat v, pos))"

definition stoi :: "string \<Rightarrow> vans_error + int" where
  "stoi s =
     (case read_number 10 s of
        None \<Rightarrow> Inl Invalid_argument
      | Some (negative, v, pos) \<Rightarrow>
          let i = (if negative then - int v else int v) in
          if i < - (2 ^ 31) \<or> 2 ^ 31 \<le> i then Inl Out_of_range else Inr i)"

text \<open>
  \<open>stod\<close>: only whether the text starts with a number is modelled, not its value and its range.
\<close>

definition lower :: "char \<Rightarrow> char" where
  "lower c = (let n = of_char c :: nat in if 65 \<le> n \<and> n \<le> 90 then char_of (n + 32) else c)"

definition starts_with_double :: "string \<Rightarrow> bool" where
  "starts_with_double s =
     (let t = dropWhile is_space s; u = drop (sign_length t) t in
      (case u of
         [] \<Rightarrow> False
       | [c] \<Rightarrow> digit 10 c \<noteq> None
       | c # d # cs \<Rightarrow> digit 10 c \<noteq> None \<or> c = CHR ''.'' \<and> digit 10 d \<noteq> None) \<or>
      map lower (take 3 u) \<in> {''inf'', ''nan''})"

section \<open>Printed numbers are read back\<close>

definition digit_char :: "nat \<Rightarrow> char" where
  "digit_char d = (if d < 10 then char_of (48 + d) else char_of (87 + d))"

function show_number :: "nat \<Rightarrow> nat \<Rightarrow> string" where
  "show_number base n =
     (if base < 2 \<or> n < base then [digit_char n] else show_number base (n div base) @ [digit_char (n mod base)])"
  by pat_completeness auto
termination by (relation "measure snd") (auto intro: div_less_dividend)

declare show_number.simps [simp del]

lemma digit_digit_char:
  assumes "d < base" "base \<le> 16"
  shows "digit base (digit_char d) = Some d"
proof -
  have "d < 16" using assms by simp
  then have "digit_value (digit_char d) = Some d"
    by (simp add: digit_value_def digit_char_def Let_def of_char_of)
  then show ?thesis using assms(1) by (simp add: digit_def)
qed

lemma digit_not_space: "is_space c \<Longrightarrow> digit base c = None"
  by (auto simp: is_space_def digit_def digit_value_def Let_def)

definition ends_number :: "nat \<Rightarrow> string \<Rightarrow> bool" where
  "ends_number base s \<longleftrightarrow> (case s of [] \<Rightarrow> True | c # cs \<Rightarrow> digit base c = None)"

lemma scan_digits_append:
  assumes "list_all (\<lambda>c. digit base c \<noteq> None) s"
  shows "scan_digits base acc (s @ t) =
    (case scan_digits base acc s of (v, n) \<Rightarrow> case scan_digits base v t of (w, m) \<Rightarrow> (w, n + m))"
  using assms
  by (induction s arbitrary: acc) (auto split: prod.splits)

lemma show_number_digits:
  assumes "2 \<le> base" "base \<le> 16"
  shows "list_all (\<lambda>c. digit base c \<noteq> None) (show_number base n) \<and>
    scan_digits base 0 (show_number base n) = (n, length (show_number base n)) \<and> show_number base n \<noteq> []"
  using assms
proof (induction base n rule: show_number.induct)
  case (1 base n)
  show ?case
  proof (cases "n < base")
    case True
    then show ?thesis using 1 digit_digit_char [of n base]
      by (subst (1 2 3 4) show_number.simps) (auto simp: split: prod.splits)
  next
    case False
    then have IH: "list_all (\<lambda>c. digit base c \<noteq> None) (show_number base (n div base))"
      "scan_digits base 0 (show_number base (n div base)) = (n div base, length (show_number base (n div base)))"
      using 1 by auto
    have d: "digit base (digit_char (n mod base)) = Some (n mod base)"
      using digit_digit_char [of "n mod base" base] 1 by simp
    have "show_number base n = show_number base (n div base) @ [digit_char (n mod base)]"
      using False 1 by (subst show_number.simps) simp
    then show ?thesis using IH d
      by (simp add: scan_digits_append mult.commute [of _ base])
  qed
qed

lemma scan_shown:
  assumes "2 \<le> base" "base \<le> 16" "ends_number base t"
  shows "scan_digits base 0 (show_number base n @ t) = (n, length (show_number base n))"
  using show_number_digits [OF assms(1,2), of n] assms(3)
  by (simp add: scan_digits_append ends_number_def split: list.splits)

lemma not_sign: "digit base c \<noteq> None \<Longrightarrow> c \<noteq> CHR ''-'' \<and> c \<noteq> CHR ''+''"
  by (auto simp: digit_def digit_value_def Let_def)

lemma hex_prefix_shown:
  assumes "2 \<le> base" "base \<le> 16" "t = [] \<or> hd t \<notin> {CHR ''x'', CHR ''X''}"
  shows "hex_prefix base (show_number base n @ t) = 0"
proof -
  have d: "list_all (\<lambda>c. digit base c \<noteq> None) (show_number base n)" "show_number base n \<noteq> []"
    using show_number_digits [OF assms(1,2), of n] by simp_all
  have x: "digit 16 (CHR ''x'') = None" "digit 16 (CHR ''X'') = None" by code_simp+
  show ?thesis
  proof (cases "base = 16")
    case True
    obtain c cs where s: "show_number base n = c # cs" using d(2) by (cases "show_number base n") auto
    show ?thesis using d(1) s x True assms(3)
      by (cases cs; cases t) (auto simp: hex_prefix_def split: list.splits)
  qed (auto simp: hex_prefix_def split: list.splits)
qed

lemma stoul_shown:
  assumes "2 \<le> base" "base \<le> 16" "ends_number base t" "n < 2 ^ 64"
    and "t = [] \<or> hd t \<notin> {CHR ''x'', CHR ''X''}" "pre = [] \<or> base = 16 \<and> pre = ''0x''"
  shows "stoul base (pre @ show_number base n @ t) = Inr (of_nat n, length pre + length (show_number base n))"
proof -
  let ?s = "show_number base n"
  obtain c cs where s: "?s = c # cs" "digit base c \<noteq> None"
    using show_number_digits [OF assms(1,2), of n] by (cases ?s) auto
  have c: "\<not> is_space c" "sign_length (?s @ t) = 0"
    using digit_not_space [of c base] not_sign [OF s(2)] s by (auto simp: sign_length_def)
  have z: "\<not> is_space (CHR ''0'')" by (simp add: is_space_def)
  have h: "hex_prefix base (?s @ t) = 0" by (rule hex_prefix_shown [OF assms(1,2,5)])
  consider "pre = []" | "pre = ''0x''" "base = 16" using assms(6) by auto
  then have "read_number base (pre @ ?s @ t) = Some (False, n, length pre + length ?s)"
  proof cases
    case 1
    have "takeWhile is_space (?s @ t) = []" using c(1) s by simp
    then show ?thesis using 1 c(2) scan_shown [OF assms(1-3), of n] h s by (simp add: read_number_def)
  next
    case 2
    have "hex_prefix 16 (''0x'' @ ?s @ t) = 2" using s 2(2) by (simp add: hex_prefix_def)
    then show ?thesis using 2 z scan_shown [OF assms(1-3), of n] s
      by (simp add: read_number_def sign_length_def)
  qed
  moreover have "int n < 2 ^ 64" using assms(4) by simp
  ultimately show ?thesis by (simp add: stoul_def)
qed

end
