(* ===== verification/Config.thy ===== *)
theory Config
  imports Text_Input Mapping_Func
begin

text \<open>
  The configuration of \<open>src/general/config.h\<close>: sections of keys and values, read from a text file
  line by line. The messages that the code prints before it throws are output only.
\<close>

section \<open>Looking up\<close>

record config =
  section_name :: string
  config_values :: "string \<rightharpoonup> string"

type_synonym root_config = "string \<rightharpoonup> config"

definition new_config :: "string \<Rightarrow> config" where
  "new_config name = \<lparr>section_name = name, config_values = Map.empty\<rparr>"

definition base_config_at :: "(string \<rightharpoonup> 'v) \<Rightarrow> string \<Rightarrow> vans_error + 'v" where
  "base_config_at cfg key = (case cfg key of None \<Rightarrow> Inl Out_of_range | Some v \<Rightarrow> Inr v)"

definition config_check :: "config \<Rightarrow> string \<Rightarrow> bool" where
  "config_check c key \<longleftrightarrow> config_values c key \<noteq> None"

definition get_string :: "config \<Rightarrow> string \<Rightarrow> vans_error + string" where
  "get_string c key = base_config_at (config_values c) key"

definition get_ulong :: "config \<Rightarrow> string \<Rightarrow> vans_error + 64 word" where
  "get_ulong c key =
     ebind (base_config_at (config_values c) key) (\<lambda>s.
     ebind (stoul 10 s) (\<lambda>(v, pos). Inr v))"

text \<open>The organization of a component: how many components of which type are below it.\<close>

definition get_organization :: "root_config \<Rightarrow> string \<Rightarrow> vans_error + int \<times> string" where
  "get_organization cfg key =
     ebind (base_config_at cfg ''organization'') (\<lambda>c.
     ebind (base_config_at (config_values c) key) (\<lambda>org_str.
       case find_char (CHR ''*'') org_str of
         None \<Rightarrow> Inl (Runtime_error (''Config format error: '' @ org_str))
       | Some p \<Rightarrow> ebind (stoi (take p org_str)) (\<lambda>count. Inr (count, drop (Suc p) org_str))))"

section \<open>Reading a file\<close>

text \<open>One line: the state is the current section and the configuration so far.\<close>

definition config_delimiter :: "string \<Rightarrow> nat option" where
  "config_delimiter line =
     (case find_char (CHR '':'') line of None \<Rightarrow> find_char (CHR ''='') line | Some p \<Rightarrow> Some p)"

definition config_set :: "string \<Rightarrow> string \<Rightarrow> string \<Rightarrow> root_config \<Rightarrow> vans_error + root_config" where
  "config_set curr_section key v cfg =
     ebind (base_config_at cfg curr_section) (\<lambda>c.
       Inr (cfg(curr_section \<mapsto> c\<lparr>config_values := (config_values c)(key \<mapsto> v)\<rparr>)))"

definition config_line :: "string \<Rightarrow> string \<times> root_config \<Rightarrow> vans_error + string \<times> root_config" where
  "config_line text st =
     (let line = filter (\<lambda>c. \<not> is_space c) text; curr_section = fst st; cfg = snd st in
      if line = [] \<or> hd line = CHR ''#'' \<or> hd line = CHR '';'' then Inr st
      else if curr_section = [] \<and> hd line \<noteq> CHR ''['' then Inl Exit_failure
      else if hd line = CHR ''['' then
        let new_section = take (length line - 2) (tl line) in
        Inr (new_section,
          if cfg new_section = None then cfg(new_section \<mapsto> new_config new_section) else cfg)
      else case config_delimiter line of
          None \<Rightarrow> Inl (Runtime_error (''Config format error: '' @ line))
        | Some p \<Rightarrow> ebind (config_set curr_section (take p line) (drop (Suc p) line) cfg) (\<lambda>cfg.
            Inr (curr_section, cfg)))"

text \<open>The loop over the lines ends, because every line that is read shortens the rest of the file.\<close>

function read_config ::
  "ifstream \<Rightarrow> string \<Rightarrow> string \<times> root_config \<Rightarrow> vans_error + string \<times> root_config" where
  "read_config f line st =
     (if fs_fail (fst (getline f line)) then Inr st
      else ebind (config_line (snd (getline f line)) st)
        (read_config (fst (getline f line)) (snd (getline f line))))"
  by pat_completeness auto
termination
  by (relation "measure (\<lambda>(f, line, st). length (fs_rest f))") (auto intro: getline_shrinks prod.collapse [symmetric])

declare read_config.simps [simp del]

text \<open>The constructor; \<open>None\<close> stands for a file that cannot be opened.\<close>

definition new_root_config :: "string option \<Rightarrow> vans_error + root_config" where
  "new_root_config content =
     (case content of
        None \<Rightarrow> Inl Exit_failure
      | Some text \<Rightarrow> ebind (read_config (open_file text) [] ([], Map.empty)) (\<lambda>(curr_section, cfg). Inr cfg))"

section \<open>What is read from a well-formed file\<close>

lemma read_config_line:
  "newline \<notin> set l \<Longrightarrow>
   read_config (open_file (line_end l @ rest)) line st = ebind (config_line l st) (read_config (open_file rest) l)"
  by (subst read_config.simps) (simp add: getline_line, simp add: open_file_def)

lemma read_config_end: "read_config (open_file []) line st = Inr st"
  using getline_last [of "[]" line] by (subst read_config.simps) simp

definition config_lookup :: "root_config \<Rightarrow> string \<Rightarrow> string \<Rightarrow> string option" where
  "config_lookup cfg s key = (case cfg s of None \<Rightarrow> None | Some c \<Rightarrow> config_values c key)"

definition show_values :: "(string \<times> string) list \<Rightarrow> string" where
  "show_values kvs = concat (map (\<lambda>(key, v). line_end (key @ '' : '' @ v)) kvs)"

definition show_section :: "string \<times> (string \<times> string) list \<Rightarrow> string" where
  "show_section sec =
     line_end (CHR ''['' # fst sec @ '']'') @ show_values (snd sec)"

definition show_config :: "(string \<times> (string \<times> string) list) list \<Rightarrow> string" where
  "show_config secs = concat (map show_section secs)"

definition plain_word :: "string \<Rightarrow> bool" where
  "plain_word s \<longleftrightarrow> list_all (\<lambda>c. \<not> is_space c) s"

definition plain_key :: "string \<Rightarrow> bool" where
  "plain_key s \<longleftrightarrow> plain_word s \<and> CHR '':'' \<notin> set s \<and>
     (s = [] \<or> hd s \<notin> {CHR ''#'', CHR '';'', CHR ''[''})"

definition plain_section :: "string \<times> (string \<times> string) list \<Rightarrow> bool" where
  "plain_section sec \<longleftrightarrow> fst sec \<noteq> [] \<and> plain_word (fst sec) \<and>
     list_all (\<lambda>(key, v). plain_key key \<and> plain_word v) (snd sec)"

text \<open>The values of a section, the last one first: it overwrites the others.\<close>

definition section_values :: "(string \<times> (string \<times> string) list) list \<Rightarrow> string \<Rightarrow> string \<rightharpoonup> string" where
  "section_values secs s = map_of (rev (concat (map snd (filter (\<lambda>sec. fst sec = s) secs))))"

definition config_shows :: "root_config \<Rightarrow> (string \<times> (string \<times> string) list) list \<Rightarrow> bool" where
  "config_shows cfg secs \<longleftrightarrow>
     (\<forall>s. (cfg s \<noteq> None) = (s \<in> fst ` set secs) \<and> config_lookup cfg s = section_values secs s)"

lemma config_lookup_section:
  "config_lookup cfg s = (case cfg s of None \<Rightarrow> Map.empty | Some c \<Rightarrow> config_values c)"
  by (auto simp: config_lookup_def fun_eq_iff split: option.split)

lemma newline_space [simp]: "is_space newline"
  by (simp add: is_space_def newline_def)

lemma plain_no_newline: "plain_word s \<Longrightarrow> newline \<notin> set s"
  using newline_space by (auto simp: plain_word_def list_all_iff)

lemma plain_filter: "plain_word s \<Longrightarrow> filter (\<lambda>c. \<not> is_space c) s = s"
  by (simp add: plain_word_def list_all_iff filter_id_conv)

lemma visible [simp]:
  "\<not> is_space (CHR ''['')" "\<not> is_space (CHR '']'')" "\<not> is_space (CHR '':'')" "is_space (CHR '' '')"
  by (simp_all add: is_space_def)

lemma config_line_section:
  assumes "plain_word name"
  shows "config_line (CHR ''['' # name @ '']'') (s, cfg) =
    Inr (name, if cfg name = None then cfg(name \<mapsto> new_config name) else cfg)"
  using plain_filter [OF assms] by (simp add: config_line_def Let_def)

lemma config_line_value:
  assumes "plain_key key" "plain_word v" "s \<noteq> []"
  shows "config_line (key @ '' : '' @ v) (s, cfg) =
    ebind (config_set s key v cfg) (\<lambda>cfg. Inr (s, cfg))"
proof -
  let ?l = "key @ CHR '':'' # v"
  have f: "filter (\<lambda>c. \<not> is_space c) (key @ '' : '' @ v) = ?l"
    using plain_filter [of key] plain_filter [OF assms(2)] assms(1) by (simp add: plain_key_def)
  have "hd ?l \<notin> {CHR ''#'', CHR '';'', CHR ''[''}" using assms(1) by (cases key) (auto simp: plain_key_def)
  moreover have "config_delimiter ?l = Some (length key)"
    using assms(1) by (simp add: config_delimiter_def plain_key_def find_char_append)
  ultimately show ?thesis using assms(3) f
    by (simp add: config_line_def Let_def)
qed

lemma read_values:
  assumes "list_all (\<lambda>(key, v). plain_key key \<and> plain_word v) kvs" "s \<noteq> []" "cfg s = Some c"
  shows "\<exists>line'. read_config (open_file (show_values kvs @ rest)) line (s, cfg) =
    read_config (open_file rest) line' (s, cfg(s \<mapsto> c\<lparr>config_values := config_values c ++ map_of (rev kvs)\<rparr>))"
  using assms(1,3)
proof (induction kvs arbitrary: cfg c line)
  case Nil
  then have "cfg(s \<mapsto> c) = cfg" by auto
  then show ?case by (auto simp: show_values_def)
next
  case (Cons kv kvs)
  obtain key v where kv: "kv = (key, v)" by (cases kv)
  let ?l = "key @ '' : '' @ v"
  let ?c = "c\<lparr>config_values := (config_values c)(key \<mapsto> v)\<rparr>"
  have p: "plain_key key" "plain_word v" using Cons.prems(1) kv by simp_all
  then have n: "newline \<notin> set ?l"
    using plain_no_newline [of key] plain_no_newline [of v] by (auto simp: plain_key_def newline_def)
  have "config_line ?l (s, cfg) = Inr (s, cfg(s \<mapsto> ?c))"
    using config_line_value [OF p assms(2)] Cons.prems(2) by (simp add: config_set_def base_config_at_def)
  moreover have "show_values (kv # kvs) @ rest = line_end ?l @ show_values kvs @ rest"
    using kv by (simp add: show_values_def)
  ultimately have r: "read_config (open_file (show_values (kv # kvs) @ rest)) line (s, cfg) =
      read_config (open_file (show_values kvs @ rest)) ?l (s, cfg(s \<mapsto> ?c))"
    using read_config_line [OF n, of "show_values kvs @ rest" line "(s, cfg)"]
    by (simp only: ebind.simps)
  have u: "(cfg(s \<mapsto> ?c))(s \<mapsto> ?c\<lparr>config_values := config_values ?c ++ map_of (rev kvs)\<rparr>) =
      cfg(s \<mapsto> c\<lparr>config_values := config_values c ++ map_of (rev (kv # kvs))\<rparr>)"
    using kv by simp
  have "list_all (\<lambda>(key, v). plain_key key \<and> plain_word v) kvs" using Cons.prems(1) by simp
  moreover have "(cfg(s \<mapsto> ?c)) s = Some ?c" by simp
  ultimately have "\<exists>line'. read_config (open_file (show_values kvs @ rest)) ?l (s, cfg(s \<mapsto> ?c)) =
      read_config (open_file rest) line'
        (s, (cfg(s \<mapsto> ?c))(s \<mapsto> ?c\<lparr>config_values := config_values ?c ++ map_of (rev kvs)\<rparr>))"
    by (rule Cons.IH)
  then show ?case by (simp only: r u)
qed

lemma config_shows_section:
  assumes "config_shows cfg secs"
    and "cfg' = (if cfg s = None then cfg(s \<mapsto> new_config s) else cfg)"
    and "cfg' s = Some c"
  shows "config_shows (cfg'(s \<mapsto> c\<lparr>config_values := config_values c ++ map_of (rev kvs)\<rparr>)) (secs @ [(s, kvs)])"
proof -
  have sh: "(cfg t \<noteq> None) = (t \<in> fst ` set secs)" "config_lookup cfg t = section_values secs t" for t
    using assms(1) by (auto simp: config_shows_def)
  have v: "section_values (secs @ [(s, kvs)]) t =
      (if t = s then section_values secs t ++ map_of (rev kvs) else section_values secs t)" for t
    by (simp add: section_values_def)
  have c: "config_values c = section_values secs s"
  proof (cases "cfg s")
    case None
    then have "section_values secs s = Map.empty"
      using sh(2) [of s] by (auto simp: config_lookup_def fun_eq_iff)
    moreover have "c = new_config s" using None assms(2,3) by simp
    ultimately show ?thesis by (simp add: new_config_def)
  next
    case (Some d)
    then show ?thesis using sh(2) [of s] assms(2,3) by (auto simp: config_lookup_def fun_eq_iff)
  qed
  have o: "cfg' t = cfg t" if "t \<noteq> s" for t using assms(2) that by simp
  show ?thesis
    unfolding config_shows_def
  proof (intro allI conjI)
    fix t
    show "((cfg'(s \<mapsto> c\<lparr>config_values := config_values c ++ map_of (rev kvs)\<rparr>)) t \<noteq> None) =
        (t \<in> fst ` set (secs @ [(s, kvs)]))"
      using sh(1) [of t] o [of t] by auto
    show "config_lookup (cfg'(s \<mapsto> c\<lparr>config_values := config_values c ++ map_of (rev kvs)\<rparr>)) t =
        section_values (secs @ [(s, kvs)]) t"
    proof (cases "t = s")
      case True
      then show ?thesis using v [of t] c by (simp add: config_lookup_section)
    next
      case False
      then show ?thesis using v [of t] sh(2) [of t] o [of t] by (simp add: config_lookup_section)
    qed
  qed
qed

lemma read_sections:
  assumes "list_all plain_section secs" "config_shows cfg shown"
  shows "\<exists>s' cfg'. read_config (open_file (show_config secs)) line (s, cfg) = Inr (s', cfg') \<and>
    config_shows cfg' (shown @ secs)"
  using assms
proof (induction secs arbitrary: line s cfg shown)
  case Nil
  then show ?case by (simp add: show_config_def read_config_end)
next
  case (Cons sec secs)
  obtain name kvs where sec: "sec = (name, kvs)" by (cases sec)
  have p: "name \<noteq> []" "plain_word name" "list_all (\<lambda>(key, v). plain_key key \<and> plain_word v) kvs"
    using Cons.prems(1) sec by (simp_all add: plain_section_def)
  let ?l = "CHR ''['' # name @ '']''"
  let ?cfg = "if cfg name = None then cfg(name \<mapsto> new_config name) else cfg"
  obtain c where c: "?cfg name = Some c" by (cases "cfg name") auto
  have n: "newline \<notin> set ?l" using plain_no_newline [OF p(2)] by (auto simp: newline_def)
  let ?cfg' = "?cfg(name \<mapsto> c\<lparr>config_values := config_values c ++ map_of (rev kvs)\<rparr>)"
  have "show_config (sec # secs) =
      line_end ?l @ show_values kvs @ show_config secs"
    by (simp add: show_config_def show_section_def sec)
  then have "read_config (open_file (show_config (sec # secs))) line (s, cfg) =
      read_config (open_file (show_values kvs @ show_config secs)) ?l (name, ?cfg)"
    using read_config_line [OF n, of "show_values kvs @ show_config secs" line "(s, cfg)"]
    by (simp only: config_line_section [OF p(2)] ebind.simps)
  moreover obtain line' where "read_config (open_file (show_values kvs @ show_config secs)) ?l (name, ?cfg) =
      read_config (open_file (show_config secs)) line' (name, ?cfg')"
    using read_values [where s = name and cfg = ?cfg and c = c and kvs = kvs and rest = "show_config secs" and line = ?l, OF p(3,1) c]
    by blast
  ultimately have r: "read_config (open_file (show_config (sec # secs))) line (s, cfg) =
      read_config (open_file (show_config secs)) line' (name, ?cfg')"
    by simp
  have "config_shows ?cfg' (shown @ [sec])"
    using config_shows_section [OF Cons.prems(2) refl c] sec by simp
  moreover have "list_all plain_section secs" using Cons.prems(1) by simp
  ultimately have "\<exists>s' cfg'. read_config (open_file (show_config secs)) line' (name, ?cfg') = Inr (s', cfg') \<and>
      config_shows cfg' ((shown @ [sec]) @ secs)" by (intro Cons.IH)
  then show ?case by (simp only: r append_assoc append.simps)
qed

lemma config_shows_empty: "config_shows Map.empty []"
  by (simp add: config_shows_def section_values_def config_lookup_def fun_eq_iff)

lemma new_root_config_shown:
  assumes "list_all plain_section secs"
  shows "\<exists>cfg. new_root_config (Some (show_config secs)) = Inr cfg \<and> config_shows cfg secs"
  using read_sections [OF assms config_shows_empty, of "[]" "[]"] by (auto simp: new_root_config_def)

lemma get_ulong_shown:
  assumes "config_values c key = Some (show_number 10 n)" "n < 2 ^ 64"
  shows "get_ulong c key = Inr (of_nat n)"
  using stoul_shown [of 10 "[]" n "[]"] assms
  by (simp add: get_ulong_def base_config_at_def ends_number_def)

end
