(* ===== verification/Factory.thy ===== *)
theory Factory
  imports Config Cxl Imc Systems Rmw Ait Dram_Memory
begin

text \<open>
  The construction of the simulated system from a configuration: the constructors of the
  components over the section they are given, \<open>src/general/factory.cpp\<close>, and the choice of the
  statistics dump in \<open>src/general/utils.h\<close>. A constructor reads its values in the order in which
  its members are declared, so that the first missing or malformed one decides the exception.
\<close>

section \<open>Constructors over a section\<close>

definition memory_controller_of :: "config \<Rightarrow> vans_error + component_mapping_f" where
  "memory_controller_of c =
     ebind (base_config_at (config_values c) ''component_mapping_func'') get_component_mapping_func"

definition rmc_of_config :: "config \<Rightarrow> vans_error + 'n rmc_controller" where
  "rmc_of_config c =
     ebind (memory_controller_of c) (\<lambda>f.
       if config_check c ''start_addr''
       then ebind (get_ulong c ''start_addr'') (\<lambda>a. Inr (new_rmc_controller f (Some a)))
       else Inr (new_rmc_controller f None))"

definition imc_of_config :: "config \<Rightarrow> vans_error + 'n imc_controller" where
  "imc_of_config c =
     ebind (memory_controller_of c) (\<lambda>f.
     ebind (get_ulong c ''wpq_entries'') (\<lambda>w.
     ebind (get_ulong c ''rpq_entries'') (\<lambda>r.
     ebind (get_ulong c ''adr_epoch'') (\<lambda>e.
       Inr (new_imc_controller f (unat w) (unat r) e)))))"

definition nvram_of_config :: "config \<Rightarrow> vans_error + 'n nvram_system_controller" where
  "nvram_of_config c =
     ebind (memory_controller_of c) (\<lambda>f.
       Inr \<lparr>mapping_func = f, next_level_components = [], is_draining = False\<rparr>)"

definition static_memory_of_config :: "config \<Rightarrow> vans_error + static_memory" where
  "static_memory_of_config c =
     ebind (get_ulong c ''read_latency'') (\<lambda>r.
     ebind (get_ulong c ''write_latency'') (\<lambda>w.
       Inr \<lparr>read_latency = r, write_latency = w\<rparr>))"

definition rmw_of_config :: "config \<Rightarrow> vans_error + 'n rmw_controller" where
  "rmw_of_config c =
     ebind (static_memory_of_config c) (\<lambda>memory.
     ebind (memory_controller_of c) (\<lambda>f.
     ebind (get_ulong c ''buffer_entries'') (\<lambda>b.
     ebind (get_ulong c ''lsq_entries'') (\<lambda>l.
     ebind (get_ulong c ''roq_entries'') (\<lambda>r.
     ebind (get_ulong c ''ait_to_rmw_latency'') (\<lambda>a.
     ebind (get_ulong c ''rmw_to_ait_latency'') (\<lambda>t.
       Inr (new_rmw_controller f (unat b) (unat l) (unat r) a t memory))))))))"

section \<open>The DDR4 memory\<close>

text \<open>
  \<open>timing\<close>: integers with \<open>stoi\<close>; of the three floating-point values only the conversion is kept.
\<close>

definition get_int :: "config \<Rightarrow> string \<Rightarrow> vans_error + int" where
  "get_int c key = ebind (get_string c key) stoi"

definition check_double :: "config \<Rightarrow> string \<Rightarrow> vans_error + unit" where
  "check_double c key =
     ebind (get_string c key) (\<lambda>s. if starts_with_double s then Inr () else Inl Invalid_argument)"

definition ddr4_timing_of_config :: "config \<Rightarrow> vans_error + ddr4_timing" where
  "ddr4_timing_of_config c =
     ebind (get_int c ''rate'') (\<lambda>_.
     ebind (check_double c ''freq'') (\<lambda>_.
     ebind (check_double c ''tCK'') (\<lambda>_.
     ebind (map_err (get_int c)
       [''nBL'', ''nCCDS'', ''nCCDL'', ''nRTRS'', ''nCL'', ''nRCD'', ''nRP'', ''nCWL'', ''nRAS'', ''nRC'',
        ''nRTP'', ''nWTRS'', ''nWTRL'', ''nWR'', ''nRRDS'', ''nRRDL'', ''nFAW'', ''nRFC'', ''nREFI'', ''nPD'',
        ''nXP'', ''nXPDLL'', ''nCKESR'', ''nXS'', ''nXSDLL'']) (\<lambda>v.
       Inr \<lparr>nBL = v ! 0, nCCDS = v ! 1, nCCDL = v ! 2, nRTRS = v ! 3, nCL = v ! 4, nRCD = v ! 5,
         nRP = v ! 6, nCWL = v ! 7, nRAS = v ! 8, nRC = v ! 9, nRTP = v ! 10, nWTRS = v ! 11,
         nWTRL = v ! 12, nWR = v ! 13, nPD = v ! 19, nXP = v ! 20, nXPDLL = v ! 21, nCKESR = v ! 22,
         nXSDLL = v ! 24, nRRDS = v ! 14, nRRDL = v ! 15, nFAW = v ! 16, nRFC = v ! 17, nREFI = v ! 18,
         nXS = v ! 23\<rparr>))))"

text \<open>\<open>dram_mapping\<close> loads the same eight values again, which then exist.\<close>

definition dram_memory_of_config :: "config \<Rightarrow> vans_error + dram_memory" where
  "dram_memory_of_config c =
     ebind (ddr4_timing_of_config c) (\<lambda>t.
     ebind (get_ulong c ''size'') (\<lambda>sz.
     ebind (get_ulong c ''data_width'') (\<lambda>dw.
     ebind (map_err (get_ulong c) [''channel'', ''rank'', ''bank_group'', ''bank'', ''row'', ''col'']) (\<lambda>counts.
     ebind (base_config_at (config_values c) ''media_mapping_func'') (\<lambda>media.
     let s = \<lparr>ddr4_timings = t, mem_size = sz, data_width = sint (ucast dw :: 32 word),
              level_count = (\<lambda>l. counts ! level_index l)\<rparr> in
     ebind (new_dram_memory s media 0 0 0) (\<lambda>_.
     ebind (get_ulong c ''start_addr'') (\<lambda>start.
     ebind (get_ulong c ''report_epoch'') (\<lambda>epoch.
     ebind (get_ulong c ''queue_size'') (\<lambda>q.
       new_dram_memory s media epoch (unat q) start)))))))))"

definition ddr4_system_of_config :: "config \<Rightarrow> vans_error + dram_memory ddr4_system_controller" where
  "ddr4_system_of_config c =
     ebind (dram_memory_of_config c) (\<lambda>memory.
     ebind (memory_controller_of c) (\<lambda>f.
       Inr \<lparr>mapping_func = f, next_level_components = [], is_draining = False, ddr4_local_memory = memory\<rparr>))"

definition ait_of_config :: "config \<Rightarrow> vans_error + ('n, dram_memory) ait_controller" where
  "ait_of_config c =
     ebind (dram_memory_of_config c) (\<lambda>memory.
     ebind (memory_controller_of c) (\<lambda>f.
     ebind (get_ulong c ''buffer_entries'') (\<lambda>b.
     ebind (get_ulong c ''wear_leveling_threshold'') (\<lambda>threshold.
     ebind (get_ulong c ''migration_block_entries'') (\<lambda>entries.
     ebind (get_ulong c ''migration_latency'') (\<lambda>latency.
     ebind (get_ulong c ''min_table_entries'') (\<lambda>_.
     ebind (get_ulong c ''lsq_entries'') (\<lambda>l.
     ebind (get_ulong c ''lmemq_entries'') (\<lambda>m.
       Inr (new_ait_controller f (unat b) (unat l) (unat m) threshold entries latency memory))))))))))"

section \<open>Statistics dump\<close>

datatype dump_type = Dump_none | Dump_cli | Dump_file | Dump_both

definition get_dump_type :: "root_config \<Rightarrow> vans_error + dump_type" where
  "get_dump_type cfg =
     ebind (base_config_at cfg ''dump'') (\<lambda>c.
     ebind (base_config_at (config_values c) ''type'') (\<lambda>dump_cfg.
       if dump_cfg = ''file'' then Inr Dump_file
       else if dump_cfg = ''cli'' then Inr Dump_cli
       else if dump_cfg = ''both'' then Inr Dump_both
       else if dump_cfg = ''none'' then Inr Dump_none
       else Inl (Runtime_error (''[CONFIG ERROR]: dump_file value ['' @ dump_cfg @
         ''] is illegal, should be [none|file|cli|both]''))))"

definition get_dump_filename :: "root_config \<Rightarrow> string \<Rightarrow> nat \<Rightarrow> vans_error + string" where
  "get_dump_filename cfg name i =
     ebind (base_config_at cfg ''dump'') (\<lambda>c.
     ebind (base_config_at (config_values c) name) (\<lambda>file.
     ebind (base_config_at (config_values c) ''path'') (\<lambda>path.
       Inr (path @ ''/'' @ file @ ''_'' @ show_number 10 i))))"

text \<open>The directory and the file are assumed to be created without an error.\<close>

record dumper =
  dumper_type :: dump_type
  dump_to_file :: bool
  dump_to_cli :: bool
  dump_filename :: string

definition new_dumper :: "dump_type \<Rightarrow> string \<Rightarrow> dumper" where
  "new_dumper t filename =
     (let disabled = (take 4 filename = ''none'') in
      \<lparr>dumper_type = t,
       dump_to_file = ((t = Dump_file \<or> t = Dump_both) \<and> \<not> disabled),
       dump_to_cli = ((t = Dump_cli \<or> t = Dump_both) \<and> \<not> disabled),
       dump_filename = filename\<rparr>)"

section \<open>Components and their tree\<close>

datatype single_component =
    S_rmc "unit rmc_controller"
  | S_imc "unit imc_controller"
  | S_ddr4_system "dram_memory ddr4_system_controller"
  | S_nvram_system "unit nvram_system_controller"
  | S_cxl_system "unit cxl_system"
  | S_rmw "unit rmw_controller"
  | S_ait "(unit, dram_memory) ait_controller"
  | S_nv_media static_memory

text \<open>A constructed component with its id, its dumper and the components connected below it.\<close>

datatype component_tree = Component single_component nat "dumper option" "component_tree list"

text \<open>An unknown name leaves the pointer null, through which the id is then assigned.\<close>

definition make_single_component :: "string \<Rightarrow> root_config \<Rightarrow> nat \<Rightarrow> vans_error + component_tree" where
  "make_single_component name cfg component_id =
     (let from_section = (\<lambda>construct. ebind (base_config_at cfg name) construct);
          ret = (if name = ''rmc'' then from_section (\<lambda>c. map_sum id S_rmc (rmc_of_config c))
            else if name = ''imc'' then from_section (\<lambda>c. map_sum id S_imc (imc_of_config c))
            else if name = ''ddr4_system'' then from_section (\<lambda>c. map_sum id S_ddr4_system (ddr4_system_of_config c))
            else if name = ''nvram_system'' then from_section (\<lambda>c. map_sum id S_nvram_system (nvram_of_config c))
            else if name = ''cxl_system'' then from_section (\<lambda>c. Inr (S_cxl_system new_cxl_system))
            else if name = ''rmw'' then from_section (\<lambda>c. map_sum id S_rmw (rmw_of_config c))
            else if name = ''ait'' then from_section (\<lambda>c. map_sum id S_ait (ait_of_config c))
            else if name = ''nv_media'' then from_section (\<lambda>c. map_sum id S_nv_media (static_memory_of_config c))
            else Inl Undefined_behaviour) in
      ebind ret (\<lambda>s. Inr (Component s component_id None [])))"

fun connect_below :: "component_tree list \<Rightarrow> component_tree \<Rightarrow> component_tree" where
  "connect_below ns (Component s i d ch) = Component s i d (ch @ ns)"

fun connect_dumper :: "dumper \<Rightarrow> component_tree \<Rightarrow> vans_error + component_tree" where
  "connect_dumper d (Component s i d' []) = Inr (Component s i (Some d) [])"
| "connect_dumper d (Component s i d' [n]) =
     ebind (connect_dumper d n) (\<lambda>n. Inr (Component s i (Some d) [n]))"
| "connect_dumper d (Component s i d' (n # m # ns)) =
     Inl (Runtime_error ''Internal error, does not support one-to-many stat_dumper connection'')"

definition attach_dumper :: "root_config \<Rightarrow> nat \<Rightarrow> component_tree \<Rightarrow> vans_error + component_tree" where
  "attach_dumper cfg component_id ret =
     ebind (get_dump_type cfg) (\<lambda>t.
     ebind (get_dump_filename cfg ''stat_dump'' component_id) (\<lambda>file.
       connect_dumper (new_dumper t file) ret))"

text \<open>The loop over the children; \<open>build\<close> builds the one with a given id, \<open>None\<close> when it does not return.\<close>

fun make_children :: "(nat \<Rightarrow> (vans_error + 'c) option) \<Rightarrow> nat \<Rightarrow> nat \<Rightarrow> (vans_error + 'c list) option" where
  "make_children build i 0 = Some (Inr [])"
| "make_children build i (Suc n) =
     (case build i of
        None \<Rightarrow> None
      | Some (Inl e) \<Rightarrow> Some (Inl e)
      | Some (Inr c) \<Rightarrow>
          (case make_children build (Suc i) n of
             None \<Rightarrow> None
           | Some r \<Rightarrow> Some (ebind r (\<lambda>cs. Inr (c # cs)))))"

text \<open>
  The recursion over the organization need not end, so it has a fuel, which bounds the depth;
  \<open>None\<close> means that the depth was not enough.
\<close>

fun make_component :: "nat \<Rightarrow> string \<Rightarrow> root_config \<Rightarrow> nat \<Rightarrow> (vans_error + component_tree) option" where
  "make_component 0 name cfg component_id = None"
| "make_component (Suc fuel) name cfg component_id =
     (case make_single_component name cfg component_id of
        Inl e \<Rightarrow> Some (Inl e)
      | Inr ret \<Rightarrow>
          (case get_organization cfg name of
             Inl e \<Rightarrow> Some (Inl e)
           | Inr org \<Rightarrow>
               if fst org = 0 then Some (Inr ret)
               else (case make_children (make_component fuel (snd org) cfg) 0 (nat (fst org)) of
                   None \<Rightarrow> None
                 | Some r \<Rightarrow> Some (ebind r (\<lambda>ns.
                     if name = ''nvram_system'' then attach_dumper cfg component_id (connect_below ns ret)
                     else Inr (connect_below ns ret))))))"

definition factory_make :: "nat \<Rightarrow> root_config \<Rightarrow> (vans_error + component_tree) option" where
  "factory_make fuel cfg = make_component fuel ''rmc'' cfg 0"

section \<open>What is built\<close>

text \<open>The tree that the organization describes, whatever the dumpers are.\<close>

inductive built :: "root_config \<Rightarrow> string \<Rightarrow> nat \<Rightarrow> component_tree \<Rightarrow> bool" for cfg where
  built_node: "make_single_component name cfg i = Inr (Component s i None []) \<Longrightarrow>
    get_organization cfg name = Inr (n, below) \<Longrightarrow> length ch = nat n \<Longrightarrow>
    (\<forall>k < length ch. built cfg below k (ch ! k)) \<Longrightarrow> built cfg name i (Component s i d ch)"

inductive_cases built_elim: "built cfg name i (Component s j d ch)"

lemma make_single_shape:
  "make_single_component name cfg i = Inr t \<Longrightarrow> \<exists>s. t = Component s i None []"
  by (auto simp: make_single_component_def Let_def ebind_eq_Inr)

lemma make_children_built:
  assumes "make_children build i n = Some (Inr ns)"
  shows "length ns = n \<and> (\<forall>k < n. build (i + k) = Some (Inr (ns ! k)))"
  using assms
proof (induction build i n arbitrary: ns rule: make_children.induct)
  case (2 build i n)
  then obtain c cs where c: "build i = Some (Inr c)" "make_children build (Suc i) n = Some (Inr cs)" "ns = c # cs"
    by (auto simp: ebind_eq_Inr split: option.splits sum.splits)
  have IH: "length cs = n" "\<forall>k < n. build (Suc i + k) = Some (Inr (cs ! k))"
    using "2.IH" [OF c(1) refl c(2)] by auto
  have "build (i + k) = Some (Inr (ns ! k))" if "k < Suc n" for k
    using that c(1,3) IH(2) by (cases k) auto
  then show ?case using IH(1) c(3) by simp
qed simp

lemma built_dumper:
  assumes "connect_dumper d t = Inr t'" "built cfg name i t"
  shows "built cfg name i t'"
  using assms
proof (induction d t arbitrary: t' name i rule: connect_dumper.induct)
  case (1 d s j d')
  then show ?case by (auto elim!: built_elim intro!: built_node)
next
  case (2 d s j d' n)
  from "2.prems"(1) obtain m where m: "connect_dumper d n = Inr m" "t' = Component s j (Some d) [m]"
    by (auto simp: ebind_eq_Inr)
  from "2.prems"(2) obtain c below where b: "i = j" "make_single_component name cfg j = Inr (Component s j None [])"
      "get_organization cfg name = Inr (c, below)" "nat c = 1" "built cfg below 0 n"
    by (elim built_elim) fastforce
  have "built cfg below 0 m" using "2.IH" [OF m(1) b(5)] .
  then show ?case using b m(2) by (auto intro!: built_node)
qed simp

lemma make_component_built:
  "make_component fuel name cfg i = Some (Inr t) \<Longrightarrow> built cfg name i t"
proof (induction fuel arbitrary: name i t)
  case (Suc fuel)
  from Suc.prems obtain ret where r: "make_single_component name cfg i = Inr ret"
    by (auto split: sum.splits)
  then obtain s where s: "ret = Component s i None []" using make_single_shape by blast
  from Suc.prems r obtain n below where o: "get_organization cfg name = Inr (n, below)"
    by (auto split: sum.splits)
  show ?case
  proof (cases "n = 0")
    case True
    then have "t = ret" using Suc.prems r o by simp
    then show ?thesis using r s o True by (auto intro!: built_node)
  next
    case False
    then obtain ns where ns: "make_children (make_component fuel below cfg) 0 (nat n) = Some (Inr ns)"
        "(if name = ''nvram_system'' then attach_dumper cfg i (connect_below ns ret)
          else Inr (connect_below ns ret)) = Inr t"
      using Suc.prems r o by (auto simp: ebind_eq_Inr split: option.splits)
    from make_children_built [OF ns(1)] have "length ns = nat n" "\<forall>k < length ns. built cfg below k (ns ! k)"
      using Suc.IH by auto
    then have b: "built cfg name i (connect_below ns ret)" using r s o by (auto intro!: built_node)
    show ?thesis
      using ns(2) b built_dumper [OF _ b] by (auto simp: attach_dumper_def ebind_eq_Inr split: if_splits)
  qed
qed simp

text \<open>More depth changes nothing once it is enough.\<close>

lemma make_children_returns:
  "(\<And>k. k < n \<Longrightarrow> build (i + k) \<noteq> None) \<Longrightarrow> make_children build i n \<noteq> None"
proof (induction build i n rule: make_children.induct)
  case (2 build i n)
  have "build i \<noteq> None" using "2.prems" [of 0] by simp
  moreover have "make_children build (Suc i) n \<noteq> None" if "build i = Some (Inr c)" for c
    using "2.IH" [OF that refl] "2.prems" [of "Suc k" for k] by simp
  ultimately show ?case by (auto split: sum.splits option.splits)
qed simp

lemma make_children_more:
  assumes "make_children build i n = Some r" "\<And>k r. build k = Some r \<Longrightarrow> build' k = Some r"
  shows "make_children build' i n = Some r"
  using assms(1)
proof (induction n arbitrary: i r)
  case (Suc n)
  show ?case
  proof (cases "build i")
    case None
    then show ?thesis using Suc.prems by simp
  next
    case (Some m)
    note b = this assms(2) [OF this]
    show ?thesis
    proof (cases m)
      case (Inl e)
      then show ?thesis using Suc.prems b by simp
    next
      case (Inr c)
      then obtain q where q: "make_children build (Suc i) n = Some q"
        using Suc.prems b by (auto split: option.splits)
      then show ?thesis using Suc.prems b Inr Suc.IH [OF q] by simp
    qed
  qed
qed simp

lemma make_component_more:
  assumes "make_component fuel name cfg i = Some r"
  shows "make_component (fuel + k) name cfg i = Some r"
  using assms
proof (induction fuel arbitrary: name i r)
  case (Suc fuel)
  obtain m o' where m: "make_single_component name cfg i = m" "get_organization cfg name = o'" by simp
  show ?case
  proof (cases "(\<exists>e. m = Inl e) \<or> (\<exists>e. o' = Inl e)")
    case True
    then show ?thesis using Suc.prems m by (cases m; cases o') auto
  next
    case False
    then obtain ret n below where r: "m = Inr ret" "o' = Inr (n, below)"
      by (cases m; cases o') auto
    show ?thesis
    proof (cases "n = 0")
      case False
      then obtain q where q: "make_children (make_component fuel below cfg) 0 (nat n) = Some q"
        using Suc.prems m r by (auto split: option.splits)
      have "make_children (make_component (fuel + k) below cfg) 0 (nat n) = Some q"
        by (rule make_children_more [OF q]) (rule Suc.IH)
      then show ?thesis using Suc.prems m r q False by simp
    next
      case True
      have e: "make_single_component name cfg i = Inr ret" "get_organization cfg name = Inr (0, below)"
        using m r True by simp_all
      then have "r = Inr ret" using Suc.prems by (simp add: e)
      then show ?thesis by (simp add: e)
    qed
  qed
qed simp

definition ranked :: "root_config \<Rightarrow> (string \<Rightarrow> nat) \<Rightarrow> bool" where
  "ranked cfg rank \<longleftrightarrow>
     (\<forall>name n below. get_organization cfg name = Inr (n, below) \<longrightarrow> 0 < n \<longrightarrow> rank below < rank name)"

lemma make_component_returns:
  assumes "ranked cfg rank" "rank name < fuel"
  shows "make_component fuel name cfg i \<noteq> None"
  using assms(2)
proof (induction fuel arbitrary: name i)
  case (Suc fuel)
  have "make_children (make_component fuel below cfg) 0 (nat n) \<noteq> None"
    if "get_organization cfg name = Inr (n, below)" for n below
  proof (rule make_children_returns)
    fix k assume "k < nat n"
    then have "rank below < rank name" using assms(1) that by (auto simp: ranked_def)
    then show "make_component fuel below cfg (0 + k) \<noteq> None" using Suc by simp
  qed
  then show ?case by (auto split: sum.splits)
qed simp


text \<open>A cycle of the organization is never left.\<close>

definition cyclic_names :: "root_config \<Rightarrow> string set \<Rightarrow> bool" where
  "cyclic_names cfg names \<longleftrightarrow>
     (\<forall>name \<in> names. \<exists>n below. get_organization cfg name = Inr (n, below) \<and> 0 < n \<and> below \<in> names \<and>
        (\<forall>i. \<exists>t. make_single_component name cfg i = Inr t))"

lemma make_component_cycle:
  assumes "cyclic_names cfg names" "name \<in> names"
  shows "make_component fuel name cfg i = None"
  using assms(2)
proof (induction fuel arbitrary: name i)
  case (Suc fuel)
  from assms(1) Suc.prems obtain n below t where c: "get_organization cfg name = Inr (n, below)" "0 < n"
      "below \<in> names" "make_single_component name cfg i = Inr t" unfolding cyclic_names_def by blast
  obtain m where "nat n = Suc m" using c(2) by (cases "nat n") auto
  then have "make_children (make_component fuel below cfg) 0 (nat n) = None" using Suc.IH [OF c(3)] by simp
  then show ?case using c by simp
qed simp

end
