(* ===== verification/Trace.thy ===== *)
theory Trace
  imports Config Component
begin

text \<open>
  The trace runner, \<open>src/general/trace.h\<close> and \<open>src/general/trace.cpp\<close>: a reader of trace lines and
  the loop that issues the requests to the root of the simulated system and ticks it. The three
  callbacks of \<open>run_trace\<close> are client callbacks with a number. Times and lines that are only
  printed are left out.
\<close>

section \<open>Reading a trace\<close>

text \<open>
  The loop skips comments. At the end of a file \<open>getline\<close> leaves the line as it was, so that a
  comment there is read again for ever: the value is then \<open>None\<close>.
\<close>

partial_function (option) skip_comments :: "ifstream \<Rightarrow> string \<Rightarrow> (ifstream \<times> string) option" where
  "skip_comments f line =
     (let r = getline f line in
      if snd r \<noteq> [] \<and> hd (snd r) = CHR ''#'' then skip_comments (fst r) (snd r) else Some r)"

record trace_request =
  tr_addr :: addr_t
  tr_type :: base_request_type
  tr_critical :: bool
  tr_idle :: clk_t

text \<open>The type is the character after the address; none means a read.\<close>

definition parse_type :: "string \<Rightarrow> nat option \<Rightarrow> vans_error + base_request_type \<times> bool" where
  "parse_type line pos =
     (case pos of
        None \<Rightarrow> Inr (Base_read, False)
      | Some p \<Rightarrow>
          if line ! p = CHR ''R'' then Inr (Base_read, False)
          else if line ! p = CHR ''W'' then Inr (Base_write, False)
          else if line ! p = CHR ''C'' then Inr (Base_read, True)
          else Inl (Runtime_error ''Trace file format error.''))"

definition parse_idle :: "string \<Rightarrow> nat option \<Rightarrow> vans_error + clk_t" where
  "parse_idle line pos =
     (case find_first_not_of (CHR '':'') (next_pos pos) line of
        None \<Rightarrow> Inr clk_invalid
      | Some p \<Rightarrow> ebind (stoul 10 (drop p line)) (\<lambda>(v, n). Inr v))"

definition parse_trace_line :: "string \<Rightarrow> vans_error + trace_request" where
  "parse_trace_line line =
     ebind (stoul 16 line) (\<lambda>(addr, pos).
     let pos = find_first_not_of (CHR '' '') (pos + 1) line in
     ebind (parse_type line pos) (\<lambda>(type, critical).
     ebind (parse_idle line pos) (\<lambda>idle.
       Inr \<lparr>tr_addr = addr, tr_type = type, tr_critical = critical, tr_idle = idle\<rparr>)))"

text \<open>
  \<open>get_dram_trace_request\<close>: \<open>None\<close> inside the result is the answer false, at the end of the
  file. The local variable \<open>line\<close> starts empty.
\<close>

definition get_dram_trace_request ::
  "ifstream \<Rightarrow> (vans_error + ifstream \<times> trace_request option) option" where
  "get_dram_trace_request f =
     (case skip_comments f [] of
        None \<Rightarrow> None
      | Some (f, line) \<Rightarrow>
          if fs_eof f then Some (Inr (f, None))
          else Some (ebind (parse_trace_line line) (\<lambda>r. Inr (f, Some r))))"

section \<open>Running a trace\<close>

definition normal_read_callback :: callback where "normal_read_callback = Cb_client 0"
definition tail_latency_callback :: callback where "tail_latency_callback = Cb_client 1"
definition critical_read_callback :: callback where "critical_read_callback = Cb_client 2"

record 'n trace_state =
  tr_file :: ifstream
  tr_model :: 'n
  tr_callback :: callback
  stall :: bool
  trace_end :: bool
  critical_stall :: bool
  wait_idle_clk :: bool
  idle_clk_injection :: clk_t
  cur :: trace_request
  tr_req :: base_request
  curr_clk :: clk_t
  last_trace_clk :: clk_t
  cnt_read :: "64 word"
  cnt_write :: "64 word"
  tail_latency_cnt :: "64 word"

definition cnt_total :: "'n trace_state \<Rightarrow> 64 word" where
  "cnt_total s = cnt_read s + cnt_write s"

text \<open>The variables at the start of the loop. A stream that is not good is refused by the constructor of \<open>trace\<close>.\<close>

definition new_trace_state :: "ifstream \<Rightarrow> 'n \<Rightarrow> callback \<Rightarrow> 'n trace_state" where
  "new_trace_state f m cb =
     \<lparr>tr_file = f, tr_model = m, tr_callback = cb, stall = False, trace_end = False,
      critical_stall = False, wait_idle_clk = False, idle_clk_injection = clk_invalid,
      cur = \<lparr>tr_addr = 0, tr_type = Base_read, tr_critical = False, tr_idle = clk_invalid\<rparr>,
      tr_req = new_base_request Base_read 0 0 cb, curr_clk = 0, last_trace_clk = 0,
      cnt_read = 0, cnt_write = 0, tail_latency_cnt = 0\<rparr>"

text \<open>
  Reading the next request, unless the last one was refused or is critical and unanswered. At the end of
  the file the variables keep their values, the idle cycles too.
\<close>

definition trace_fetch :: "'n trace_state \<Rightarrow> (vans_error + 'n trace_state) option" where
  "trace_fetch s =
     (if stall s \<or> critical_stall s then Some (Inr s)
      else case get_dram_trace_request (tr_file s) of
          None \<Rightarrow> None
        | Some r \<Rightarrow> Some (ebind r (\<lambda>(f, request).
            let s = (case request of
                None \<Rightarrow> s\<lparr>tr_file := f, trace_end := True\<rparr>
              | Some q \<Rightarrow> s\<lparr>tr_file := f, cur := q, idle_clk_injection := tr_idle q\<rparr>) in
            Inr (if idle_clk_injection s \<noteq> clk_invalid then s\<lparr>wait_idle_clk := True\<rparr> else s))))"

text \<open>Issuing it. The request object is reused: its arrival clock stays that of the first one, 0.\<close>

definition trace_issue :: "'n component_ops \<Rightarrow> 'n trace_state \<Rightarrow> vans_error + 'n trace_state" where
  "trace_issue ops s =
     (let req = (tr_req s)\<lparr>req_addr := tr_addr (cur s), req_type := tr_type (cur s),
          req_callback := (if tr_critical (cur s) then critical_read_callback else tr_callback s)\<rparr> in
      if critical_stall s then Inr (s\<lparr>tr_req := req\<rparr>)
      else ebind (issue_request ops (tr_model s) req) (\<lambda>(m, req, issued, deterministic, next_clk).
        let s = s\<lparr>tr_model := m, tr_req := req, stall := \<not> issued\<rparr> in
        if issued
        then Inr (s\<lparr>cnt_read := cnt_read s + (if tr_type (cur s) = Base_read then 1 else 0),
               cnt_write := cnt_write s + (if tr_type (cur s) = Base_write then 1 else 0),
               critical_stall := tr_critical (cur s)\<rparr>)
        else Inr s))"

text \<open>A call of one of the callbacks.\<close>

fun trace_callback :: "call \<Rightarrow> 'n trace_state \<Rightarrow> 'n trace_state" where
  "trace_callback (cb, addr, clk) s =
     (if cb = critical_read_callback then s\<lparr>critical_stall := False\<rparr>
      else if cb = tail_latency_callback then s\<lparr>tail_latency_cnt := tail_latency_cnt s + 1\<rparr>
      else s)"

definition trace_tick :: "'n component_ops \<Rightarrow> 'n trace_state \<Rightarrow> vans_error + 'n trace_state" where
  "trace_tick ops s =
     ebind (tick ops (curr_clk s) (tr_model s)) (\<lambda>(m, calls).
       let s = fold trace_callback calls (s\<lparr>tr_model := m\<rparr>) in
       Inr (s\<lparr>curr_clk := curr_clk s + 1\<rparr>))"

text \<open>The part of an iteration before the tick.\<close>

definition trace_client :: "'n component_ops \<Rightarrow> 'n trace_state \<Rightarrow> (vans_error + 'n trace_state) option" where
  "trace_client ops s =
     (if wait_idle_clk s
      then Some (Inr (if 0 < idle_clk_injection s
        then s\<lparr>idle_clk_injection := idle_clk_injection s - 1\<rparr> else s\<lparr>wait_idle_clk := False\<rparr>))
      else case trace_fetch s of
          None \<Rightarrow> None
        | Some r \<Rightarrow> Some (ebind r (\<lambda>s.
            if trace_end s then Inr (s\<lparr>last_trace_clk := curr_clk s\<rparr>) else trace_issue ops s)))"

definition trace_step :: "'n component_ops \<Rightarrow> 'n trace_state \<Rightarrow> (vans_error + 'n trace_state) option" where
  "trace_step ops s =
     (case trace_client ops s of
        None \<Rightarrow> None
      | Some r \<Rightarrow> Some (ebind r (trace_tick ops)))"

text \<open>The main loop, and the loop after the drain; each may run for ever.\<close>

partial_function (option) trace_loop ::
  "'n component_ops \<Rightarrow> 'n trace_state \<Rightarrow> (vans_error + 'n trace_state) option" where
  "trace_loop ops s =
     (if trace_end s then Some (Inr s)
      else case trace_step ops s of
          None \<Rightarrow> None
        | Some r \<Rightarrow> (case r of Inl e \<Rightarrow> Some (Inl e) | Inr s \<Rightarrow> trace_loop ops s))"

partial_function (option) drain_loop ::
  "'n component_ops \<Rightarrow> 'n trace_state \<Rightarrow> (vans_error + 'n trace_state) option" where
  "drain_loop ops s =
     (case ebind (is_pending ops (tr_model s)) (\<lambda>p. if p then map_sum id Some (trace_tick ops s) else Inr None) of
        Inl e \<Rightarrow> Some (Inl e)
      | Inr None \<Rightarrow> Some (Inr s)
      | Inr (Some s) \<Rightarrow> drain_loop ops s)"

definition simulate :: "'n component_ops \<Rightarrow> 'n trace_state \<Rightarrow> (vans_error + 'n trace_state) option" where
  "simulate ops s =
     (case trace_loop ops s of
        None \<Rightarrow> None
      | Some (Inl e) \<Rightarrow> Some (Inl e)
      | Some (Inr s) \<Rightarrow>
          (case drain ops (tr_model s) of
             Inl e \<Rightarrow> Some (Inl e)
           | Inr m \<Rightarrow> drain_loop ops (s\<lparr>tr_model := m\<rparr>)))"

text \<open>
  \<open>run_trace\<close>: the trace file is opened (\<open>None\<close> when it cannot be) and the configuration is
  read before anything is simulated. Of the three numbers only the last one matters beyond the output.
\<close>

definition trace_setup :: "root_config \<Rightarrow> string option \<Rightarrow> vans_error + ifstream \<times> callback" where
  "trace_setup cfg file =
     (case file of
        None \<Rightarrow> Inl (Runtime_error ''Trace file open failed.'')
      | Some content \<Rightarrow>
          ebind (base_config_at cfg ''trace'') (\<lambda>c.
          ebind (get_ulong c ''heart_beat_epoch'') (\<lambda>_.
          ebind (get_ulong c ''report_epoch'') (\<lambda>_.
          ebind (base_config_at cfg ''basic'') (\<lambda>b.
          ebind (base_config_at (config_values b) ''tCK'') (\<lambda>tCK.
          ebind (if starts_with_double tCK then Inr () else Inl Invalid_argument) (\<lambda>_.
          ebind (get_ulong c ''report_tail_latency'') (\<lambda>tail.
            Inr (open_file content,
              if tail \<noteq> 0 then tail_latency_callback else normal_read_callback)))))))))"

definition run_trace ::
  "'n component_ops \<Rightarrow> root_config \<Rightarrow> string option \<Rightarrow> 'n \<Rightarrow> (vans_error + 'n trace_state) option" where
  "run_trace ops cfg file m =
     (case trace_setup cfg file of
        Inl e \<Rightarrow> Some (Inl e)
      | Inr (f, cb) \<Rightarrow> simulate ops (new_trace_state f m cb))"

end
