(* ===== verification/Trace_Inv.thy ===== *)
theory Trace_Inv
  imports Trace
begin

text \<open>
  Lemmas on the trace runner: a printed trace is read back line by line, the steps of the main loop over
  a memory that answers at once, and the conditions under which a loop never returns.
\<close>

section \<open>Reading back a printed trace\<close>

definition show_idle :: "clk_t \<Rightarrow> string" where
  "show_idle idle = (if idle = clk_invalid then [] else CHR '':'' # show_number 10 (unat idle))"

definition show_type :: "trace_request \<Rightarrow> char" where
  "show_type q = (if tr_critical q then CHR ''C'' else if tr_type q = Base_read then CHR ''R'' else CHR ''W'')"

definition show_request :: "trace_request \<Rightarrow> string" where
  "show_request q = ''0x'' @ show_number 16 (unat (tr_addr q)) @ [CHR '' '', show_type q] @ show_idle (tr_idle q)"

text \<open>The comments in front of a request, each a line that starts with a hash sign.\<close>

definition show_comments :: "string list \<Rightarrow> string" where
  "show_comments cs = concat (map (\<lambda>c. line_end (CHR ''#'' # c)) cs)"

definition show_trace :: "(string list \<times> trace_request) list \<Rightarrow> string list \<Rightarrow> string" where
  "show_trace qs trailer =
     concat (map (\<lambda>(cs, q). show_comments cs @ line_end (show_request q)) qs) @ show_comments trailer"

definition trace_ok :: "(string list \<times> trace_request) list \<Rightarrow> string list \<Rightarrow> bool" where
  "trace_ok qs trailer \<longleftrightarrow>
     list_all (\<lambda>(cs, q). list_all (\<lambda>c. newline \<notin> set c) cs \<and> (tr_critical q \<longrightarrow> tr_type q = Base_read)) qs \<and>
     list_all (\<lambda>c. newline \<notin> set c) trailer"

lemma find_first_not_of_here:
  "p < length s \<Longrightarrow> s ! p \<noteq> c \<Longrightarrow> find_first_not_of c p s = Some p"
  by (simp add: find_first_not_of_def Cons_nth_drop_Suc [symmetric])

lemma find_first_not_of_skip:
  assumes "p < length s" "s ! p = c"
  shows "find_first_not_of c p s = find_first_not_of c (Suc p) s"
proof -
  have "drop p s = c # drop (Suc p) s" using assms Cons_nth_drop_Suc [of p s] by simp
  then show ?thesis by (simp add: find_first_not_of_def)
qed

lemma find_first_not_of_end: "length s \<le> p \<Longrightarrow> find_first_not_of c p s = None"
  by (simp add: find_first_not_of_def)

lemma digits_end: "ends_number 16 (CHR '' '' # s)" "ends_number 10 []"
  by (simp_all add: ends_number_def digit_def digit_value_def)

lemma digit_not_colon: "digit base c \<noteq> None \<Longrightarrow> c \<noteq> CHR '':''"
  by (auto simp: digit_def digit_value_def Let_def)

lemma parse_shown_idle:
  assumes "length s = n"
  shows "parse_idle (s @ t # show_idle idle) (Some n) = Inr idle"
proof (cases "idle = clk_invalid")
  case True
  then show ?thesis using assms
    by (simp add: parse_idle_def show_idle_def next_pos_def find_first_not_of_end)
next
  case False
  let ?d = "show_number 10 (unat idle)"
  let ?l = "s @ t # CHR '':'' # ?d"
  obtain c cs where d: "?d = c # cs" "c \<noteq> CHR '':''"
    using show_number_digits [of 10 "unat idle"] digit_not_colon [of 10] by (cases ?d) auto
  have "find_first_not_of (CHR '':'') (Suc n) ?l = find_first_not_of (CHR '':'') (Suc (Suc n)) ?l"
    using assms by (intro find_first_not_of_skip) (auto simp: nth_append)
  also have "\<dots> = Some (Suc (Suc n))"
    using assms d by (intro find_first_not_of_here) (auto simp: nth_append)
  finally have f: "find_first_not_of (CHR '':'') (Suc n) ?l = Some (Suc (Suc n))" .
  have "unat idle < 2 ^ 64" by (rule order_less_le_trans [OF unsigned_less]) simp
  then have "stoul 10 ?d = Inr (idle, length ?d)"
    using stoul_shown [of 10 "[]" "unat idle" "[]"] digits_end(2) by simp
  then show ?thesis using False f assms by (simp add: parse_idle_def show_idle_def next_pos_def)
qed

lemma parse_shown:
  assumes "tr_critical q \<longrightarrow> tr_type q = Base_read"
  shows "parse_trace_line (show_request q) = Inr q"
proof -
  let ?a = "show_number 16 (unat (tr_addr q))"
  let ?s = "(''0x'' @ ?a) @ [CHR '' '']"
  let ?l = "?s @ show_type q # show_idle (tr_idle q)"
  have l: "show_request q = ?l" by (simp add: show_request_def)
  have "unat (tr_addr q) < 2 ^ 64" by (rule order_less_le_trans [OF unsigned_less]) simp
  then have a: "stoul 16 ?l = Inr (tr_addr q, length (''0x'' @ ?a))"
    using stoul_shown [of 16 "CHR '' '' # show_type q # show_idle (tr_idle q)" "unat (tr_addr q)" "''0x''"]
      digits_end(1) by simp
  have t: "?l ! length ?s = show_type q" by (simp add: nth_append)
  have "show_type q \<noteq> CHR '' ''" by (simp add: show_type_def)
  then have p: "find_first_not_of (CHR '' '') (length ?s) ?l = Some (length ?s)"
    using t by (intro find_first_not_of_here) simp_all
  have "parse_type ?l (Some (length ?s)) = Inr (tr_type q, tr_critical q)"
    using t assms by (cases "tr_type q") (auto simp: parse_type_def show_type_def)
  moreover have "parse_idle ?l (Some (length ?s)) = Inr (tr_idle q)" by (rule parse_shown_idle) simp
  ultimately show ?thesis using a p unfolding l parse_trace_line_def by simp
qed

lemma show_request_line: "newline \<notin> set (show_request q)" "hd (show_request q) \<noteq> CHR ''#''" "show_request q \<noteq> []"
proof -
  have "newline \<notin> set (show_number base n)" if "2 \<le> base" "base \<le> 16" for base n
    using show_number_digits [OF that, of n] by (auto simp: list_all_iff newline_def digit_def digit_value_def)
  then show "newline \<notin> set (show_request q)"
    by (auto simp: show_request_def show_idle_def show_type_def newline_def)
qed (simp_all add: show_request_def)

lemma skip_comments_shown:
  assumes "list_all (\<lambda>c. newline \<notin> set c) cs"
  shows "\<exists>line'. skip_comments (open_file (show_comments cs @ rest)) line = skip_comments (open_file rest) line'"
  using assms
proof (induction cs arbitrary: line)
  case (Cons c cs)
  have "newline \<notin> set (CHR ''#'' # c)" using Cons.prems by (simp add: newline_def)
  then have g: "getline (open_file (show_comments (c # cs) @ rest)) line =
      (open_file (show_comments cs @ rest), CHR ''#'' # c)"
    using getline_line [of "CHR ''#'' # c" "show_comments cs @ rest" line] by (simp add: show_comments_def)
  have "skip_comments (open_file (show_comments (c # cs) @ rest)) line =
      skip_comments (open_file (show_comments cs @ rest)) (CHR ''#'' # c)"
    by (subst skip_comments.simps) (simp add: g Let_def)
  then show ?case using Cons by simp
qed (auto simp: show_comments_def)

lemma get_request_shown:
  assumes "list_all (\<lambda>c. newline \<notin> set c) cs" "tr_critical q \<longrightarrow> tr_type q = Base_read"
  shows "get_dram_trace_request (open_file (show_comments cs @ line_end (show_request q) @ rest)) =
    Some (Inr (open_file rest, Some q))"
proof -
  obtain line where s: "skip_comments (open_file (show_comments cs @ line_end (show_request q) @ rest)) [] =
      skip_comments (open_file (line_end (show_request q) @ rest)) line"
    using skip_comments_shown [OF assms(1)] by blast
  also have "\<dots> = Some (open_file rest, show_request q)"
    using show_request_line by (subst skip_comments.simps) (simp add: getline_line Let_def)
  finally show ?thesis using parse_shown [OF assms(2)]
    by (simp add: get_dram_trace_request_def) (simp add: open_file_def)
qed

lemma get_request_end:
  assumes "list_all (\<lambda>c. newline \<notin> set c) cs"
  shows "\<exists>f. get_dram_trace_request (open_file (show_comments cs)) = Some (Inr (f, None))"
proof -
  obtain line where "skip_comments (open_file (show_comments cs)) [] = skip_comments (open_file []) line"
    using skip_comments_shown [OF assms, of "[]" "[]"] by auto
  also have "\<dots> = Some (\<lparr>fs_rest = [], fs_eof = True, fs_fail = True\<rparr>, [])"
    by (subst skip_comments.simps) (simp add: getline_last [of "[]", simplified])
  finally show ?thesis by (simp add: get_dram_trace_request_def)
qed

text \<open>The last line of a file counts only with its newline; as a comment without one it is never left.\<close>

lemma skip_comments_stuck:
  assumes "skip_comments f line = Some r"
  shows "\<not> ((fs_eof f \<or> fs_fail f) \<and> line \<noteq> [] \<and> hd line = CHR ''#'')"
proof (rule skip_comments.raw_induct [where
    P = "\<lambda>f line r. \<not> ((fs_eof f \<or> fs_fail f) \<and> line \<noteq> [] \<and> hd line = CHR ''#'')", OF _ assms])
  fix g and f :: ifstream and line r
  assume IH: "\<And>f line r. g f line = Some r \<Longrightarrow> \<not> ((fs_eof f \<or> fs_fail f) \<and> line \<noteq> [] \<and> hd line = CHR ''#'')"
    and body: "(let r = getline f line in
      if snd r \<noteq> [] \<and> hd (snd r) = CHR ''#'' then g (fst r) (snd r) else Some r) = Some r"
  show "\<not> ((fs_eof f \<or> fs_fail f) \<and> line \<noteq> [] \<and> hd line = CHR ''#'')"
  proof
    assume a: "(fs_eof f \<or> fs_fail f) \<and> line \<noteq> [] \<and> hd line = CHR ''#''"
    then have "g (f\<lparr>fs_fail := True\<rparr>) line = Some r" using body by (simp add: getline_end Let_def)
    then show False using IH [of "f\<lparr>fs_fail := True\<rparr>" line r] a by simp
  qed
qed

lemma get_request_last:
  assumes "newline \<notin> set l"
  shows "get_dram_trace_request (open_file l) =
    (if l \<noteq> [] \<and> hd l = CHR ''#'' then None
     else Some (Inr (\<lparr>fs_rest = [], fs_eof = True, fs_fail = (l = [])\<rparr>, None)))"
proof (cases "l \<noteq> [] \<and> hd l = CHR ''#''")
  case True
  let ?f = "\<lparr>fs_rest = [], fs_eof = True, fs_fail = (l = [])\<rparr>"
  have "skip_comments (open_file l) [] = skip_comments ?f l"
    using True by (subst skip_comments.simps) (simp add: getline_last [OF assms])
  also have "\<dots> = None" using skip_comments_stuck [of ?f l] True by (cases "skip_comments ?f l") auto
  finally show ?thesis using True by (simp add: get_dram_trace_request_def)
next
  case False
  have "skip_comments (open_file l) [] = Some (\<lparr>fs_rest = [], fs_eof = True, fs_fail = (l = [])\<rparr>, l)"
    using False by (subst skip_comments.simps) (auto simp: getline_last [OF assms])
  then show ?thesis using False by (auto simp: get_dram_trace_request_def)
qed

text \<open>All requests of a file, with fuel for the number of lines.\<close>

fun read_trace :: "nat \<Rightarrow> ifstream \<Rightarrow> (vans_error + trace_request list) option" where
  "read_trace 0 f = None"
| "read_trace (Suc n) f =
     (case get_dram_trace_request f of
        None \<Rightarrow> None
      | Some (Inl e) \<Rightarrow> Some (Inl e)
      | Some (Inr (f, None)) \<Rightarrow> Some (Inr [])
      | Some (Inr (f, Some q)) \<Rightarrow> map_option (map_sum id ((#) q)) (read_trace n f))"

lemma show_trace_cons:
  "show_trace ((cs, q) # qs) trailer = show_comments cs @ line_end (show_request q) @ show_trace qs trailer"
  by (simp add: show_trace_def)

lemma show_trace_nil: "show_trace [] trailer = show_comments trailer"
  by (simp add: show_trace_def)

lemma trace_ok_cons:
  "trace_ok ((cs, q) # qs) trailer \<longleftrightarrow>
     list_all (\<lambda>c. newline \<notin> set c) cs \<and> (tr_critical q \<longrightarrow> tr_type q = Base_read) \<and> trace_ok qs trailer"
  by (auto simp: trace_ok_def)

lemma read_trace_shown:
  "trace_ok qs trailer \<Longrightarrow> length qs < n \<Longrightarrow>
   read_trace n (open_file (show_trace qs trailer)) = Some (Inr (map snd qs))"
proof (induction qs arbitrary: n)
  case Nil
  then obtain m where "n = Suc m" by (cases n) auto
  then show ?case using get_request_end [of trailer] Nil.prems(1) by (auto simp: show_trace_nil trace_ok_def)
next
  case (Cons x qs)
  obtain cs q where x: "x = (cs, q)" by (cases x)
  obtain m where "n = Suc m" "length qs < m" using Cons.prems(2) by (cases n) auto
  then show ?case using Cons.IH [of m] Cons.prems(1) get_request_shown [of cs q] x
    by (simp add: show_trace_cons trace_ok_cons)
qed

end
