(* ===== verification/Trace_Run.thy ===== *)
theory Trace_Run
  imports Trace_Inv Static_Memory
begin

text \<open>
  Runs of the main loop: over a memory that accepts and answers at once, where the number of
  cycles is known exactly, and over any root of a simulated system, where the requests of the trace are
  accepted in their order and nothing fails.
\<close>

section \<open>The two loops\<close>

lemma trace_loop_step:
  "\<not> trace_end s \<Longrightarrow> trace_step ops s = Some (Inr s') \<Longrightarrow> trace_loop ops s = trace_loop ops s'"
  by (subst trace_loop.simps) simp

lemma trace_loop_end: "trace_end s \<Longrightarrow> trace_loop ops s = Some (Inr s)"
  by (subst trace_loop.simps) simp

lemma trace_loop_diverges:
  assumes "P s" "\<And>s. P s \<Longrightarrow> \<not> trace_end s \<and> (\<exists>s'. trace_step ops s = Some (Inr s') \<and> P s')"
  shows "trace_loop ops s = None"
proof (cases "trace_loop ops s")
  case (Some r)
  have "ops = ops \<longrightarrow> \<not> P s"
  proof (rule trace_loop.raw_induct [where P = "\<lambda>ops' s r. ops' = ops \<longrightarrow> \<not> P s", OF _ Some], intro impI notI)
    fix f and ops' :: "'a component_ops" and s r
    assume IH: "\<And>ops' s r. f ops' s = Some r \<Longrightarrow> ops' = ops \<longrightarrow> \<not> P s"
      and body: "(if trace_end s then Some (Inr s)
      else case trace_step ops' s of
          None \<Rightarrow> None
        | Some r \<Rightarrow> (case r of Inl e \<Rightarrow> Some (Inl e) | Inr s \<Rightarrow> f ops' s)) = Some r"
      and p: "ops' = ops" "P s"
    from assms(2) [OF p(2)] obtain s' where "\<not> trace_end s" "trace_step ops s = Some (Inr s')" "P s'" by blast
    then show False using IH body p(1) by auto
  qed
  then show ?thesis using assms(1) by blast
qed simp

lemma drain_loop_diverges:
  assumes "P s"
    and "\<And>s. P s \<Longrightarrow> is_pending ops (tr_model s) = Inr True \<and> (\<exists>s'. trace_tick ops s = Inr s' \<and> P s')"
  shows "drain_loop ops s = None"
proof (cases "drain_loop ops s")
  case (Some r)
  have "ops = ops \<longrightarrow> \<not> P s"
  proof (rule drain_loop.raw_induct [where P = "\<lambda>ops' s r. ops' = ops \<longrightarrow> \<not> P s", OF _ Some], intro impI notI)
    fix f and ops' :: "'a component_ops" and s r
    assume IH: "\<And>ops' s r. f ops' s = Some r \<Longrightarrow> ops' = ops \<longrightarrow> \<not> P s"
      and body: "(case ebind (is_pending ops' (tr_model s)) (\<lambda>p. if p then map_sum id Some (trace_tick ops' s) else Inr None) of
        Inl e \<Rightarrow> Some (Inl e)
      | Inr None \<Rightarrow> Some (Inr s)
      | Inr (Some s) \<Rightarrow> f ops' s) = Some r"
      and p: "ops' = ops" "P s"
    from assms(2) [OF p(2)] obtain s' where "is_pending ops (tr_model s) = Inr True" "trace_tick ops s = Inr s'" "P s'" by blast
    then show False using IH body p(1) by auto
  qed
  then show ?thesis using assms(1) by blast
qed simp

section \<open>A memory that answers at once\<close>

locale instant_memory =
  fixes ops :: "'n component_ops" and ninv :: "'n \<Rightarrow> bool"
  assumes issue_now: "ninv n \<Longrightarrow> req_arrive r = 0 \<Longrightarrow>
      \<exists>n' clk. issue_request ops n r = Inr (n', r, True, True, clk) \<and> ninv n'"
    and tick_quiet: "ninv n \<Longrightarrow> \<exists>n'. tick ops clk n = Inr (n', []) \<and> ninv n'"
    and never_pending: "ninv n \<Longrightarrow> is_pending ops n = Inr False"
    and drains: "ninv n \<Longrightarrow> \<exists>n'. drain ops n = Inr n' \<and> ninv n'"

definition trace_ready ::
  "('n \<Rightarrow> bool) \<Rightarrow> (string list \<times> trace_request) list \<Rightarrow> string list \<Rightarrow> 'n trace_state \<Rightarrow> bool" where
  "trace_ready ninv qs trailer s \<longleftrightarrow>
     \<not> stall s \<and> \<not> critical_stall s \<and> \<not> wait_idle_clk s \<and> \<not> trace_end s \<and>
     tr_file s = open_file (show_trace qs trailer) \<and> req_arrive (tr_req s) = 0 \<and> ninv (tr_model s)"

text \<open>The cycles of a request: one to issue it, and one more than the idle cycles if there are any.\<close>

definition request_cost :: "trace_request \<Rightarrow> clk_t" where
  "request_cost q = (if tr_idle q = clk_invalid then 1 else tr_idle q + 2)"

definition reads :: "trace_request list \<Rightarrow> 64 word" where
  "reads qs = of_nat (length (filter (\<lambda>q. tr_type q = Base_read) qs))"

definition writes :: "trace_request list \<Rightarrow> 64 word" where
  "writes qs = of_nat (length (filter (\<lambda>q. tr_type q = Base_write) qs))"

lemma trace_fetch_request:
  assumes "\<not> stall s" "\<not> critical_stall s" "tr_file s = open_file (show_trace ((cs, q) # qs) trailer)"
    and "trace_ok ((cs, q) # qs) trailer"
  shows "trace_fetch s = Some (Inr (s\<lparr>tr_file := open_file (show_trace qs trailer), cur := q,
    idle_clk_injection := tr_idle q, wait_idle_clk := wait_idle_clk s \<or> tr_idle q \<noteq> clk_invalid\<rparr>))"
  using assms get_request_shown [of cs q]
  by (auto simp: trace_fetch_def show_trace_cons trace_ok_cons Let_def)

lemma trace_fetch_end:
  assumes "\<not> stall s" "\<not> critical_stall s" "tr_file s = open_file (show_trace [] trailer)" "trace_ok [] trailer"
  shows "\<exists>f. trace_fetch s = Some (Inr (s\<lparr>tr_file := f, trace_end := True,
    wait_idle_clk := wait_idle_clk s \<or> idle_clk_injection s \<noteq> clk_invalid\<rparr>))"
  using assms get_request_end [of trailer]
  by (auto simp: trace_fetch_def show_trace_nil trace_ok_def Let_def)

context instant_memory
begin

lemma trace_tick_quiet:
  assumes "ninv (tr_model s)"
  shows "\<exists>m. trace_tick ops s = Inr (s\<lparr>tr_model := m, curr_clk := curr_clk s + 1\<rparr>) \<and> ninv m"
  using tick_quiet [OF assms, of "curr_clk s"] by (auto simp: trace_tick_def)

lemma step_request:
  assumes "trace_ready ninv ((cs, q) # qs) trailer s" "trace_ok ((cs, q) # qs) trailer"
  shows "\<exists>s'. trace_step ops s = Some (Inr s') \<and> \<not> trace_end s' \<and> \<not> stall s' \<and>
    critical_stall s' = tr_critical q \<and> wait_idle_clk s' = (tr_idle q \<noteq> clk_invalid) \<and>
    idle_clk_injection s' = tr_idle q \<and> tr_file s' = open_file (show_trace qs trailer) \<and>
    req_arrive (tr_req s') = 0 \<and> ninv (tr_model s') \<and> curr_clk s' = curr_clk s + 1 \<and>
    cnt_read s' = cnt_read s + reads [q] \<and> cnt_write s' = cnt_write s + writes [q]"
proof -
  have r: "\<not> stall s" "\<not> critical_stall s" "\<not> wait_idle_clk s" "\<not> trace_end s"
    "tr_file s = open_file (show_trace ((cs, q) # qs) trailer)" "req_arrive (tr_req s) = 0" "ninv (tr_model s)"
    using assms(1) by (simp_all add: trace_ready_def)
  let ?s = "s\<lparr>tr_file := open_file (show_trace qs trailer), cur := q, idle_clk_injection := tr_idle q,
    wait_idle_clk := wait_idle_clk s \<or> tr_idle q \<noteq> clk_invalid\<rparr>"
  let ?req = "(tr_req s)\<lparr>req_addr := tr_addr q, req_type := tr_type q,
    req_callback := (if tr_critical q then critical_read_callback else tr_callback s)\<rparr>"
  have "req_arrive ?req = 0" using r(6) by simp
  from issue_now [OF r(7) this] obtain n clk where
    i: "issue_request ops (tr_model s) ?req = Inr (n, ?req, True, True, clk)" "ninv n" by blast
  let ?t = "?s\<lparr>tr_model := n, tr_req := ?req, stall := False, cnt_read := cnt_read s + reads [q],
    cnt_write := cnt_write s + writes [q], critical_stall := tr_critical q\<rparr>"
  have "trace_issue ops ?s = Inr ?t"
    using r i(1)
    by (cases "tr_type q"; cases "tr_critical q") (simp_all add: trace_issue_def Let_def reads_def writes_def)
  then have c: "trace_client ops s = Some (Inr ?t)"
    using trace_fetch_request [OF r(1,2,5) assms(2)] r(3,4) by (simp add: trace_client_def)
  have "ninv (tr_model ?t)" using i(2) by simp
  from trace_tick_quiet [OF this] obtain m where
    t: "trace_tick ops ?t = Inr (?t\<lparr>tr_model := m, curr_clk := curr_clk ?t + 1\<rparr>)" "ninv m" by blast
  have "trace_step ops s = Some (Inr (?t\<lparr>tr_model := m, curr_clk := curr_clk ?t + 1\<rparr>))"
    unfolding trace_step_def c using t(1) by simp
  then show ?thesis using r t(2) by (intro exI conjI) (assumption | simp)+
qed

text \<open>The idle cycles pass without a request.\<close>

lemma loop_idle:
  assumes "wait_idle_clk s" "\<not> trace_end s" "ninv (tr_model s)"
  shows "\<exists>m. ninv m \<and> trace_loop ops s = trace_loop ops (s\<lparr>tr_model := m, wait_idle_clk := False,
    idle_clk_injection := 0, curr_clk := curr_clk s + idle_clk_injection s + 1\<rparr>)"
  using assms
proof (induction "unat (idle_clk_injection s)" arbitrary: s)
  case 0
  then have z: "idle_clk_injection s = 0" by (simp add: unat_eq_zero)
  let ?s = "s\<lparr>wait_idle_clk := False\<rparr>"
  from trace_tick_quiet [of ?s] "0.prems" obtain m where
    m: "trace_tick ops ?s = Inr (?s\<lparr>tr_model := m, curr_clk := curr_clk s + 1\<rparr>)" "ninv m" by auto
  then have "trace_step ops s = Some (Inr (?s\<lparr>tr_model := m, curr_clk := curr_clk s + 1\<rparr>))"
    using "0.prems" z by (simp add: trace_step_def trace_client_def)
  moreover have "?s\<lparr>tr_model := m, curr_clk := curr_clk s + 1\<rparr> = s\<lparr>tr_model := m, wait_idle_clk := False,
      idle_clk_injection := 0, curr_clk := curr_clk s + idle_clk_injection s + 1\<rparr>" using z by (cases s) simp
  ultimately show ?case using trace_loop_step [OF "0.prems"(2)] m(2) by (intro exI [of _ m]) simp
next
  case (Suc k)
  let ?i = "idle_clk_injection s"
  have i: "0 < ?i" using Suc.hyps(2) by (metis nat.distinct(1) unat_0 word_neq_0_conv)
  let ?s = "s\<lparr>idle_clk_injection := ?i - 1\<rparr>"
  from trace_tick_quiet [of ?s] Suc.prems obtain m where
    m: "trace_tick ops ?s = Inr (?s\<lparr>tr_model := m, curr_clk := curr_clk s + 1\<rparr>)" "ninv m" by auto
  let ?t = "?s\<lparr>tr_model := m, curr_clk := curr_clk s + 1\<rparr>"
  have "trace_step ops s = Some (Inr ?t)"
    using Suc.prems i m(1) by (simp add: trace_step_def trace_client_def)
  then have l: "trace_loop ops s = trace_loop ops ?t" by (rule trace_loop_step [OF Suc.prems(2)])
  have "unat (?i - 1) = unat ?i - 1" using i by (simp add: unat_sub_if' word_less_nat_alt)
  then have "k = unat (idle_clk_injection ?t)" using Suc.hyps(2) by simp
  from Suc.hyps(1) [OF this] Suc.prems m(2) obtain m' where
    "ninv m'" "trace_loop ops ?t = trace_loop ops (?t\<lparr>tr_model := m', wait_idle_clk := False,
      idle_clk_injection := 0, curr_clk := curr_clk ?t + idle_clk_injection ?t + 1\<rparr>)" by auto
  then show ?case using l by (intro exI [of _ m']) simp
qed

lemma loop_request:
  assumes "trace_ready ninv ((cs, q) # qs) trailer s" "trace_ok ((cs, q) # qs) trailer" "\<not> tr_critical q"
  shows "\<exists>s'. trace_loop ops s = trace_loop ops s' \<and> trace_ready ninv qs trailer s' \<and>
    curr_clk s' = curr_clk s + request_cost q \<and>
    cnt_read s' = cnt_read s + reads [q] \<and> cnt_write s' = cnt_write s + writes [q]"
proof -
  have e: "\<not> trace_end s" using assms(1) by (simp add: trace_ready_def)
  from step_request [OF assms(1,2)] obtain t where
    t: "trace_step ops s = Some (Inr t)" "\<not> trace_end t" "\<not> stall t" "critical_stall t = tr_critical q"
      "wait_idle_clk t = (tr_idle q \<noteq> clk_invalid)" "idle_clk_injection t = tr_idle q"
      "tr_file t = open_file (show_trace qs trailer)" "req_arrive (tr_req t) = 0" "ninv (tr_model t)"
      "curr_clk t = curr_clk s + 1" "cnt_read t = cnt_read s + reads [q]" "cnt_write t = cnt_write s + writes [q]"
    by blast
  note l = trace_loop_step [OF e t(1)]
  show ?thesis
  proof (cases "tr_idle q = clk_invalid")
    case True
    then show ?thesis using l t assms(3) by (intro exI [of _ t]) (simp add: trace_ready_def request_cost_def)
  next
    case False
    then obtain m where m: "ninv m" "trace_loop ops t = trace_loop ops (t\<lparr>tr_model := m, wait_idle_clk := False,
        idle_clk_injection := 0, curr_clk := curr_clk t + idle_clk_injection t + 1\<rparr>)"
      using loop_idle [of t] t by auto
    let ?t = "t\<lparr>tr_model := m, wait_idle_clk := False, idle_clk_injection := 0,
        curr_clk := curr_clk t + idle_clk_injection t + 1\<rparr>"
    have "trace_ready ninv qs trailer ?t" using t m(1) assms(3) by (simp add: trace_ready_def)
    moreover have "curr_clk ?t = curr_clk s + request_cost q" using t False by (simp add: request_cost_def)
    moreover have "trace_loop ops s = trace_loop ops ?t" using l m(2) by simp
    ultimately show ?thesis using t(11,12) by (intro exI [of _ ?t]) simp
  qed
qed

lemma loop_requests:
  assumes "trace_ready ninv qs trailer s" "trace_ok qs trailer" "list_all (\<lambda>(cs, q). \<not> tr_critical q) qs"
  shows "\<exists>s'. trace_loop ops s = Some (Inr s') \<and> ninv (tr_model s') \<and>
    last_trace_clk s' = curr_clk s + sum_list (map (\<lambda>x. request_cost (snd x)) qs) \<and> curr_clk s' = last_trace_clk s' + 1 \<and>
    cnt_read s' = cnt_read s + reads (map snd qs) \<and> cnt_write s' = cnt_write s + writes (map snd qs)"
  using assms
proof (induction qs arbitrary: s)
  case Nil
  have r: "\<not> stall s" "\<not> critical_stall s" "\<not> wait_idle_clk s" "\<not> trace_end s"
    "tr_file s = open_file (show_trace [] trailer)" "ninv (tr_model s)"
    using Nil.prems(1) by (simp_all add: trace_ready_def)
  from trace_fetch_end [OF r(1,2,5) Nil.prems(2)] obtain f where
    f: "trace_fetch s = Some (Inr (s\<lparr>tr_file := f, trace_end := True,
      wait_idle_clk := wait_idle_clk s \<or> idle_clk_injection s \<noteq> clk_invalid\<rparr>))" by blast
  let ?s = "s\<lparr>tr_file := f, trace_end := True,
      wait_idle_clk := wait_idle_clk s \<or> idle_clk_injection s \<noteq> clk_invalid, last_trace_clk := curr_clk s\<rparr>"
  from trace_tick_quiet [of ?s] r(6) obtain m where
    m: "trace_tick ops ?s = Inr (?s\<lparr>tr_model := m, curr_clk := curr_clk s + 1\<rparr>)" "ninv m" by auto
  let ?t = "?s\<lparr>tr_model := m, curr_clk := curr_clk s + 1\<rparr>"
  have "trace_step ops s = Some (Inr ?t)" using r f m(1) by (simp add: trace_step_def trace_client_def)
  then have "trace_loop ops s = Some (Inr ?t)" using trace_loop_step [OF r(4)] trace_loop_end [of ?t] by simp
  then show ?case using m(2) by (intro exI [of _ ?t]) (simp add: reads_def writes_def)
next
  case (Cons x qs)
  obtain cs q where x: "x = (cs, q)" by (cases x)
  from loop_request [of cs q qs trailer s] Cons.prems x obtain s1 where
    s1: "trace_loop ops s = trace_loop ops s1" "trace_ready ninv qs trailer s1" "curr_clk s1 = curr_clk s + request_cost q"
      "cnt_read s1 = cnt_read s + reads [q]" "cnt_write s1 = cnt_write s + writes [q]" by auto
  from Cons.IH [OF s1(2)] Cons.prems(2,3) x obtain s2 where
    s2: "trace_loop ops s1 = Some (Inr s2)" "ninv (tr_model s2)"
      "last_trace_clk s2 = curr_clk s1 + sum_list (map (\<lambda>x. request_cost (snd x)) qs)" "curr_clk s2 = last_trace_clk s2 + 1"
      "cnt_read s2 = cnt_read s1 + reads (map snd qs)" "cnt_write s2 = cnt_write s1 + writes (map snd qs)"
    by (auto simp: trace_ok_cons)
  then show ?case using s1 x by (intro exI [of _ s2]) (simp add: reads_def writes_def)
qed

lemma new_trace_ready: "ninv m \<Longrightarrow> trace_ready ninv qs trailer (new_trace_state (open_file (show_trace qs trailer)) m cb)"
  by (simp add: trace_ready_def new_trace_state_def)

lemma simulate_requests:
  assumes "ninv m" "trace_ok qs trailer" "list_all (\<lambda>(cs, q). \<not> tr_critical q) qs"
  shows "\<exists>s. simulate ops (new_trace_state (open_file (show_trace qs trailer)) m cb) = Some (Inr s) \<and>
    last_trace_clk s = sum_list (map (\<lambda>x. request_cost (snd x)) qs) \<and> curr_clk s = last_trace_clk s + 1 \<and>
    cnt_read s = reads (map snd qs) \<and> cnt_write s = writes (map snd qs)"
proof -
  let ?s = "new_trace_state (open_file (show_trace qs trailer)) m cb"
  from loop_requests [OF new_trace_ready [OF assms(1)] assms(2,3), of cb] obtain s where
    s: "trace_loop ops ?s = Some (Inr s)" "ninv (tr_model s)"
      "last_trace_clk s = curr_clk ?s + sum_list (map (\<lambda>x. request_cost (snd x)) qs)" "curr_clk s = last_trace_clk s + 1"
      "cnt_read s = cnt_read ?s + reads (map snd qs)" "cnt_write s = cnt_write ?s + writes (map snd qs)" by blast
  from drains [OF s(2)] obtain n where n: "drain ops (tr_model s) = Inr n" "ninv n" by blast
  have "drain_loop ops (s\<lparr>tr_model := n\<rparr>) = Some (Inr (s\<lparr>tr_model := n\<rparr>))"
    by (subst drain_loop.simps) (simp add: never_pending [OF n(2)])
  then show ?thesis using s n by (intro exI [of _ "s\<lparr>tr_model := n\<rparr>"]) (simp add: simulate_def new_trace_state_def)
qed

text \<open>A critical read of such a memory is never called back, and the loop waits for it for ever.\<close>

lemma critical_stuck:
  assumes "critical_stall s" "\<not> trace_end s" "ninv (tr_model s)"
  shows "trace_loop ops s = None"
proof (rule trace_loop_diverges [of "\<lambda>s. critical_stall s \<and> \<not> trace_end s \<and> ninv (tr_model s)"])
  show "critical_stall s \<and> \<not> trace_end s \<and> ninv (tr_model s)" using assms by simp
  fix s :: "'n trace_state"
  assume p: "critical_stall s \<and> \<not> trace_end s \<and> ninv (tr_model s)"
  have "\<exists>s1. trace_client ops s = Some (Inr s1) \<and> critical_stall s1 \<and> \<not> trace_end s1 \<and> ninv (tr_model s1)"
    using p by (auto simp: trace_client_def trace_fetch_def trace_issue_def Let_def)
  then obtain s1 where s1: "trace_client ops s = Some (Inr s1)" "critical_stall s1" "\<not> trace_end s1" "ninv (tr_model s1)"
    by blast
  from trace_tick_quiet [OF s1(4)] obtain m where
    "trace_tick ops s1 = Inr (s1\<lparr>tr_model := m, curr_clk := curr_clk s1 + 1\<rparr>)" "ninv m" by blast
  then show "\<not> trace_end s \<and> (\<exists>s'. trace_step ops s = Some (Inr s') \<and>
      critical_stall s' \<and> \<not> trace_end s' \<and> ninv (tr_model s'))"
    using s1 p by (auto simp: trace_step_def)
qed

lemma loop_critical:
  assumes "trace_ready ninv qs trailer s" "trace_ok qs trailer" "\<exists>(cs, q) \<in> set qs. tr_critical q"
  shows "trace_loop ops s = None"
  using assms
proof (induction qs arbitrary: s)
  case (Cons x qs)
  obtain cs q where x: "x = (cs, q)" by (cases x)
  show ?case
  proof (cases "tr_critical q")
    case True
    from step_request [of cs q qs trailer s] Cons.prems(1,2) x obtain t where
      t: "trace_step ops s = Some (Inr t)" "\<not> trace_end t" "critical_stall t = tr_critical q" "ninv (tr_model t)" by blast
    have "\<not> trace_end s" using Cons.prems(1) by (simp add: trace_ready_def)
    from trace_loop_step [OF this t(1)] show ?thesis using critical_stuck [of t] t True by simp
  next
    case False
    from loop_request [of cs q qs trailer s] Cons.prems(1,2) x False obtain s1 where
      "trace_loop ops s = trace_loop ops s1" "trace_ready ninv qs trailer s1" by blast
    then show ?thesis using Cons.IH [of s1] Cons.prems(2,3) x False by (auto simp: trace_ok_cons)
  qed
qed simp

lemma simulate_critical:
  assumes "ninv m" "trace_ok qs trailer" "\<exists>(cs, q) \<in> set qs. tr_critical q"
  shows "simulate ops (new_trace_state (open_file (show_trace qs trailer)) m cb) = None"
  using loop_critical [OF new_trace_ready [OF assms(1)] assms(2,3)] by (simp add: simulate_def)

end

interpretation static_instant: instant_memory static_memory_ops "\<lambda>c. True"
proof
  show "\<exists>n' clk. issue_request static_memory_ops n r = Inr (n', r, True, True, clk) \<and> True"
    if "req_arrive r = 0" for n r
    using that by (cases "req_type r") (simp_all add: static_memory_ops_def static_issue_request_def clk_invalid_def)
qed (simp_all add: static_memory_ops_def static_tick_def static_pending_def static_drain_def)

end
