(* ===== verification/Machine.thy ===== *)
theory Machine
  imports Trace_Run Imc Systems Nvdimm
begin

text \<open>
  The trace runner over the machines that the factory builds: a root memory controller over
  integrated memory controllers over any level. The contract \<open>failing_root\<close> says what the main loop
  relies on: under it every run accepts the requests of the trace in their order and fails with nothing but the
  one exception of the ticks; under \<open>simulated_root\<close>, whose ticks never fail, no run does.
\<close>

section \<open>The virtual methods of the integrated memory controller\<close>

definition imc_ops :: "'n component_ops \<Rightarrow> 'n imc_controller component_ops" where
  "imc_ops ops =
     \<lparr>issue_request = imc_issue_request, full = imc_full,
      is_pending = mc_pending ops (\<lambda>c. Inr (imc_pending_current c)),
      drain = mc_drain ops Inr,
      tick = (\<lambda>clk c. case imc_tick ops clk c of None \<Rightarrow> Inl No_return | Some r \<Rightarrow> r)\<rparr>"

section \<open>Any root of a simulated system\<close>

locale simulated_root =
  fixes ops :: "'n component_ops" and rinv :: "'n \<Rightarrow> bool" and addr_ok :: "addr_t \<Rightarrow> bool"
  assumes root_issue: "rinv n \<Longrightarrow> addr_ok (req_addr r) \<Longrightarrow> small_clk (req_arrive r) \<Longrightarrow>
      ensures (issue_request ops n r) (\<lambda>(n', r', issued, deterministic, next_clk).
        rinv n' \<and> req_arrive r' = req_arrive r \<and> \<not> deterministic)"
    and root_tick: "rinv n \<Longrightarrow> small_clk clk \<Longrightarrow> ensures (tick ops clk n) (\<lambda>(n', calls). rinv n')"

text \<open>The same for a root whose ticks may end in one exception.\<close>

locale failing_root =
  fixes ops :: "'n component_ops" and rinv :: "'n \<Rightarrow> bool" and addr_ok :: "addr_t \<Rightarrow> bool" and failure :: vans_error
  assumes failing_issue: "rinv n \<Longrightarrow> addr_ok (req_addr r) \<Longrightarrow> small_clk (req_arrive r) \<Longrightarrow>
      ensures (issue_request ops n r) (\<lambda>(n', r', issued, deterministic, next_clk).
        rinv n' \<and> req_arrive r' = req_arrive r \<and> \<not> deterministic)"
    and failing_tick: "rinv n \<Longrightarrow> small_clk clk \<Longrightarrow>
      tick ops clk n = Inl failure \<or> ensures (tick ops clk n) (\<lambda>(n', calls). rinv n')"

sublocale simulated_root \<subseteq> failing_root ops rinv addr_ok failure for failure
  using root_issue root_tick by unfold_locales blast+

text \<open>\<open>k\<close> iterations of the main loop, fewer when it ends.\<close>

fun trace_iterate :: "nat \<Rightarrow> 'n component_ops \<Rightarrow> 'n trace_state \<Rightarrow> (vans_error + 'n trace_state) option" where
  "trace_iterate 0 ops s = Some (Inr s)"
| "trace_iterate (Suc k) ops s =
     (if trace_end s then Some (Inr s)
      else case trace_step ops s of
          None \<Rightarrow> None
        | Some (Inl e) \<Rightarrow> Some (Inl e)
        | Some (Inr s) \<Rightarrow> trace_iterate k ops s)"

text \<open>The model has gone through a run of requests and ticks in which it accepted the given requests.\<close>

definition has_accepted :: "'n component_ops \<Rightarrow> 'n \<Rightarrow> 'n \<Rightarrow> trace_request list \<Rightarrow> bool" where
  "has_accepted ops m n qs \<longleftrightarrow>
     (\<exists>evs accepted calls. component_run ops evs m = Inr (n, accepted, calls) \<and>
        map (\<lambda>r. (req_addr r, req_type r)) accepted = map (\<lambda>q. (tr_addr q, tr_type q)) qs)"

lemma component_run_append:
  "component_run ops (evs @ evs') n =
   ebind (component_run ops evs n) (\<lambda>(n, accepted, calls).
   ebind (component_run ops evs' n) (\<lambda>(n, accepted', calls'). Inr (n, accepted @ accepted', calls @ calls')))"
proof (induction evs arbitrary: n)
  case Nil
  show ?case by (cases "component_run ops evs' n") auto
next
  case (Cons ev evs)
  show ?case
  proof (cases ev)
    case (Ev_issue r)
    show ?thesis
    proof (cases "issue_request ops n r")
      case (Inr x)
      obtain m r' i d c where x: "x = (m, r', i, d, c)" by (cases x) auto
      show ?thesis
      proof (cases "component_run ops evs m")
        case r: (Inr y)
        obtain n1 acc cs where y: "y = (n1, acc, cs)" by (cases y) auto
        show ?thesis
          by (cases "component_run ops evs' n1") (auto simp: Ev_issue Inr x r y Cons.IH)
      qed (simp add: Ev_issue Inr x Cons.IH)
    qed (simp add: Ev_issue)
  next
    case (Ev_tick clk)
    show ?thesis
    proof (cases "tick ops clk n")
      case (Inr x)
      obtain m cs where x: "x = (m, cs)" by (cases x)
      show ?thesis
      proof (cases "component_run ops evs m")
        case r: (Inr y)
        obtain n1 acc cs' where y: "y = (n1, acc, cs')" by (cases y) auto
        show ?thesis
          by (cases "component_run ops evs' n1") (auto simp: Ev_tick Inr x r y Cons.IH)
      qed (simp add: Ev_tick Inr x Cons.IH)
    qed (simp add: Ev_tick)
  qed
qed

lemma has_accepted_start: "has_accepted ops m m []"
  unfolding has_accepted_def by (rule exI [of _ "[]"]) simp

lemma has_accepted_tick:
  assumes "has_accepted ops m n qs" "tick ops clk n = Inr (n', calls)"
  shows "has_accepted ops m n' qs"
proof -
  from assms(1) obtain evs accepted cs where r: "component_run ops evs m = Inr (n, accepted, cs)"
      "map (\<lambda>r. (req_addr r, req_type r)) accepted = map (\<lambda>q. (tr_addr q, tr_type q)) qs"
    by (auto simp: has_accepted_def)
  have "component_run ops (evs @ [Ev_tick clk]) m = Inr (n', accepted, cs @ calls)"
    using r(1) assms(2) by (simp add: component_run_append)
  then show ?thesis using r(2) unfolding has_accepted_def by blast
qed

lemma has_accepted_issue:
  assumes "has_accepted ops m n qs" "issue_request ops n r = Inr (n', r', issued, False, clk)"
    and "req_addr r = tr_addr q" "req_type r = tr_type q"
  shows "has_accepted ops m n' (qs @ (if issued then [q] else []))"
proof -
  from assms(1) obtain evs accepted cs where r: "component_run ops evs m = Inr (n, accepted, cs)"
      "map (\<lambda>r. (req_addr r, req_type r)) accepted = map (\<lambda>q. (tr_addr q, tr_type q)) qs"
    by (auto simp: has_accepted_def)
  have "component_run ops (evs @ [Ev_issue r]) m = Inr (n', accepted @ (if issued then [r] else []), cs)"
    using r(1) assms(2) by (simp add: component_run_append)
  then show ?thesis using r(2) assms(3,4) unfolding has_accepted_def
    by (intro exI [of _ "evs @ [Ev_issue r]"] exI [of _ "accepted @ (if issued then [r] else [])"] exI [of _ cs]) auto
qed

section \<open>The invariant of the main loop\<close>

text \<open>\<open>n\<close> requests have been accepted; a stalled loop holds the next one.\<close>

definition trace_inv ::
  "'n component_ops \<Rightarrow> ('n \<Rightarrow> bool) \<Rightarrow> 'n \<Rightarrow> (string list \<times> trace_request) list \<Rightarrow> string list \<Rightarrow> nat \<Rightarrow> 'n trace_state \<Rightarrow> bool" where
  "trace_inv ops rinv m qs trailer n s \<longleftrightarrow>
     n \<le> length qs \<and> rinv (tr_model s) \<and> req_arrive (tr_req s) = 0 \<and>
     has_accepted ops m (tr_model s) (take n (map snd qs)) \<and>
     cnt_read s = reads (take n (map snd qs)) \<and> cnt_write s = writes (take n (map snd qs)) \<and>
     (if trace_end s then n = length qs
      else if stall s then n < length qs \<and> cur s = snd (qs ! n) \<and> tr_file s = open_file (show_trace (drop (Suc n) qs) trailer)
      else tr_file s = open_file (show_trace (drop n qs) trailer))"

lemma fold_trace_callback:
  "\<exists>c t. fold trace_callback calls s = s\<lparr>critical_stall := c, tail_latency_cnt := t\<rparr>"
proof (induction calls arbitrary: s)
  case Nil
  show ?case by (intro exI [of _ "critical_stall s"] exI [of _ "tail_latency_cnt s"]) (cases s, simp)
next
  case (Cons x calls)
  obtain cb a t where x: "x = (cb, a, t)" by (cases x)
  obtain c' t' where o: "trace_callback x s = s\<lparr>critical_stall := c', tail_latency_cnt := t'\<rparr>"
  proof (cases "cb = critical_read_callback")
    case True
    then have "trace_callback x s = s\<lparr>critical_stall := False, tail_latency_cnt := tail_latency_cnt s\<rparr>"
      using x by (cases s) simp
    then show ?thesis by (rule that)
  next
    case False
    show ?thesis
    proof (cases "cb = tail_latency_callback")
      case True
      then have "trace_callback x s = s\<lparr>critical_stall := critical_stall s, tail_latency_cnt := tail_latency_cnt s + 1\<rparr>"
        using False x by (cases s) simp
      then show ?thesis by (rule that)
    next
      case F: False
      then have "trace_callback x s = s\<lparr>critical_stall := critical_stall s, tail_latency_cnt := tail_latency_cnt s\<rparr>"
        using False x by (cases s) simp
      then show ?thesis by (rule that)
    qed
  qed
  from Cons [of "trace_callback x s"] o show ?case by auto
qed

lemma trace_inv_callbacks:
  "trace_inv ops rinv m qs trailer n (s\<lparr>critical_stall := c, tail_latency_cnt := t, curr_clk := k\<rparr>) =
   trace_inv ops rinv m qs trailer n s"
  by (simp add: trace_inv_def)

lemma take_snoc_request: "n < length qs \<Longrightarrow> take (Suc n) (map snd qs) = take n (map snd qs) @ [snd (qs ! n)]"
  by (simp add: take_Suc_conv_app_nth)

lemma reads_snoc: "reads (qs @ [q]) = reads qs + (if tr_type q = Base_read then 1 else 0)"
  by (simp add: reads_def)

lemma writes_snoc: "writes (qs @ [q]) = writes qs + (if tr_type q = Base_write then 1 else 0)"
  by (simp add: writes_def)

lemma new_trace_inv: "rinv m \<Longrightarrow> trace_inv ops rinv m qs trailer 0 (new_trace_state (open_file (show_trace qs trailer)) m cb)"
  by (simp add: trace_inv_def new_trace_state_def has_accepted_start reads_def writes_def)

context failing_root
begin

lemma tick_keeps_inv:
  assumes "trace_inv ops rinv m qs trailer n s" "small_clk (curr_clk s)" "trace_tick ops s \<noteq> Inl failure"
  shows "\<exists>s'. trace_tick ops s = Inr s' \<and> trace_inv ops rinv m qs trailer n s' \<and> curr_clk s' = curr_clk s + 1"
proof -
  have i: "rinv (tr_model s)" using assms(1) by (simp add: trace_inv_def)
  have "tick ops (curr_clk s) (tr_model s) \<noteq> Inl failure" using assms(3) by (auto simp: trace_tick_def)
  with failing_tick [OF i assms(2)] obtain n' calls where
    t: "tick ops (curr_clk s) (tr_model s) = Inr (n', calls)" "rinv n'" by (auto simp: ensures_iff)
  have "has_accepted ops m n' (take n (map snd qs))"
    using has_accepted_tick [OF _ t(1)] assms(1) by (simp add: trace_inv_def)
  then have "trace_inv ops rinv m qs trailer n (s\<lparr>tr_model := n'\<rparr>)" using assms(1) t(2) by (simp add: trace_inv_def)
  moreover obtain c k where f: "fold trace_callback calls (s\<lparr>tr_model := n'\<rparr>) =
      s\<lparr>tr_model := n', critical_stall := c, tail_latency_cnt := k\<rparr>"
    using fold_trace_callback [of calls "s\<lparr>tr_model := n'\<rparr>"] by auto
  ultimately show ?thesis using t(1) trace_inv_callbacks [where s = "s\<lparr>tr_model := n'\<rparr>" and c = c and t = k and k = "curr_clk s + 1"]
    by (simp add: trace_tick_def Let_def)
qed

lemma issue_keeps_inv:
  assumes "n < length qs" "cur s = snd (qs ! n)" "tr_file s = open_file (show_trace (drop (Suc n) qs) trailer)"
    and "\<not> trace_end s" "\<not> critical_stall s" "rinv (tr_model s)" "req_arrive (tr_req s) = 0"
    and "has_accepted ops m (tr_model s) (take n (map snd qs))" "addr_ok (tr_addr (snd (qs ! n)))"
    and "cnt_read s = reads (take n (map snd qs))" "cnt_write s = writes (take n (map snd qs))"
  shows "\<exists>s' n'. trace_issue ops s = Inr s' \<and> trace_inv ops rinv m qs trailer n' s' \<and> curr_clk s' = curr_clk s"
proof -
  let ?q = "snd (qs ! n)"
  let ?cb = "if tr_critical ?q then critical_read_callback else tr_callback s"
  let ?req = "(tr_req s)\<lparr>req_addr := tr_addr ?q, req_type := tr_type ?q, req_callback := ?cb\<rparr>"
  have "addr_ok (req_addr ?req)" "small_clk (req_arrive ?req)" using assms(7,9) by (simp_all add: small_clk_def)
  from failing_issue [OF assms(6) this] obtain n' r' issued clk where
    i: "issue_request ops (tr_model s) ?req = Inr (n', r', issued, False, clk)" "rinv n'" "req_arrive r' = 0"
    using assms(7) by (auto simp: ensures_iff)
  have a: "has_accepted ops m n' (take n (map snd qs) @ (if issued then [?q] else []))"
    by (rule has_accepted_issue [OF assms(8) i(1)]) simp_all
  let ?t = "s\<lparr>tr_model := n', tr_req := r', stall := \<not> issued\<rparr>"
  let ?t' = "?t\<lparr>cnt_read := cnt_read s + (if tr_type ?q = Base_read then 1 else 0),
      cnt_write := cnt_write s + (if tr_type ?q = Base_write then 1 else 0), critical_stall := tr_critical ?q\<rparr>"
  have e: "trace_issue ops s = Inr (if issued then ?t' else ?t)"
    using i(1) assms(2,5) by (cases issued) (simp_all add: trace_issue_def Let_def split del: if_split)
  show ?thesis
  proof (cases issued)
    case True
    have "trace_inv ops rinv m qs trailer (Suc n) ?t'"
      using assms(1-4,10,11) i(2,3) a True
      by (simp add: trace_inv_def take_snoc_request reads_snoc writes_snoc split del: if_split)
    moreover have "trace_issue ops s = Inr ?t'" using e True by (simp split del: if_split)
    ultimately show ?thesis by (intro exI [of _ ?t'] exI [of _ "Suc n"]) simp
  next
    case False
    have "trace_inv ops rinv m qs trailer n ?t" using assms(1-4,10,11) i(2,3) a False by (simp add: trace_inv_def)
    then show ?thesis using e False by (intro exI [of _ ?t] exI [of _ n]) simp
  qed
qed

lemma fetch_keeps_inv:
  assumes "trace_inv ops rinv m qs trailer n s" "trace_ok qs trailer" "\<not> trace_end s" "\<not> stall s" "\<not> critical_stall s"
  shows "\<exists>s'. trace_fetch s = Some (Inr s') \<and>
    (if n = length qs then trace_end s' \<and> trace_inv ops rinv m qs trailer n s'
     else \<not> trace_end s' \<and> cur s' = snd (qs ! n) \<and> tr_file s' = open_file (show_trace (drop (Suc n) qs) trailer) \<and>
       \<not> critical_stall s' \<and> tr_model s' = tr_model s \<and> tr_req s' = tr_req s \<and> cnt_read s' = cnt_read s \<and>
       cnt_write s' = cnt_write s) \<and> curr_clk s' = curr_clk s"
proof (cases "n = length qs")
  case True
  then have "tr_file s = open_file (show_trace [] trailer)" "trace_ok [] trailer"
    using assms by (simp_all add: trace_inv_def trace_ok_def)
  from trace_fetch_end [OF assms(4,5) this] obtain f where
    "trace_fetch s = Some (Inr (s\<lparr>tr_file := f, trace_end := True,
      wait_idle_clk := wait_idle_clk s \<or> idle_clk_injection s \<noteq> clk_invalid\<rparr>))" by blast
  then show ?thesis using True assms(1) by (simp add: trace_inv_def)
next
  case False
  then have n: "n < length qs" using assms(1) by (simp add: trace_inv_def)
  obtain cs q where q: "qs ! n = (cs, q)" by (cases "qs ! n")
  have d: "drop n qs = (cs, q) # drop (Suc n) qs" using n q by (simp add: Cons_nth_drop_Suc [symmetric])
  have "tr_file s = open_file (show_trace ((cs, q) # drop (Suc n) qs) trailer)"
    using assms d by (simp add: trace_inv_def)
  moreover have "trace_ok ((cs, q) # drop (Suc n) qs) trailer"
    using assms(2) set_drop_subset [of n qs] unfolding d [symmetric] trace_ok_def list_all_iff by blast
  ultimately show ?thesis
    using trace_fetch_request [OF assms(4,5)] False q assms(3,5) by simp
qed

lemma client_keeps_inv:
  assumes "trace_inv ops rinv m qs trailer n s" "trace_ok qs trailer" "\<not> trace_end s"
    and "\<forall>(cs, q) \<in> set qs. addr_ok (tr_addr q)"
  shows "\<exists>s' n'. trace_client ops s = Some (Inr s') \<and> trace_inv ops rinv m qs trailer n' s' \<and> curr_clk s' = curr_clk s"
proof (cases "wait_idle_clk s")
  case True
  have "trace_inv ops rinv m qs trailer n (s\<lparr>idle_clk_injection := i\<rparr>)"
    "trace_inv ops rinv m qs trailer n (s\<lparr>wait_idle_clk := b\<rparr>)" for i b
    using assms(1) by (simp_all add: trace_inv_def)
  then show ?thesis using True by (auto simp: trace_client_def)
next
  case w: False
  have a: "addr_ok (tr_addr (snd (qs ! n)))" if "n < length qs"
    using assms(4) that by (metis (mono_tags, lifting) case_prod_beta nth_mem)
  note i = assms(1) [unfolded trace_inv_def]
  consider (fetch) "\<not> stall s" "\<not> critical_stall s" | (hold) "critical_stall s" | (retry) "stall s" "\<not> critical_stall s"
    by blast
  then show ?thesis
  proof cases
    case hold
    let ?t = "s\<lparr>tr_req := (tr_req s)\<lparr>req_addr := tr_addr (cur s), req_type := tr_type (cur s),
      req_callback := (if tr_critical (cur s) then critical_read_callback else tr_callback s)\<rparr>\<rparr>"
    have "trace_client ops s = Some (Inr ?t)" using w hold assms(3)
      by (simp add: trace_client_def trace_fetch_def trace_issue_def Let_def)
    moreover have "trace_inv ops rinv m qs trailer n ?t" using assms(1) by (simp add: trace_inv_def)
    ultimately show ?thesis by (intro exI [of _ ?t] exI [of _ n]) simp
  next
    case retry
    then have "trace_client ops s = Some (trace_issue ops s)"
      using w assms(3) by (simp add: trace_client_def trace_fetch_def)
    moreover have "n < length qs" "cur s = snd (qs ! n)" "tr_file s = open_file (show_trace (drop (Suc n) qs) trailer)"
      using i retry assms(3) by simp_all
    ultimately show ?thesis
      using issue_keeps_inv [of n qs s trailer m] i retry assms(3) a by auto
  next
    case fetch
    from fetch_keeps_inv [OF assms(1-3) fetch] obtain t where
      t: "trace_fetch s = Some (Inr t)" "curr_clk t = curr_clk s"
        "if n = length qs then trace_end t \<and> trace_inv ops rinv m qs trailer n t
         else \<not> trace_end t \<and> cur t = snd (qs ! n) \<and> tr_file t = open_file (show_trace (drop (Suc n) qs) trailer) \<and>
           \<not> critical_stall t \<and> tr_model t = tr_model s \<and> tr_req t = tr_req s \<and> cnt_read t = cnt_read s \<and>
           cnt_write t = cnt_write s" by blast
    show ?thesis
    proof (cases "n = length qs")
      case True
      then have "trace_client ops s = Some (Inr (t\<lparr>last_trace_clk := curr_clk t\<rparr>))"
        using t w by (simp add: trace_client_def)
      moreover have "trace_inv ops rinv m qs trailer n (t\<lparr>last_trace_clk := curr_clk t\<rparr>)"
        using t True by (simp add: trace_inv_def)
      ultimately show ?thesis using t(2) by (intro exI [of _ "t\<lparr>last_trace_clk := curr_clk t\<rparr>"] exI [of _ n]) simp
    next
      case False
      then have n: "n < length qs" using i by simp
      have "trace_client ops s = Some (trace_issue ops t)" using t w False by (simp add: trace_client_def)
      moreover have "\<exists>s' n'. trace_issue ops t = Inr s' \<and> trace_inv ops rinv m qs trailer n' s' \<and> curr_clk s' = curr_clk t"
        by (rule issue_keeps_inv [OF n]) (use t(3) False i a [OF n] in simp_all)
      ultimately show ?thesis using t(2) by auto
    qed
  qed
qed

lemma step_keeps_inv:
  assumes "trace_inv ops rinv m qs trailer n s" "trace_ok qs trailer" "\<not> trace_end s"
    and "\<forall>(cs, q) \<in> set qs. addr_ok (tr_addr q)" "small_clk (curr_clk s)" "trace_step ops s \<noteq> Some (Inl failure)"
  shows "\<exists>s' n'. trace_step ops s = Some (Inr s') \<and> trace_inv ops rinv m qs trailer n' s' \<and> curr_clk s' = curr_clk s + 1"
proof -
  from client_keeps_inv [OF assms(1-4)] obtain t n' where
    t: "trace_client ops s = Some (Inr t)" "trace_inv ops rinv m qs trailer n' t" "curr_clk t = curr_clk s" by blast
  have "small_clk (curr_clk t)" "trace_tick ops t \<noteq> Inl failure"
    using t(1,3) assms(5,6) by (auto simp: trace_step_def)
  from tick_keeps_inv [OF t(2) this] obtain s' where
    "trace_tick ops t = Inr s'" "trace_inv ops rinv m qs trailer n' s'" "curr_clk s' = curr_clk t + 1" by blast
  then show ?thesis using t(1,3) by (auto simp: trace_step_def)
qed

lemma iterate_or_fails:
  assumes "trace_inv ops rinv m qs trailer n s" "trace_ok qs trailer"
    and "\<forall>(cs, q) \<in> set qs. addr_ok (tr_addr q)" "unat (curr_clk s) + k \<le> 2 ^ 62"
  shows "trace_iterate k ops s = Some (Inl failure) \<or>
    (\<exists>s' n'. trace_iterate k ops s = Some (Inr s') \<and> trace_inv ops rinv m qs trailer n' s')"
  using assms(1,4)
proof (induction k arbitrary: n s)
  case (Suc k)
  show ?case
  proof (cases "trace_end s \<or> trace_step ops s = Some (Inl failure)")
    case True
    then show ?thesis using Suc.prems(1) by auto
  next
    case False
    then have e: "\<not> trace_end s" "trace_step ops s \<noteq> Some (Inl failure)" by simp_all
    have c: "small_clk (curr_clk s)" using Suc.prems(2) by (simp add: small_clk_def)
    from step_keeps_inv [OF Suc.prems(1) assms(2) e(1) assms(3) c e(2)] obtain t n' where
      t: "trace_step ops s = Some (Inr t)" "trace_inv ops rinv m qs trailer n' t" "curr_clk t = curr_clk s + 1" by blast
    have "unat (curr_clk t) = Suc (unat (curr_clk s))"
      using Suc.prems(2) t(3) by (simp add: unat_word_ariths)
    then show ?thesis using Suc.IH [OF t(2)] t(1) e(1) Suc.prems(2) by simp
  qed
qed auto

end

context simulated_root
begin

lemma iterate_keeps_inv:
  assumes "trace_inv ops rinv m qs trailer n s" "trace_ok qs trailer"
    and "\<forall>(cs, q) \<in> set qs. addr_ok (tr_addr q)" "unat (curr_clk s) + k \<le> 2 ^ 62"
  shows "\<exists>s' n'. trace_iterate k ops s = Some (Inr s') \<and> trace_inv ops rinv m qs trailer n' s'"
  using iterate_or_fails [OF assms, of Out_of_range] iterate_or_fails [OF assms, of Invalid_argument] by auto

end

section \<open>Roots\<close>

context ticking_level
begin

lemma imc_root: "simulated_root (imc_ops ops) (imc_inv ninv) (\<lambda>a. True)"
proof
  fix n :: "'a imc_controller" and r :: base_request and clk
  assume i: "imc_inv ninv n"
  then have wf: "rq_wf (wpq n)" "rq_wf (rpq n)" by (simp_all add: imc_inv_def)
  show "ensures (tick (imc_ops ops) clk n) (\<lambda>(n', calls). imc_inv ninv n')" if "small_clk clk"
    using imc_tick_ok [OF i that] by (auto simp: imc_ops_def)
  assume r: "small_clk (req_arrive r)"
  show "ensures (issue_request (imc_ops ops) n r) (\<lambda>(n', r', issued, deterministic, next_clk).
      imc_inv ninv n' \<and> req_arrive r' = req_arrive r \<and> \<not> deterministic)"
  proof (cases "req_type r")
    case Base_read
    then show ?thesis using rq.enq_ensures [OF wf(2), of r] i r
      by (auto simp: imc_ops_def imc_issue_request_def ensures_iff imc_inv_def mapping_ok_def split: if_splits)
  next
    case Base_write
    then show ?thesis using rq.enq_ensures [OF wf(1), of r] i r
      by (auto simp: imc_ops_def imc_issue_request_def ensures_iff imc_inv_def mapping_ok_def split: if_splits)
  qed
qed

end

definition rmc_inv :: "('n \<Rightarrow> bool) \<Rightarrow> addr_t \<Rightarrow> 'n rmc_controller \<Rightarrow> bool" where
  "rmc_inv ninv start c \<longleftrightarrow> routing_inv ninv c \<and> rmc_start_addr c = Some start"

lemma rmc_inv_next:
  "rmc_inv ninv start c \<Longrightarrow> length ns = length (next_level_components c) \<Longrightarrow> \<forall>n \<in> set ns. ninv n \<Longrightarrow>
   rmc_inv ninv start (c\<lparr>next_level_components := ns\<rparr>)"
  using routing_inv_next [of ninv c ns] by (simp add: rmc_inv_def)

context simulated_root
begin

lemma tick_list_root:
  assumes "\<forall>n \<in> set ns. rinv n" "small_clk clk"
  shows "ensures (tick_list ops clk ns) (\<lambda>(ns', calls). length ns' = length ns \<and> (\<forall>n \<in> set ns'. rinv n))"
  using assms(1)
proof (induction ns)
  case (Cons n ns)
  obtain n' cs where "tick ops clk n = Inr (n', cs)" "rinv n'"
    using root_tick [of n clk] Cons.prems assms(2) by (auto simp: ensures_iff)
  moreover obtain ns' cs' where "tick_list ops clk ns = Inr (ns', cs')" "length ns' = length ns" "\<forall>n \<in> set ns'. rinv n"
    using Cons by (auto simp: ensures_iff)
  ultimately show ?case by simp
qed simp

lemma rmc_root:
  assumes "\<And>a. addr_ok a"
  shows "simulated_root (rmc_ops ops) (rmc_inv rinv start) (\<lambda>a. start \<le> a)"
proof
  fix n :: "'n rmc_controller" and r :: base_request and clk
  assume i: "rmc_inv rinv start n"
  then have ns: "\<forall>m \<in> set (next_level_components n). rinv m" "mapping_ok n" "rmc_start_addr n = Some start"
    by (simp_all add: rmc_inv_def routing_inv_def)
  show "ensures (tick (rmc_ops ops) clk n) (\<lambda>(n', calls). rmc_inv rinv start n')" if "small_clk clk"
    using tick_list_root [OF ns(1) that] rmc_inv_next [OF i]
    by (auto simp: rmc_ops_def routing_tick_def elim!: ensures_mono)
  assume a: "start \<le> req_addr r" and r: "small_clk (req_arrive r)"
  from ns(2) obtain a' j where g: "get_next_level (req_addr r - start) n = Inr (a', j)" "j < length (next_level_components n)"
    by (rule get_next_level_ok)
  let ?r = "r\<lparr>req_addr := a'\<rparr>"
  have "rinv (next_level_components n ! j)" using ns(1) g(2) by simp
  from root_issue [OF this assms, of ?r] r obtain m r' iss clk' where
    m: "issue_request ops (next_level_components n ! j) ?r = Inr (m, r', iss, False, clk')" "rinv m"
      "req_arrive r' = req_arrive r" by (auto simp: ensures_iff)
  have "\<forall>x \<in> set ((next_level_components n)[j := m]). rinv x"
    using ns(1) m(2) set_update_subset_insert [of "next_level_components n" j m] by auto
  then have "rmc_inv rinv start (n\<lparr>next_level_components := (next_level_components n)[j := m]\<rparr>)"
    using rmc_inv_next [OF i] by simp
  then show "ensures (issue_request (rmc_ops ops) n r) (\<lambda>(n', r', issued, deterministic, next_clk).
      rmc_inv rinv start n' \<and> req_arrive r' = req_arrive r \<and> \<not> deterministic)"
    using a g(1) m ns(3)
    by (simp add: rmc_ops_def rmc_issue_request_def route_request_def next_issue_def not_less)
qed

end

text \<open>The machine of the sample configurations: one RMC, IMCs, NVRAM systems, NVDIMMs.\<close>

definition nvram_machine :: "'m component_ops \<Rightarrow> 'm nvdimm nvram_system_controller imc_controller rmc_controller component_ops" where
  "nvram_machine mops = rmc_ops (imc_ops (nvram_ops (nvdimm_ops mops)))"

definition nvram_machine_inv ::
  "('m \<Rightarrow> bool) \<Rightarrow> ('m \<Rightarrow> (callback \<times> addr_t) multiset) \<Rightarrow> addr_t \<Rightarrow>
   'm nvdimm nvram_system_controller imc_controller rmc_controller \<Rightarrow> bool" where
  "nvram_machine_inv minv mowes start = rmc_inv (imc_inv (routing_inv (nvdimm_inv minv mowes))) start"

lemma nvram_machine_root:
  assumes "nvdimm_memory mops minv mowes"
  shows "simulated_root (nvram_machine mops) (nvram_machine_inv minv mowes start) (\<lambda>a. start \<le> a)"
  unfolding nvram_machine_def nvram_machine_inv_def
  by (rule simulated_root.rmc_root [OF ticking_level.imc_root [OF
      ticking_level.nvram_ticking_level [OF nvdimm_memory.nvdimm_ticking [OF assms]]]]) simp

interpretation static_machine: simulated_root "nvram_machine static_memory_ops"
    "nvram_machine_inv static_wf (\<lambda>n. {#}) 0" "\<lambda>a. 0 \<le> a"
  by (rule nvram_machine_root [OF nvdimm_static.nvdimm_memory_axioms])

end
