(* ===== verification/Held_Writes.thy ===== *)
theory Held_Writes
  imports Machine
begin

text \<open>
  Integrated memory controllers without ADR: nothing but a full write queue makes them issue writes. Nothing is
  assumed of the levels below them, not even that their calls return.
\<close>

section \<open>One controller\<close>

text \<open>The write queue is the same and there is still no ADR.\<close>

definition same_writes :: "'n imc_controller \<Rightarrow> 'n imc_controller \<Rightarrow> bool" where
  "same_writes c c' \<longleftrightarrow> wpq c' = wpq c \<and> adr_epoch c' = adr_epoch c"

lemma next_issue_same: "next_issue ops i r c = Inr (c', r', resp) \<Longrightarrow> \<exists>ns. c' = c\<lparr>next_level_components := ns\<rparr>"
  by (auto simp: next_issue_def ebind_eq_Inr)

lemma imc_tick_read_same: "imc_tick_read ops c = Inr c' \<Longrightarrow> same_writes c c'"
  by (auto simp: imc_tick_read_def same_writes_def ebind_eq_Inr Let_def split: list.split_asm if_split_asm dest!: next_issue_same)

lemma imc_tick_queue_same:
  assumes "imc_tick_queue ops c = Some (Inr (c', calls))" "length (queue (wpq c)) < max_entries (wpq c)"
  shows "same_writes c c'"
proof (cases "imc_queue_to_tick c")
  case Queue_read
  then show ?thesis using assms(1) by (auto simp: imc_tick_queue_def ebind_eq_Inr dest!: imc_tick_read_same)
qed (use assms in \<open>auto simp: imc_tick_queue_def rq_full_def same_writes_def split: if_splits\<close>)

lemma imc_tick_same:
  assumes "tick (imc_ops ops) clk c = Inr (c', calls)" "length (queue (wpq c)) < max_entries (wpq c)" "adr_epoch c = 0"
  shows "same_writes c c'"
proof -
  let ?c = "c\<lparr>imc_curr_clk := clk\<rparr>"
  obtain c1 out where c1: "imc_tick_ctrl ops clk c = Some (Inr (c1, out))" "same_writes c1 c'"
    using assms(1) by (auto simp: imc_ops_def imc_tick_def ebind_eq_Inr same_writes_def split: option.split_asm)
  then obtain c2 out2 where c2: "imc_tick_queue ops ?c = Some (Inr (c2, out2))"
      "(if rq_empty (wpq c2) then Some (Inr (c2, out2)) else imc_adr ops c2 out2) = Some (Inr (c1, out))"
    by (auto simp: imc_tick_ctrl_def split: option.split_asm sum.split_asm)
  have q: "same_writes ?c c2" using imc_tick_queue_same [OF c2(1)] assms(2) by simp
  then have "adr_epoch c2 = 0" using assms(3) by (simp add: same_writes_def)
  then have "c1 = c2" using c2(2) by (simp add: imc_adr_def imc_adr_due_def split: if_split_asm)
  then show ?thesis using q c1(2) by (simp add: same_writes_def)
qed

lemma imc_drain_same: "drain (imc_ops ops) c = Inr c' \<Longrightarrow> same_writes c c'"
  by (auto simp: imc_ops_def mc_drain_def ebind_eq_Inr same_writes_def split: if_split_asm)

lemma imc_issue_writes:
  "imc_issue_request c r = Inr (c', r', issued, deterministic, clk) \<Longrightarrow> \<not> deterministic \<and> adr_epoch c' = adr_epoch c \<and>
   wpq c' = (if issued \<and> req_type r = Base_write then (wpq c)\<lparr>queue := queue (wpq c) @ [r]\<rparr> else wpq c)"
  by (auto simp: imc_issue_request_def rq_enqueue_def ebind_eq_Inr split: base_request_type.split_asm if_split_asm)

section \<open>All controllers below the root\<close>

definition held_writes :: "'n imc_controller rmc_controller \<Rightarrow> nat" where
  "held_writes c = sum_list (map (\<lambda>i. length (queue (wpq i))) (next_level_components c))"

text \<open>No ADR, and too few writes to fill any of the queues.\<close>

definition no_flush :: "nat \<Rightarrow> 'n imc_controller rmc_controller \<Rightarrow> bool" where
  "no_flush w c \<longleftrightarrow> mapping_ok c \<and> held_writes c < w \<and>
     list_all (\<lambda>i. adr_epoch i = 0 \<and> w \<le> max_entries (wpq i)) (next_level_components c)"

lemma same_writes_keep:
  assumes "list_all2 same_writes (next_level_components c) (next_level_components c')" "mapping_func c' = mapping_func c"
  shows "held_writes c' = held_writes c" "no_flush w c \<Longrightarrow> no_flush w c'"
proof -
  have "map wpq (next_level_components c') = map wpq (next_level_components c)"
    "map adr_epoch (next_level_components c') = map adr_epoch (next_level_components c)"
    using assms(1) by (induction rule: list_all2_induct) (simp_all add: same_writes_def)
  then have m: "map (f \<circ> wpq) (next_level_components c') = map (f \<circ> wpq) (next_level_components c)"
    "list_all (\<lambda>i. adr_epoch i = 0 \<and> w \<le> max_entries (wpq i)) (next_level_components c') =
      list_all (\<lambda>i. adr_epoch i = 0 \<and> w \<le> max_entries (wpq i)) (next_level_components c)" for f :: "base_request_queue \<Rightarrow> nat"
    using assms(1) by (metis map_map, induction rule: list_all2_induct [OF assms(1)]) (simp_all add: same_writes_def)
  show h: "held_writes c' = held_writes c" using m(1) [of "length \<circ> queue"] by (simp add: held_writes_def comp_def)
  show "no_flush w c'" if "no_flush w c"
    using that m(2) h assms list_all2_lengthD [OF assms(1)] by (simp add: no_flush_def mapping_ok_def)
qed

lemma no_flush_room:
  assumes "no_flush w c" "i \<in> set (next_level_components c)"
  shows "length (queue (wpq i)) < max_entries (wpq i)" "adr_epoch i = 0"
proof -
  have "length (queue (wpq i)) \<le> held_writes c"
    unfolding held_writes_def by (rule member_le_sum_list) (use assms(2) in simp_all)
  then show "length (queue (wpq i)) < max_entries (wpq i)" "adr_epoch i = 0"
    using assms by (auto simp: no_flush_def list_all_iff)
qed

lemma tick_list_same:
  "tick_list (imc_ops ops) clk ns = Inr (ns', calls) \<Longrightarrow>
   \<forall>i \<in> set ns. length (queue (wpq i)) < max_entries (wpq i) \<and> adr_epoch i = 0 \<Longrightarrow> list_all2 same_writes ns ns'"
  by (induction ns arbitrary: ns' calls) (auto simp: ebind_eq_Inr intro: imc_tick_same)

lemma rmc_tick_same:
  assumes "tick (rmc_ops (imc_ops ops)) clk c = Inr (c', calls)" "no_flush w c"
  shows "held_writes c' = held_writes c" "no_flush w c'"
proof -
  obtain ns where ns: "tick_list (imc_ops ops) clk (next_level_components c) = Inr (ns, calls)"
      "c' = c\<lparr>next_level_components := ns\<rparr>"
    using assms(1) by (auto simp: rmc_ops_def routing_tick_def ebind_eq_Inr)
  have "list_all2 same_writes (next_level_components c) (next_level_components c')"
    using tick_list_same [OF ns(1)] no_flush_room [OF assms(2)] ns(2) by simp
  from same_writes_keep [OF this] assms(2) ns(2) show "held_writes c' = held_writes c" "no_flush w c'" by simp_all
qed

lemma map_err_same:
  "map_err (drain (imc_ops ops)) ns = Inr ns' \<Longrightarrow> list_all2 same_writes ns ns'"
  by (induction ns arbitrary: ns') (auto simp: ebind_eq_Inr intro: imc_drain_same)

lemma rmc_drain_same:
  assumes "drain (rmc_ops (imc_ops ops)) c = Inr c'" "no_flush w c"
  shows "held_writes c' = held_writes c" "no_flush w c'"
proof -
  obtain ns where ns: "map_err (drain (imc_ops ops)) (next_level_components c) = Inr ns"
      "c' = c\<lparr>is_draining := True, next_level_components := ns\<rparr>"
    using assms(1) by (auto simp: rmc_ops_def mc_drain_def rmc_drain_current_def ebind_eq_Inr split: if_split_asm)
  have "list_all2 same_writes (next_level_components c) (next_level_components c')"
    using map_err_same [OF ns(1)] ns(2) by simp
  from same_writes_keep [OF this] assms(2) ns(2) show "held_writes c' = held_writes c" "no_flush w c'" by simp_all
qed

lemma rmc_issue_writes:
  assumes "issue_request (rmc_ops (imc_ops ops)) c r = Inr (c', r', issued, deterministic, clk)" "no_flush w c"
  shows "\<not> deterministic" "held_writes c' = held_writes c + (if issued \<and> req_type r = Base_write then 1 else 0)"
    and "held_writes c' < w \<Longrightarrow> no_flush w c'"
proof -
  obtain start where start: "rmc_start_addr c = Some start" "\<not> req_addr r < start"
    using assms(1) by (auto simp: rmc_ops_def rmc_issue_request_def split: option.split_asm if_split_asm)
  have m: "mapping_ok c" using assms(2) by (simp add: no_flush_def)
  obtain a i where g: "get_next_level (req_addr r - start) c = Inr (a, i)" "i < length (next_level_components c)"
    by (rule get_next_level_ok [OF m])
  let ?ns = "next_level_components c"
  obtain n where n: "imc_issue_request (?ns ! i) (r\<lparr>req_addr := a\<rparr>) = Inr (n, r', issued, deterministic, clk)"
      "c' = c\<lparr>next_level_components := ?ns[i := n]\<rparr>"
    using assms(1) start g(1)
    by (auto simp: rmc_ops_def rmc_issue_request_def route_request_def next_issue_def imc_ops_def ebind_eq_Inr)
  note w = imc_issue_writes [OF n(1)]
  show "\<not> deterministic" using w by simp
  let ?f = "\<lambda>i. length (queue (wpq i))"
  have "?f (?ns ! i) \<le> sum_list (map ?f ?ns)" by (rule member_le_sum_list) (use g(2) in simp_all)
  moreover have "held_writes c' = sum_list (map ?f ?ns) + ?f n - ?f (?ns ! i)"
    using g(2) by (simp add: held_writes_def n(2) map_update sum_list_update)
  ultimately show h: "held_writes c' = held_writes c + (if issued \<and> req_type r = Base_write then 1 else 0)"
    using w by (auto simp: held_writes_def)
  show "no_flush w c'" if "held_writes c' < w"
  proof -
    have "list_all (\<lambda>i. adr_epoch i = 0 \<and> w \<le> max_entries (wpq i)) (?ns[i := n])"
      using assms(2) w g(2) by (auto simp: no_flush_def list_all_length nth_list_update)
    then show ?thesis using that m n(2) by (simp add: no_flush_def mapping_ok_def)
  qed
qed

section \<open>Runs\<close>

definition write_count :: "base_request list \<Rightarrow> nat" where
  "write_count rs = length (filter (\<lambda>r. req_type r = Base_write) rs)"

lemma run_holds_writes:
  "component_run (rmc_ops (imc_ops ops)) evs c = Inr (c', accepted, calls) \<Longrightarrow> no_flush w c \<Longrightarrow>
   held_writes c + write_count accepted < w \<Longrightarrow> held_writes c' = held_writes c + write_count accepted \<and> no_flush w c'"
proof (induction evs arbitrary: c accepted calls)
  case (Cons ev evs)
  show ?case
  proof (cases ev)
    case (Ev_issue r)
    obtain c1 r' issued deterministic clk acc where c1:
        "issue_request (rmc_ops (imc_ops ops)) c r = Inr (c1, r', issued, deterministic, clk)"
        "component_run (rmc_ops (imc_ops ops)) evs c1 = Inr (c', acc, calls)"
        "accepted = (if issued \<and> \<not> deterministic then [r] else []) @ acc"
      using Cons.prems(1) by (auto simp: Ev_issue ebind_eq_Inr)
    note i = rmc_issue_writes [OF c1(1) Cons.prems(2)]
    have a: "held_writes c + write_count accepted = held_writes c1 + write_count acc"
      using c1(3) i(1,2) by (simp add: write_count_def)
    then have "no_flush w c1" using i(3) Cons.prems(3) by linarith
    then show ?thesis using Cons.IH [OF c1(2)] Cons.prems(3) a by simp
  next
    case (Ev_tick clk)
    obtain c1 calls1 calls2 where c1: "tick (rmc_ops (imc_ops ops)) clk c = Inr (c1, calls1)"
        "component_run (rmc_ops (imc_ops ops)) evs c1 = Inr (c', accepted, calls2)"
      using Cons.prems(1) by (auto simp: Ev_tick ebind_eq_Inr)
    note t = rmc_tick_same [OF c1(1) Cons.prems(2)]
    show ?thesis using Cons.IH [OF c1(2) t(2)] Cons.prems(3) t(1) by simp
  qed
qed (simp add: write_count_def)

section \<open>The loop after the drain\<close>

lemma drain_loop_never:
  assumes "drain_loop ops s = Some (Inr t)" "P s"
    and "\<And>s. P s \<Longrightarrow> is_pending ops (tr_model s) \<noteq> Inr False \<and> (\<forall>s'. trace_tick ops s = Inr s' \<longrightarrow> P s')"
  shows False
proof -
  have "ops = ops \<and> Inr t = (Inr t :: vans_error + 'a trace_state) \<longrightarrow> \<not> P s"
  proof (rule drain_loop.raw_induct [where P = "\<lambda>ops' s r. ops' = ops \<and> r = Inr t \<longrightarrow> \<not> P s", OF _ assms(1)], intro impI notI)
    fix f and ops' :: "'a component_ops" and s r
    assume IH: "\<And>ops' s r. f ops' s = Some r \<Longrightarrow> ops' = ops \<and> r = Inr t \<longrightarrow> \<not> P s"
      and body: "(case ebind (is_pending ops' (tr_model s)) (\<lambda>p. if p then map_sum id Some (trace_tick ops' s) else Inr None) of
        Inl e \<Rightarrow> Some (Inl e)
      | Inr None \<Rightarrow> Some (Inr s)
      | Inr (Some s) \<Rightarrow> f ops' s) = Some r"
      and p: "ops' = ops \<and> r = Inr t" "P s"
    note step = assms(3) [OF p(2)]
    obtain b where b: "is_pending ops (tr_model s) = Inr b" using body p(1) by (cases "is_pending ops (tr_model s)") auto
    then have "b" using step by (cases b) auto
    then obtain s' where s': "trace_tick ops s = Inr s'" "f ops s' = Some r"
      using body p(1) b by (cases "trace_tick ops s") auto
    then show False using IH [OF s'(2)] step p(1) by blast
  qed
  then show False using assms(2) by blast
qed

lemma held_pending:
  assumes "0 < held_writes c"
  shows "is_pending (rmc_ops (imc_ops ops)) c \<noteq> Inr False"
proof
  assume p: "is_pending (rmc_ops (imc_ops ops)) c = Inr False"
  have "\<exists>i \<in> set (next_level_components c). queue (wpq i) \<noteq> []"
  proof (rule ccontr)
    assume "\<not> (\<exists>i \<in> set (next_level_components c). queue (wpq i) \<noteq> [])"
    then have "held_writes c = 0" by (simp add: held_writes_def)
    then show False using assms by simp
  qed
  then obtain i where i: "i \<in> set (next_level_components c)" "queue (wpq i) \<noteq> []" by blast
  have "is_pending (imc_ops ops) i = Inr True"
    using i(2) by (simp add: imc_ops_def mc_pending_def imc_pending_current_def rq_pending_def rq_empty_def)
  moreover have "any_err (is_pending (imc_ops ops)) (next_level_components c) = Inr False"
    using p by (simp add: rmc_ops_def mc_pending_def rmc_pending_current_def)
  ultimately show False using any_err_false i(1) by fastforce
qed

lemma held_never_drains:
  assumes "no_flush w (tr_model s)" "0 < held_writes (tr_model s)"
  shows "drain_loop (rmc_ops (imc_ops ops)) s \<noteq> Some (Inr t)"
proof
  let ?P = "\<lambda>s. no_flush w (tr_model s) \<and> 0 < held_writes (tr_model s)"
  assume "drain_loop (rmc_ops (imc_ops ops)) s = Some (Inr t)"
  then show False
  proof (rule drain_loop_never [where P = ?P])
    show "?P s" using assms by simp
  next
    fix s :: "'a imc_controller rmc_controller trace_state"
    assume p: "?P s"
    have "?P s'" if t: "trace_tick (rmc_ops (imc_ops ops)) s = Inr s'" for s'
    proof -
      obtain m calls where m: "tick (rmc_ops (imc_ops ops)) (curr_clk s) (tr_model s) = Inr (m, calls)"
          "s' = (fold trace_callback calls (s\<lparr>tr_model := m\<rparr>))\<lparr>curr_clk := curr_clk (fold trace_callback calls (s\<lparr>tr_model := m\<rparr>)) + 1\<rparr>"
        using t by (auto simp: trace_tick_def Let_def ebind_eq_Inr)
      then have "tr_model s' = m" using fold_trace_callback [of calls "s\<lparr>tr_model := m\<rparr>"] by auto
      then show ?thesis using rmc_tick_same [OF m(1), of w] p by simp
    qed
    then show "is_pending (rmc_ops (imc_ops ops)) (tr_model s) \<noteq> Inr False \<and>
        (\<forall>s'. trace_tick (rmc_ops (imc_ops ops)) s = Inr s' \<longrightarrow> ?P s')"
      using held_pending p by blast
  qed
qed

end
