(* ===== verification/Trace_Props.thy ===== *)
theory Trace_Props
  imports Factory Held_Writes Cxl_Props Nvdimm_Props
begin

text \<open>
  Properties of the configuration reader, the factory and the trace runner, alone and over the
  machines that it drives.
\<close>

section \<open>Configuration\<close>

text \<open>C15: Printing sections of keys and values and reading the file back gives a configuration with exactly
  these sections; a key has the value it was given last in any section of that name, every other
  key throws, and a printed number below \<open>2 ^ 64\<close> is read back as that number.\<close>

theorem config_roundtrip:
  assumes "list_all plain_section secs"
  shows "\<exists>cfg. new_root_config (Some (show_config secs)) = Inr cfg \<and>
    (\<forall>s. (cfg s \<noteq> None) = (s \<in> fst ` set secs)) \<and>
    (\<forall>s c key. cfg s = Some c \<longrightarrow>
       get_string c key = (case section_values secs s key of None \<Rightarrow> Inl Out_of_range | Some v \<Rightarrow> Inr v) \<and>
       (\<forall>n < 2 ^ 64. section_values secs s key = Some (show_number 10 n) \<longrightarrow> get_ulong c key = Inr (of_nat n)))"
proof -
  from new_root_config_shown [OF assms] obtain cfg where
    c: "new_root_config (Some (show_config secs)) = Inr cfg" "config_shows cfg secs" by blast
  have v: "config_values d = section_values secs s" if "cfg s = Some d" for s d
    using c(2) that config_lookup_section [of cfg s] by (simp add: config_shows_def)
  show ?thesis
    using c get_ulong_shown v
    by (intro exI [of _ cfg]) (auto simp: config_shows_def get_string_def base_config_at_def)
qed

definition example_config :: "(string \<times> (string \<times> string) list) list" where
  "example_config = [(''imc'', [(''wpq_entries'', ''4''), (''adr_epoch'', ''0''), (''adr_epoch'', ''10'')])]"

theorem config_roundtrip_witness:
  "\<exists>cfg c. new_root_config (Some (show_config example_config)) = Inr cfg \<and> cfg ''imc'' = Some c \<and>
     get_string c ''adr_epoch'' = Inr ''10'' \<and> get_string c ''rpq_entries'' = Inl Out_of_range"
proof -
  have "list_all plain_section example_config" by code_simp
  from config_roundtrip [OF this] obtain cfg where c: "new_root_config (Some (show_config example_config)) = Inr cfg"
      "\<forall>s. (cfg s \<noteq> None) = (s \<in> fst ` set example_config)"
      "\<forall>s c key. cfg s = Some c \<longrightarrow>
       get_string c key = (case section_values example_config s key of None \<Rightarrow> Inl Out_of_range | Some v \<Rightarrow> Inr v) \<and>
       (\<forall>n < 2 ^ 64. section_values example_config s key = Some (show_number 10 n) \<longrightarrow> get_ulong c key = Inr (of_nat n))"
    by (elim exE conjE) (rule that; assumption)
  have "''imc'' \<in> fst ` set example_config" by (simp add: example_config_def)
  then obtain d where d: "cfg ''imc'' = Some d" using c(2) [THEN spec, of "''imc''"] by (cases "cfg ''imc''") auto
  have "section_values example_config ''imc'' ''adr_epoch'' = Some ''10''"
    "section_values example_config ''imc'' ''rpq_entries'' = None" by code_simp+
  then have "get_string d ''adr_epoch'' = Inr ''10''" "get_string d ''rpq_entries'' = Inl Out_of_range"
    using c(3) d by simp_all
  then show ?thesis using c(1) d by blast
qed

section \<open>Factory\<close>

text \<open>C16: The factory returns whenever the organization has no cycle: with enough depth its result no
  longer depends on the depth, and if it is a system, this is the tree that the organization
  describes, each component made from its own section, with its id, over the configured number of children.\<close>

theorem factory_builds:
  assumes "ranked cfg rank"
  shows "\<exists>r. (\<forall>fuel > rank ''rmc''. factory_make fuel cfg = Some r) \<and>
    (\<forall>t. r = Inr t \<longrightarrow> built cfg ''rmc'' 0 t)"
proof -
  let ?n = "Suc (rank ''rmc'')"
  obtain r where r: "make_component ?n ''rmc'' cfg 0 = Some r"
    using make_component_returns [OF assms, of "''rmc''" ?n 0] by auto
  have "make_component fuel ''rmc'' cfg 0 = Some r" if "rank ''rmc'' < fuel" for fuel
    using make_component_more [OF r, of "fuel - ?n"] that by simp
  moreover have "built cfg ''rmc'' 0 t" if "r = Inr t" for t
    using make_component_built r that by blast
  ultimately show ?thesis by (auto simp: factory_make_def)
qed

definition example_machine :: root_config where
  "example_machine = [''organization'' \<mapsto> \<lparr>section_name = ''organization'',
       config_values = [''rmc'' \<mapsto> ''1*nv_media'', ''nv_media'' \<mapsto> ''0*none'']\<rparr>,
     ''rmc'' \<mapsto> \<lparr>section_name = ''rmc'', config_values = [''component_mapping_func'' \<mapsto> ''none_mapping'', ''start_addr'' \<mapsto> ''0'']\<rparr>,
     ''nv_media'' \<mapsto> \<lparr>section_name = ''nv_media'', config_values = [''read_latency'' \<mapsto> ''100'', ''write_latency'' \<mapsto> ''300'']\<rparr>]"

lemma example_organization:
  "get_organization example_machine name =
   (if name = ''rmc'' then Inr (1, ''nv_media'') else if name = ''nv_media'' then Inr (0, ''none'') else Inl Out_of_range)"
proof -
  have "get_organization example_machine ''rmc'' = Inr (1, ''nv_media'')"
    "get_organization example_machine ''nv_media'' = Inr (0, ''none'')" by code_simp+
  then show ?thesis
    by (auto simp: get_organization_def example_machine_def base_config_at_def split: if_splits)
qed

theorem factory_builds_witness:
  "\<exists>t. factory_make 3 example_machine = Some (Inr t) \<and> built example_machine ''rmc'' 0 t"
proof -
  have "ranked example_machine (\<lambda>name. if name = ''rmc'' then 1 else 0)"
    by (simp add: ranked_def example_organization)
  from factory_builds [OF this] obtain r where r: "factory_make 3 example_machine = Some r"
      "\<forall>t. r = Inr t \<longrightarrow> built example_machine ''rmc'' 0 t" by auto
  have "(case factory_make 3 example_machine of Some (Inr t) \<Rightarrow> True | _ \<Rightarrow> False)" by code_simp
  then show ?thesis using r by (cases r) auto
qed

definition cxl_test_cfg :: string where
  "cxl_test_cfg = concat (map line_end
     [''[organization]'', ''rmc : 1 * cxl_system'', ''cxl_system : 1 * nvram'', ''nvram : 0 * none'', '''',
      ''[basic]'', ''tCK : 0.75'', '''',
      ''[rmc]'', ''component_mapping_func : none_mapping'', ''media_mapping_func : none_mapping'', ''start_addr : 0'', '''',
      ''[cxl_system]'', ''component_mapping_func : none_mapping'', ''media_mapping_func : none_mapping'', '''',
      ''[nvram]'', ''component_mapping_func : none_mapping'', ''media_mapping_func : none_mapping'',
      ''read_latency : 100'', ''write_latency : 300'', '''',
      ''[dump]'', ''type : file'', ''path : vans_dump''])"

lemma undefined_case:
  "(case x of Inr (Some (Inl e)) \<Rightarrow> e = u | _ \<Rightarrow> False) \<Longrightarrow> x = Inr (Some (Inl u))"
  by (cases x; cases "projr x"; cases "the (projr x)") auto

text \<open>A component name that the factory does not know is a null pointer that is then used. The
  configuration \<open>config/cxl_test.cfg\<close> of the repository names such a component, \<open>nvram\<close>, below its
  CXL system, so that building its system is undefined behaviour.\<close>

theorem factory_unknown_component:
  "make_component (Suc fuel) ''nvram'' cfg i = Some (Inl Undefined_behaviour) \<and>
   map_sum id (factory_make 3) (new_root_config (Some cxl_test_cfg)) = Inr (Some (Inl Undefined_behaviour))"
proof
  show "make_component (Suc fuel) ''nvram'' cfg i = Some (Inl Undefined_behaviour)"
    by (simp add: make_single_component_def)
  show "map_sum id (factory_make 3) (new_root_config (Some cxl_test_cfg)) = Inr (Some (Inl Undefined_behaviour))"
  proof -
    have "(case map_sum id (factory_make 3) (new_root_config (Some cxl_test_cfg)) of
        Inr (Some (Inl e)) \<Rightarrow> e = Undefined_behaviour | _ \<Rightarrow> False)" by code_simp
    then show ?thesis by (rule undefined_case)
  qed
qed

text \<open>An organization that leads from a component back to itself is followed for ever: no depth is enough.\<close>

theorem factory_cycle_never_ends:
  assumes "cyclic_names cfg names" "''rmc'' \<in> names"
  shows "factory_make fuel cfg = None"
  using make_component_cycle [OF assms] by (simp add: factory_make_def)

definition cyclic_machine :: root_config where
  "cyclic_machine = example_machine(''organization'' \<mapsto> \<lparr>section_name = ''organization'',
     config_values = [''rmc'' \<mapsto> ''1*rmc'']\<rparr>)"

theorem factory_cycle_never_ends_witness:
  "factory_make 100 cyclic_machine = None"
proof -
  have "get_organization cyclic_machine ''rmc'' = Inr (1, ''rmc'')" by code_simp
  moreover have "\<exists>t. make_single_component ''rmc'' cyclic_machine i = Inr t" for i
  proof -
    have "(case (rmc_of_config :: config \<Rightarrow> vans_error + unit rmc_controller) \<lparr>section_name = ''rmc'',
        config_values = [''component_mapping_func'' \<mapsto> ''none_mapping'', ''start_addr'' \<mapsto> ''0'']\<rparr> of Inl e \<Rightarrow> False | Inr c \<Rightarrow> True)"
      by code_simp
    then obtain c :: "unit rmc_controller" where "rmc_of_config \<lparr>section_name = ''rmc'',
        config_values = [''component_mapping_func'' \<mapsto> ''none_mapping'', ''start_addr'' \<mapsto> ''0'']\<rparr> = Inr c"
      by (auto split: sum.splits)
    then show ?thesis
      by (simp add: make_single_component_def cyclic_machine_def example_machine_def base_config_at_def)
  qed
  ultimately have "cyclic_names cyclic_machine {''rmc''}" by (simp add: cyclic_names_def)
  then show ?thesis by (rule factory_cycle_never_ends) simp
qed

section \<open>Reading traces\<close>

text \<open>C13: A trace that is printed request by request, with any comments in between, is read back: the same
  addresses, types, critical marks and idle cycles in the same order. Of a last line without a
  newline nothing is read, and as a comment it is read again for ever.\<close>

theorem trace_roundtrip:
  assumes "trace_ok qs trailer" "length qs < n" "newline \<notin> set l"
  shows "read_trace n (open_file (show_trace qs trailer)) = Some (Inr (map snd qs)) \<and>
    get_dram_trace_request (open_file l) =
      (if l \<noteq> [] \<and> hd l = CHR ''#'' then None
       else Some (Inr (\<lparr>fs_rest = [], fs_eof = True, fs_fail = (l = [])\<rparr>, None)))"
  using read_trace_shown [OF assms(1,2)] get_request_last [OF assms(3)] by blast

definition example_trace :: "(string list \<times> trace_request) list" where
  "example_trace =
     [([''start''], \<lparr>tr_addr = 0x3c0, tr_type = Base_write, tr_critical = False, tr_idle = 25\<rparr>),
      ([], \<lparr>tr_addr = 0x40, tr_type = Base_read, tr_critical = False, tr_idle = clk_invalid\<rparr>)]"

lemma example_trace_ok: "trace_ok example_trace []"
  by (simp add: trace_ok_def example_trace_def newline_def)

theorem trace_roundtrip_witness:
  "read_trace 3 (open_file (show_trace example_trace [])) = Some (Inr (map snd example_trace)) \<and>
   get_dram_trace_request (open_file ''#x'') = None"
  using trace_roundtrip [OF example_trace_ok, of 3 "''#x''"] by (simp add: example_trace_def newline_def)

section \<open>Running traces\<close>

text \<open>C14: Over a memory that accepts and answers at once, a run of a trace without critical reads returns
  after exactly one cycle per request, one more than the idle cycles of the requests that have them, and
  the last cycle, in which the end of the file is found; every read and write is counted.\<close>

theorem trace_total_clock:
  assumes "instant_memory ops ninv" "ninv m" "trace_ok qs trailer" "list_all (\<lambda>(cs, q). \<not> tr_critical q) qs"
  shows "\<exists>s. simulate ops (new_trace_state (open_file (show_trace qs trailer)) m cb) = Some (Inr s) \<and>
    last_trace_clk s = sum_list (map (\<lambda>x. request_cost (snd x)) qs) \<and> curr_clk s = last_trace_clk s + 1 \<and>
    cnt_read s = reads (map snd qs) \<and> cnt_write s = writes (map snd qs)"
  by (rule instant_memory.simulate_requests [OF assms])

theorem trace_total_clock_witness:
  "\<exists>s. simulate static_memory_ops (new_trace_state (open_file (show_trace example_trace []))
     \<lparr>read_latency = 100, write_latency = 300\<rparr> normal_read_callback) = Some (Inr s) \<and>
   curr_clk s = 29 \<and> cnt_read s = 1 \<and> cnt_write s = 1"
proof -
  have "list_all (\<lambda>(cs, q). \<not> tr_critical q) example_trace" by (simp add: example_trace_def)
  note run = trace_total_clock [OF static_instant.instant_memory_axioms TrueI example_trace_ok this]
  have "sum_list (map (\<lambda>x. request_cost (snd x)) example_trace) = 28" "reads (map snd example_trace) = 1"
    "writes (map snd example_trace) = 1"
    by (simp_all add: example_trace_def request_cost_def reads_def writes_def clk_invalid_def)
  then show ?thesis using run [of "\<lparr>read_latency = 100, write_latency = 300\<rparr>" normal_read_callback] by auto
qed

text \<open>C37: A critical read of a memory that answers at once stops the simulator for ever: the runner waits
  for a callback, but such an answer is only a completion clock, which it ignores.\<close>

theorem trace_critical_hangs:
  assumes "instant_memory ops ninv" "ninv m" "trace_ok qs trailer" "\<exists>(cs, q) \<in> set qs. tr_critical q"
  shows "simulate ops (new_trace_state (open_file (show_trace qs trailer)) m cb) = None"
  by (rule instant_memory.simulate_critical [OF assms])

lemma cxl_instant: "instant_memory (cxl_system_ops static_memory_ops) (cxl_inv (\<lambda>n. True))"
proof
  fix n :: "static_memory cxl_system" and clk
  assume i: "cxl_inv (\<lambda>n. True) n"
  have "tick_list static_memory_ops clk ns = Inr (ns, [])" for ns
    by (induction ns) (simp_all add: static_memory_ops_def static_tick_def)
  then show "\<exists>n'. tick (cxl_system_ops static_memory_ops) clk n = Inr (n', []) \<and> cxl_inv (\<lambda>n. True) n'"
    using i by (simp add: cxl_system_ops_def cxl_tick_def)
qed (auto simp: cxl_system_ops_def cxl_issue_request_eq)

theorem trace_critical_hangs_witness:
  "simulate (cxl_system_ops static_memory_ops) (new_trace_state (open_file (show_trace
     [([], \<lparr>tr_addr = 0x40, tr_type = Base_read, tr_critical = True, tr_idle = clk_invalid\<rparr>)] []))
     new_cxl_system normal_read_callback) = None"
  by (rule trace_critical_hangs [OF cxl_instant])
    (simp_all add: cxl_inv_def new_cxl_system_def new_cxl_memory_def new_protocol_handler_def new_cxl_mem_def trace_ok_def)

section \<open>Writes that are never issued\<close>

text \<open>C36: Without ADR nothing but a full write queue makes the integrated memory controllers issue writes, and draining does not either.
  Under a root of the code, over any levels below: after any run of requests and ticks that starts with empty write queues
  and accepts at least one write but fewer than fill a queue, all the writes that were accepted are still in the queues, whatever
  reads came between them; draining issues none of them; and the loop after the drain, which waits for the queues, does not
  return: it runs for ever unless a level below throws.\<close>

theorem imc_write_never_drains:
  assumes "component_run (rmc_ops (imc_ops ops)) evs c = Inr (c', accepted, calls)" "mapping_ok c"
    and "list_all (\<lambda>i. adr_epoch i = 0 \<and> queue (wpq i) = [] \<and> w \<le> max_entries (wpq i)) (next_level_components c)"
    and "0 < write_count accepted" "write_count accepted < w"
  shows "held_writes c' = write_count accepted \<and>
    (case drain (rmc_ops (imc_ops ops)) c' of Inl e \<Rightarrow> True
     | Inr d \<Rightarrow> held_writes d = write_count accepted \<and> drain_loop (rmc_ops (imc_ops ops)) (s\<lparr>tr_model := d\<rparr>) \<noteq> Some (Inr t))"
proof -
  have h: "held_writes c = 0" using assms(3) by (simp add: held_writes_def list_all_iff)
  have "no_flush w c" using assms(2,3,5) h by (auto simp: no_flush_def list_all_iff)
  from run_holds_writes [OF assms(1) this] h assms(5)
  have c': "held_writes c' = write_count accepted" "no_flush w c'" by simp_all
  show ?thesis
  proof (cases "drain (rmc_ops (imc_ops ops)) c'")
    case (Inr d)
    note d = rmc_drain_same [OF Inr c'(2)]
    show ?thesis using Inr c'(1) d assms(4) held_never_drains [where s = "s\<lparr>tr_model := d\<rparr>" and w = w] by simp
  qed (simp add: c'(1))
qed

definition no_adr_machine :: "static_memory imc_controller rmc_controller" where
  "no_adr_machine = connect_next
     (connect_next \<lparr>read_latency = 100, write_latency = 300\<rparr> (new_imc_controller none_mapping 4 4 0))
     (new_rmc_controller none_mapping (Some 0))"

theorem imc_write_never_drains_witness:
  "(case component_run (rmc_ops (imc_ops static_memory_ops))
       [Ev_issue (new_base_request Base_write 64 0 normal_read_callback), Ev_tick 0, Ev_tick 1] no_adr_machine of
      Inl e \<Rightarrow> False
    | Inr (c', accepted, calls) \<Rightarrow> held_writes c' = 1 \<and>
        (case drain (rmc_ops (imc_ops static_memory_ops)) c' of Inl e \<Rightarrow> False
         | Inr d \<Rightarrow> \<forall>t. drain_loop (rmc_ops (imc_ops static_memory_ops))
             (new_trace_state (open_file []) d normal_read_callback) \<noteq> Some (Inr t)))"
proof -
  let ?ops = "rmc_ops (imc_ops static_memory_ops)"
  let ?evs = "[Ev_issue (new_base_request Base_write 64 0 normal_read_callback), Ev_tick 0, Ev_tick 1]"
  have "case component_run ?ops ?evs no_adr_machine of Inl e \<Rightarrow> False | Inr (c', accepted, calls) \<Rightarrow>
      write_count accepted = 1 \<and> (case drain ?ops c' of Inl e \<Rightarrow> False | Inr d \<Rightarrow> True)" by code_simp
  then obtain c' accepted calls d where r: "component_run ?ops ?evs no_adr_machine = Inr (c', accepted, calls)"
      "write_count accepted = 1" "drain ?ops c' = Inr d" by (auto split: sum.splits)
  have m: "mapping_ok no_adr_machine"
    by (rule mapping_ok_none) (simp_all add: no_adr_machine_def connect_next_def new_rmc_controller_def)
  have "list_all (\<lambda>i. adr_epoch i = 0 \<and> queue (wpq i) = [] \<and> 4 \<le> max_entries (wpq i)) (next_level_components no_adr_machine)"
    by (simp add: no_adr_machine_def connect_next_def new_rmc_controller_def new_imc_controller_def new_request_queue_def)
  from imc_write_never_drains [OF r(1) m this, of "new_trace_state (open_file []) d normal_read_callback"] show ?thesis
    unfolding r(1) by (simp add: r(2,3) new_trace_state_def)
qed

end
