(* ===== verification/Wrapper.thy ===== *)
theory Wrapper
  imports Machine
begin

text \<open>
  The object through which gem5 uses the simulator, \<open>src/gem5/wrapper.h\<close> and
  \<open>src/gem5/wrapper.cpp\<close>: the static count of wrappers chooses the configuration file; the memory is
  the system that the factory makes from it.
\<close>

record 'n gem5_wrapper =
  gw_memory :: 'n
  vans_id :: "64 word"
  gw_clk :: clk_t

text \<open>The count before the construction decides; the result is the count afterwards and the file name.\<close>

definition gem5_config_file :: "64 word \<Rightarrow> string \<Rightarrow> vans_error + 64 word \<times> string" where
  "gem5_config_file vans_cnt cfg_path =
     (if vans_cnt = 0 then Inr (vans_cnt + 1, cfg_path @ ''/'' @ ''gem5_lo_memory.cfg'')
      else if vans_cnt = 1 then Inr (vans_cnt + 1, cfg_path @ ''/'' @ ''gem5_hi_memory.cfg'')
      else Inl Assertion_failed)"

definition new_gem5_wrapper :: "64 word \<Rightarrow> 'n \<Rightarrow> 'n gem5_wrapper" where
  "new_gem5_wrapper i memory = \<lparr>gw_memory = memory, vans_id = i, gw_clk = 0\<rparr>"

definition gem5_tick :: "'n component_ops \<Rightarrow> 'n gem5_wrapper \<Rightarrow> vans_error + 'n gem5_wrapper \<times> call list" where
  "gem5_tick ops w =
     ebind (tick ops (gw_clk w) (gw_memory w)) (\<lambda>(m, calls).
       Inr (w\<lparr>gw_memory := m, gw_clk := gw_clk w + 1\<rparr>, calls))"

text \<open>The request is passed by value: what the system writes into it is lost.\<close>

definition gem5_send :: "'n component_ops \<Rightarrow> base_request \<Rightarrow> 'n gem5_wrapper \<Rightarrow> vans_error + bool \<times> 'n gem5_wrapper" where
  "gem5_send ops req w =
     (if req_addr req mod 64 \<noteq> 0
      then Inl (Runtime_error ''VANS only accepts 64 Byte aligned address, make sure you have a cache setup.'')
      else ebind (issue_request ops (gw_memory w) req) (\<lambda>(m, req, issued, deterministic, next_clk).
        Inr (issued, w\<lparr>gw_memory := m\<rparr>)))"

text \<open>\<open>print\<close> is the virtual method \<open>print_counters\<close> of the memory.\<close>

definition gem5_finish ::
  "'n component_ops \<Rightarrow> ('n \<Rightarrow> vans_error + 'o) \<Rightarrow> 'n gem5_wrapper \<Rightarrow> vans_error + 'n gem5_wrapper \<times> 'o" where
  "gem5_finish ops print w =
     ebind (drain ops (gw_memory w)) (\<lambda>m. ebind (print m) (\<lambda>out. Inr (w\<lparr>gw_memory := m\<rparr>, out)))"

definition gem5_get_clk :: "'n gem5_wrapper \<Rightarrow> clk_t" where
  "gem5_get_clk w = gw_clk w"

context simulated_root
begin

text \<open>Between two calls of gem5 the system keeps its invariant, and an aligned request above the start address is safe.\<close>

lemma gem5_tick_ok:
  assumes "rinv (gw_memory w)" "small_clk (gw_clk w)"
  shows "ensures (gem5_tick ops w) (\<lambda>(w', calls). rinv (gw_memory w') \<and> gw_clk w' = gw_clk w + 1)"
  using root_tick [OF assms] by (auto simp: gem5_tick_def split: prod.splits elim!: ensures_mono)

lemma gem5_send_ok:
  assumes "rinv (gw_memory w)" "addr_ok (req_addr r)" "small_clk (req_arrive r)" "req_addr r mod 64 = 0"
  shows "ensures (gem5_send ops r w) (\<lambda>(issued, w'). rinv (gw_memory w') \<and> gw_clk w' = gw_clk w)"
  using root_issue [OF assms(1-3)] assms(4) by (auto simp: gem5_send_def split: prod.splits elim!: ensures_mono)

end

lemma gem5_finish_once:
  "is_draining (gw_memory w) \<Longrightarrow> gem5_finish (imc_ops ops) print w = Inl (Runtime_error ''Internal error, should not call drain() twice.'')"
  by (simp add: gem5_finish_def imc_ops_def mc_drain_def)

end
