(* ===== verification/Answers.thy ===== *)
theory Answers
  imports Machine Nvdimm_Ddr4
begin

text \<open>
  Answers of whole systems: over levels that answer reads by a callback, the integrated memory
  controller answers every request that has one, writes when it flushes them and reads when the
  level below does, and the root memory controller passes the answers on, under the addresses that
  it has sent down.
\<close>

section \<open>Contracts\<close>

text \<open>A level that answers nothing but reads, never at once, and does not rewrite the request.\<close>

locale late_reader = responder ops ninv owes "\<lambda>a. a" is_read_with_callback
  for ops :: "'a component_ops" and ninv owes +
  assumes issue_late: "ninv n \<Longrightarrow> small_clk (req_arrive r) \<Longrightarrow>
      ensures (issue_request ops n r) (\<lambda>(n', r', issued, deterministic, next_clk). \<not> deterministic \<and> r' = r)"

text \<open>
  A root that answers each accepted request that has a callback exactly once, under its local
  address.
\<close>

locale answering_root = simulated_root ops rinv addr_ok
  for ops :: "'n component_ops" and rinv addr_ok +
  fixes owes :: "'n \<Rightarrow> (callback \<times> addr_t) multiset" and local_addr :: "addr_t \<Rightarrow> addr_t"
  assumes issue_answer: "rinv n \<Longrightarrow> addr_ok (req_addr r) \<Longrightarrow> small_clk (req_arrive r) \<Longrightarrow>
      ensures (issue_request ops n r) (\<lambda>(n', r', issued, deterministic, next_clk).
        owes n' = owes n + (if issued \<and> has_callback r then {#(req_callback r, local_addr (req_addr r))#} else {#}))"
    and tick_answer: "rinv n \<Longrightarrow> small_clk clk \<Longrightarrow>
      ensures (tick ops clk n) (\<lambda>(n', calls). owes n = owes n' + mset (map (\<lambda>(cb, a, t). (cb, a)) calls))"

text \<open>A controller with this property sends every request down under the address it comes with.\<close>

definition same_addr :: "('n, 'x) memory_controller_scheme \<Rightarrow> bool" where
  "same_addr c \<longleftrightarrow> (\<forall>a a' i. get_next_level a c = Inr (a', i) \<longrightarrow> a' = a)"

lemma same_addr_next:
  "length ns = length (next_level_components c) \<Longrightarrow> same_addr (c\<lparr>next_level_components := ns\<rparr>) = same_addr c"
  by (simp add: same_addr_def get_next_level_def)

lemma same_addr_none: "mapping_func c = none_mapping \<Longrightarrow> same_addr c"
  by (auto simp: same_addr_def get_next_level_def none_mapping_def ebind_eq_Inr split: if_splits)

lemma same_addr_stride:
  "mapping_func c = stride_mapping_4096 \<Longrightarrow> length (next_level_components c) = 1 \<Longrightarrow> same_addr c"
  by (auto simp: same_addr_def get_next_level_def stride_single ebind_eq_Inr split: if_splits)

lemma all_owe_update_one:
  assumes "i < length ns"
  shows "all_owe w (ns[i := n]) + w (ns ! i) = all_owe w ns + w n"
  using assms
proof (induction ns arbitrary: i)
  case (Cons m ns)
  then show ?case by (cases i) (auto simp: all_owe_def ac_simps)
qed simp

section \<open>The integrated memory controller\<close>

definition queue_owes :: "base_request list \<Rightarrow> (callback \<times> addr_t) multiset" where
  "queue_owes q = mset (map (\<lambda>r. (req_callback r, req_addr r)) (filter has_callback q))"

lemma queue_owes_simps [simp]:
  "queue_owes [] = {#}"
  "queue_owes (r # q) = (if has_callback r then {#(req_callback r, req_addr r)#} else {#}) + queue_owes q"
  "queue_owes (q @ q') = queue_owes q + queue_owes q'"
  by (simp_all add: queue_owes_def)

definition imc_owes :: "('n \<Rightarrow> (callback \<times> addr_t) multiset) \<Rightarrow> 'n imc_controller \<Rightarrow> (callback \<times> addr_t) multiset" where
  "imc_owes w c = queue_owes (queue (wpq c)) + queue_owes (queue (rpq c)) + all_owe w (next_level_components c)"

definition imc_answer_inv :: "('n \<Rightarrow> bool) \<Rightarrow> 'n imc_controller \<Rightarrow> bool" where
  "imc_answer_inv ninv c \<longleftrightarrow> imc_inv ninv c \<and> same_addr c \<and>
     (\<forall>r \<in> set (queue (wpq c)). req_type r = Base_write) \<and> (\<forall>r \<in> set (queue (rpq c)). req_type r = Base_read)"

text \<open>What \<open>calls\<close> answer.\<close>

definition answered :: "call list \<Rightarrow> (callback \<times> addr_t) multiset" where
  "answered calls = mset (map (\<lambda>(cb, a, t). (cb, a)) calls)"

lemma answered_simps [simp]:
  "answered [] = {#}"
  "answered ((cb, a, t) # calls) = add_mset (cb, a) (answered calls)"
  "answered (calls @ calls') = answered calls + answered calls'"
  by (simp_all add: answered_def)

lemma answered_invoke: "answered (invoke_callback (req_callback r) a t) = (if has_callback r then {#(req_callback r, a)#} else {#})"
  by (simp add: invoke_callback_def has_callback_def)

context late_reader
begin

text \<open>Issuing to a level that is not full: only a read is owed by it.\<close>

lemma next_issue_late:
  assumes "\<forall>n \<in> set (next_level_components c). ninv n" "i < length (next_level_components c)"
    and "small_clk (req_arrive r)" "next_full ops i c = Inr False"
  shows "\<exists>ns nc. next_issue ops i r c = Inr (c\<lparr>next_level_components := ns\<rparr>, r, True, False, nc) \<and>
    length ns = length (next_level_components c) \<and> (\<forall>n \<in> set ns. ninv n) \<and>
    all_owe owes ns = all_owe owes (next_level_components c) +
      (if is_read_with_callback r then {#(req_callback r, req_addr r)#} else {#})"
proof -
  let ?n = "next_level_components c ! i"
  have n: "ninv ?n" using assms(1,2) by simp
  have "full ops ?n = Inr False" using assms(4) by (simp add: next_full_def)
  from not_full_issues [OF n this assms(3)] obtain n' r' det nc where
    "issue_request ops ?n r = Inr (n', r', True, det, nc)" by (auto simp: ensures_iff)
  with issue_late [OF n assms(3)] have i: "issue_request ops ?n r = Inr (n', r, True, False, nc)" by simp
  with issue_ok [OF n assms(3)] have n': "ninv n'" by simp
  have "owes n' = owes ?n + (if is_read_with_callback r then {#(req_callback r, req_addr r)#} else {#})"
    using issue_owes [OF n assms(3)] i by simp
  then have "all_owe owes ((next_level_components c)[i := n']) = all_owe owes (next_level_components c) +
      (if is_read_with_callback r then {#(req_callback r, req_addr r)#} else {#})"
    using all_owe_update_one [OF assms(2), of owes n'] by (simp add: ac_simps)
  moreover have "\<forall>m \<in> set ((next_level_components c)[i := n']). ninv m"
    using assms(1) n' set_update_subset_insert [of "next_level_components c" i n'] by auto
  ultimately show ?thesis using i by (auto simp: next_issue_def)
qed

lemma imc_flush_step_owes:
  assumes "imc_answer_inv ninv c"
  shows "imc_flush_step ops c = Inr (False, c, []) \<or>
    (\<exists>c' calls. imc_flush_step ops c = Inr (True, c', calls) \<and> imc_answer_inv ninv c' \<and>
       imc_owes owes c = imc_owes owes c' + answered calls)"
proof (cases "imc_flush_step ops c = Inr (False, c, [])")
  case False
  have i: "imc_inv ninv c" using assms by (simp add: imc_answer_inv_def)
  from imc_flush_step_ok [OF i] False obtain ns calls where
    s: "imc_flush_step ops c = Inr (True, c\<lparr>next_level_components := ns, wpq := (wpq c)\<lparr>queue := tl (queue (wpq c))\<rparr>\<rparr>, calls)"
      "queue (wpq c) \<noteq> []"
      "imc_inv ninv (c\<lparr>next_level_components := ns, wpq := (wpq c)\<lparr>queue := tl (queue (wpq c))\<rparr>\<rparr>)" by blast
  obtain req rest where q: "queue (wpq c) = req # rest" using s(2) by (cases "queue (wpq c)") auto
  have n: "\<forall>n \<in> set (next_level_components c). ninv n" "mapping_ok c" using i by (simp_all add: imc_inv_def)
  from n(2) obtain a' j where g: "get_next_level (req_addr req) c = Inr (a', j)" "j < length (next_level_components c)"
    by (rule get_next_level_ok)
  have r: "small_clk (req_arrive req)" "req_type req = Base_write"
    using i assms q by (simp_all add: imc_inv_def imc_answer_inv_def)
  have "ninv (next_level_components c ! j)" using n(1) g(2) by simp
  then obtain f where f: "next_full ops j c = Inr f"
    using full_ok by (auto simp: next_full_def ensures_iff)
  have nf: "next_full ops j c = Inr False"
    using s(1) q g(1) f by (auto simp: imc_flush_step_def split: if_splits)
  from next_issue_late [OF n(1) g(2) r(1) nf] r(2) obtain ms nc where
    m: "next_issue ops j req c = Inr (c\<lparr>next_level_components := ms\<rparr>, req, True, False, nc)"
      "length ms = length (next_level_components c)" "all_owe owes ms = all_owe owes (next_level_components c)"
    by (auto simp: is_read_with_callback_def)
  let ?c = "c\<lparr>next_level_components := ns, wpq := (wpq c)\<lparr>queue := tl (queue (wpq c))\<rparr>\<rparr>"
  have e: "ns = ms" "calls = invoke_callback (req_callback req) (req_addr req) (imc_curr_clk c)"
    using s(1) q g(1) nf m(1) by (auto simp: imc_flush_step_def split: if_splits dest: arg_cong [where f = next_level_components])
  have "imc_answer_inv ninv ?c"
    using s(3) assms q e(1) m(2) by (auto simp: imc_answer_inv_def same_addr_def get_next_level_def)
  moreover have "imc_owes owes c = imc_owes owes ?c + answered calls"
    using q e m(3) by (simp add: imc_owes_def answered_invoke)
  ultimately show ?thesis using s(1) by blast
qed simp

lemma imc_flush_wpq_owes:
  "imc_flush_wpq ops c out = Some (Inr (c', out')) \<Longrightarrow> imc_answer_inv ninv c \<Longrightarrow>
   imc_answer_inv ninv c' \<and> (\<exists>calls. out' = out @ calls \<and> imc_owes owes c = imc_owes owes c' + answered calls)"
proof (induction "length (queue (wpq c))" arbitrary: c out rule: less_induct)
  case less
  have i: "imc_inv ninv c" using less.prems(2) by (simp add: imc_answer_inv_def)
  show ?case
  proof (cases "imc_flush_step ops c = Inr (False, c, [])")
    case True
    then show ?thesis using less.prems by (auto simp: imc_flush_wpq.simps [of ops c])
  next
    case False
    from imc_flush_step_owes [OF less.prems(2)] False obtain c1 calls where
      s: "imc_flush_step ops c = Inr (True, c1, calls)" "imc_answer_inv ninv c1"
        "imc_owes owes c = imc_owes owes c1 + answered calls" by blast
    have "length (queue (wpq c1)) < length (queue (wpq c))"
      using imc_flush_step_ok [OF i] s(1) by auto
    moreover have "imc_flush_wpq ops c1 (out @ calls) = Some (Inr (c', out'))"
      using less.prems(1) s(1) by (simp add: imc_flush_wpq.simps [of ops c])
    ultimately obtain calls' where "imc_answer_inv ninv c'" "out' = (out @ calls) @ calls'"
        "imc_owes owes c1 = imc_owes owes c' + answered calls'"
      using less.hyps s(2) by blast
    then show ?thesis using s(3) by (auto simp: ac_simps)
  qed
qed

lemma imc_tick_read_owes:
  assumes "imc_answer_inv ninv c" "imc_tick_read ops c = Inr c'"
  shows "imc_answer_inv ninv c' \<and> imc_owes owes c' = imc_owes owes c"
proof -
  have i: "imc_inv ninv c" using assms(1) by (simp add: imc_answer_inv_def)
  from assms(2) obtain req rest where q: "queue (rpq c) = req # rest"
    by (cases "queue (rpq c)") (auto simp: imc_tick_read_def)
  then have i': "imc_inv ninv c'" using imc_tick_read_ok [OF i] assms(2) by simp
  have n: "\<forall>n \<in> set (next_level_components c). ninv n" "mapping_ok c" using i by (simp_all add: imc_inv_def)
  from n(2) obtain a' j where g: "get_next_level (req_addr req) c = Inr (a', j)" "j < length (next_level_components c)"
    by (rule get_next_level_ok)
  have a: "a' = req_addr req" using assms(1) g(1) by (simp add: imc_answer_inv_def same_addr_def)
  have r: "small_clk (req_arrive req)" "req_type req = Base_read"
    using i assms(1) q by (simp_all add: imc_inv_def imc_answer_inv_def)
  have "ninv (next_level_components c ! j)" using n(1) g(2) by simp
  then obtain f where f: "next_full ops j c = Inr f"
    using full_ok by (auto simp: next_full_def ensures_iff)
  have c: "c\<lparr>rpq := (rpq c)\<lparr>queue := req # rest\<rparr>\<rparr> = c" "req\<lparr>req_addr := a'\<rparr> = req" using q a by simp_all
  show ?thesis
  proof (cases f)
    case True
    then have "c' = c" using assms(2) q g(1) f c by (simp add: imc_tick_read_def Let_def)
    then show ?thesis using assms(1) by simp
  next
    case False
    then have nf: "next_full ops j c = Inr False" using f by simp
    from next_issue_late [OF n(1) g(2) r(1) nf] obtain ms nc where
      m: "next_issue ops j req c = Inr (c\<lparr>next_level_components := ms\<rparr>, req, True, False, nc)"
        "length ms = length (next_level_components c)"
        "all_owe owes ms = all_owe owes (next_level_components c) +
          (if is_read_with_callback req then {#(req_callback req, req_addr req)#} else {#})" by blast
    have e: "c' = c\<lparr>next_level_components := ms, rpq := (rpq c)\<lparr>queue := rest\<rparr>\<rparr>"
      using assms(2) q g(1) nf c m(1) by (simp add: imc_tick_read_def Let_def)
    have "imc_answer_inv ninv c'"
      using i' assms(1) q e m(2) by (auto simp: imc_answer_inv_def same_addr_def get_next_level_def)
    moreover have "imc_owes owes c' = imc_owes owes c"
      using q e m(3) r(2) by (simp add: imc_owes_def is_read_with_callback_def has_callback_def ac_simps)
    ultimately show ?thesis ..
  qed
qed

lemma imc_tick_ctrl_owes:
  assumes "imc_answer_inv ninv c" "imc_tick_ctrl ops clk c = Some (Inr (c', calls))"
  shows "imc_answer_inv ninv c' \<and> imc_owes owes c = imc_owes owes c' + answered calls"
proof -
  let ?c = "c\<lparr>imc_curr_clk := clk\<rparr>"
  have i: "imc_answer_inv ninv ?c" "imc_owes owes ?c = imc_owes owes c"
    using assms(1)
    by (simp_all add: imc_answer_inv_def imc_inv_def mapping_ok_def same_addr_def get_next_level_def imc_owes_def)
  from assms(2) obtain c1 out where q: "imc_tick_queue ops ?c = Some (Inr (c1, out))"
      "(if rq_empty (wpq c1) then Some (Inr (c1, out)) else imc_adr ops c1 out) = Some (Inr (c', calls))"
    by (auto simp: imc_tick_ctrl_def split: option.splits sum.splits)
  have "imc_answer_inv ninv c1 \<and> imc_owes owes ?c = imc_owes owes c1 + answered out"
  proof (cases "imc_queue_to_tick ?c")
    case Queue_none
    then show ?thesis using q(1) i(1) by (auto simp: imc_tick_queue_def)
  next
    case Queue_read
    then have "imc_tick_read ops ?c = Inr c1" "out = []" using q(1) by (auto simp: imc_tick_queue_def ebind_eq_Inr)
    then show ?thesis using imc_tick_read_owes [OF i(1)] by simp
  next
    case Queue_write
    have wf: "rq_wf (wpq ?c)" using i(1) by (simp add: imc_answer_inv_def imc_inv_def)
    show ?thesis
    proof (cases "length (queue (wpq ?c)) = max_entries (wpq ?c)")
      case True
      then have "imc_flush_wpq ops ?c [] = Some (Inr (c1, out))"
        using q(1) Queue_write rq.full_spec [OF wf] by (simp add: imc_tick_queue_def)
      from imc_flush_wpq_owes [OF this i(1)] show ?thesis by auto
    next
      case False
      then have "c1 = ?c" "out = []"
        using q(1) Queue_write rq.full_spec [OF wf] by (simp_all add: imc_tick_queue_def)
      then show ?thesis using i(1) by simp
    qed
  qed
  moreover have "imc_answer_inv ninv c' \<and> (\<exists>calls'. calls = out @ calls' \<and> imc_owes owes c1 = imc_owes owes c' + answered calls')"
    if "imc_answer_inv ninv c1"
  proof (cases "rq_empty (wpq c1) \<or> \<not> imc_adr_due c1")
    case True
    then show ?thesis using q(2) that by (auto simp: imc_adr_def split: if_splits)
  next
    case False
    then have "imc_flush_wpq ops c1 out = Some (Inr (c', calls))" using q(2) by (simp add: imc_adr_def)
    from imc_flush_wpq_owes [OF this that] show ?thesis .
  qed
  ultimately show ?thesis using i(2) by (auto simp: ac_simps)
qed

lemma imc_answering: "answering_root (imc_ops ops) (imc_answer_inv ninv) (\<lambda>a. True) (imc_owes owes) (\<lambda>a. a)"
proof
  fix c :: "'a imc_controller" and r :: base_request and clk
  assume i: "imc_answer_inv ninv c"
  then have j: "imc_inv ninv c" by (simp add: imc_answer_inv_def)
  then have wf: "rq_wf (wpq c)" "rq_wf (rpq c)" by (simp_all add: imc_inv_def)
  note root = simulated_root.root_issue [OF imc_root j, of r] simulated_root.root_tick [OF imc_root j]
  have tick: "ensures (tick (imc_ops ops) clk c) (\<lambda>(c', calls). imc_answer_inv ninv c' \<and> imc_owes owes c = imc_owes owes c' + answered calls)"
    if s: "small_clk clk"
  proof -
    from imc_tick_ctrl_ok [OF j, of clk] obtain c1 out where c1: "imc_tick_ctrl ops clk c = Some (Inr (c1, out))" by blast
    from imc_tick_ctrl_owes [OF i c1] have k: "imc_answer_inv ninv c1" "imc_owes owes c = imc_owes owes c1 + answered out"
      by simp_all
    then have ns: "\<forall>n \<in> set (next_level_components c1). ninv n" by (simp add: imc_answer_inv_def imc_inv_def)
    from tick_list_ok [OF ns s] tick_list_owes [OF ns s] obtain ms calls where
      m: "tick_list ops clk (next_level_components c1) = Inr (ms, calls)" "length ms = length (next_level_components c1)"
        "\<forall>n \<in> set ms. ninv n" "all_owe owes (next_level_components c1) = all_owe owes ms + answered calls"
      by (auto simp: ensures_iff answered_def)
    let ?c = "c1\<lparr>next_level_components := ms\<rparr>"
    have "imc_answer_inv ninv ?c"
      using k(1) imc_inv_next [of ninv c1 ms] m(2,3) by (simp add: imc_answer_inv_def same_addr_next)
    moreover have "imc_owes owes c = imc_owes owes ?c + answered (out @ calls)"
      using k(2) m(4) by (simp add: imc_owes_def ac_simps)
    ultimately show ?thesis using c1 m(1) by (simp add: imc_ops_def imc_tick_def)
  qed
  then show "ensures (tick (imc_ops ops) clk c) (\<lambda>(c', calls). imc_answer_inv ninv c')"
    and "ensures (tick (imc_ops ops) clk c) (\<lambda>(c', calls). imc_owes owes c = imc_owes owes c' + mset (map (\<lambda>(cb, a, t). (cb, a)) calls))"
    if "small_clk clk" using that by (auto simp: answered_def elim!: ensures_mono)
  assume r: "small_clk (req_arrive r)"
  have "ensures (issue_request (imc_ops ops) c r) (\<lambda>(c', r', issued, deterministic, next_clk).
      same_addr c' \<and> (\<forall>r \<in> set (queue (wpq c')). req_type r = Base_write) \<and> (\<forall>r \<in> set (queue (rpq c')). req_type r = Base_read) \<and>
      imc_owes owes c' = imc_owes owes c + (if issued \<and> has_callback r then {#(req_callback r, req_addr r)#} else {#}))"
  proof (cases "req_type r")
    case Base_read
    from rq.enq_ensures [OF wf(2), of r] obtain ok q where
      q: "rq_enqueue r (rpq c) = Inr (ok, q)" "queue q = queue (rpq c) @ (if ok then [r] else [])" by (auto simp: ensures_iff)
    then show ?thesis using Base_read i
      by (simp add: imc_ops_def imc_issue_request_def imc_answer_inv_def same_addr_def get_next_level_def imc_owes_def)
  next
    case Base_write
    from rq.enq_ensures [OF wf(1), of r] obtain ok q where
      q: "rq_enqueue r (wpq c) = Inr (ok, q)" "queue q = queue (wpq c) @ (if ok then [r] else [])" by (auto simp: ensures_iff)
    then show ?thesis using Base_write i
      by (simp add: imc_ops_def imc_issue_request_def imc_answer_inv_def same_addr_def get_next_level_def imc_owes_def)
  qed
  then show "ensures (issue_request (imc_ops ops) c r) (\<lambda>(c', r', issued, deterministic, next_clk).
      imc_answer_inv ninv c' \<and> req_arrive r' = req_arrive r \<and> \<not> deterministic)"
    and "ensures (issue_request (imc_ops ops) c r) (\<lambda>(c', r', issued, deterministic, next_clk).
      imc_owes owes c' = imc_owes owes c + (if issued \<and> has_callback r then {#(req_callback r, req_addr r)#} else {#}))"
    using root(1) [OF TrueI r]
    by (cases "issue_request (imc_ops ops) c r"; simp add: imc_answer_inv_def split_def)+
qed

end

section \<open>The root memory controller\<close>

context answering_root
begin

lemma tick_list_answer:
  assumes "\<forall>n \<in> set ns. rinv n" "small_clk clk"
  shows "ensures (tick_list ops clk ns) (\<lambda>(ns', calls). all_owe owes ns = all_owe owes ns' + answered calls)"
  using assms(1)
proof (induction ns)
  case (Cons n ns)
  obtain n' cs where "tick ops clk n = Inr (n', cs)" "owes n = owes n' + answered cs"
    using tick_answer [of n clk] Cons.prems assms(2) by (auto simp: ensures_iff answered_def)
  moreover obtain ns' cs' where "tick_list ops clk ns = Inr (ns', cs')" "all_owe owes ns = all_owe owes ns' + answered cs'"
    using Cons by (auto simp: ensures_iff)
  ultimately show ?case by (simp add: all_owe_def)
qed (simp add: all_owe_def)

text \<open>The answers come back under the address minus the start address.\<close>

lemma rmc_answering:
  assumes "\<And>a. addr_ok a"
  shows "answering_root (rmc_ops ops) (\<lambda>c. rmc_inv rinv start c \<and> same_addr c) (\<lambda>a. start \<le> a)
    (\<lambda>c. all_owe owes (next_level_components c)) (\<lambda>a. local_addr (a - start))"
proof
  fix c :: "'n rmc_controller" and r :: base_request and clk
  assume "rmc_inv rinv start c \<and> same_addr c"
  then have i: "rmc_inv rinv start c" "same_addr c" by simp_all
  then have ns: "\<forall>m \<in> set (next_level_components c). rinv m" "mapping_ok c" "rmc_start_addr c = Some start"
    by (simp_all add: rmc_inv_def routing_inv_def)
  have "ensures (tick (rmc_ops ops) clk c) (\<lambda>(c', calls). rmc_inv rinv start c' \<and> same_addr c' \<and>
      all_owe owes (next_level_components c) = all_owe owes (next_level_components c') + answered calls)"
    if s: "small_clk clk"
    using tick_list_root [OF ns(1) s] tick_list_answer [OF ns(1) s] rmc_inv_next [OF i(1)] i(2)
    by (auto simp: rmc_ops_def routing_tick_def ensures_iff same_addr_next)
  then show "ensures (tick (rmc_ops ops) clk c) (\<lambda>(c', calls). rmc_inv rinv start c' \<and> same_addr c')"
    and "ensures (tick (rmc_ops ops) clk c) (\<lambda>(c', calls).
      all_owe owes (next_level_components c) = all_owe owes (next_level_components c') + mset (map (\<lambda>(cb, a, t). (cb, a)) calls))"
    if "small_clk clk" using that by (auto simp: answered_def elim!: ensures_mono)
  assume a: "start \<le> req_addr r" and r: "small_clk (req_arrive r)"
  from ns(2) obtain a' j where g: "get_next_level (req_addr r - start) c = Inr (a', j)" "j < length (next_level_components c)"
    by (rule get_next_level_ok)
  have a': "a' = req_addr r - start" using i(2) g(1) by (simp add: same_addr_def)
  let ?r = "r\<lparr>req_addr := a'\<rparr>"
  have n: "rinv (next_level_components c ! j)" using ns(1) g(2) by simp
  from root_issue [OF n assms, of ?r] r obtain m r' iss clk' where
    m: "issue_request ops (next_level_components c ! j) ?r = Inr (m, r', iss, False, clk')" by (auto simp: ensures_iff)
  have "owes m = owes (next_level_components c ! j) + (if iss \<and> has_callback r then {#(req_callback r, local_addr a')#} else {#})"
    using issue_answer [OF n assms, of ?r] r m by (simp add: has_callback_def)
  then have o: "all_owe owes ((next_level_components c)[j := m]) = all_owe owes (next_level_components c) +
      (if iss \<and> has_callback r then {#(req_callback r, local_addr a')#} else {#})"
    using all_owe_update_one [OF g(2), of owes m] by (simp add: ac_simps)
  have e: "issue_request (rmc_ops ops) c r =
      Inr (c\<lparr>next_level_components := (next_level_components c)[j := m]\<rparr>, r', iss, False, clk')"
    using a g(1) m ns(3)
    by (simp add: rmc_ops_def rmc_issue_request_def route_request_def next_issue_def not_less)
  show "ensures (issue_request (rmc_ops ops) c r) (\<lambda>(c', r', issued, deterministic, next_clk).
      (rmc_inv rinv start c' \<and> same_addr c') \<and> req_arrive r' = req_arrive r \<and> \<not> deterministic)"
    using simulated_root.root_issue [OF rmc_root [OF assms] i(1) a r] e i(2) by (simp add: same_addr_next)
  show "ensures (issue_request (rmc_ops ops) c r) (\<lambda>(c', r', issued, deterministic, next_clk).
      all_owe owes (next_level_components c') = all_owe owes (next_level_components c) +
        (if issued \<and> has_callback r then {#(req_callback r, local_addr (req_addr r - start))#} else {#}))"
    using e o a' by simp
qed

end

section \<open>The machine with a DDR4 memory\<close>

interpretation ddr4_reads: late_reader "ddr4_system_ops dram_skip_ops" "\<lambda>c. dram_memory_inv s 0 (ddr4_local_memory c)"
  "\<lambda>c. dram_memory_owes (ddr4_local_memory c)" for s
proof
  fix c :: "dram_memory ddr4_system_controller" and r :: base_request
  assume "dram_memory_inv s 0 (ddr4_local_memory c)"
  from dram_memory_issue_ok [OF this, of r]
  show "ensures (issue_request (ddr4_system_ops dram_skip_ops) c r) (\<lambda>(n', r', issued, deterministic, next_clk). \<not> deterministic \<and> r' = r)"
    by (auto simp: ddr4_system_ops_def ddr4_issue_request_def dram_memory_ops_def skip_failure_def ensures_iff)
qed

definition ddr4_machine :: "'m component_ops \<Rightarrow> 'm ddr4_system_controller imc_controller rmc_controller component_ops" where
  "ddr4_machine mops = rmc_ops (imc_ops (ddr4_system_ops mops))"

definition ddr4_machine_inv :: "ddr4 \<Rightarrow> addr_t \<Rightarrow> dram_memory ddr4_system_controller imc_controller rmc_controller \<Rightarrow> bool" where
  "ddr4_machine_inv s start c \<longleftrightarrow>
     rmc_inv (imc_answer_inv (\<lambda>c. dram_memory_inv s 0 (ddr4_local_memory c))) start c \<and> same_addr c"

definition ddr4_machine_owes :: "dram_memory ddr4_system_controller imc_controller rmc_controller \<Rightarrow> (callback \<times> addr_t) multiset" where
  "ddr4_machine_owes c =
     all_owe (imc_owes (\<lambda>c. dram_memory_owes (ddr4_local_memory c))) (next_level_components c)"

interpretation ddr4_root: answering_root "ddr4_machine dram_skip_ops" "ddr4_machine_inv s start" "\<lambda>a. start \<le> a"
  ddr4_machine_owes "\<lambda>a. a - start" for s start
  unfolding ddr4_machine_def ddr4_machine_inv_def [abs_def] ddr4_machine_owes_def [abs_def]
  by (rule answering_root.rmc_answering [OF ddr4_reads.imc_answering]) simp

end
