(* ===== verification/Gem5.thy ===== *)
theory Gem5
  imports Wrapper Answers
begin

text \<open>
  The memory object that connects the simulator to gem5, \<open>src/gem5/patch/vans.hh\<close> and
  \<open>src/gem5/patch/vans.cc\<close>. What it uses of gem5 is a parameter: the packets with their accessors and
  the functional memory behind \<open>access\<close>, the tick at which an event happens, and the answer of the
  peer port. An event of gem5 is scheduled (\<open>Some\<close> of its tick) or not.
\<close>

section \<open>What gem5 provides\<close>

record ('p, 'b) packet_api =
  pkt_addr :: "'p \<Rightarrow> addr_t"
  is_read_pkt :: "'p \<Rightarrow> bool"
  is_write_pkt :: "'p \<Rightarrow> bool"
  needs_response :: "'p \<Rightarrow> bool"
  is_response :: "'p \<Rightarrow> bool"
  cache_responding :: "'p \<Rightarrow> bool"
  pkt_delay :: "'p \<Rightarrow> 64 word"
  clear_delay :: "'p \<Rightarrow> 'p"
  mem_access :: "'p \<Rightarrow> 'b \<Rightarrow> 'p \<times> 'b"
  functional_access :: "'p \<Rightarrow> 'b \<Rightarrow> 'p \<times> 'b"
  try_satisfy :: "'p \<Rightarrow> 'p \<Rightarrow> 'p"

text \<open>
  What is relied on: an access turns a packet that needs a response into one, and neither it nor
  clearing the delays changes the address.
\<close>

locale packet_laws =
  fixes api :: "('p, 'b) packet_api"
  assumes access_response: "needs_response api p \<Longrightarrow> is_response api (fst (mem_access api p b))"
    and access_addr: "pkt_addr api (fst (mem_access api p b)) = pkt_addr api p"
    and clear_addr: "pkt_addr api (clear_delay api p) = pkt_addr api p"

section \<open>State\<close>

record ('p, 'b, 'n) vans_object =
  vo_wrapper :: "'n gem5_wrapper"
  vo_backing :: 'b
  reqs_in_flight :: "64 word"
  vo_reads :: "addr_t \<rightharpoonup> 'p list"
  vo_writes :: "addr_t \<rightharpoonup> 'p list"
  resp_queue :: "'p list"
  pending_del :: "'p option"
  ticks_per_clk :: "64 word"
  resp_stall :: bool
  req_stall :: bool
  send_resp_event :: "64 word option"
  tick_event :: "64 word option"

text \<open>What the object does to its surroundings.\<close>

datatype 'p gem5_action = Send_response 'p | Send_retry | Drain_done

datatype drain_state = Draining | Drained

text \<open>The constructor and \<open>init\<close>, which stops when the port is not connected; \<open>startup\<close>.\<close>

definition new_vans_object :: "'n gem5_wrapper \<Rightarrow> 'b \<Rightarrow> 64 word \<Rightarrow> ('p, 'b, 'n) vans_object" where
  "new_vans_object w b per_clk =
     \<lparr>vo_wrapper = w, vo_backing = b, reqs_in_flight = 0, vo_reads = Map.empty, vo_writes = Map.empty,
      resp_queue = [], pending_del = None, ticks_per_clk = per_clk, resp_stall = False, req_stall = False,
      send_resp_event = None, tick_event = None\<rparr>"

definition vans_init :: "bool \<Rightarrow> 'n gem5_wrapper \<Rightarrow> 'b \<Rightarrow> 64 word \<Rightarrow> vans_error + ('p, 'b, 'n) vans_object" where
  "vans_init connected w b per_clk =
     (if connected then Inr (new_vans_object w b per_clk) else Inl Exit_failure)"

definition vans_startup :: "64 word \<Rightarrow> ('p, 'b, 'n) vans_object \<Rightarrow> ('p, 'b, 'n) vans_object" where
  "vans_startup clock_edge s = s\<lparr>tick_event := Some clock_edge\<rparr>"

text \<open>The result has 32 bits.\<close>

definition num_outstanding :: "('p, 'b, 'n) vans_object \<Rightarrow> 32 word" where
  "num_outstanding s = ucast (reqs_in_flight s + of_nat (length (resp_queue s)))"

definition vans_drain :: "('p, 'b, 'n) vans_object \<Rightarrow> drain_state" where
  "vans_drain s = (if num_outstanding s \<noteq> 0 then Draining else Drained)"

definition drain_done :: "('p, 'b, 'n) vans_object \<Rightarrow> 'p gem5_action list" where
  "drain_done s = (if num_outstanding s = 0 then [Drain_done] else [])"

section \<open>Responses\<close>

text \<open>\<open>sendResponse\<close>; the peer takes the packet or not.\<close>

definition send_response ::
  "64 word \<Rightarrow> bool \<Rightarrow> ('p, 'b, 'n) vans_object \<Rightarrow> vans_error + ('p, 'b, 'n) vans_object \<times> 'p gem5_action list" where
  "send_response now accepts s =
     (if resp_stall s then Inl Assertion_failed
      else case resp_queue s of
          [] \<Rightarrow> Inl Assertion_failed
        | pkt # rest \<Rightarrow>
            if accepts
            then let s = s\<lparr>resp_queue := rest,
                   send_resp_event := (if rest \<noteq> [] \<and> send_resp_event s = None then Some now else send_resp_event s)\<rparr> in
                 Inr (s, Send_response pkt # drain_done s)
            else Inr (s\<lparr>resp_stall := True\<rparr>, []))"

definition recv_resp_retry ::
  "64 word \<Rightarrow> bool \<Rightarrow> ('p, 'b, 'n) vans_object \<Rightarrow> vans_error + ('p, 'b, 'n) vans_object \<times> 'p gem5_action list" where
  "recv_resp_retry now accepts s =
     (if \<not> resp_stall s then Inl Assertion_failed else send_response now accepts (s\<lparr>resp_stall := False\<rparr>))"

definition access_and_respond ::
  "('p, 'b) packet_api \<Rightarrow> 64 word \<Rightarrow> 'p \<Rightarrow> ('p, 'b, 'n) vans_object \<Rightarrow> vans_error + ('p, 'b, 'n) vans_object" where
  "access_and_respond api now pkt s =
     (let need_resp = needs_response api pkt; (pkt, b) = mem_access api pkt (vo_backing s); s = s\<lparr>vo_backing := b\<rparr> in
      if need_resp
      then if \<not> is_response api pkt then Inl Assertion_failed
           else let time = now + pkt_delay api pkt in
             Inr (s\<lparr>resp_queue := resp_queue s @ [clear_delay api pkt],
                 send_resp_event := (if \<not> resp_stall s \<and> send_resp_event s = None then Some time else send_resp_event s)\<rparr>)
      else Inr (s\<lparr>pending_del := Some pkt\<rparr>))"

section \<open>Requests\<close>

definition vans_read_callback :: callback where "vans_read_callback = Cb_client 0"
definition vans_write_callback :: callback where "vans_write_callback = Cb_client 1"

definition push_packet :: "addr_t \<Rightarrow> 'p \<Rightarrow> (addr_t \<rightharpoonup> 'p list) \<Rightarrow> addr_t \<rightharpoonup> 'p list" where
  "push_packet a pkt m = m(a \<mapsto> (case m a of None \<Rightarrow> [pkt] | Some q \<Rightarrow> q @ [pkt]))"

definition recv_timing_req ::
  "('p, 'b) packet_api \<Rightarrow> 'n component_ops \<Rightarrow> 64 word \<Rightarrow> 'p \<Rightarrow> ('p, 'b, 'n) vans_object
   \<Rightarrow> vans_error + bool \<times> ('p, 'b, 'n) vans_object" where
  "recv_timing_req api ops now pkt s =
     (if cache_responding api pkt then Inr (True, s\<lparr>pending_del := Some pkt\<rparr>)
      else if req_stall s then Inr (False, s)
      else let addr = pkt_addr api pkt; clk = gem5_get_clk (vo_wrapper s) in
        if is_read_pkt api pkt
        then ebind (gem5_send ops (new_base_request Base_read addr clk vans_read_callback) (vo_wrapper s)) (\<lambda>(accepted, w).
          let s = s\<lparr>vo_wrapper := w\<rparr> in
          if accepted
          then Inr (True, s\<lparr>vo_reads := push_packet addr pkt (vo_reads s), reqs_in_flight := reqs_in_flight s + 1\<rparr>)
          else Inr (False, s\<lparr>req_stall := True\<rparr>))
        else if is_write_pkt api pkt
        then ebind (gem5_send ops (new_base_request Base_write addr clk vans_write_callback) (vo_wrapper s)) (\<lambda>(accepted, w).
          let s = s\<lparr>vo_wrapper := w\<rparr> in
          if accepted
          then ebind (access_and_respond api now pkt (s\<lparr>vo_writes := push_packet addr pkt (vo_writes s)\<rparr>)) (\<lambda>s.
            Inr (True, s\<lparr>reqs_in_flight := reqs_in_flight s + 1\<rparr>))
          else Inr (False, s\<lparr>req_stall := True\<rparr>))
        else ebind (access_and_respond api now pkt s) (\<lambda>s. Inr (True, s)))"

text \<open>The two modes without timing.\<close>

definition recv_atomic ::
  "('p, 'b) packet_api \<Rightarrow> 'p \<Rightarrow> ('p, 'b, 'n) vans_object \<Rightarrow> 64 word \<times> 'p \<times> ('p, 'b, 'n) vans_object" where
  "recv_atomic api pkt s =
     (let (pkt, b) = mem_access api pkt (vo_backing s) in
      (if cache_responding api pkt then 0 else 5, pkt, s\<lparr>vo_backing := b\<rparr>))"

definition recv_functional ::
  "('p, 'b) packet_api \<Rightarrow> 'p \<Rightarrow> ('p, 'b, 'n) vans_object \<Rightarrow> 'p \<times> ('p, 'b, 'n) vans_object" where
  "recv_functional api pkt s =
     (let (pkt, b) = functional_access api pkt (vo_backing s) in
      (fold (\<lambda>r pkt. try_satisfy api pkt r) (resp_queue s) pkt, s\<lparr>vo_backing := b\<rparr>))"

section \<open>Callbacks\<close>

text \<open>Removing the first packet that waits for an address; an emptied queue is erased.\<close>

definition pop_packet :: "addr_t \<Rightarrow> (addr_t \<rightharpoonup> 'p list) \<Rightarrow> addr_t \<rightharpoonup> 'p list" where
  "pop_packet a m = m(a := (case m a of Some (p # q # qs) \<Rightarrow> Some (q # qs) | _ \<Rightarrow> None))"

definition read_complete ::
  "('p, 'b) packet_api \<Rightarrow> 64 word \<Rightarrow> addr_t \<Rightarrow> ('p, 'b, 'n) vans_object \<Rightarrow> vans_error + ('p, 'b, 'n) vans_object" where
  "read_complete api now addr s =
     (case vo_reads s addr of
        None \<Rightarrow> Inl Assertion_failed
      | Some [] \<Rightarrow> Inl Undefined_behaviour
      | Some (pkt # rest) \<Rightarrow>
          if reqs_in_flight s = 0 then Inl Assertion_failed
          else access_and_respond api now pkt
            (s\<lparr>vo_reads := pop_packet addr (vo_reads s), reqs_in_flight := reqs_in_flight s - 1\<rparr>))"

text \<open>Here nothing checks that a write waits for the address.\<close>

definition write_complete ::
  "addr_t \<Rightarrow> ('p, 'b, 'n) vans_object \<Rightarrow> vans_error + ('p, 'b, 'n) vans_object \<times> 'p gem5_action list" where
  "write_complete addr s =
     (case vo_writes s addr of
        None \<Rightarrow> Inl Undefined_behaviour
      | Some [] \<Rightarrow> Inl Undefined_behaviour
      | Some (pkt # rest) \<Rightarrow>
          if reqs_in_flight s = 0 then Inl Assertion_failed
          else let s = s\<lparr>vo_writes := pop_packet addr (vo_writes s), reqs_in_flight := reqs_in_flight s - 1\<rparr> in
            Inr (s, drain_done s))"

fun vans_calls ::
  "('p, 'b) packet_api \<Rightarrow> 64 word \<Rightarrow> call list \<Rightarrow> ('p, 'b, 'n) vans_object
   \<Rightarrow> vans_error + ('p, 'b, 'n) vans_object \<times> 'p gem5_action list" where
  "vans_calls api now [] s = Inr (s, [])"
| "vans_calls api now ((cb, addr, clk) # calls) s =
     ebind (if cb = vans_read_callback then ebind (read_complete api now addr s) (\<lambda>s. Inr (s, []))
            else if cb = vans_write_callback then write_complete addr s
            else Inr (s, [])) (\<lambda>(s, acts).
     ebind (vans_calls api now calls s) (\<lambda>(s, acts'). Inr (s, acts @ acts')))"

text \<open>\<open>tick\<close>. The event is not scheduled while it happens; scheduling it twice is refused by gem5.\<close>

definition vans_tick ::
  "('p, 'b) packet_api \<Rightarrow> 'n component_ops \<Rightarrow> 64 word \<Rightarrow> ('p, 'b, 'n) vans_object
   \<Rightarrow> vans_error + ('p, 'b, 'n) vans_object \<times> 'p gem5_action list" where
  "vans_tick api ops now s =
     ebind (gem5_tick ops (vo_wrapper s)) (\<lambda>(w, calls).
     ebind (vans_calls api now calls (s\<lparr>vo_wrapper := w\<rparr>)) (\<lambda>(s, acts).
       if tick_event s \<noteq> None then Inl Assertion_failed
       else Inr (s\<lparr>req_stall := False, tick_event := Some (now + ticks_per_clk s)\<rparr>,
              acts @ (if req_stall s then [Send_retry] else []))))"

section \<open>Runs\<close>

text \<open>
  What gem5 does to the object, at a tick: a request of the peer, the event of a response, a retry
  of the peer, the clock event. The boolean is the answer of the peer to the response.
\<close>

datatype 'p gem5_event = G_request "64 word" 'p | G_respond "64 word" bool | G_retry "64 word" bool | G_tick "64 word"

fun can_happen :: "('p, 'b, 'n) vans_object \<Rightarrow> 'p gem5_event \<Rightarrow> bool" where
  "can_happen s (G_request now pkt) = True"
| "can_happen s (G_respond now b) = (send_resp_event s \<noteq> None)"
| "can_happen s (G_retry now b) = resp_stall s"
| "can_happen s (G_tick now) = (tick_event s \<noteq> None)"

text \<open>The result of an event: the packets that it accepts, and the actions.\<close>

fun vans_do ::
  "('p, 'b) packet_api \<Rightarrow> 'n component_ops \<Rightarrow> 'p gem5_event \<Rightarrow> ('p, 'b, 'n) vans_object
   \<Rightarrow> vans_error + ('p, 'b, 'n) vans_object \<times> 'p list \<times> 'p gem5_action list" where
  "vans_do api ops (G_request now pkt) s =
     ebind (recv_timing_req api ops now pkt s) (\<lambda>(ok, s).
       Inr (s, if ok \<and> \<not> cache_responding api pkt then [pkt] else [], []))"
| "vans_do api ops (G_respond now b) s =
     ebind (send_response now b (s\<lparr>send_resp_event := None\<rparr>)) (\<lambda>(s, acts). Inr (s, [], acts))"
| "vans_do api ops (G_retry now b) s = ebind (recv_resp_retry now b s) (\<lambda>(s, acts). Inr (s, [], acts))"
| "vans_do api ops (G_tick now) s =
     ebind (vans_tick api ops now (s\<lparr>tick_event := None\<rparr>)) (\<lambda>(s, acts). Inr (s, [], acts))"

text \<open>A run; events that cannot happen are left out.\<close>

fun vans_run ::
  "('p, 'b) packet_api \<Rightarrow> 'n component_ops \<Rightarrow> 'p gem5_event list \<Rightarrow> ('p, 'b, 'n) vans_object
   \<Rightarrow> vans_error + ('p, 'b, 'n) vans_object \<times> 'p list \<times> 'p gem5_action list" where
  "vans_run api ops [] s = Inr (s, [], [])"
| "vans_run api ops (ev # evs) s =
     (if can_happen s ev
      then ebind (vans_do api ops ev s) (\<lambda>(s, accepted, acts).
        ebind (vans_run api ops evs s) (\<lambda>(s, accepted', acts'). Inr (s, accepted @ accepted', acts @ acts')))
      else vans_run api ops evs s)"

end
