(* ===== verification/Gem5_Inv.thy ===== *)
theory Gem5_Inv
  imports Gem5
begin

text \<open>
  The object of gem5 over a root that answers every request once: its tables of waiting packets are
  what the root owes, every response that can be sent has its event, and every accepted packet that
  needs a response is waiting, queued or sent.
\<close>

section \<open>Waiting packets\<close>

definition pend :: "(addr_t \<rightharpoonup> 'p list) \<Rightarrow> addr_t \<Rightarrow> 'p list" where
  "pend m a = (case m a of None \<Rightarrow> [] | Some q \<Rightarrow> q)"

definition no_empty :: "(addr_t \<rightharpoonup> 'p list) \<Rightarrow> bool" where
  "no_empty m \<longleftrightarrow> (\<forall>a. m a \<noteq> Some [])"

lemma pend_push: "pend (push_packet a p m) b = (if b = a then pend m a @ [p] else pend m b)"
  by (simp add: pend_def push_packet_def split: option.split)

lemma pend_pop: "no_empty m \<Longrightarrow> pend (pop_packet a m) b = (if b = a then tl (pend m a) else pend m b)"
  by (auto simp: pend_def pop_packet_def no_empty_def split: option.split list.split)

lemma no_empty_push: "no_empty m \<Longrightarrow> no_empty (push_packet a p m)"
  by (auto simp: no_empty_def push_packet_def split: option.splits)

lemma no_empty_pop: "no_empty m \<Longrightarrow> no_empty (pop_packet a m)"
  by (auto simp: no_empty_def pop_packet_def split: option.splits list.splits)

lemma pend_Cons: "pend m a = p # ps \<Longrightarrow> m a = Some (p # ps)"
  by (simp add: pend_def split: option.splits)

definition owed_to :: "('p, 'b, 'n) vans_object \<Rightarrow> callback \<times> addr_t \<Rightarrow> nat" where
  "owed_to s x = (if fst x = vans_read_callback then length (pend (vo_reads s) (snd x))
     else if fst x = vans_write_callback then length (pend (vo_writes s) (snd x)) else 0)"

lemma callbacks_differ: "vans_read_callback \<noteq> vans_write_callback" "vans_write_callback \<noteq> vans_read_callback"
  "vans_read_callback \<noteq> Cb_null" "vans_write_callback \<noteq> Cb_null"
  by (simp_all add: vans_read_callback_def vans_write_callback_def)

text \<open>The response event is scheduled exactly when there is something to send and the peer has not refused.\<close>

definition resp_ok :: "('p, 'b, 'n) vans_object \<Rightarrow> bool" where
  "resp_ok s \<longleftrightarrow> (send_resp_event s \<noteq> None) = (resp_queue s \<noteq> [] \<and> \<not> resp_stall s) \<and> (resp_stall s \<longrightarrow> resp_queue s \<noteq> [])"

section \<open>Responses, address by address\<close>

definition needing :: "('p, 'b) packet_api \<Rightarrow> addr_t \<Rightarrow> 'p list \<Rightarrow> nat" where
  "needing api a ps = length (filter (\<lambda>p. needs_response api p \<and> pkt_addr api p = a) ps)"

definition at_addr :: "('p, 'b) packet_api \<Rightarrow> addr_t \<Rightarrow> 'p list \<Rightarrow> nat" where
  "at_addr api a ps = length (filter (\<lambda>p. pkt_addr api p = a) ps)"

fun sent :: "'p gem5_action list \<Rightarrow> 'p list" where
  "sent [] = []"
| "sent (Send_response p # acts) = p # sent acts"
| "sent (x # acts) = sent acts"

lemma sent_append [simp]: "sent (acts @ acts') = sent acts @ sent acts'"
  by (induction acts rule: sent.induct) simp_all

lemma sent_drain_done [simp]: "sent (drain_done s) = []"
  by (simp add: drain_done_def)

lemma needing_simps [simp]:
  "needing api a [] = 0"
  "needing api a (p # ps) = (if needs_response api p \<and> pkt_addr api p = a then 1 else 0) + needing api a ps"
  "needing api a (ps @ ps') = needing api a ps + needing api a ps'"
  by (simp_all add: needing_def)

lemma at_addr_simps [simp]:
  "at_addr api a [] = 0"
  "at_addr api a (p # ps) = (if pkt_addr api p = a then 1 else 0) + at_addr api a ps"
  "at_addr api a (ps @ ps') = at_addr api a ps + at_addr api a ps'"
  by (simp_all add: at_addr_def)

definition reads_ok :: "('p, 'b) packet_api \<Rightarrow> ('p, 'b, 'n) vans_object \<Rightarrow> bool" where
  "reads_ok api s \<longleftrightarrow> no_empty (vo_reads s) \<and> no_empty (vo_writes s) \<and> (\<forall>a. \<forall>p \<in> set (pend (vo_reads s) a). pkt_addr api p = a)"

text \<open>What is still to be sent for an address.\<close>

definition to_send :: "('p, 'b) packet_api \<Rightarrow> ('p, 'b, 'n) vans_object \<Rightarrow> addr_t \<Rightarrow> nat" where
  "to_send api s a = at_addr api a (resp_queue s) + needing api a (pend (vo_reads s) a)"

text \<open>What the other fields do not change.\<close>

lemma owed_to_update [simp]:
  "owed_to (s\<lparr>vo_wrapper := x0\<rparr>) = owed_to s"
  "owed_to (s\<lparr>vo_backing := x1\<rparr>) = owed_to s"
  "owed_to (s\<lparr>reqs_in_flight := x2\<rparr>) = owed_to s"
  "owed_to (s\<lparr>resp_queue := x5\<rparr>) = owed_to s"
  "owed_to (s\<lparr>pending_del := x6\<rparr>) = owed_to s"
  "owed_to (s\<lparr>ticks_per_clk := x7\<rparr>) = owed_to s"
  "owed_to (s\<lparr>resp_stall := x8\<rparr>) = owed_to s"
  "owed_to (s\<lparr>req_stall := x9\<rparr>) = owed_to s"
  "owed_to (s\<lparr>send_resp_event := x10\<rparr>) = owed_to s"
  "owed_to (s\<lparr>tick_event := x11\<rparr>) = owed_to s"
  by (simp_all add: owed_to_def fun_eq_iff)

lemma resp_ok_update [simp]:
  "resp_ok (s\<lparr>vo_wrapper := x0\<rparr>) = resp_ok s"
  "resp_ok (s\<lparr>vo_backing := x1\<rparr>) = resp_ok s"
  "resp_ok (s\<lparr>reqs_in_flight := x2\<rparr>) = resp_ok s"
  "resp_ok (s\<lparr>vo_reads := x3\<rparr>) = resp_ok s"
  "resp_ok (s\<lparr>vo_writes := x4\<rparr>) = resp_ok s"
  "resp_ok (s\<lparr>pending_del := x6\<rparr>) = resp_ok s"
  "resp_ok (s\<lparr>ticks_per_clk := x7\<rparr>) = resp_ok s"
  "resp_ok (s\<lparr>req_stall := x9\<rparr>) = resp_ok s"
  "resp_ok (s\<lparr>tick_event := x11\<rparr>) = resp_ok s"
  by (simp_all add: resp_ok_def)

lemma reads_ok_update [simp]:
  "reads_ok api (s\<lparr>vo_wrapper := x0\<rparr>) = reads_ok api s"
  "reads_ok api (s\<lparr>vo_backing := x1\<rparr>) = reads_ok api s"
  "reads_ok api (s\<lparr>reqs_in_flight := x2\<rparr>) = reads_ok api s"
  "reads_ok api (s\<lparr>resp_queue := x5\<rparr>) = reads_ok api s"
  "reads_ok api (s\<lparr>pending_del := x6\<rparr>) = reads_ok api s"
  "reads_ok api (s\<lparr>ticks_per_clk := x7\<rparr>) = reads_ok api s"
  "reads_ok api (s\<lparr>resp_stall := x8\<rparr>) = reads_ok api s"
  "reads_ok api (s\<lparr>req_stall := x9\<rparr>) = reads_ok api s"
  "reads_ok api (s\<lparr>send_resp_event := x10\<rparr>) = reads_ok api s"
  "reads_ok api (s\<lparr>tick_event := x11\<rparr>) = reads_ok api s"
  by (simp_all add: reads_ok_def)

lemma to_send_update [simp]:
  "to_send api (s\<lparr>vo_wrapper := x0\<rparr>) = to_send api s"
  "to_send api (s\<lparr>vo_backing := x1\<rparr>) = to_send api s"
  "to_send api (s\<lparr>reqs_in_flight := x2\<rparr>) = to_send api s"
  "to_send api (s\<lparr>vo_writes := x4\<rparr>) = to_send api s"
  "to_send api (s\<lparr>pending_del := x6\<rparr>) = to_send api s"
  "to_send api (s\<lparr>ticks_per_clk := x7\<rparr>) = to_send api s"
  "to_send api (s\<lparr>resp_stall := x8\<rparr>) = to_send api s"
  "to_send api (s\<lparr>req_stall := x9\<rparr>) = to_send api s"
  "to_send api (s\<lparr>send_resp_event := x10\<rparr>) = to_send api s"
  "to_send api (s\<lparr>tick_event := x11\<rparr>) = to_send api s"
  by (simp_all add: to_send_def fun_eq_iff)

lemma owed_to_push [simp]:
  "vo_reads s = m \<Longrightarrow> owed_to (s\<lparr>vo_reads := push_packet a p m\<rparr>) x = owed_to s x + (if x = (vans_read_callback, a) then 1 else 0)"
  "vo_writes s = m \<Longrightarrow> owed_to (s\<lparr>vo_writes := push_packet a p m\<rparr>) x = owed_to s x + (if x = (vans_write_callback, a) then 1 else 0)"
  by (cases x; auto simp: owed_to_def pend_push callbacks_differ)+

context packet_laws
begin

lemma access_and_respond_ok:
  assumes "resp_ok s"
  shows "\<exists>b q e d. access_and_respond api now p s =
      Inr (s\<lparr>vo_backing := b, resp_queue := q, pending_del := d, send_resp_event := e\<rparr>) \<and>
    resp_ok (s\<lparr>vo_backing := b, resp_queue := q, pending_del := d, send_resp_event := e\<rparr>) \<and>
    (\<forall>a. at_addr api a q = at_addr api a (resp_queue s) + needing api a [p]) \<and> length q \<le> Suc (length (resp_queue s))"
proof -
  obtain p' b where m: "mem_access api p (vo_backing s) = (p', b)" by (cases "mem_access api p (vo_backing s)") auto
  have a: "pkt_addr api p' = pkt_addr api p" using access_addr [of p "vo_backing s"] m by simp
  show ?thesis
  proof (cases "needs_response api p")
    case True
    then have r: "is_response api p'" using access_response [of p "vo_backing s"] m by simp
    let ?q = "resp_queue s @ [clear_delay api p']"
    let ?e = "if \<not> resp_stall s \<and> send_resp_event s = None then Some (now + pkt_delay api p') else send_resp_event s"
    have "access_and_respond api now p s = Inr (s\<lparr>vo_backing := b, resp_queue := ?q, pending_del := pending_del s, send_resp_event := ?e\<rparr>)"
      using True r m by (simp add: access_and_respond_def Let_def)
    moreover have "resp_ok (s\<lparr>vo_backing := b, resp_queue := ?q, pending_del := pending_del s, send_resp_event := ?e\<rparr>)"
      using assms by (auto simp: resp_ok_def)
    moreover have "\<forall>a. at_addr api a ?q = at_addr api a (resp_queue s) + needing api a [p]"
      using a True clear_addr by simp
    ultimately show ?thesis by (metis length_append_singleton order_refl)
  next
    case False
    have "access_and_respond api now p s =
        Inr (s\<lparr>vo_backing := b, resp_queue := resp_queue s, pending_del := Some p', send_resp_event := send_resp_event s\<rparr>)"
      using False m by (simp add: access_and_respond_def Let_def)
    moreover have "resp_ok (s\<lparr>vo_backing := b, resp_queue := resp_queue s, pending_del := Some p', send_resp_event := send_resp_event s\<rparr>)"
      using assms by (simp add: resp_ok_def)
    ultimately show ?thesis using False
      by (intro exI [of _ b] exI [of _ "resp_queue s"] exI [of _ "send_resp_event s"] exI [of _ "Some p'"]) simp
  qed
qed

section \<open>Callbacks\<close>

lemma read_complete_ok:
  assumes "resp_ok s" "reads_ok api s" "0 < owed_to s (vans_read_callback, a)" "reqs_in_flight s \<noteq> 0"
  shows "\<exists>s'. read_complete api now a s = Inr s' \<and> resp_ok s' \<and> reads_ok api s' \<and>
    vo_wrapper s' = vo_wrapper s \<and> tick_event s' = tick_event s \<and> reqs_in_flight s' = reqs_in_flight s - 1 \<and>
    (\<forall>x. owed_to s' x = owed_to s x - (if x = (vans_read_callback, a) then 1 else 0)) \<and>
    (\<forall>b. to_send api s' b = to_send api s b) \<and> length (resp_queue s') \<le> Suc (length (resp_queue s))"
proof -
  obtain p ps where p: "pend (vo_reads s) a = p # ps"
    using assms(3) by (cases "pend (vo_reads s) a") (auto simp: owed_to_def)
  note m = pend_Cons [OF p]
  let ?s = "s\<lparr>vo_reads := pop_packet a (vo_reads s), reqs_in_flight := reqs_in_flight s - 1\<rparr>"
  have "resp_ok ?s" using assms(1) by (simp add: resp_ok_def)
  from access_and_respond_ok [OF this, of now p] obtain b q e d where
    r: "access_and_respond api now p ?s = Inr (?s\<lparr>vo_backing := b, resp_queue := q, pending_del := d, send_resp_event := e\<rparr>)"
      "resp_ok (?s\<lparr>vo_backing := b, resp_queue := q, pending_del := d, send_resp_event := e\<rparr>)"
      "\<forall>a. at_addr api a q = at_addr api a (resp_queue s) + needing api a [p]" "length q \<le> Suc (length (resp_queue s))"
    by auto
  let ?t = "?s\<lparr>vo_backing := b, resp_queue := q, pending_del := d, send_resp_event := e\<rparr>"
  have n: "no_empty (vo_reads s)" "no_empty (vo_writes s)" "\<forall>a. \<forall>p \<in> set (pend (vo_reads s) a). pkt_addr api p = a"
    using assms(2) by (simp_all add: reads_ok_def)
  note pop = pend_pop [OF n(1)]
  have "reads_ok api ?t"
    using n no_empty_pop [OF n(1)] p by (auto simp: reads_ok_def pop dest: list.set_sel(2))
  moreover have "owed_to ?t x = owed_to s x - (if x = (vans_read_callback, a) then 1 else 0)" for x
    using p by (cases x) (auto simp: owed_to_def pop)
  moreover have "pkt_addr api p = a" using n(3) p by (metis list.set_intros(1))
  then have "to_send api ?t c = to_send api s c" for c
    using p r(3) by (auto simp: to_send_def pop)
  ultimately show ?thesis
    using r(1,2,4) m assms(4) by (intro exI [of _ ?t]) (simp add: read_complete_def)
qed

lemma write_complete_ok:
  assumes "resp_ok s" "reads_ok api s" "0 < owed_to s (vans_write_callback, a)" "reqs_in_flight s \<noteq> 0"
  shows "\<exists>s' acts. write_complete a s = Inr (s', acts) \<and> sent acts = [] \<and> resp_ok s' \<and> reads_ok api s' \<and>
    vo_wrapper s' = vo_wrapper s \<and> tick_event s' = tick_event s \<and> reqs_in_flight s' = reqs_in_flight s - 1 \<and>
    (\<forall>x. owed_to s' x = owed_to s x - (if x = (vans_write_callback, a) then 1 else 0)) \<and>
    (\<forall>b. to_send api s' b = to_send api s b) \<and> resp_queue s' = resp_queue s"
proof -
  obtain p ps where p: "pend (vo_writes s) a = p # ps"
    using assms(3) by (cases "pend (vo_writes s) a") (auto simp: owed_to_def callbacks_differ)
  note m = pend_Cons [OF p]
  let ?s = "s\<lparr>vo_writes := pop_packet a (vo_writes s), reqs_in_flight := reqs_in_flight s - 1\<rparr>"
  have n: "no_empty (vo_writes s)" using assms(2) by (simp add: reads_ok_def)
  have "owed_to ?s x = owed_to s x - (if x = (vans_write_callback, a) then 1 else 0)" for x
    using p by (cases x) (auto simp: owed_to_def pend_pop [OF n] callbacks_differ)
  moreover have "reads_ok api ?s" using assms(2) no_empty_pop [OF n] by (simp add: reads_ok_def)
  moreover have "resp_ok ?s" using assms(1) by (simp add: resp_ok_def)
  moreover have "to_send api ?s b = to_send api s b" for b by (simp add: to_send_def)
  ultimately show ?thesis
    using m assms(4) by (intro exI [of _ ?s] exI [of _ "drain_done ?s"]) (simp add: write_complete_def Let_def)
qed

lemma vans_calls_ok:
  assumes "resp_ok s" "reads_ok api s" "\<forall>x. owed_to s x = count (w + answered calls) x"
    and "unat (reqs_in_flight s) = size w + length calls"
  shows "\<exists>s' acts. vans_calls api now calls s = Inr (s', acts) \<and> sent acts = [] \<and> resp_ok s' \<and> reads_ok api s' \<and>
    vo_wrapper s' = vo_wrapper s \<and> tick_event s' = tick_event s \<and> unat (reqs_in_flight s') = size w \<and>
    (\<forall>x. owed_to s' x = count w x) \<and> (\<forall>b. to_send api s' b = to_send api s b) \<and>
    length (resp_queue s') \<le> length (resp_queue s) + length calls"
  using assms
proof (induction calls arbitrary: s)
  case (Cons x calls)
  obtain cb a t where x: "x = (cb, a, t)" by (cases x) auto
  have o: "owed_to s (cb, a) = Suc (count w (cb, a) + count (answered calls) (cb, a))"
    using Cons.prems(3) x by simp
  have f: "reqs_in_flight s \<noteq> 0" using Cons.prems(4) by auto
  have cb: "cb = vans_read_callback \<or> cb = vans_write_callback" using o by (auto simp: owed_to_def split: if_splits)
  have pos: "0 < owed_to s (cb, a)" using o by simp
  have "\<exists>s1 acts. vans_calls api now [x] s = Inr (s1, acts) \<and> sent acts = [] \<and> resp_ok s1 \<and> reads_ok api s1 \<and>
      vo_wrapper s1 = vo_wrapper s \<and> tick_event s1 = tick_event s \<and> reqs_in_flight s1 = reqs_in_flight s - 1 \<and>
      (\<forall>y. owed_to s1 y = owed_to s y - (if y = (cb, a) then 1 else 0)) \<and> (\<forall>b. to_send api s1 b = to_send api s b) \<and>
      length (resp_queue s1) \<le> Suc (length (resp_queue s))"
  proof (cases "cb = vans_read_callback")
    case True
    then show ?thesis using read_complete_ok [OF Cons.prems(1,2) _ f, of a now] pos x by fastforce
  next
    case False
    then show ?thesis using write_complete_ok [OF Cons.prems(1,2) _ f, of a] cb pos x by (fastforce simp: callbacks_differ)
  qed
  then obtain s1 acts where s1: "vans_calls api now [x] s = Inr (s1, acts)" "sent acts = []" "resp_ok s1" "reads_ok api s1"
      "vo_wrapper s1 = vo_wrapper s" "tick_event s1 = tick_event s" "reqs_in_flight s1 = reqs_in_flight s - 1"
      "\<forall>y. owed_to s1 y = owed_to s y - (if y = (cb, a) then 1 else 0)" "\<forall>b. to_send api s1 b = to_send api s b"
      "length (resp_queue s1) \<le> Suc (length (resp_queue s))" by blast
  have "owed_to s1 y = count (w + answered calls) y" for y using s1(8) Cons.prems(3) x by (cases y) auto
  moreover have "unat (reqs_in_flight s1) = size w + length calls"
    using s1(7) Cons.prems(4) f by (simp add: unat_minus_one)
  ultimately obtain s2 acts' where s2: "vans_calls api now calls s1 = Inr (s2, acts')" "sent acts' = []" "resp_ok s2" "reads_ok api s2"
      "vo_wrapper s2 = vo_wrapper s1" "tick_event s2 = tick_event s1" "unat (reqs_in_flight s2) = size w"
      "\<forall>x. owed_to s2 x = count w x" "\<forall>b. to_send api s2 b = to_send api s1 b"
      "length (resp_queue s2) \<le> length (resp_queue s1) + length calls"
    using Cons.IH [OF s1(3,4)] by blast
  have "vans_calls api now (x # calls) s = ebind (vans_calls api now [x] s) (\<lambda>(s, acts).
      ebind (vans_calls api now calls s) (\<lambda>(s, acts'). Inr (s, acts @ acts')))"
    using s1(1) x by (auto simp: ebind_eq_Inr split_def)
  then show ?case using s1 s2 by simp
qed simp

end

section \<open>Runs over a root that answers every request\<close>

text \<open>The requests of the peer: aligned, and inside the range of the memory.\<close>

fun request_ok :: "('p, 'b) packet_api \<Rightarrow> (addr_t \<Rightarrow> bool) \<Rightarrow> 'p gem5_event \<Rightarrow> bool" where
  "request_ok api addr_ok (G_request now p) = (addr_ok (pkt_addr api p) \<and> pkt_addr api p mod 64 = 0)"
| "request_ok api addr_ok ev = True"

abbreviation vo_memory :: "('p, 'b, 'n) vans_object \<Rightarrow> 'n" where
  "vo_memory s \<equiv> gw_memory (vo_wrapper s)"

definition vans_inv ::
  "('p, 'b) packet_api \<Rightarrow> ('n \<Rightarrow> bool) \<Rightarrow> ('n \<Rightarrow> (callback \<times> addr_t) multiset) \<Rightarrow> nat \<Rightarrow> ('p, 'b, 'n) vans_object \<Rightarrow> bool" where
  "vans_inv api rinv owes n s \<longleftrightarrow>
     rinv (vo_memory s) \<and> unat (gw_clk (vo_wrapper s)) \<le> n \<and> (\<forall>x. owed_to s x = count (owes (vo_memory s)) x) \<and>
     reads_ok api s \<and> resp_ok s \<and> unat (reqs_in_flight s) = size (owes (vo_memory s)) \<and>
     size (owes (vo_memory s)) + length (resp_queue s) \<le> 2 * n"

text \<open>One event keeps the invariant and the balance of the responses.\<close>

definition keeps_balance ::
  "('p, 'b) packet_api \<Rightarrow> ('p, 'b, 'n) vans_object \<Rightarrow> ('p, 'b, 'n) vans_object \<Rightarrow> 'p list \<Rightarrow> 'p gem5_action list \<Rightarrow> bool" where
  "keeps_balance api s s' accepted acts \<longleftrightarrow>
     (\<forall>a. to_send api s' a + at_addr api a (sent acts) = to_send api s a + needing api a accepted)"

lemma vans_inv_weaken: "vans_inv api rinv owes n s \<Longrightarrow> n \<le> m \<Longrightarrow> vans_inv api rinv owes m s"
  by (auto simp: vans_inv_def)

locale gem5_system = packet_laws api + answering_root ops rinv addr_ok owes "\<lambda>a. a"
  for api :: "('p, 'b) packet_api" and ops :: "'n component_ops" and rinv addr_ok owes
begin

lemma send_ok:
  assumes "rinv (gw_memory w)" "addr_ok a" "a mod 64 = 0" "small_clk (gw_clk w)" "cb \<noteq> Cb_null"
  shows "\<exists>accepted m. gem5_send ops (new_base_request t a (gem5_get_clk w) cb) w = Inr (accepted, w\<lparr>gw_memory := m\<rparr>) \<and> rinv m \<and>
    owes m = owes (gw_memory w) + (if accepted then {#(cb, a)#} else {#})"
proof -
  let ?r = "new_base_request t a (gw_clk w) cb"
  have r: "addr_ok (req_addr ?r)" "small_clk (req_arrive ?r)" "has_callback ?r" "req_addr ?r = a" "req_callback ?r = cb"
    using assms(2,4,5) by (simp_all add: has_callback_def)
  from root_issue [OF assms(1) r(1,2)] issue_answer [OF assms(1) r(1,2)] r(3-5) obtain m r' iss nc where
    "issue_request ops (gw_memory w) ?r = Inr (m, r', iss, False, nc)" "rinv m"
    "owes m = owes (gw_memory w) + (if iss then {#(cb, a)#} else {#})" by (auto simp: ensures_iff)
  then show ?thesis using assms(3)
    by (intro exI [of _ iss] exI [of _ m]) (simp add: gem5_send_def gem5_get_clk_def)
qed

lemma do_request:
  assumes "vans_inv api rinv owes n s" "n < 2 ^ 31" "request_ok api addr_ok (G_request now p)"
  shows "ensures (vans_do api ops (G_request now p) s) (\<lambda>(s', accepted, acts).
    vans_inv api rinv owes (Suc n) s' \<and> keeps_balance api s s' accepted acts)"
proof -
  note i = assms(1) [unfolded vans_inv_def]
  let ?a = "pkt_addr api p" and ?w = "vo_wrapper s"
  have mem: "rinv (vo_memory s)" "addr_ok ?a" "?a mod 64 = 0" "small_clk (gw_clk ?w)" "resp_ok s" "reads_ok api s"
    using i assms(2,3) by (simp_all add: small_clk_def)
  have flight: "unat (reqs_in_flight s) < 2 ^ 32" using i assms(2) by simp
  then have suc: "unat (reqs_in_flight s + 1) = Suc (unat (reqs_in_flight s))" by (simp add: unat_word_ariths)
  consider (cached) "cache_responding api p" | (stalled) "\<not> cache_responding api p" "req_stall s"
    | (read) "\<not> cache_responding api p" "\<not> req_stall s" "is_read_pkt api p"
    | (store) "\<not> cache_responding api p" "\<not> req_stall s" "\<not> is_read_pkt api p" "is_write_pkt api p"
    | (other) "\<not> cache_responding api p" "\<not> req_stall s" "\<not> is_read_pkt api p" "\<not> is_write_pkt api p" by blast
  then show ?thesis
  proof cases
    case cached
    then show ?thesis using i
      by (simp add: recv_timing_req_def vans_inv_def keeps_balance_def)
  next
    case stalled
    then show ?thesis using vans_inv_weaken [OF assms(1), of "Suc n"]
      by (simp add: recv_timing_req_def keeps_balance_def)
  next
    case read
    from send_ok [OF mem(1-4), of vans_read_callback Base_read] obtain ok m where
      m: "gem5_send ops (new_base_request Base_read ?a (gem5_get_clk ?w) vans_read_callback) ?w = Inr (ok, ?w\<lparr>gw_memory := m\<rparr>)"
        "rinv m" "owes m = owes (vo_memory s) + (if ok then {#(vans_read_callback, ?a)#} else {#})"
      using callbacks_differ by blast
    show ?thesis
    proof (cases ok)
      case True
      let ?s = "s\<lparr>vo_wrapper := ?w\<lparr>gw_memory := m\<rparr>, vo_reads := push_packet ?a p (vo_reads s), reqs_in_flight := reqs_in_flight s + 1\<rparr>"
      have "owed_to s x = count (owes (vo_memory s)) x" for x using i by blast
      then have "owed_to ?s x = count (owes m) x" for x using m(3) True by simp
      moreover have "reads_ok api ?s" using mem(6) no_empty_push by (auto simp: reads_ok_def pend_push)
      ultimately have "vans_inv api rinv owes (Suc n) ?s"
        using i m(2,3) True suc by (simp add: vans_inv_def)
      moreover have "keeps_balance api s ?s [p] []"
        by (simp add: keeps_balance_def to_send_def pend_push)
      ultimately show ?thesis using read m(1) True by (simp add: recv_timing_req_def Let_def)
    next
      case False
      then have "vans_inv api rinv owes (Suc n) (s\<lparr>vo_wrapper := ?w\<lparr>gw_memory := m\<rparr>, req_stall := True\<rparr>)"
        using i m(2,3) by (simp add: vans_inv_def)
      then show ?thesis using read m(1) False by (simp add: recv_timing_req_def Let_def keeps_balance_def)
    qed
  next
    case store
    from send_ok [OF mem(1-4), of vans_write_callback Base_write] obtain ok m where
      m: "gem5_send ops (new_base_request Base_write ?a (gem5_get_clk ?w) vans_write_callback) ?w = Inr (ok, ?w\<lparr>gw_memory := m\<rparr>)"
        "rinv m" "owes m = owes (vo_memory s) + (if ok then {#(vans_write_callback, ?a)#} else {#})"
      using callbacks_differ by blast
    show ?thesis
    proof (cases ok)
      case True
      let ?s = "s\<lparr>vo_wrapper := ?w\<lparr>gw_memory := m\<rparr>, vo_writes := push_packet ?a p (vo_writes s)\<rparr>"
      have "resp_ok ?s" using mem(5) by (simp add: resp_ok_def)
      from access_and_respond_ok [OF this, of now p] obtain b q e d where
        r: "access_and_respond api now p ?s = Inr (?s\<lparr>vo_backing := b, resp_queue := q, pending_del := d, send_resp_event := e\<rparr>)"
          "resp_ok (?s\<lparr>vo_backing := b, resp_queue := q, pending_del := d, send_resp_event := e\<rparr>)"
          "\<forall>a. at_addr api a q = at_addr api a (resp_queue s) + needing api a [p]" "length q \<le> Suc (length (resp_queue s))"
        by auto
      let ?t = "?s\<lparr>vo_backing := b, resp_queue := q, pending_del := d, send_resp_event := e, reqs_in_flight := reqs_in_flight s + 1\<rparr>"
      have "owed_to s x = count (owes (vo_memory s)) x" for x using i by blast
      then have "owed_to ?t x = count (owes m) x" for x using m(3) True by simp
      moreover have "reads_ok api ?t" using mem(6) no_empty_push by (auto simp: reads_ok_def)
      ultimately have "vans_inv api rinv owes (Suc n) ?t"
        using i m(2,3) True suc r(2,4) by (simp add: vans_inv_def)
      moreover have "keeps_balance api s ?t [p] []"
        using r(3) by (simp add: keeps_balance_def to_send_def)
      ultimately show ?thesis using store m(1) True r(1) by (simp add: recv_timing_req_def Let_def)
    next
      case False
      then have "vans_inv api rinv owes (Suc n) (s\<lparr>vo_wrapper := ?w\<lparr>gw_memory := m\<rparr>, req_stall := True\<rparr>)"
        using i m(2,3) by (simp add: vans_inv_def)
      then show ?thesis using store m(1) False by (simp add: recv_timing_req_def Let_def keeps_balance_def)
    qed
  next
    case other
    from access_and_respond_ok [OF mem(5), of now p] obtain b q e d where
      r: "access_and_respond api now p s = Inr (s\<lparr>vo_backing := b, resp_queue := q, pending_del := d, send_resp_event := e\<rparr>)"
        "resp_ok (s\<lparr>vo_backing := b, resp_queue := q, pending_del := d, send_resp_event := e\<rparr>)"
        "\<forall>a. at_addr api a q = at_addr api a (resp_queue s) + needing api a [p]" "length q \<le> Suc (length (resp_queue s))"
      by auto
    then have "vans_inv api rinv owes (Suc n) (s\<lparr>vo_backing := b, resp_queue := q, pending_del := d, send_resp_event := e\<rparr>)"
      using i by (simp add: vans_inv_def)
    then show ?thesis using other r(1,3)
      by (simp add: recv_timing_req_def Let_def keeps_balance_def to_send_def)
  qed
qed

lemma do_send:
  assumes "vans_inv api rinv owes n s" "can_happen s ev" "(\<exists>now b. ev = G_respond now b) \<or> (\<exists>now b. ev = G_retry now b)"
  shows "ensures (vans_do api ops ev s) (\<lambda>(s', accepted, acts).
    vans_inv api rinv owes (Suc n) s' \<and> keeps_balance api s s' accepted acts)"
proof -
  note i = assms(1) [unfolded vans_inv_def]
  then have "resp_ok s" by simp
  then obtain p rest where q: "resp_queue s = p # rest"
    using assms(2,3) by (cases "resp_queue s") (auto simp: resp_ok_def)
  obtain now b where ev: "ev = G_respond now b \<or> ev = G_retry now b" using assms(3) by blast
  let ?s = "s\<lparr>send_resp_event := None, resp_stall := False\<rparr>"
  have run: "vans_do api ops ev s = ebind (send_response now b ?s) (\<lambda>(s, acts). Inr (s, [], acts))"
    using ev
  proof
    assume "ev = G_respond now b"
    moreover from this have "resp_stall s = False" using assms(2) \<open>resp_ok s\<close> by (auto simp: resp_ok_def)
    then have "s\<lparr>send_resp_event := None\<rparr> = ?s" by simp
    ultimately show ?thesis by simp
  next
    assume "ev = G_retry now b"
    moreover from this have "send_resp_event s = None" "resp_stall s" using assms(2) \<open>resp_ok s\<close> by (auto simp: resp_ok_def)
    then have "s\<lparr>resp_stall := False\<rparr> = ?s" by simp
    ultimately show ?thesis using \<open>resp_stall s\<close> by (simp add: recv_resp_retry_def)
  qed
  show ?thesis
  proof (cases b)
    case False
    have "vans_inv api rinv owes (Suc n) (s\<lparr>resp_stall := True, resp_queue := p # rest, send_resp_event := None\<rparr>)"
      using i q by (simp add: vans_inv_def resp_ok_def)
    moreover have "s\<lparr>resp_stall := True, resp_queue := p # rest, send_resp_event := None\<rparr> =
        s\<lparr>send_resp_event := None, resp_stall := True\<rparr>" using q by simp
    ultimately show ?thesis using run q False by (simp add: send_response_def keeps_balance_def)
  next
    case True
    let ?e = "if rest \<noteq> [] then Some now else None"
    have "vans_inv api rinv owes (Suc n) (s\<lparr>resp_stall := False, resp_queue := rest, send_resp_event := ?e\<rparr>)"
      using i q by (simp add: vans_inv_def resp_ok_def)
    moreover have "send_response now b ?s = Inr (s\<lparr>resp_stall := False, resp_queue := rest, send_resp_event := ?e\<rparr>,
        Send_response p # drain_done (s\<lparr>resp_stall := False, resp_queue := rest, send_resp_event := ?e\<rparr>))"
      using q True by (simp add: send_response_def Let_def)
    ultimately show ?thesis using run q by (simp add: keeps_balance_def to_send_def)
  qed
qed

lemma do_tick:
  assumes "vans_inv api rinv owes n s" "n < 2 ^ 31"
  shows "ensures (vans_do api ops (G_tick now) s) (\<lambda>(s', accepted, acts).
    vans_inv api rinv owes (Suc n) s' \<and> keeps_balance api s s' accepted acts)"
proof -
  note i = assms(1) [unfolded vans_inv_def]
  let ?w = "vo_wrapper s"
  have mem: "rinv (vo_memory s)" "small_clk (gw_clk ?w)" using i assms(2) by (simp_all add: small_clk_def)
  from root_tick [OF mem] tick_answer [OF mem] obtain m calls where
    m: "tick ops (gw_clk ?w) (vo_memory s) = Inr (m, calls)" "rinv m" "owes (vo_memory s) = owes m + answered calls"
    by (auto simp: ensures_iff answered_def)
  let ?v = "?w\<lparr>gw_memory := m, gw_clk := gw_clk ?w + 1\<rparr>"
  let ?s = "s\<lparr>tick_event := None, vo_wrapper := ?v\<rparr>"
  have "size (owes (vo_memory s)) = size (owes m) + length calls" using m(3) by (simp add: answered_def)
  then have "unat (reqs_in_flight ?s) = size (owes m) + length calls" using i by simp
  moreover have "owed_to ?s x = count (owes m + answered calls) x" for x
  proof -
    have "owed_to s x = count (owes (vo_memory s)) x" using i by blast
    then show ?thesis using m(3) by simp
  qed
  moreover have "resp_ok ?s" "reads_ok api ?s" using i by simp_all
  ultimately obtain s' acts where s': "vans_calls api now calls ?s = Inr (s', acts)" "sent acts = []" "resp_ok s'" "reads_ok api s'"
      "vo_wrapper s' = ?v" "tick_event s' = None" "unat (reqs_in_flight s') = size (owes m)"
      "\<forall>x. owed_to s' x = count (owes m) x" "\<forall>b. to_send api s' b = to_send api ?s b"
      "length (resp_queue s') \<le> length (resp_queue s) + length calls"
    using vans_calls_ok [of ?s "owes m" calls now] by auto
  let ?t = "s'\<lparr>req_stall := False, tick_event := Some (now + ticks_per_clk s')\<rparr>"
  have "unat (gw_clk ?w + 1) \<le> Suc n" using i assms(2) by (simp add: unat_word_ariths)
  then have "vans_inv api rinv owes (Suc n) ?t"
    using s'(3-5,7,8,10) m(2) i \<open>size (owes (vo_memory s)) = size (owes m) + length calls\<close>
    by (simp add: vans_inv_def)
  moreover have "keeps_balance api s ?t [] (acts @ (if req_stall s' then [Send_retry] else []))"
    using s'(2,9) by (simp add: keeps_balance_def)
  ultimately show ?thesis
    using m(1) s'(1,6) by (simp add: vans_tick_def gem5_tick_def)
qed

lemma do_ok:
  assumes "vans_inv api rinv owes n s" "n < 2 ^ 31" "request_ok api addr_ok ev" "can_happen s ev"
  shows "ensures (vans_do api ops ev s) (\<lambda>(s', accepted, acts).
    vans_inv api rinv owes (Suc n) s' \<and> keeps_balance api s s' accepted acts)"
proof (cases ev)
  case (G_request now p)
  then show ?thesis using do_request [OF assms(1,2), of now p] assms(3) by simp
next
  case (G_tick now)
  then show ?thesis using do_tick [OF assms(1,2)] by simp
qed (use do_send [OF assms(1,4)] in blast)+

lemma run_ok:
  assumes "vans_inv api rinv owes n s" "n + length evs \<le> 2 ^ 31" "list_all (request_ok api addr_ok) evs"
  shows "ensures (vans_run api ops evs s) (\<lambda>(s', accepted, acts).
    vans_inv api rinv owes (n + length evs) s' \<and> keeps_balance api s s' accepted acts)"
  using assms
proof (induction evs arbitrary: n s)
  case Nil
  then show ?case by (simp add: keeps_balance_def)
next
  case (Cons ev evs)
  show ?case
  proof (cases "can_happen s ev")
    case True
    from do_ok [OF Cons.prems(1) _ _ True] Cons.prems(2,3) obtain s1 accepted acts where
      s1: "vans_do api ops ev s = Inr (s1, accepted, acts)" "vans_inv api rinv owes (Suc n) s1" "keeps_balance api s s1 accepted acts"
      by (auto simp: ensures_iff)
    have "Suc n + length evs \<le> 2 ^ 31" "list_all (request_ok api addr_ok) evs" using Cons.prems(2,3) by simp_all
    from Cons.IH [OF s1(2) this] obtain s2 accepted' acts' where
      s2: "vans_run api ops evs s1 = Inr (s2, accepted', acts')" "vans_inv api rinv owes (Suc n + length evs) s2"
        "keeps_balance api s1 s2 accepted' acts'" by (auto simp: ensures_iff)
    have "keeps_balance api s s2 (accepted @ accepted') (acts @ acts')"
      unfolding keeps_balance_def
    proof
      fix a
      show "to_send api s2 a + at_addr api a (sent (acts @ acts')) = to_send api s a + needing api a (accepted @ accepted')"
        using s1(3) [unfolded keeps_balance_def, THEN spec, of a] s2(3) [unfolded keeps_balance_def, THEN spec, of a] by simp
    qed
    then show ?thesis using True s1(1) s2(1,2) by simp
  next
    case False
    have "Suc n + length evs \<le> 2 ^ 31" "list_all (request_ok api addr_ok) evs" using Cons.prems(2,3) by simp_all
    from Cons.IH [OF vans_inv_weaken [OF Cons.prems(1), of "Suc n"] this] False show ?thesis by simp
  qed
qed

text \<open>\<open>drain\<close> of the object tells whether anything is on its way.\<close>

lemma drained_iff:
  assumes "vans_inv api rinv owes n s" "n < 2 ^ 31"
  shows "vans_drain s = Drained \<longleftrightarrow> owes (vo_memory s) = {#} \<and> resp_queue s = []"
proof -
  note i = assms(1) [unfolded vans_inv_def]
  let ?x = "reqs_in_flight s + of_nat (length (resp_queue s))"
  have l: "size (owes (vo_memory s)) + length (resp_queue s) < 2 ^ 32" using i assms(2) by simp
  then have "unat (of_nat (length (resp_queue s)) :: 64 word) = length (resp_queue s)" by (intro unat_of_nat64) simp
  then have u: "unat ?x = size (owes (vo_memory s)) + length (resp_queue s)"
    using i l by (simp add: unat_word_ariths)
  then have "unat (num_outstanding s) = unat ?x"
    using l by (simp add: num_outstanding_def unsigned_ucast_eq take_bit_eq_mod)
  then have "num_outstanding s = 0 \<longleftrightarrow> size (owes (vo_memory s)) + length (resp_queue s) = 0"
    using u by (metis unat_0 unat_eq_zero)
  then show ?thesis by (simp add: vans_drain_def)
qed

end

section \<open>A root that answers under other addresses\<close>

text \<open>The object either fails at the first answer, or has had none.\<close>

definition unanswered ::
  "('p, 'b) packet_api \<Rightarrow> ('n \<Rightarrow> (callback \<times> addr_t) multiset) \<Rightarrow> ('p, 'b, 'n) vans_object \<Rightarrow>
   ('p, 'b, 'n) vans_object \<Rightarrow> 'p list \<Rightarrow> bool" where
  "unanswered api owes s s' accepted \<longleftrightarrow> size (owes (vo_memory s')) =
     size (owes (vo_memory s)) + length (filter (\<lambda>p. is_read_pkt api p \<or> is_write_pkt api p) accepted)"

definition fails_or :: "vans_error + 'x \<Rightarrow> ('x \<Rightarrow> bool) \<Rightarrow> bool" where
  "fails_or m P \<longleftrightarrow> (case m of Inl e \<Rightarrow> e = Assertion_failed \<or> e = Undefined_behaviour | Inr x \<Rightarrow> P x)"

lemma fails_or_simps [simp]:
  "fails_or (Inl e) P = (e = Assertion_failed \<or> e = Undefined_behaviour)" "fails_or (Inr x) P = P x"
  "fails_or (ebind m f) P = fails_or m (\<lambda>x. fails_or (f x) P)"
  by (simp_all add: fails_or_def) (cases m; simp)

lemma fails_or_mono: "fails_or m P \<Longrightarrow> (\<And>x. P x \<Longrightarrow> Q x) \<Longrightarrow> fails_or m Q"
  by (cases m) auto

text \<open>
  The addresses in the range of the memory are never those under which the root answers, as with a
  start address that is not 0.
\<close>

locale gem5_shifted = answering_root ops rinv addr_ok owes local_addr
  for ops :: "'n component_ops" and rinv addr_ok owes local_addr +
  fixes in_range :: "addr_t \<Rightarrow> bool"
  assumes range_ok: "in_range a \<Longrightarrow> addr_ok a"
    and apart: "in_range a \<Longrightarrow> in_range a' \<Longrightarrow> local_addr a \<noteq> a'"
begin

definition shifted_inv :: "nat \<Rightarrow> ('p, 'b, 'n) vans_object \<Rightarrow> bool" where
  "shifted_inv n s \<longleftrightarrow>
     rinv (vo_memory s) \<and> unat (gw_clk (vo_wrapper s)) \<le> n \<and>
     (\<forall>(cb, a) \<in># owes (vo_memory s). (cb = vans_read_callback \<or> cb = vans_write_callback) \<and> (\<exists>b. in_range b \<and> a = local_addr b)) \<and>
     (\<forall>a. \<not> in_range a \<longrightarrow> vo_reads s a = None \<and> vo_writes s a = None)"

lemma send_shifted:
  assumes "shifted_inv n s" "n < 2 ^ 31" "in_range a" "a mod 64 = 0" "cb = vans_read_callback \<or> cb = vans_write_callback"
  shows "\<exists>accepted m. gem5_send ops (new_base_request t a (gem5_get_clk (vo_wrapper s)) cb) (vo_wrapper s) =
      Inr (accepted, (vo_wrapper s)\<lparr>gw_memory := m\<rparr>) \<and> rinv m \<and>
    owes m = owes (vo_memory s) + (if accepted then {#(cb, local_addr a)#} else {#})"
proof -
  let ?w = "vo_wrapper s"
  let ?r = "new_base_request t a (gw_clk ?w) cb"
  have i: "rinv (gw_memory ?w)" "small_clk (gw_clk ?w)" using assms(1,2) by (simp_all add: shifted_inv_def small_clk_def)
  have r: "addr_ok (req_addr ?r)" "small_clk (req_arrive ?r)" "has_callback ?r"
    using range_ok [OF assms(3)] i(2) assms(5) callbacks_differ by (auto simp: has_callback_def)
  from root_issue [OF i(1) r(1,2)] issue_answer [OF i(1) r(1,2)] r(3) obtain m r' iss nc where
    "issue_request ops (gw_memory ?w) ?r = Inr (m, r', iss, False, nc)" "rinv m"
    "owes m = owes (gw_memory ?w) + (if iss then {#(cb, local_addr a)#} else {#})" by (auto simp: ensures_iff)
  then show ?thesis using assms(4)
    by (intro exI [of _ iss] exI [of _ m]) (simp add: gem5_send_def gem5_get_clk_def)
qed

lemma respond_shifted:
  "fails_or (access_and_respond api now p s) (\<lambda>s'. vo_wrapper s' = vo_wrapper s \<and> vo_reads s' = vo_reads s \<and> vo_writes s' = vo_writes s)"
  by (auto simp: access_and_respond_def Let_def split_def)

lemma push_range: "(\<forall>a. \<not> in_range a \<longrightarrow> m a = None) \<Longrightarrow> in_range b \<Longrightarrow> \<not> in_range a \<Longrightarrow> push_packet b p m a = None"
  by (auto simp: push_packet_def)

lemma request_shifted:
  assumes "shifted_inv n s" "n < 2 ^ 31" "request_ok api in_range (G_request now p)"
  shows "fails_or (vans_do api ops (G_request now p) s) (\<lambda>(s', accepted, acts). shifted_inv (Suc n) s' \<and> unanswered api owes s s' accepted)"
proof -
  let ?a = "pkt_addr api p" and ?w = "vo_wrapper s"
  note i = assms(1) [unfolded shifted_inv_def]
  have a: "in_range ?a" "?a mod 64 = 0" using assms(3) by simp_all
  note send = send_shifted [OF assms(1,2) a]
  consider (keep) "cache_responding api p \<or> req_stall s" | (rd) "\<not> cache_responding api p" "\<not> req_stall s" "is_read_pkt api p"
    | (wr) "\<not> cache_responding api p" "\<not> req_stall s" "\<not> is_read_pkt api p" "is_write_pkt api p"
    | (other) "\<not> cache_responding api p" "\<not> req_stall s" "\<not> is_read_pkt api p" "\<not> is_write_pkt api p" by blast
  then show ?thesis
  proof cases
    case keep
    then show ?thesis using i by (auto simp: recv_timing_req_def shifted_inv_def unanswered_def)
  next
    case rd
    from send [of vans_read_callback Base_read] obtain ok m where
      m: "gem5_send ops (new_base_request Base_read ?a (gem5_get_clk ?w) vans_read_callback) ?w = Inr (ok, ?w\<lparr>gw_memory := m\<rparr>)"
        "rinv m" "owes m = owes (vo_memory s) + (if ok then {#(vans_read_callback, local_addr ?a)#} else {#})" by auto
    show ?thesis
      using rd m i a(1) push_range [of "vo_reads s" ?a]
      by (cases ok) (auto simp: recv_timing_req_def Let_def shifted_inv_def unanswered_def)
  next
    case wr
    from send [of vans_write_callback Base_write] obtain ok m where
      m: "gem5_send ops (new_base_request Base_write ?a (gem5_get_clk ?w) vans_write_callback) ?w = Inr (ok, ?w\<lparr>gw_memory := m\<rparr>)"
        "rinv m" "owes m = owes (vo_memory s) + (if ok then {#(vans_write_callback, local_addr ?a)#} else {#})" by auto
    show ?thesis
    proof (cases ok)
      case True
      let ?s = "s\<lparr>vo_wrapper := ?w\<lparr>gw_memory := m\<rparr>, vo_writes := push_packet ?a p (vo_writes s)\<rparr>"
      have "shifted_inv (Suc n) (t\<lparr>reqs_in_flight := f\<rparr>) \<and> unanswered api owes s (t\<lparr>reqs_in_flight := f\<rparr>) [p]"
        if "vo_wrapper t = vo_wrapper ?s \<and> vo_reads t = vo_reads ?s \<and> vo_writes t = vo_writes ?s" for t f
        using that m(2,3) True i a(1) push_range [of "vo_writes s" ?a] wr(4)
        by (auto simp: shifted_inv_def unanswered_def)
      then show ?thesis using wr m(1) True respond_shifted [of api now p ?s]
        by (auto simp: recv_timing_req_def Let_def elim!: fails_or_mono)
    next
      case False
      then show ?thesis using wr m i
        by (auto simp: recv_timing_req_def Let_def shifted_inv_def unanswered_def)
    qed
  next
    case other
    have "shifted_inv (Suc n) t \<and> unanswered api owes s t [p]"
      if "vo_wrapper t = vo_wrapper s \<and> vo_reads t = vo_reads s \<and> vo_writes t = vo_writes s" for t
      using that i other(3,4) by (auto simp: shifted_inv_def unanswered_def)
    then show ?thesis using other respond_shifted [of api now p s]
      by (auto simp: recv_timing_req_def Let_def elim!: fails_or_mono)
  qed
qed

lemma tick_shifted:
  assumes "shifted_inv n s" "n < 2 ^ 31"
  shows "fails_or (vans_do api ops (G_tick now) s) (\<lambda>(s', accepted, acts). shifted_inv (Suc n) s' \<and> unanswered api owes s s' accepted)"
proof -
  note i = assms(1) [unfolded shifted_inv_def]
  let ?w = "vo_wrapper s"
  have mem: "rinv (vo_memory s)" "small_clk (gw_clk ?w)" using i assms(2) by (simp_all add: small_clk_def)
  from root_tick [OF mem] tick_answer [OF mem] obtain m calls where
    m: "tick ops (gw_clk ?w) (vo_memory s) = Inr (m, calls)" "rinv m" "owes (vo_memory s) = owes m + answered calls"
    by (auto simp: ensures_iff answered_def)
  show ?thesis
  proof (cases calls)
    case Nil
    have "unat (gw_clk ?w + 1) \<le> Suc n" using i assms(2) by (simp add: unat_word_ariths)
    then show ?thesis using Nil m i
      by (auto simp: vans_tick_def gem5_tick_def shifted_inv_def unanswered_def)
  next
    case (Cons x cs)
    obtain cb a t where x: "x = (cb, a, t)" by (cases x) auto
    have "(cb, a) \<in># owes (vo_memory s)" using m(3) Cons x by simp
    then obtain b where b: "cb = vans_read_callback \<or> cb = vans_write_callback" "in_range b" "a = local_addr b" using i by auto
    then have "\<not> in_range a" using apart by blast
    then have "vo_reads s a = None" "vo_writes s a = None" using i by blast+
    then show ?thesis using b(1) m(1) Cons x callbacks_differ
      by (auto simp: vans_tick_def gem5_tick_def read_complete_def write_complete_def)
  qed
qed

lemma do_shifted:
  assumes "shifted_inv n s" "n < 2 ^ 31" "request_ok api in_range ev"
  shows "fails_or (vans_do api ops ev s) (\<lambda>(s', accepted, acts). shifted_inv (Suc n) s' \<and> unanswered api owes s s' accepted)"
proof (cases ev)
  case (G_request now p)
  then show ?thesis using request_shifted [OF assms(1,2), of api now p] assms(3) by simp
next
  case (G_tick now)
  then show ?thesis using tick_shifted [OF assms(1,2)] by simp
next
  case (G_respond now b)
  then show ?thesis using assms(1)
    by (auto simp: send_response_def Let_def shifted_inv_def unanswered_def split: list.split)
next
  case (G_retry now b)
  then show ?thesis using assms(1)
    by (auto simp: recv_resp_retry_def send_response_def Let_def shifted_inv_def unanswered_def split: list.split)
qed

lemma run_shifted:
  assumes "shifted_inv n s" "n + length evs \<le> 2 ^ 31" "list_all (request_ok api in_range) evs"
  shows "fails_or (vans_run api ops evs s) (\<lambda>(s', accepted, acts). unanswered api owes s s' accepted)"
  using assms
proof (induction evs arbitrary: n s)
  case Nil
  then show ?case by (simp add: unanswered_def)
next
  case (Cons ev evs)
  have l: "Suc n + length evs \<le> 2 ^ 31" "list_all (request_ok api in_range) evs" using Cons.prems(2,3) by simp_all
  have w: "shifted_inv (Suc n) s" using Cons.prems(1) by (simp add: shifted_inv_def)
  have d: "fails_or (vans_do api ops ev s) (\<lambda>(s', accepted, acts). shifted_inv (Suc n) s' \<and> unanswered api owes s s' accepted)"
    using Cons.prems by (intro do_shifted) simp_all
  show ?case
  proof (cases "can_happen s ev")
    case True
    have "fails_or (vans_run api ops evs s1) (\<lambda>(s', accepted', acts'). unanswered api owes s s' (accepted @ accepted'))"
      if "shifted_inv (Suc n) s1" "unanswered api owes s s1 accepted" for s1 accepted
      using that(2) by (intro fails_or_mono [OF Cons.IH [OF that(1) l]]) (auto simp: unanswered_def)
    then show ?thesis using True d by (auto simp: split_def elim!: fails_or_mono)
  next
    case False
    then show ?thesis using Cons.IH [OF w l] by simp
  qed
qed

end

end
