(* ===== verification/Gem5_Props.thy ===== *)
theory Gem5_Props
  imports Gem5_Inv Dram_Props
begin

text \<open>
  Properties of the memory object of gem5, over any root with the contract of \<open>Answers\<close> and on the
  machine of \<open>config/gem5_lo_memory.cfg\<close>, with a small DDR4 memory.
\<close>

section \<open>An instance of the packets\<close>

record flat_packet =
  fp_addr :: addr_t
  fp_write :: bool
  fp_needs :: bool
  fp_response :: bool

definition flat_api :: "(flat_packet, nat) packet_api" where
  "flat_api = \<lparr>pkt_addr = fp_addr, is_read_pkt = (\<lambda>p. \<not> fp_write p), is_write_pkt = fp_write, needs_response = fp_needs,
     is_response = fp_response, cache_responding = (\<lambda>p. False), pkt_delay = (\<lambda>p. 10), clear_delay = (\<lambda>p. p),
     mem_access = (\<lambda>p b. (p\<lparr>fp_response := fp_needs p\<rparr>, Suc b)), functional_access = (\<lambda>p b. (p, b)),
     try_satisfy = (\<lambda>p r. p)\<rparr>"

definition flat_pkt :: "bool \<Rightarrow> addr_t \<Rightarrow> flat_packet" where
  "flat_pkt w a = \<lparr>fp_addr = a, fp_write = w, fp_needs = True, fp_response = False\<rparr>"

interpretation flat: packet_laws flat_api
  by unfold_locales (simp_all add: flat_api_def)

interpretation gem5_ddr4: gem5_system flat_api "ddr4_machine dram_skip_ops" "ddr4_machine_inv s 0" "\<lambda>a. 0 \<le> a"
  ddr4_machine_owes for s
  by (rule gem5_system.intro [OF flat.packet_laws_axioms]) (use ddr4_root.answering_root_axioms [of s 0] in simp)

definition small_machine :: "addr_t \<Rightarrow> nat \<Rightarrow> dram_memory ddr4_system_controller imc_controller rmc_controller" where
  "small_machine start wpq_entries = connect_next
     (connect_next small_system (new_imc_controller stride_mapping_4096 wpq_entries 4 10))
     (new_rmc_controller none_mapping (Some start))"

lemma small_machine_inv: "ddr4_machine_inv (small_ddr4 1) start (small_machine start k)" "ddr4_machine_owes (small_machine start k) = {#}"
proof -
  let ?i = "connect_next small_system (new_imc_controller stride_mapping_4096 k 4 10)"
  have "mapping_ok ?i" "same_addr ?i"
    by (rule mapping_ok_stride same_addr_stride; simp add: connect_next_def new_imc_controller_def)+
  then have "imc_answer_inv (\<lambda>c. dram_memory_inv (small_ddr4 1) 0 (ddr4_local_memory c)) ?i"
    using small_memory_inv
    by (simp add: imc_answer_inv_def imc_inv_def connect_next_def new_imc_controller_def new_request_queue_def rq_wf_def)
  moreover have "mapping_ok (small_machine start k)" "same_addr (small_machine start k)"
    by (rule mapping_ok_none same_addr_none; simp add: small_machine_def connect_next_def new_rmc_controller_def)+
  ultimately show "ddr4_machine_inv (small_ddr4 1) start (small_machine start k)"
    by (simp add: ddr4_machine_inv_def rmc_inv_def routing_inv_def small_machine_def connect_next_def new_rmc_controller_def)
  show "ddr4_machine_owes (small_machine start k) = {#}"
    using small_memory_inv
    by (simp add: ddr4_machine_owes_def all_owe_def imc_owes_def small_machine_def connect_next_def new_rmc_controller_def
        new_imc_controller_def new_request_queue_def)
qed

definition gem5_start :: "'n \<Rightarrow> 'b \<Rightarrow> ('p, 'b, 'n) vans_object" where
  "gem5_start m b = vans_startup 0 (new_vans_object (new_gem5_wrapper 0 m) b 750)"

lemma gem5_start_memory [simp]: "gw_memory (vo_wrapper (gem5_start m b)) = m"
  by (simp add: gem5_start_def vans_startup_def new_vans_object_def new_gem5_wrapper_def)

section \<open>A memory that answers under the addresses of the requests\<close>

text \<open>C12: The gem5 memory object over any root that answers each request once never fails an assertion, in
  any order of requests, ticks, responses and retries. Of the accepted packets that need a response,
  each has one, sent or queued, or is a read that waits for the simulator; a response event is
  scheduled exactly when there is something to send and the peer has not refused; and \<open>drain\<close>
  says that all is done exactly when neither the simulator nor the queue has anything left.\<close>

theorem gem5_answers_once:
  assumes "packet_laws api" "answering_root ops rinv addr_ok owes (\<lambda>a. a)" "rinv m" "owes m = {#}"
    and "list_all (request_ok api addr_ok) evs" "length evs < 2 ^ 31"
  shows "ensures (vans_run api ops evs (gem5_start m b)) (\<lambda>(s, accepted, acts).
    (\<forall>a. needing api a accepted = at_addr api a (sent acts) + at_addr api a (resp_queue s) + needing api a (pend (vo_reads s) a)) \<and>
    (send_resp_event s \<noteq> None) = (resp_queue s \<noteq> [] \<and> \<not> resp_stall s) \<and>
    (vans_drain s = Drained \<longleftrightarrow> owes (gw_memory (vo_wrapper s)) = {#} \<and> resp_queue s = []))"
proof -
  have sys: "gem5_system api ops rinv addr_ok owes" by (rule gem5_system.intro [OF assms(1,2)])
  have start: "vans_inv api rinv owes 0 (gem5_start m b)" "to_send api (gem5_start m b) a = 0" for a
    using assms(3,4)
    by (simp_all add: gem5_start_def vans_startup_def new_vans_object_def new_gem5_wrapper_def vans_inv_def owed_to_def pend_def
        reads_ok_def no_empty_def resp_ok_def to_send_def)
  have "0 + length evs \<le> 2 ^ 31" using assms(6) by simp
  from gem5_system.run_ok [OF sys start(1) this assms(5)] show ?thesis
  proof (rule ensures_mono, clarify)
    fix s accepted and acts :: "'a gem5_action list"
    assume i: "vans_inv api rinv owes (0 + length evs) s" and k: "keeps_balance api (gem5_start m b) s accepted acts"
    have "vans_drain s = Drained \<longleftrightarrow> owes (gw_memory (vo_wrapper s)) = {#} \<and> resp_queue s = []"
      using gem5_system.drained_iff [OF sys i] assms(6) by simp
    moreover have "resp_ok s" using i by (simp add: vans_inv_def)
    moreover have "needing api a accepted =
        at_addr api a (sent acts) + at_addr api a (resp_queue s) + needing api a (pend (vo_reads s) a)" for a
      using k [unfolded keeps_balance_def, THEN spec, of a] start(2) [of a] by (simp add: to_send_def)
    ultimately show "(\<forall>a. needing api a accepted =
          at_addr api a (sent acts) + at_addr api a (resp_queue s) + needing api a (pend (vo_reads s) a)) \<and>
        (send_resp_event s \<noteq> None) = (resp_queue s \<noteq> [] \<and> \<not> resp_stall s) \<and>
        (vans_drain s = Drained) = (owes (gw_memory (vo_wrapper s)) = {#} \<and> resp_queue s = [])"
      by (auto simp: resp_ok_def)
  qed
qed

theorem gem5_answers_once_witness:
  "ensures (vans_run flat_api (ddr4_machine dram_skip_ops)
      [G_request 0 (flat_pkt True 64), G_respond 10 False, G_request 20 (flat_pkt False 64), G_tick 750, G_retry 760 True, G_tick 1500]
      (gem5_start (small_machine 0 4) (0 :: nat))) (\<lambda>(s, accepted, acts).
    needing flat_api 64 accepted = at_addr flat_api 64 (sent acts) + at_addr flat_api 64 (resp_queue s) + needing flat_api 64 (pend (vo_reads s) 64))"
  by (rule ensures_mono [OF gem5_answers_once [OF flat.packet_laws_axioms gem5_ddr4.answering_root_axioms small_machine_inv]])
    (auto simp: flat_api_def flat_pkt_def)

section \<open>A memory with a start address\<close>

text \<open>C35: A root that answers under an address that no request of its range has, such as a root memory
  controller with a start address that is not 0, over the integrated controller and DDR4 system of \<open>config/gem5_lo_memory.cfg\<close>, for
  the addresses up to twice that address, brings the gem5 object down with its first answer: a run in which the simulator answers anything
  ends in a failed assertion or in undefined behaviour, so that no read or write is ever completed.\<close>

theorem gem5_start_address_fails:
  assumes "answering_root ops rinv addr_ok owes local_addr" "rinv m" "owes m = {#}"
    and "\<forall>a. in_range a \<longrightarrow> addr_ok a" "\<forall>a a'. in_range a \<longrightarrow> in_range a' \<longrightarrow> local_addr a \<noteq> a'"
    and "list_all (request_ok api in_range) evs" "length evs < 2 ^ 31"
  shows "case vans_run api ops evs (gem5_start m b) of
      Inl e \<Rightarrow> e = Assertion_failed \<or> e = Undefined_behaviour
    | Inr (s, accepted, acts) \<Rightarrow> size (owes (gw_memory (vo_wrapper s))) =
        length (filter (\<lambda>p. is_read_pkt api p \<or> is_write_pkt api p) accepted)"
proof -
  have sys: "gem5_shifted ops rinv addr_ok owes local_addr in_range"
    using assms(4,5) by (intro gem5_shifted.intro [OF assms(1)] gem5_shifted_axioms.intro) blast+
  have start: "gem5_shifted.shifted_inv rinv owes local_addr in_range 0 (gem5_start m b)"
    using assms(2,3) unfolding gem5_shifted.shifted_inv_def [OF sys]
    by (simp add: gem5_start_def vans_startup_def new_vans_object_def new_gem5_wrapper_def)
  have "0 + length evs \<le> 2 ^ 31" using assms(7) by simp
  from gem5_shifted.run_shifted [OF sys start this assms(6)] show ?thesis
    using assms(3) by (auto simp: fails_or_def unanswered_def split: sum.splits)
qed

declare imc_flush_wpq.simps [code]

definition hi_run :: "flat_packet gem5_event list" where
  "hi_run = [G_request 0 (flat_pkt True 0x100000040), G_tick 750]"

theorem gem5_start_address_fails_witness:
  "\<exists>e. vans_run flat_api (ddr4_machine dram_skip_ops) hi_run (gem5_start (small_machine 0x100000000 1) (0 :: nat)) = Inl e \<and>
     (e = Assertion_failed \<or> e = Undefined_behaviour)"
proof -
  let ?s = "0x100000000 :: addr_t"
  let ?in_range = "\<lambda>a. ?s \<le> a \<and> a < 0x200000000"
  have "a - ?s \<noteq> a'" if "?in_range a" "?in_range a'" for a a'
    using that by (auto simp: word_le_nat_alt word_less_nat_alt unat_sub)
  then have r: "\<forall>a. ?in_range a \<longrightarrow> ?s \<le> a" "\<forall>a a'. ?in_range a \<longrightarrow> ?in_range a' \<longrightarrow> a - ?s \<noteq> a'" by blast+
  have "list_all (request_ok flat_api ?in_range) hi_run" "length hi_run < 2 ^ 31"
    by (simp_all add: hi_run_def flat_api_def flat_pkt_def)
  note run = gem5_start_address_fails [OF ddr4_root.answering_root_axioms small_machine_inv r this, of 1 "0 :: nat"]
  have "case vans_run flat_api (ddr4_machine dram_skip_ops) hi_run (gem5_start (small_machine 0x100000000 1) (0 :: nat)) of
      Inl e \<Rightarrow> True | Inr x \<Rightarrow> False" by code_simp
  then show ?thesis using run by (auto split: sum.splits)
qed

end
