(* ===== verification/Ddr4_Text.thy ===== *)
theory Ddr4_Text
  imports Dram_Memory Text_Input
begin

text \<open>
  The texts of the DDR4 standard (\<open>src/general/ddr4.h\<close>, \<open>ddr4.cpp\<close>): the names of states, levels and commands, the printed
  timing and configuration, and the line that a controller prints for an issued command.
\<close>

section \<open>Names\<close>

text \<open>The undefined state and the undefined command have none.\<close>

fun state_name :: "dram_state \<Rightarrow> string option" where
  "state_name Pwr_up = Some ''Power On''"
| "state_name Closed = Some ''Idle''"
| "state_name Self_refresh = Some ''Self Refreshing''"
| "state_name Pre_pwr_down = Some ''Precharge Power Down''"
| "state_name Act_pwr_down = Some ''Active Power Down''"
| "state_name Opened = Some ''Bank Active''"
| "state_name State_undefined = None"

fun level_name :: "dram_level \<Rightarrow> string" where
  "level_name Channel = ''Channel''"
| "level_name Rank = ''Rank''"
| "level_name Bank_group = ''Bank Group''"
| "level_name Bank = ''Bank''"
| "level_name Row = ''Row''"
| "level_name Col = ''Column''"

fun command_name :: "command \<Rightarrow> string option" where
  "command_name ACT = Some ''ACT''"
| "command_name PRE = Some ''PRE''"
| "command_name PREA = Some ''PREA''"
| "command_name RD = Some ''RD''"
| "command_name WR = Some ''WR''"
| "command_name RDA = Some ''RDA''"
| "command_name WRA = Some ''WRA''"
| "command_name REF = Some ''REF''"
| "command_name PDE = Some ''PDE''"
| "command_name PDX = Some ''PDX''"
| "command_name SRE = Some ''SRE''"
| "command_name SRX = Some ''SRX''"
| "command_name Cmd_undefined = None"

text \<open>Names are different.\<close>

lemma state_name_inj: "state_name s = state_name s' \<longleftrightarrow> s = s'"
  by (cases s; cases s'; simp)

lemma level_name_inj: "level_name l = level_name l' \<longleftrightarrow> l = l'"
  by (cases l; cases l'; simp)

lemma command_name_inj: "command_name c = command_name c' \<longleftrightarrow> c = c'"
  by (cases c; cases c'; simp)

section \<open>Printed settings\<close>

definition tab :: char where "tab = CHR 0x09"

definition show_int :: "int \<Rightarrow> string" where
  "show_int i = (if i < 0 then CHR ''-'' # show_number 10 (nat (- i)) else show_number 10 (nat i))"

definition print_field :: "string \<Rightarrow> string \<Rightarrow> string" where
  "print_field field v = line_end (field @ '':'' @ [tab] @ v)"

text \<open>
  \<open>timing::print\<close>: \<open>rate\<close> and the texts of the two floating-point numbers are arguments. The extra timings, and
  with them \<open>nXS\<close>, are not printed.
\<close>

definition print_timing :: "int \<Rightarrow> string \<Rightarrow> string \<Rightarrow> ddr4_timing \<Rightarrow> string" where
  "print_timing rate freq tCK t =
     print_field ''rate'' (show_int rate) @ print_field ''freq'' freq @ print_field ''tCK'' tCK @
     concat (map (\<lambda>(field, v). print_field field (show_int v))
       [(''nBL'', nBL t), (''nCCDS'', nCCDS t), (''nCCDL'', nCCDL t), (''nRTRS'', nRTRS t), (''nCL'', nCL t),
        (''nRCD'', nRCD t), (''nRP'', nRP t), (''nCWL'', nCWL t), (''nRAS'', nRAS t), (''nRC'', nRC t), (''nRTP'', nRTP t),
        (''nWTRS'', nWTRS t), (''nWTRL'', nWTRL t), (''nWR'', nWR t), (''nPD'', nPD t), (''nXP'', nXP t),
        (''nXPDLL'', nXPDLL t), (''nCKESR'', nCKESR t), (''nXSDLL'', nXSDLL t)])"

definition print_config :: "ddr4 \<Rightarrow> string" where
  "print_config s =
     print_field ''size'' (show_number 10 (unat (mem_size s))) @ print_field ''data_width'' (show_int (data_width s)) @
     concat (map (\<lambda>(field, l). print_field field (show_number 10 (unat (level_count s l))))
       [(''channel'', Channel), (''rank'', Rank), (''bank_group'', Bank_group), (''bank'', Bank), (''row'', Row), (''col'', Col)])"

section \<open>The printed command\<close>

text \<open>The branch of \<open>issue_cmd\<close> that prints: a name that is not found, or an address that is too short, is undefined behaviour.\<close>

definition print_command :: "command \<Rightarrow> 64 word list \<Rightarrow> clk_t \<Rightarrow> vans_error + string" where
  "print_command cmd addr_vec clk =
     (case command_name cmd of
        None \<Rightarrow> Inl Undefined_behaviour
      | Some name \<Rightarrow> ebind (map_err (addr_at addr_vec) [0..<total_levels]) (\<lambda>is.
          Inr (line_end (name @ [tab] @ show_number 10 (unat clk) @ [tab] @
            concat (map (\<lambda>i. show_number 10 (unat i) @ [tab]) is)))))"

definition issue_and_print ::
  "command \<Rightarrow> 64 word list \<Rightarrow> dram_controller \<Rightarrow> vans_error + dram_controller \<times> string" where
  "issue_and_print cmd addr_vec c =
     ebind (issue_cmd cmd addr_vec c) (\<lambda>c'.
     ebind (print_command cmd addr_vec (dm_clk c')) (\<lambda>out. Inr (c', out)))"

lemma addresses_returned:
  "(\<exists>is. map_err (addr_at addr) [k..<n] = Inr is) \<longleftrightarrow> n \<le> k \<or> n \<le> length addr"
proof (induction "n - k" arbitrary: k)
  case (Suc m)
  then have k: "[k..<n] = k # [Suc k..<n]" "k < n" "m = n - Suc k" by (simp_all add: upt_conv_Cons)
  show ?case
  proof (cases "k < length addr")
    case True
    then have "addr_at addr k = Inr (addr ! k)" by (simp add: addr_at_def)
    then show ?thesis using Suc.hyps(1) [OF k(3)] k(1,2) True by (auto simp: ebind_eq_Inr)
  next
    case False
    then have "addr_at addr k = Inl Undefined_behaviour" by (simp add: addr_at_def)
    then show ?thesis using k False by simp
  qed
qed simp

text \<open>A refresh address has five elements only, so that a printed refresh would read behind its end.\<close>

lemma print_command_returns:
  "(\<exists>out. print_command cmd addr clk = Inr out) \<longleftrightarrow> cmd \<noteq> Cmd_undefined \<and> total_levels \<le> length addr"
proof -
  have "command_name cmd = None \<longleftrightarrow> cmd = Cmd_undefined" by (cases cmd) simp_all
  then show ?thesis using addresses_returned [of addr 0 total_levels]
    by (cases "command_name cmd") (auto simp: print_command_def ebind_eq_Inr total_levels_def)
qed

end
