(* ===== verification/Dispatch.thy ===== *)
theory Dispatch
  imports Factory Machine Nvdimm_Ddr4
begin

text \<open>
  Virtual calls on the tree that the factory builds (\<open>src/general/component.h\<close>). The class of a
  component selects the methods of its controller; its children are the next-level components of
  the controller, which calls their methods in turn. The recursion goes down one level with
  every call, so that it has a fuel: the depth of the tree is enough.
\<close>

section \<open>The children of a controller\<close>

text \<open>\<open>connect_next\<close> pushes a child both to the component and to its controller: one list stands for both.\<close>

definition with_next :: "'n list \<Rightarrow> ('k, 'x) memory_controller_scheme \<Rightarrow> ('n, 'x) memory_controller_scheme" where
  "with_next ns c = \<lparr>mapping_func = mapping_func c, next_level_components = ns, is_draining = is_draining c,
     \<dots> = memory_controller.more c\<rparr>"

definition cxl_with_next :: "'n list \<Rightarrow> 'k cxl_system \<Rightarrow> 'n cxl_system" where
  "cxl_with_next ns c = \<lparr>cxl_ctrl = cxl_ctrl c, cxl_memory_component = cxl_memory_component c, cxl_next = ns\<rparr>"

section \<open>Methods of components with a local memory as their only level\<close>

text \<open>
  \<open>component\<close> and \<open>memory_controller\<close> treat the children of a DDR4 system like those of any other one:
  they are ticked, drained and asked for pending requests, although no request is passed on to them.
\<close>

definition ddr4_node_ops ::
  "'m component_ops \<Rightarrow> 'n component_ops \<Rightarrow> ('m ddr4_system_controller \<times> 'n list) component_ops" where
  "ddr4_node_ops mops ops =
     \<lparr>issue_request = (\<lambda>(c, ns) req.
        ebind (ddr4_issue_request mops c req) (\<lambda>(c, req, resp). Inr ((c, ns), req, resp))),
      full = (\<lambda>(c, ns). ddr4_full mops c),
      is_pending = (\<lambda>(c, ns). ebind (ddr4_pending_current mops c) (\<lambda>p.
        if p then Inr True else any_err (is_pending ops) ns)),
      drain = (\<lambda>(c, ns). ebind (ddr4_drain mops c) (\<lambda>c. ebind (map_err (drain ops) ns) (\<lambda>ns. Inr (c, ns)))),
      tick = (\<lambda>clk (c, ns). ebind (ddr4_tick mops clk c) (\<lambda>(c, calls).
        ebind (tick_list ops clk ns) (\<lambda>(ns, calls'). Inr ((c, ns), calls @ calls'))))\<rparr>"

section \<open>Dispatch\<close>

text \<open>
  The methods of one object: those of its controller, with the new state of the controller put back
  into the tree by \<open>put\<close>.
\<close>

definition object_methods :: "'c component_ops \<Rightarrow> ('c \<Rightarrow> 't) \<Rightarrow> 'c \<Rightarrow> 't component_ops" where
  "object_methods ops put c =
     \<lparr>issue_request = (\<lambda>_ req. ebind (issue_request ops c req) (\<lambda>(c, req, resp). Inr (put c, req, resp))),
      full = (\<lambda>_. full ops c), is_pending = (\<lambda>_. is_pending ops c),
      drain = (\<lambda>_. ebind (drain ops c) (\<lambda>c. Inr (put c))),
      tick = (\<lambda>clk _. ebind (tick ops clk c) (\<lambda>(c, calls). Inr (put c, calls)))\<rparr>"

text \<open>A component around a controller of the class that \<open>cls\<close> names.\<close>

definition node ::
  "((unit, 'x) memory_controller_scheme \<Rightarrow> single_component) \<Rightarrow> nat \<Rightarrow> dumper option
   \<Rightarrow> (component_tree, 'x) memory_controller_scheme \<Rightarrow> component_tree" where
  "node cls i d c = Component (cls (with_next [] c)) i d (next_level_components c)"

text \<open>The media is ticked by itself: \<open>static_memory::tick\<close> does not tick next levels.\<close>

fun methods_of :: "dram_memory component_ops \<Rightarrow> component_tree component_ops \<Rightarrow> component_tree \<Rightarrow> component_tree component_ops" where
  "methods_of mops ops (Component (S_rmc c) i d ns) = object_methods (rmc_ops ops) (node S_rmc i d) (with_next ns c)"
| "methods_of mops ops (Component (S_imc c) i d ns) = object_methods (imc_ops ops) (node S_imc i d) (with_next ns c)"
| "methods_of mops ops (Component (S_nvram_system c) i d ns) =
     object_methods (nvram_ops ops) (node S_nvram_system i d) (with_next ns c)"
| "methods_of mops ops (Component (S_rmw c) i d ns) = object_methods (rmw_ops ops) (node S_rmw i d) (with_next ns c)"
| "methods_of mops ops (Component (S_ait c) i d ns) = object_methods (ait_ops ops mops) (node S_ait i d) (with_next ns c)"
| "methods_of mops ops (Component (S_cxl_system c) i d ns) =
     object_methods (cxl_system_ops ops) (\<lambda>c. Component (S_cxl_system (cxl_with_next [] c)) i d (cxl_next c)) (cxl_with_next ns c)"
| "methods_of mops ops (Component (S_ddr4_system c) i d ns) =
     object_methods (ddr4_node_ops mops ops) (\<lambda>(c, ns). Component (S_ddr4_system c) i d ns) (c, ns)"
| "methods_of mops ops (Component (S_nv_media m) i d ns) =
     object_methods static_memory_ops (\<lambda>m. Component (S_nv_media m) i d ns) m"

definition too_deep :: "'t component_ops" where
  "too_deep =
     \<lparr>issue_request = (\<lambda>_ _. Inl No_return), full = (\<lambda>_. Inl No_return), is_pending = (\<lambda>_. Inl No_return),
      drain = (\<lambda>_. Inl No_return), tick = (\<lambda>_ _. Inl No_return)\<rparr>"

fun tree_ops :: "dram_memory component_ops \<Rightarrow> nat \<Rightarrow> component_tree component_ops" where
  "tree_ops mops 0 = too_deep"
| "tree_ops mops (Suc depth) =
     (let m = methods_of mops (tree_ops mops depth) in
      \<lparr>issue_request = (\<lambda>t. issue_request (m t) t), full = (\<lambda>t. full (m t) t), is_pending = (\<lambda>t. is_pending (m t) t),
       drain = (\<lambda>t. drain (m t) t), tick = (\<lambda>clk t. tick (m t) clk t)\<rparr>)"

end
