(* ===== verification/Drain_Flag.thy ===== *)
theory Drain_Flag
  imports Machine
begin

text \<open>
  Only \<open>drain\<close> changes the drain flag of a controller: no request and no tick does, whatever the
  levels below answer. So a tree that has not been drained can be drained once, as \<open>run_trace\<close> does.
\<close>

named_theorems flag_kept \<open>operations that leave the drain flag as it is\<close>

lemma next_issue_flag [flag_kept]: "next_issue ops i r c = Inr (c', resp) \<Longrightarrow> is_draining c' = is_draining c"
  by (auto simp: next_issue_def ebind_eq_Inr)

section \<open>The RMW buffer\<close>

lemma rmw_count_flag [flag_kept]:
  "rmw_event n c = Inr c' \<Longrightarrow> is_draining c' = is_draining c"
  "rmw_duration n clk e c = Inr c' \<Longrightarrow> is_draining c' = is_draining c"
  by (auto simp: rmw_event_def rmw_duration_def ebind_eq_Inr)

lemma rmw_check_and_evict_flag [flag_kept]: "rmw_check_and_evict c = Inr (b, c') \<Longrightarrow> is_draining c' = is_draining c"
  by (auto simp: rmw_check_and_evict_def Let_def ebind_eq_Inr split: if_splits prod.splits dest!: flag_kept)

lemma rmw_issue_flag [flag_kept]:
  "rmw_issue_read_next_level ops i e clk c = Inr (c', resp) \<Longrightarrow> is_draining c' = is_draining c"
  "rmw_issue_write_next_level ops i e clk c = Inr (c', resp) \<Longrightarrow> is_draining c' = is_draining c"
  "rmw_issue_local_memory ty e clk c = Inr (c', resp) \<Longrightarrow> is_draining c' = is_draining c"
  "rmw_issue_write_local_memory e clk c = Inr (c', resp) \<Longrightarrow> is_draining c' = is_draining c"
  "rmw_issue_read_local_memory e clk c = Inr (c', resp) \<Longrightarrow> is_draining c' = is_draining c"
  "rmw_issue_roq e c = Inr (c', e') \<Longrightarrow> is_draining c' = is_draining c"
  by (auto simp: rmw_issue_read_next_level_def rmw_issue_write_next_level_def rmw_issue_local_memory_def
      rmw_issue_write_local_memory_def rmw_issue_read_local_memory_def rmw_issue_roq_def Let_def ebind_eq_Inr
      split: list.splits if_splits dest!: flag_kept)

lemmas rmw_transfer_defs =
  rmw_write_rmw_init_def rmw_write_rmw_pending_ait_r_def rmw_write_rmw_pending_read_def rmw_write_rmw_pending_ait_w_def
  rmw_write_rmw_pending_modify_def rmw_write_rmw_pending_write_def rmw_write_comb_init_def rmw_write_comb_pending_ait_w_def
  rmw_write_comb_pending_modify_def rmw_write_comb_pending_write_def rmw_write_patch_init_def rmw_write_patch_pending_ait_w_def
  rmw_write_patch_pending_modify_def rmw_write_patch_pending_write_def rmw_flush_back_init_def rmw_flush_back_pending_ait_w_def
  rmw_flush_back_pending_write_def rmw_read_cold_init_def rmw_read_cold_pending_ait_r_def rmw_read_cold_pending_read_def
  rmw_read_cold_pending_readout_def rmw_read_ff_init_def rmw_read_ff_pending_readout_def

lemma rmw_transfer_flag:
  "rmw_state_trans ty st = Some f \<Longrightarrow> f ops a e clk c = Inr (c', e') \<Longrightarrow> is_draining c' = is_draining c"
  by (cases ty; cases st)
    (auto simp: rmw_transfer_defs Let_def ebind_eq_Inr split: if_splits dest!: flag_kept)

lemma rmw_tick_entry_flag [flag_kept]: "rmw_tick_entry ops clk k c = Inr c' \<Longrightarrow> is_draining c' = is_draining c"
  by (auto simp: rmw_tick_entry_def rmw_state_transfer_def ebind_eq_Inr split: option.splits if_splits dest!: rmw_transfer_flag)

lemma rmw_tick_entries_flag [flag_kept]: "rmw_tick_entries ops clk ks c = Inr c' \<Longrightarrow> is_draining c' = is_draining c"
  by (induction ks arbitrary: c) (auto simp: ebind_eq_Inr dest!: flag_kept)

lemma rmw_serve_read_flag [flag_kept]:
  "rmw_serve_read p k i r rest c = Inr c' \<Longrightarrow> is_draining c' = is_draining c"
  by (auto simp: rmw_serve_read_def ebind_eq_Inr split: option.splits dest!: flag_kept)

lemma rmw_tick_lsq_read_flag: "rmw_tick_lsq_read clk c = Inr c' \<Longrightarrow> is_draining c' = is_draining c"
  by (auto simp: rmw_tick_lsq_read_def Let_def ebind_eq_Inr split: list.splits option.splits if_splits dest!: flag_kept)

lemma rmw_tick_lsq_write_flag: "rmw_tick_lsq_write clk c = Inr c' \<Longrightarrow> is_draining c' = is_draining c"
  by (auto simp: rmw_tick_lsq_write_def Let_def ebind_eq_Inr split: list.splits option.splits if_splits prod.splits dest!: flag_kept)

lemma rmw_tick_lsq_flag [flag_kept]: "rmw_tick_lsq clk c = Inr c' \<Longrightarrow> is_draining c' = is_draining c"
  by (auto simp: rmw_tick_lsq_def rmw_tick_lsq_read_flag rmw_tick_lsq_write_flag
      split: list.splits base_request_type.splits)

lemma rmw_run_calls_flag [flag_kept]: "rmw_run_calls cs c = Inr (c', out) \<Longrightarrow> is_draining c' = is_draining c"
  by (induction cs c arbitrary: c' out rule: rmw_run_calls.induct)
    (auto simp: ebind_eq_Inr rmw_next_level_read_callback_def Let_def split: if_splits option.splits)

lemma rmw_tick_flag: "rmw_tick ops clk c = Inr (c', calls) \<Longrightarrow> is_draining c' = is_draining c"
  by (auto simp: rmw_tick_def rmw_tick_ctrl_def rmw_tick_internal_buffer_def rmw_tick_roq_def Let_def ebind_eq_Inr
      split: list.splits if_splits dest!: flag_kept)

lemma rmw_issue_request_flag: "rmw_issue_request c r = Inr (c', r', resp) \<Longrightarrow> is_draining c' = is_draining c"
  by (auto simp: rmw_issue_request_def ebind_eq_Inr)

section \<open>The address indirection table\<close>

lemma ait_count_flag [flag_kept]:
  "ait_event n c = Inr c' \<Longrightarrow> is_draining c' = is_draining c"
  "ait_duration n clk e c = Inr c' \<Longrightarrow> is_draining c' = is_draining c"
  by (auto simp: ait_event_def ait_duration_def ebind_eq_Inr)

lemma ait_check_and_evict_flag [flag_kept]: "ait_check_and_evict c = Inr (b, c') \<Longrightarrow> is_draining c' = is_draining c"
  by (auto simp: ait_check_and_evict_def Let_def ebind_eq_Inr split: if_splits prod.splits dest!: flag_kept)

lemma ait_issue_flag [flag_kept]:
  "ait_issue_next_level ty ops i e clk c = Inr (c', resp) \<Longrightarrow> is_draining c' = is_draining c"
  "ait_issue_lmemq e ty clk c = Inr (c', resp) \<Longrightarrow> is_draining c' = is_draining c"
  by (auto simp: ait_issue_next_level_def ait_issue_lmemq_def ebind_eq_Inr dest!: flag_kept)

lemmas ait_transfer_defs =
  ait_write_miss_init_def ait_write_miss_pending_read_media_def ait_write_miss_pending_write_dram_def
  ait_write_miss_pending_migration_def ait_write_miss_pending_write_media_def ait_write_hit_init_def
  ait_write_hit_pending_write_dram_def ait_write_hit_pending_migration_def ait_write_hit_pending_write_media_def
  ait_read_miss_init_def ait_read_miss_pending_read_media_def ait_read_miss_pending_read_dram_def
  ait_read_hit_init_def ait_read_hit_pending_read_dram_def

lemma ait_transfer_flag:
  "ait_state_trans ty st = Some f \<Longrightarrow> f ops a e clk c = Inr (c', e', calls) \<Longrightarrow> is_draining c' = is_draining c"
  by (cases ty; cases st)
    (auto simp: ait_transfer_defs Let_def ebind_eq_Inr split: if_splits dest!: flag_kept)

lemma ait_tick_entry_flag [flag_kept]: "ait_tick_entry ops clk k c = Inr (c', calls) \<Longrightarrow> is_draining c' = is_draining c"
  by (auto simp: ait_tick_entry_def ait_state_transfer_def ebind_eq_Inr split: option.splits if_splits dest!: ait_transfer_flag)

lemma ait_tick_entries_flag [flag_kept]:
  "ait_tick_entries ops clk ks c = Inr (c', calls) \<Longrightarrow> is_draining c' = is_draining c"
  by (induction ks arbitrary: c c' calls) (auto simp: ebind_eq_Inr dest!: flag_kept)

lemma ait_serve_flag [flag_kept]: "ait_serve n k r rest c = Inr c' \<Longrightarrow> is_draining c' = is_draining c"
  by (auto simp: ait_serve_def ebind_eq_Inr split: option.splits dest!: flag_kept)

lemma ait_tick_lsq_flag [flag_kept]: "ait_tick_lsq clk c = Inr c' \<Longrightarrow> is_draining c' = is_draining c"
  by (auto simp: ait_tick_lsq_def ait_tick_lsq_read_def ait_tick_lsq_write_def Let_def ebind_eq_Inr
      split: list.splits option.splits if_splits base_request_type.splits dest!: flag_kept)

lemma ait_lmemq_callback_flag [simp]: "is_draining (ait_lmemq_callback a c) = is_draining c"
  by (simp add: ait_lmemq_callback_def)

lemma ait_lmemq_setup_flag [simp]: "is_draining (ait_lmemq_setup c) = is_draining c"
  by (simp add: ait_lmemq_setup_def Let_def)

lemma ait_lmemq_flag [flag_kept]:
  "ait_lmemq_finish clk r rest c = Inr c' \<Longrightarrow> is_draining c' = is_draining c"
  "ait_lmemq_next mops clk r c = Inr c' \<Longrightarrow> is_draining c' = is_draining c"
  by (auto simp: ait_lmemq_finish_def ait_lmemq_next_def Let_def ebind_eq_Inr
      split: option.splits if_splits base_request_type.splits dest!: flag_kept)

lemma ait_tick_lmemq_flag [flag_kept]: "ait_tick_lmemq mops clk c = Inr c' \<Longrightarrow> is_draining c' = is_draining c"
  by (auto simp: ait_tick_lmemq_def Let_def ebind_eq_Inr split: if_splits list.splits dest!: flag_kept)

lemma ait_run_calls_flag [flag_kept]: "ait_run_calls cs c = Inr (c', out) \<Longrightarrow> is_draining c' = is_draining c"
  by (induction cs c arbitrary: c' out rule: ait_run_calls.induct)
    (auto simp: ebind_eq_Inr ait_next_level_read_callback_def Let_def split: if_splits option.splits)

lemma ait_tick_flag: "ait_tick ops mops clk c = Inr (c', calls) \<Longrightarrow> is_draining c' = is_draining c"
  by (auto simp: ait_tick_def ait_tick_ctrl_def ait_tick_internal_buffer_def ebind_eq_Inr dest!: flag_kept)

lemma ait_issue_request_flag: "ait_issue_request c r = Inr (c', r', resp) \<Longrightarrow> is_draining c' = is_draining c"
  by (auto simp: ait_issue_request_def ebind_eq_Inr)

section \<open>The integrated memory controller\<close>

lemma imc_flush_step_flag [flag_kept]: "imc_flush_step ops c = Inr (b, c', calls) \<Longrightarrow> is_draining c' = is_draining c"
  by (auto simp: imc_flush_step_def ebind_eq_Inr split: list.splits if_splits dest!: flag_kept)

lemma imc_flush_flag [flag_kept]:
  assumes "imc_flush_wpq ops c out = Some (Inr (c', calls))"
  shows "is_draining c' = is_draining c"
proof -
  have "case Inr (c', calls) of Inl (e :: vans_error) \<Rightarrow> True | Inr (t, cs :: call list) \<Rightarrow> is_draining t = is_draining c"
  proof (rule imc_flush_wpq.raw_induct [where
        P = "\<lambda>ops c out r. case r of Inl e \<Rightarrow> True | Inr (t, cs) \<Rightarrow> is_draining t = is_draining c", OF _ assms])
    fix f :: "'a component_ops \<Rightarrow> 'a imc_controller \<Rightarrow> call list \<Rightarrow> (vans_error + 'a imc_controller \<times> call list) option"
    fix ops c out r
    assume IH: "\<And>ops c out r. f ops c out = Some r \<Longrightarrow> (case r of Inl e \<Rightarrow> True | Inr (t, cs) \<Rightarrow> is_draining t = is_draining c)"
      and r: "(case imc_flush_step ops c of Inl e \<Rightarrow> Some (Inl e)
        | Inr r \<Rightarrow> if fst r then f ops (fst (snd r)) (out @ snd (snd r)) else Some (Inr (fst (snd r), out))) = Some r"
    show "case r of Inl e \<Rightarrow> True | Inr (t, cs) \<Rightarrow> is_draining t = is_draining c"
    proof (cases "imc_flush_step ops c")
      case (Inr x)
      obtain b c1 cs where x: "x = (b, c1, cs)" by (cases x) auto
      have "is_draining c1 = is_draining c" using imc_flush_step_flag Inr x by blast
      moreover have "b \<Longrightarrow> f ops c1 (out @ cs) = Some r" "\<not> b \<Longrightarrow> r = Inr (c1, out)" using r Inr x by auto
      ultimately show ?thesis using IH [of ops c1 "out @ cs" r] by (cases b; cases r) auto
    qed (use r in auto)
  qed
  then show ?thesis by simp
qed

lemma imc_tick_read_flag [flag_kept]:
  assumes "imc_tick_read ops c = Inr c'"
  shows "is_draining c' = is_draining c"
proof -
  from assms obtain req rest a i f where q: "queue (rpq c) = req # rest" "get_next_level (req_addr req) c = Inr (a, i)"
      and f: "next_full ops i (c\<lparr>rpq := (rpq c)\<lparr>queue := req\<lparr>req_addr := a\<rparr> # rest\<rparr>\<rparr>) = Inr f"
    by (auto simp: imc_tick_read_def Let_def ebind_eq_Inr split: list.splits)
  let ?c = "c\<lparr>rpq := (rpq c)\<lparr>queue := req\<lparr>req_addr := a\<rparr> # rest\<rparr>\<rparr>"
  show ?thesis
  proof (cases f)
    case True
    then show ?thesis using assms q f by (auto simp: imc_tick_read_def Let_def)
  next
    case False
    then obtain c1 r iss d n where n: "next_issue ops i (req\<lparr>req_addr := a\<rparr>) ?c = Inr (c1, r, iss, d, n)"
      using assms q f by (auto simp: imc_tick_read_def Let_def ebind_eq_Inr)
    from next_issue_flag [OF this] have "is_draining c1 = is_draining c" by simp
    then show ?thesis using assms q f False n by (cases iss) (auto simp: imc_tick_read_def Let_def)
  qed
qed

lemma imc_tick_queue_flag [flag_kept]:
  "imc_tick_queue ops c = Some (Inr (c', calls)) \<Longrightarrow> is_draining c' = is_draining c"
  by (auto simp: imc_tick_queue_def ebind_eq_Inr split: queue_to_tick.splits sum.splits if_splits dest!: flag_kept)

lemma imc_tick_flag: "imc_tick ops clk c = Some (Inr (c', calls)) \<Longrightarrow> is_draining c' = is_draining c"
  by (auto simp: imc_tick_def imc_tick_ctrl_def imc_adr_def ebind_eq_Inr split: option.splits sum.splits if_splits
      dest!: flag_kept)

lemma imc_issue_request_flag: "imc_issue_request c r = Inr (c', r', resp) \<Longrightarrow> is_draining c' = is_draining c"
  by (auto simp: imc_issue_request_def ebind_eq_Inr split: base_request_type.splits)

section \<open>The routing controllers\<close>

lemma routing_flag:
  "rmc_issue_request ops m r = Inr (m', r', resp) \<Longrightarrow> is_draining m' = is_draining m"
  "nvram_issue_request ops n r = Inr (n', r', resp) \<Longrightarrow> is_draining n' = is_draining n"
  by (auto simp: rmc_issue_request_def nvram_issue_request_def route_request_def ebind_eq_Inr
      split: option.splits if_splits dest!: flag_kept)

lemma routing_tick_flag: "routing_tick ops clk c = Inr (c', calls) \<Longrightarrow> is_draining c' = is_draining c"
  by (auto simp: routing_tick_def ebind_eq_Inr)

end
