(* ===== verification/Dispatch_Inv.thy ===== *)
theory Dispatch_Inv
  imports Dispatch Drain_Flag
begin

text \<open>
  The invariant of the whole tree and its contracts. A virtual call on a component is a call on its
  controller, so that every contract of the controllers over their next levels carries over to the
  tree (locale \<open>object_view\<close>), level by level.
\<close>

section \<open>Contracts through a virtual call\<close>

definition viewed :: "('k \<Rightarrow> 'c \<Rightarrow> 't) \<Rightarrow> ('c \<Rightarrow> bool) \<Rightarrow> 't \<Rightarrow> bool" where
  "viewed put P t \<longleftrightarrow> (\<exists>k c. t = put k c \<and> P c)"

lemma viewedI: "P c \<Longrightarrow> viewed put P (put k c)"
  by (auto simp: viewed_def)

locale object_view =
  fixes ops :: "'c component_ops" and tops :: "'t component_ops" and put :: "'k \<Rightarrow> 'c \<Rightarrow> 't"
  assumes view_issue: "issue_request tops (put k c) r =
      ebind (issue_request ops c r) (\<lambda>(c, r, resp). Inr (put k c, r, resp))"
    and view_full: "full tops (put k c) = full ops c"
    and view_pending: "is_pending tops (put k c) = is_pending ops c"
    and view_drain: "drain tops (put k c) = ebind (drain ops c) (\<lambda>c. Inr (put k c))"
    and view_tick: "tick tops clk (put k c) = ebind (tick ops clk c) (\<lambda>(c, calls). Inr (put k c, calls))"
begin

lemma view_drain_ensures: "ensures (drain ops c) (\<lambda>c'. R (put k c')) \<Longrightarrow> ensures (drain tops (put k c)) R"
  by (auto simp: view_drain ensures_iff)

lemma view_issue_ensures:
  assumes "ensures (issue_request ops c r) (\<lambda>(c', r', resp). R (put k c') r' resp)"
  shows "ensures (issue_request tops (put k c) r) (\<lambda>(t', r', resp). R t' r' resp)"
  using assms by (auto simp: view_issue ensures_iff)

lemma view_tick_ensures:
  assumes "ensures (tick ops clk c) (\<lambda>(c', calls). R (put k c') calls)"
  shows "ensures (tick tops clk (put k c)) (\<lambda>(t', calls). R t' calls)"
  using assms by (auto simp: view_tick ensures_iff)

lemma view_ticking:
  assumes l: "ticking_level ops P"
  shows "ticking_level tops (viewed put P)"
proof
  fix t and r :: base_request and clk
  assume "viewed put P t"
  then obtain k c where t: "t = put k c" "P c" by (auto simp: viewed_def)
  show "ensures (full tops t) (\<lambda>b. True)" "ensures (is_pending tops t) (\<lambda>b. True)"
    using next_level.full_ok [OF ticking_level.axioms(1) [OF l]] ticking_level.pending_ok [OF l] t
    by (simp_all add: view_full view_pending)
  show "ensures (issue_request tops t r) (\<lambda>(t', r', issued, deterministic, next_clk).
      viewed put P t' \<and> (issued \<longrightarrow> deterministic \<longrightarrow> next_clk \<noteq> clk_invalid))" if "small_clk (req_arrive r)"
    unfolding t(1)
    by (rule view_issue_ensures, rule ensures_mono [OF next_level.issue_ok [OF ticking_level.axioms(1) [OF l] t(2) that]])
      (auto intro: viewedI)
  show "ensures (issue_request tops t r) (\<lambda>(t', r', issued, deterministic, next_clk). issued)"
    if "full tops t = Inr False" "small_clk (req_arrive r)"
    unfolding t(1)
    by (rule view_issue_ensures, rule ensures_mono [OF next_level.not_full_issues [OF ticking_level.axioms(1) [OF l] t(2)]])
      (use that t(1) in \<open>auto simp: view_full\<close>)
  show "ensures (tick tops clk t) (\<lambda>(t', calls). viewed put P t' \<and> (\<forall>(cb, a, u) \<in> set calls. u = clk))"
    if "small_clk clk"
    unfolding t(1)
    by (rule view_tick_ensures, rule ensures_mono [OF ticking_level.tick_ok [OF l t(2) that]]) (auto intro: viewedI)
qed

lemma view_responder:
  assumes l: "responder ops P w block answers" and w: "\<And>k c. w' (put k c) = w c"
  shows "responder tops (viewed put P) w' block answers"
proof -
  have "responder_axioms tops (viewed put P) w' block answers"
  proof
    fix t and r :: base_request and clk
    assume "viewed put P t"
    then obtain k c where t: "t = put k c" "P c" by (auto simp: viewed_def)
    show "ensures (issue_request tops t r) (\<lambda>(t', r', issued, deterministic, next_clk).
        w' t' = w' t + (if issued \<and> \<not> deterministic \<and> answers r
          then {#(req_callback r, block (req_addr r))#} else {#}))" if "small_clk (req_arrive r)"
      unfolding t(1) w
      by (rule view_issue_ensures, rule ensures_mono [OF responder.issue_owes [OF l t(2) that]]) (simp add: w)
    show "ensures (tick tops clk t) (\<lambda>(t', calls). w' t = w' t' + mset (map (\<lambda>(cb, a, u). (cb, block a)) calls))"
      if "small_clk clk"
      unfolding t(1) w
      by (rule view_tick_ensures, rule ensures_mono [OF responder.tick_owes [OF l t(2) that]]) (simp add: w)
  qed
  then show ?thesis
    by (rule responder.intro [OF view_ticking [OF responder.axioms(1) [OF l]]])
qed

lemma view_root:
  assumes l: "simulated_root ops P addr_ok"
  shows "simulated_root tops (viewed put P) addr_ok"
proof
  fix t and r :: base_request and clk
  assume "viewed put P t"
  then obtain k c where t: "t = put k c" "P c" by (auto simp: viewed_def)
  show "ensures (issue_request tops t r) (\<lambda>(t', r', issued, deterministic, next_clk).
      viewed put P t' \<and> req_arrive r' = req_arrive r \<and> \<not> deterministic)"
    if "addr_ok (req_addr r)" "small_clk (req_arrive r)"
    unfolding t(1)
    by (rule view_issue_ensures, rule ensures_mono [OF simulated_root.root_issue [OF l t(2) that]]) (auto intro: viewedI)
  show "ensures (tick tops clk t) (\<lambda>(t', calls). viewed put P t')" if "small_clk clk"
    unfolding t(1)
    by (rule view_tick_ensures, rule ensures_mono [OF simulated_root.root_tick [OF l t(2) that]]) (auto intro: viewedI)
qed

end

text \<open>Levels of different classes side by side.\<close>

lemma ensures_or:
  assumes "P \<or> Q" "P \<Longrightarrow> ensures m A" "Q \<Longrightarrow> ensures m B" "\<And>x. A x \<or> B x \<Longrightarrow> C x"
  shows "ensures m C"
  using assms by (auto simp: ensures_iff)

lemma ticking_level_or:
  assumes "ticking_level ops P" "ticking_level ops Q"
  shows "ticking_level ops (\<lambda>n. P n \<or> Q n)"
proof -
  note P = ticking_level.axioms(1) [OF assms(1)] and Q = ticking_level.axioms(1) [OF assms(2)]
  show ?thesis
  proof
    fix n and r :: base_request and clk
    assume n: "P n \<or> Q n"
    show "ensures (full ops n) (\<lambda>b. True)" "ensures (is_pending ops n) (\<lambda>b. True)"
      using n next_level.full_ok [OF P] next_level.full_ok [OF Q] ticking_level.pending_ok [OF assms(1)]
        ticking_level.pending_ok [OF assms(2)] by blast+
    show "ensures (issue_request ops n r) (\<lambda>(n', r', issued, deterministic, next_clk).
        (P n' \<or> Q n') \<and> (issued \<longrightarrow> deterministic \<longrightarrow> next_clk \<noteq> clk_invalid))" if "small_clk (req_arrive r)"
      by (rule ensures_or [OF n next_level.issue_ok [OF P _ that] next_level.issue_ok [OF Q _ that]]) auto
    show "ensures (issue_request ops n r) (\<lambda>(n', r', issued, deterministic, next_clk). issued)"
      if "full ops n = Inr False" "small_clk (req_arrive r)"
      using n next_level.not_full_issues [OF P _ that] next_level.not_full_issues [OF Q _ that] by blast
    show "ensures (tick ops clk n) (\<lambda>(n', calls). (P n' \<or> Q n') \<and> (\<forall>(cb, a, t) \<in> set calls. t = clk))"
      if "small_clk clk"
      by (rule ensures_or [OF n ticking_level.tick_ok [OF assms(1) _ that] ticking_level.tick_ok [OF assms(2) _ that]]) auto
  qed
qed

lemma responder_or:
  assumes "responder ops P w block answers" "responder ops Q w block answers"
  shows "responder ops (\<lambda>n. P n \<or> Q n) w block answers"
proof -
  have "responder_axioms ops (\<lambda>n. P n \<or> Q n) w block answers"
    using responder.issue_owes [OF assms(1)] responder.issue_owes [OF assms(2)]
      responder.tick_owes [OF assms(1)] responder.tick_owes [OF assms(2)]
    by (unfold responder_axioms_def) blast
  then show ?thesis
    by (rule responder.intro [OF ticking_level_or [OF responder.axioms(1) [OF assms(1)] responder.axioms(1) [OF assms(2)]]])
qed

text \<open>A contract together with something that every operation keeps.\<close>

definition op_keeps :: "'n component_ops \<Rightarrow> ('n \<Rightarrow> bool) \<Rightarrow> bool" where
  "op_keeps ops Q \<longleftrightarrow>
     (\<forall>n r n' r' resp. Q n \<longrightarrow> issue_request ops n r = Inr (n', r', resp) \<longrightarrow> Q n') \<and>
     (\<forall>n clk n' calls. Q n \<longrightarrow> tick ops clk n = Inr (n', calls) \<longrightarrow> Q n')"

lemma op_keeps_ensures:
  assumes "op_keeps ops Q" "Q n"
  shows "ensures (issue_request ops n r) (\<lambda>(n', r', resp). R n' r' resp) \<Longrightarrow>
      ensures (issue_request ops n r) (\<lambda>(n', r', resp). R n' r' resp \<and> Q n')"
    and "ensures (tick ops clk n) (\<lambda>(n', calls). T n' calls) \<Longrightarrow>
      ensures (tick ops clk n) (\<lambda>(n', calls). T n' calls \<and> Q n')"
proof -
  assume "ensures (issue_request ops n r) (\<lambda>(n', r', resp). R n' r' resp)"
  then obtain n' r' resp where i: "issue_request ops n r = Inr (n', r', resp)" "R n' r' resp" by (auto simp: ensures_iff)
  moreover have "Q n'" using assms i(1) unfolding op_keeps_def by blast
  ultimately show "ensures (issue_request ops n r) (\<lambda>(n', r', resp). R n' r' resp \<and> Q n')" by simp
next
  assume "ensures (tick ops clk n) (\<lambda>(n', calls). T n' calls)"
  then obtain n' calls where i: "tick ops clk n = Inr (n', calls)" "T n' calls" by (auto simp: ensures_iff)
  moreover have "Q n'" using assms i(1) unfolding op_keeps_def by blast
  ultimately show "ensures (tick ops clk n) (\<lambda>(n', calls). T n' calls \<and> Q n')" by simp
qed

lemma ticking_level_and:
  assumes l: "ticking_level ops P" and Q: "op_keeps ops Q"
  shows "ticking_level ops (\<lambda>n. P n \<and> Q n)"
proof
  note l' = ticking_level.axioms(1) [OF l]
  fix n and r :: base_request and clk
  assume n: "P n \<and> Q n"
  then have p: "P n" and q: "Q n" by simp_all
  show "ensures (full ops n) (\<lambda>b. True)" "ensures (is_pending ops n) (\<lambda>b. True)"
    by (rule next_level.full_ok [OF l' p] ticking_level.pending_ok [OF l p])+
  show "ensures (issue_request ops n r) (\<lambda>(n', r', issued, deterministic, next_clk).
      (P n' \<and> Q n') \<and> (issued \<longrightarrow> deterministic \<longrightarrow> next_clk \<noteq> clk_invalid))" if "small_clk (req_arrive r)"
    by (rule ensures_mono [OF op_keeps_ensures(1) [OF Q q next_level.issue_ok [OF l' p that]]]) auto
  show "ensures (issue_request ops n r) (\<lambda>(n', r', issued, deterministic, next_clk). issued)"
    if "full ops n = Inr False" "small_clk (req_arrive r)"
    by (rule next_level.not_full_issues [OF l' p that])
  show "ensures (tick ops clk n) (\<lambda>(n', calls). (P n' \<and> Q n') \<and> (\<forall>(cb, a, t) \<in> set calls. t = clk))" if "small_clk clk"
    by (rule ensures_mono [OF op_keeps_ensures(2) [OF Q q ticking_level.tick_ok [OF l p that]]]) auto
qed

lemma responder_and:
  assumes l: "responder ops P w block answers" and Q: "op_keeps ops Q"
  shows "responder ops (\<lambda>n. P n \<and> Q n) w block answers"
proof -
  have "responder_axioms ops (\<lambda>n. P n \<and> Q n) w block answers"
    using responder.issue_owes [OF l] responder.tick_owes [OF l] by (unfold responder_axioms_def) blast
  then show ?thesis by (rule responder.intro [OF ticking_level_and [OF responder.axioms(1) [OF l] Q]])
qed

lemma simulated_root_and:
  assumes l: "simulated_root ops P addr_ok" and Q: "op_keeps ops Q"
  shows "simulated_root ops (\<lambda>n. P n \<and> Q n) addr_ok"
proof
  fix n and r :: base_request and clk
  assume n: "P n \<and> Q n"
  then have p: "P n" and q: "Q n" by simp_all
  show "ensures (issue_request ops n r) (\<lambda>(n', r', issued, deterministic, next_clk).
      (P n' \<and> Q n') \<and> req_arrive r' = req_arrive r \<and> \<not> deterministic)" if "addr_ok (req_addr r)" "small_clk (req_arrive r)"
    by (rule ensures_mono [OF op_keeps_ensures(1) [OF Q q simulated_root.root_issue [OF l p that]]]) auto
  show "ensures (tick ops clk n) (\<lambda>(n', calls). P n' \<and> Q n')" if "small_clk clk"
    by (rule ensures_mono [OF op_keeps_ensures(2) [OF Q q simulated_root.root_tick [OF l p that]]]) auto
qed

definition flagged :: "bool \<Rightarrow> (('n, 'x) memory_controller_scheme \<Rightarrow> bool) \<Rightarrow> ('n, 'x) memory_controller_scheme \<Rightarrow> bool" where
  "flagged b P = (\<lambda>c. P c \<and> is_draining c = b)"

lemma op_keepsI:
  assumes "\<And>n r n' r' resp. issue_request ops n r = Inr (n', r', resp) \<Longrightarrow> is_draining n' = is_draining n"
    and "\<And>n clk n' calls. tick ops clk n = Inr (n', calls) \<Longrightarrow> is_draining n' = is_draining n"
  shows "op_keeps ops (\<lambda>c. is_draining c = b)"
  unfolding op_keeps_def using assms by metis

lemma keeps_flag:
  "op_keeps (rmc_ops o1) (\<lambda>c. is_draining c = b)" "op_keeps (imc_ops o2) (\<lambda>c. is_draining c = b)"
  "op_keeps (nvram_ops o3) (\<lambda>c. is_draining c = b)" "op_keeps (rmw_ops o4) (\<lambda>c. is_draining c = b)"
  "op_keeps (ait_ops o5 mops) (\<lambda>c. is_draining c = b)"
proof -
  show "op_keeps (rmc_ops o1) (\<lambda>c. is_draining c = b)"
    by (rule op_keepsI) (simp_all add: rmc_ops_def routing_flag routing_tick_flag)
  show "op_keeps (imc_ops o2) (\<lambda>c. is_draining c = b)"
    by (rule op_keepsI) (simp_all add: imc_ops_def imc_issue_request_flag imc_tick_flag split: option.splits)
  show "op_keeps (nvram_ops o3) (\<lambda>c. is_draining c = b)"
    by (rule op_keepsI) (simp_all add: nvram_ops_def routing_flag routing_tick_flag)
  show "op_keeps (rmw_ops o4) (\<lambda>c. is_draining c = b)"
    by (rule op_keepsI) (simp_all add: rmw_ops_def rmw_issue_request_flag rmw_tick_flag)
  show "op_keeps (ait_ops o5 mops) (\<lambda>c. is_draining c = b)"
    by (rule op_keepsI) (simp_all add: ait_ops_def ait_issue_request_flag ait_tick_flag)
qed

section \<open>The classes\<close>

lemma with_next_simps [simp]:
  "next_level_components (with_next ns c) = ns" "with_next ns (with_next ms c) = with_next ns c"
  "with_next (next_level_components c) c = c"
  by (simp_all add: with_next_def)

lemma cxl_with_next_simps [simp]:
  "cxl_next (cxl_with_next ns c) = ns" "cxl_with_next ns (cxl_with_next ms c) = cxl_with_next ns c"
  "cxl_with_next (cxl_next c) c = c"
  by (simp_all add: cxl_with_next_def)

text \<open>
  A node is seen by its class; \<open>k\<close> is what a call never changes. An RMW buffer and a table are only looked at with a
  dumper, which their counters need.
\<close>

abbreviation rmc_node where "rmc_node \<equiv> \<lambda>(i, d). node S_rmc i d"
abbreviation imc_node where "imc_node \<equiv> \<lambda>(i, d). node S_imc i d"
abbreviation nvram_node where "nvram_node \<equiv> \<lambda>(i, d). node S_nvram_system i d"
abbreviation rmw_node where "rmw_node \<equiv> \<lambda>(i, d). node S_rmw i (Some d)"
abbreviation ait_node where "ait_node \<equiv> \<lambda>(i, d). node S_ait i (Some d)"

definition ddr4_node :: "nat \<times> dumper option \<Rightarrow> dram_memory ddr4_system_controller \<times> component_tree list \<Rightarrow> component_tree" where
  "ddr4_node = (\<lambda>(i, d) (c, ns). Component (S_ddr4_system c) i d ns)"

definition cxl_node :: "nat \<times> dumper option \<Rightarrow> component_tree cxl_system \<Rightarrow> component_tree" where
  "cxl_node = (\<lambda>(i, d) c. Component (S_cxl_system (cxl_with_next [] c)) i d (cxl_next c))"

definition media_node :: "nat \<times> dumper option \<Rightarrow> static_memory \<Rightarrow> component_tree" where
  "media_node = (\<lambda>(i, d) m. Component (S_nv_media m) i d [])"

named_theorems node_views \<open>the equations of a virtual call\<close>

lemmas [node_views] = node_def ddr4_node_def cxl_node_def media_node_def object_methods_def

interpretation rmc_view: object_view "rmc_ops (tree_ops mops n)" "tree_ops mops (Suc n)" rmc_node for mops n
  by unfold_locales (auto simp: node_views Let_def)

interpretation imc_view: object_view "imc_ops (tree_ops mops n)" "tree_ops mops (Suc n)" imc_node for mops n
  by unfold_locales (auto simp: node_views Let_def)

interpretation nvram_view: object_view "nvram_ops (tree_ops mops n)" "tree_ops mops (Suc n)" nvram_node for mops n
  by unfold_locales (auto simp: node_views Let_def)

interpretation rmw_view: object_view "rmw_ops (tree_ops mops n)" "tree_ops mops (Suc n)" rmw_node for mops n
  by unfold_locales (auto simp: node_views Let_def)

interpretation ait_view: object_view "ait_ops (tree_ops mops n) mops" "tree_ops mops (Suc n)" ait_node for mops n
  by unfold_locales (auto simp: node_views Let_def)

interpretation cxl_view: object_view "cxl_system_ops (tree_ops mops n)" "tree_ops mops (Suc n)" cxl_node for mops n
  by unfold_locales (auto simp: node_views Let_def)

interpretation ddr4_view: object_view "ddr4_node_ops mops (tree_ops mops n)" "tree_ops mops (Suc n)" ddr4_node for mops n
  by unfold_locales (auto simp: node_views Let_def split_def)

interpretation media_view: object_view static_memory_ops "tree_ops mops (Suc n)" media_node for mops n
  by unfold_locales (auto simp: node_views Let_def)

section \<open>The DDR4 system with children\<close>

definition ddr4_node_inv :: "bool \<Rightarrow> ('m \<Rightarrow> bool) \<Rightarrow> ('n \<Rightarrow> bool) \<Rightarrow> 'm ddr4_system_controller \<times> 'n list \<Rightarrow> bool" where
  "ddr4_node_inv b minv ninv = (\<lambda>(c, ns). is_draining c = b \<and> minv (ddr4_local_memory c) \<and> (\<forall>n \<in> set ns. ninv n))"

lemma ddr4_flag:
  "ddr4_issue_request mops c r = Inr (c', r', resp) \<Longrightarrow> is_draining c' = is_draining c"
  "ddr4_tick mops clk c = Inr (c', calls) \<Longrightarrow> is_draining c' = is_draining c"
  by (auto simp: ddr4_issue_request_def ddr4_tick_def ebind_eq_Inr)

lemma ddr4_node_ticking:
  assumes m: "responder mops minv mowes block answers" and l: "ticking_level ops ninv"
  shows "ticking_level (ddr4_node_ops mops ops) (ddr4_node_inv b minv ninv)"
proof
  note sys = responder.axioms(1) [OF responder.ddr4_system_responder [OF m]]
  note sys' = ticking_level.axioms(1) [OF sys]
  fix n :: "'a ddr4_system_controller \<times> 'b list" and r :: base_request and clk
  assume "ddr4_node_inv b minv ninv n"
  then obtain c ns where n: "n = (c, ns)" "minv (ddr4_local_memory c)" "\<forall>x \<in> set ns. ninv x" "is_draining c = b"
    by (auto simp: ddr4_node_inv_def)
  show "ensures (full (ddr4_node_ops mops ops) n) (\<lambda>b. True)"
    using next_level.full_ok [OF sys' n(2)] by (simp add: n(1) ddr4_node_ops_def ddr4_system_ops_def)
  have p: "ensures (any_err (is_pending ops) ns) (\<lambda>b. True)"
    using any_err_ensures [of ns "is_pending ops"] n(3) ticking_level.pending_ok [OF l] by (auto elim!: ensures_mono)
  show "ensures (is_pending (ddr4_node_ops mops ops) n) (\<lambda>b. True)"
    using ticking_level.pending_ok [OF sys n(2)] p
    by (auto simp: n(1) ddr4_node_ops_def ddr4_system_ops_def ensures_iff)
  show "ensures (issue_request (ddr4_node_ops mops ops) n r) (\<lambda>(n', r', issued, deterministic, next_clk).
      ddr4_node_inv b minv ninv n' \<and> (issued \<longrightarrow> deterministic \<longrightarrow> next_clk \<noteq> clk_invalid))" if "small_clk (req_arrive r)"
  proof -
    from next_level.issue_ok [OF sys' n(2) that] obtain c' r' i d nc where
      i: "ddr4_issue_request mops c r = Inr (c', r', i, d, nc)" "minv (ddr4_local_memory c')" "i \<longrightarrow> d \<longrightarrow> nc \<noteq> clk_invalid"
      by (auto simp: ddr4_system_ops_def ensures_iff)
    then show ?thesis using ddr4_flag(1) [OF i(1)] n(3,4) by (simp add: n(1) ddr4_node_ops_def ddr4_node_inv_def)
  qed
  show "ensures (issue_request (ddr4_node_ops mops ops) n r) (\<lambda>(n', r', issued, deterministic, next_clk). issued)"
    if "full (ddr4_node_ops mops ops) n = Inr False" "small_clk (req_arrive r)"
    using next_level.not_full_issues [OF sys' n(2) _ that(2)] that(1)
    by (auto simp: n(1) ddr4_node_ops_def ddr4_system_ops_def ensures_iff)
  show "ensures (tick (ddr4_node_ops mops ops) clk n) (\<lambda>(n', calls).
      ddr4_node_inv b minv ninv n' \<and> (\<forall>(cb, a, t) \<in> set calls. t = clk))" if "small_clk clk"
  proof -
    from ticking_level.tick_ok [OF sys n(2) that] obtain c' calls where
      c: "ddr4_tick mops clk c = Inr (c', calls)" "minv (ddr4_local_memory c')" "\<forall>(cb, a, t) \<in> set calls. t = clk"
      by (auto simp: ddr4_system_ops_def ensures_iff)
    from ticking_level.tick_list_ok [OF l n(3) that] obtain ns' calls' where
      "tick_list ops clk ns = Inr (ns', calls')" "\<forall>x \<in> set ns'. ninv x" "\<forall>(cb, a, t) \<in> set calls'. t = clk"
      by (auto simp: ensures_iff)
    then show ?thesis using c ddr4_flag(2) [OF c(1)] n(4) by (auto simp: n(1) ddr4_node_ops_def ddr4_node_inv_def)
  qed
qed

section \<open>The invariant, level by level\<close>

text \<open>
  The number is a depth, as in \<open>tree_ops\<close>. Media, alone or below a table, keep the contract of a level that
  answers at once; a table answers by callbacks; a level that an integrated memory controller can have below it is an
  RMW buffer, an NVRAM system over levels, a DDR4 system, or media. \<open>b\<close> is the drain flag of every controller.
\<close>

fun media_ok :: "nat \<Rightarrow> component_tree \<Rightarrow> bool" where
  "media_ok 0 t = False"
| "media_ok (Suc n) t = viewed media_node static_wf t"

fun ait_ok :: "bool \<Rightarrow> (dram_memory \<Rightarrow> bool) \<Rightarrow> (dram_memory \<Rightarrow> (callback \<times> addr_t) multiset) \<Rightarrow> nat \<Rightarrow> component_tree \<Rightarrow> bool" where
  "ait_ok b minv mowes 0 t = False"
| "ait_ok b minv mowes (Suc n) t =
     (media_ok (Suc n) t \<or> viewed ait_node (flagged b (ait_inv (media_ok n) minv (\<lambda>n. {#}) mowes {#} {#})) t)"

fun tree_owes :: "component_tree \<Rightarrow> (callback \<times> addr_t) multiset" where
  "tree_owes (Component (S_ait c) i d ns) = ait_owes c"
| "tree_owes (Component s i d ns) = {#}"

fun level_ok :: "bool \<Rightarrow> (dram_memory \<Rightarrow> bool) \<Rightarrow> (dram_memory \<Rightarrow> (callback \<times> addr_t) multiset) \<Rightarrow> nat \<Rightarrow> component_tree \<Rightarrow> bool" where
  "level_ok b minv mowes 0 t = False"
| "level_ok b minv mowes (Suc n) t =
     (media_ok (Suc n) t \<or> viewed rmw_node (flagged b (rmw_inv (ait_ok b minv mowes n) tree_owes {#})) t \<or>
      viewed nvram_node (flagged b (routing_inv (level_ok b minv mowes n))) t \<or>
      viewed ddr4_node (ddr4_node_inv b minv (level_ok b minv mowes n)) t)"

fun imc_ok :: "bool \<Rightarrow> (dram_memory \<Rightarrow> bool) \<Rightarrow> (dram_memory \<Rightarrow> (callback \<times> addr_t) multiset) \<Rightarrow> nat \<Rightarrow> component_tree \<Rightarrow> bool" where
  "imc_ok b minv mowes 0 t = False"
| "imc_ok b minv mowes (Suc n) t = viewed imc_node (flagged b (imc_inv (level_ok b minv mowes n))) t"

fun machine_ok ::
  "bool \<Rightarrow> (dram_memory \<Rightarrow> bool) \<Rightarrow> (dram_memory \<Rightarrow> (callback \<times> addr_t) multiset) \<Rightarrow> addr_t \<Rightarrow> nat \<Rightarrow> component_tree \<Rightarrow> bool" where
  "machine_ok b minv mowes start 0 t = False"
| "machine_ok b minv mowes start (Suc n) t = viewed rmc_node (flagged b (rmc_inv (imc_ok b minv mowes n) start)) t"

section \<open>The tree keeps its contracts\<close>

lemma level_zero:
  "responder (tree_ops mops 0) (\<lambda>t. False) w block answers" "ticking_level (tree_ops mops 0) (\<lambda>t. False)"
  "simulated_root (tree_ops mops 0) (\<lambda>t. False) addr_ok"
  by unfold_locales simp_all

lemma media_responder: "responder (tree_ops mops n) (media_ok n) (\<lambda>t. {#}) block answers"
proof (cases n)
  case (Suc m)
  have "media_ok n = viewed media_node static_wf" by (simp add: Suc fun_eq_iff)
  then show ?thesis
    using media_view.view_responder [OF static_responder, where w' = "\<lambda>t. {#}"] by (simp add: Suc del: tree_ops.simps)
next
  case 0
  have "media_ok 0 = (\<lambda>t. False)" by (simp add: fun_eq_iff)
  then show ?thesis using level_zero(1) [of mops "\<lambda>t. {#}" block answers] by (simp add: 0 del: tree_ops.simps)
qed

lemma ait_owes_with_next: "ait_owes (with_next ns c) = ait_owes c"
  by (cases c) (simp add: with_next_def ait_owes_def)

lemma tree_owes_node: "tree_owes (ait_node k c) = ait_owes c" "tree_owes (media_node k' m) = {#}"
  by (simp_all add: split_def node_def media_node_def ait_owes_with_next)

lemma ait_tree_responder:
  assumes m: "responder mops minv mowes (\<lambda>a. a) is_read_with_callback"
  shows "responder (tree_ops mops n) (ait_ok b minv mowes n) tree_owes rmw_translate_to_block_addr has_callback"
proof (cases n)
  case 0
  have "ait_ok b minv mowes 0 = (\<lambda>t. False)" by (simp add: fun_eq_iff)
  then show ?thesis unfolding 0 by (simp only: level_zero)
next
  case (Suc k)
  have accepts: "ensures (issue_request (tree_ops mops k) t r) (\<lambda>(t', r', issued, deterministic, next_clk). issued)"
    if t: "media_ok k t" and a: "small_clk (req_arrive r)" for t r
  proof -
    obtain j where k: "k = Suc j" using t by (cases k) auto
    then obtain h c where t: "t = media_node h c" "static_wf c" using t by (auto simp: viewed_def)
    show ?thesis unfolding t(1) k
      by (rule media_view.view_issue_ensures)
        (use small_neq_clk_invalid [OF a] in \<open>simp add: static_memory_ops_def static_issue_eq\<close>)
  qed
  have l: "ait_levels (tree_ops mops k) (media_ok k) (\<lambda>t. {#}) mops minv mowes"
    by (intro ait_levels.intro media_responder m ait_levels_axioms.intro accepts)
  have "media_ok n = viewed media_node static_wf" by (simp add: Suc fun_eq_iff)
  then have "responder (tree_ops mops n) (media_ok n) tree_owes rmw_translate_to_block_addr has_callback"
    using media_view.view_responder [OF static_responder, where w' = tree_owes and n = k] unfolding Suc
    by (simp only: tree_owes_node)
  moreover have "responder (tree_ops mops n) (viewed ait_node (flagged b (ait_inv (media_ok k) minv (\<lambda>n. {#}) mowes {#} {#}))) tree_owes
      rmw_translate_to_block_addr has_callback"
    unfolding Suc flagged_def
    by (rule ait_view.view_responder [OF responder_and [OF ait_levels.ait_responder [OF l] keeps_flag(5)] tree_owes_node(1)])
  ultimately show ?thesis
    using responder_or unfolding Suc ait_ok.simps(2) [abs_def] by blast
qed

lemma tree_level:
  assumes m: "responder mops minv mowes (\<lambda>a. a) is_read_with_callback"
  shows "ticking_level (tree_ops mops n) (level_ok b minv mowes n)"
proof (induction n)
  case 0
  have "level_ok b minv mowes 0 = (\<lambda>t. False)" by (simp add: fun_eq_iff)
  then show ?case by (simp only: level_zero)
next
  case (Suc n)
  have a: "rmw_next_level (tree_ops mops n) (ait_ok b minv mowes n) tree_owes"
    unfolding rmw_next_level_def by (rule ait_tree_responder [OF m])
  have "level_ok b minv mowes (Suc n) = (\<lambda>t. media_ok (Suc n) t \<or> viewed rmw_node (flagged b (rmw_inv (ait_ok b minv mowes n) tree_owes {#})) t \<or>
      viewed nvram_node (flagged b (routing_inv (level_ok b minv mowes n))) t \<or>
      viewed ddr4_node (ddr4_node_inv b minv (level_ok b minv mowes n)) t)"
    by (simp add: fun_eq_iff)
  then show ?case
    unfolding flagged_def
    by (simp only:) (intro ticking_level_or responder.axioms(1) [OF media_responder]
        rmw_view.view_ticking [OF ticking_level_and [OF rmw_next_level.rmw_ticking_level [OF a] keeps_flag(4)]]
        nvram_view.view_ticking [OF ticking_level_and [OF ticking_level.nvram_ticking_level [OF Suc] keeps_flag(3)]]
        ddr4_view.view_ticking [OF ddr4_node_ticking [OF m Suc]])
qed

lemma tree_imc:
  assumes m: "responder mops minv mowes (\<lambda>a. a) is_read_with_callback"
  shows "simulated_root (tree_ops mops n) (imc_ok b minv mowes n) (\<lambda>a. True)"
proof (cases n)
  case 0
  have "imc_ok b minv mowes 0 = (\<lambda>t. False)" by (simp add: fun_eq_iff)
  then show ?thesis unfolding 0 by (simp only: level_zero)
next
  case (Suc k)
  have "imc_ok b minv mowes (Suc k) = viewed imc_node (flagged b (imc_inv (level_ok b minv mowes k)))" by (simp add: fun_eq_iff)
  then show ?thesis unfolding Suc
    by (simp only: flagged_def imc_view.view_root [OF simulated_root_and [OF ticking_level.imc_root [OF tree_level [OF m]] keeps_flag(2)]])
qed

lemma tree_machine:
  assumes m: "responder mops minv mowes (\<lambda>a. a) is_read_with_callback"
  shows "simulated_root (tree_ops mops n) (machine_ok b minv mowes start n) (\<lambda>a. start \<le> a)"
proof (cases n)
  case 0
  have "machine_ok b minv mowes start 0 = (\<lambda>t. False)" by (simp add: fun_eq_iff)
  then show ?thesis unfolding 0 by (simp only: level_zero)
next
  case (Suc k)
  have "machine_ok b minv mowes start (Suc k) = viewed rmc_node (flagged b (rmc_inv (imc_ok b minv mowes k) start))" by (simp add: fun_eq_iff)
  then show ?thesis unfolding Suc
    by (simp only: flagged_def rmc_view.view_root [OF simulated_root_and [OF simulated_root.rmc_root [OF tree_imc [OF m]] keeps_flag(1)]])
qed

section \<open>Draining the tree\<close>

lemma map_err_all2:
  "\<forall>x \<in> set xs. ensures (f x) (R x) \<Longrightarrow> ensures (map_err f xs) (list_all2 R xs)"
proof (induction xs)
  case (Cons x xs)
  then obtain y ys where "f x = Inr y" "R x y" "map_err f xs = Inr ys" "list_all2 R xs ys" by (auto simp: ensures_iff)
  then show ?case by simp
qed simp

text \<open>A controller without anything to do of its own, over children that can be drained.\<close>

lemma mc_drain_children:
  assumes "is_draining c = False" "own (c\<lparr>is_draining := True\<rparr>) = Inr (c\<lparr>is_draining := True\<rparr>)"
    and "\<forall>n \<in> set (next_level_components c). ensures (drain ops n) (R n)"
    and "\<And>ns. list_all2 R (next_level_components c) ns \<Longrightarrow> P (c\<lparr>is_draining := True, next_level_components := ns\<rparr>)"
  shows "ensures (mc_drain ops own c) P"
proof -
  from map_err_all2 [OF assms(3)] obtain ns where
    "map_err (drain ops) (next_level_components c) = Inr ns" "list_all2 R (next_level_components c) ns"
    by (auto simp: ensures_iff)
  then show ?thesis using assms(1,2,4) by (simp add: mc_drain_def)
qed

definition drained_to :: "(component_tree \<Rightarrow> bool) \<Rightarrow> component_tree \<Rightarrow> component_tree \<Rightarrow> bool" where
  "drained_to P t t' \<longleftrightarrow> P t' \<and> tree_owes t' = tree_owes t"

lemma drained_children:
  assumes "list_all2 (drained_to P) ns ns'"
  shows "length ns' = length ns" "\<forall>n \<in> set ns'. P n" "all_owe tree_owes ns' = all_owe tree_owes ns"
  using assms by (induction ns ns' rule: list_all2_induct) (auto simp: drained_to_def all_owe_def)

lemma mapping_ok_drained:
  "length ns = length (next_level_components c) \<Longrightarrow>
   mapping_ok (c\<lparr>is_draining := b, next_level_components := ns\<rparr>) = mapping_ok c"
  by (simp add: mapping_ok_def)

lemma rmw_inv_flag: "rmw_inv ninv w x (c\<lparr>is_draining := b\<rparr>) = rmw_inv ninv w x c"
  by (simp add: rmw_inv_def rmw_ctx_def mapping_ok_def)

lemma rmw_inv_drained:
  assumes "rmw_inv P tree_owes {#} c" "list_all2 (drained_to Q) (next_level_components c) ns"
  shows "rmw_inv Q tree_owes {#} (c\<lparr>is_draining := True, next_level_components := ns\<rparr>)"
  using assms(1) drained_children [OF assms(2)] by (simp add: rmw_inv_def rmw_ctx_def mapping_ok_drained)

lemma ait_inv_drained:
  assumes "ait_inv P minv (\<lambda>n. {#}) mowes {#} {#} c" "list_all2 (drained_to Q) (next_level_components c) ns"
  shows "ait_inv Q minv (\<lambda>n. {#}) mowes {#} {#} (c\<lparr>is_draining := True, next_level_components := ns\<rparr>)"
    "ait_owes (c\<lparr>is_draining := True, next_level_components := ns\<rparr>) = ait_owes c"
proof -
  have "all_owe (\<lambda>n. {#} :: (callback \<times> addr_t) multiset) ns = {#}" for ns :: "component_tree list"
    by (induction ns) (simp_all add: all_owe_def)
  then show "ait_inv Q minv (\<lambda>n. {#}) mowes {#} {#} (c\<lparr>is_draining := True, next_level_components := ns\<rparr>)"
    using assms(1) drained_children [OF assms(2)] by (simp add: ait_inv_def ait_ctx_def mapping_ok_drained)
qed (simp add: ait_owes_def)

lemma imc_inv_drained:
  assumes "imc_inv P c" "list_all2 (drained_to Q) (next_level_components c) ns"
  shows "imc_inv Q (c\<lparr>is_draining := True, next_level_components := ns\<rparr>)"
  using assms(1) drained_children [OF assms(2)] by (simp add: imc_inv_def mapping_ok_drained)

lemma routing_inv_drained:
  assumes "routing_inv P c" "list_all2 (drained_to Q) (next_level_components c) ns"
  shows "routing_inv Q (c\<lparr>is_draining := True, next_level_components := ns\<rparr>)"
  using assms(1) drained_children [OF assms(2)] by (simp add: routing_inv_def mapping_ok_drained)

lemma media_drains: "media_ok n t \<Longrightarrow> ensures (drain (tree_ops mops n) t) (drained_to (media_ok n) t)"
proof (cases n)
  case (Suc m)
  assume "media_ok n t"
  then obtain k c where t: "t = media_node k c" "static_wf c" by (auto simp: Suc viewed_def)
  then show ?thesis unfolding Suc t(1)
    by (intro media_view.view_drain_ensures)
      (simp add: static_memory_ops_def static_drain_def drained_to_def viewedI)
qed simp

lemma ait_drains:
  "ait_ok False minv mowes n t \<Longrightarrow> ensures (drain (tree_ops mops n) t) (drained_to (ait_ok True minv mowes n) t)"
proof (cases n)
  case (Suc m)
  assume "ait_ok False minv mowes n t"
  then consider (media) "media_ok n t"
    | (ait) k c where "t = ait_node k c" "ait_inv (media_ok m) minv (\<lambda>n. {#}) mowes {#} {#} c" "is_draining c = False"
    by (auto simp: Suc viewed_def flagged_def)
  then show ?thesis
  proof cases
    case media
    then show ?thesis by (rule ensures_mono [OF media_drains]) (auto simp: Suc drained_to_def)
  next
    case ait
    have ns: "\<forall>n \<in> set (next_level_components c). media_ok m n" using ait(2) by (simp add: ait_inv_def ait_ctx_def)
    have "ensures (drain (ait_ops (tree_ops mops m) mops) c) (\<lambda>c'. drained_to (ait_ok True minv mowes n) t (ait_node k c'))"
      unfolding ait_ops_def component_ops.simps
    proof (rule mc_drain_children [OF ait(3)])
      show "\<forall>n \<in> set (next_level_components c). ensures (drain (tree_ops mops m) n) (drained_to (media_ok m) n)"
        using ns media_drains by blast
      fix ns assume "list_all2 (drained_to (media_ok m)) (next_level_components c) ns"
      note d = ait_inv_drained [OF ait(2) this]
      show "drained_to (ait_ok True minv mowes n) t (ait_node k (c\<lparr>is_draining := True, next_level_components := ns\<rparr>))"
        unfolding drained_to_def Suc ait(1) tree_owes_node ait_ok.simps(2) using d(1)
        by (intro conjI disjI2 viewedI d(2)) (simp add: flagged_def)
    qed (simp add: ait_drain_current_def)
    then show ?thesis unfolding Suc ait(1) by (rule ait_view.view_drain_ensures)
  qed
qed simp

lemma ddr4_drains:
  assumes m: "\<And>m. minv m \<Longrightarrow> drain mops m = Inr m" and c: "ddr4_node_inv False minv P (c, ns)"
    and ns: "\<forall>n \<in> set ns. ensures (drain ops n) (drained_to Q n)"
  shows "ensures (drain (ddr4_node_ops mops ops) (c, ns)) (ddr4_node_inv True minv Q)"
proof -
  from map_err_all2 [OF ns] obtain ns' where n: "map_err (drain ops) ns = Inr ns'" "list_all2 (drained_to Q) ns ns'"
    by (auto simp: ensures_iff)
  from drained_children(2) [OF n(2)] n(1) show ?thesis
    using c m by (auto simp: ddr4_node_ops_def ddr4_drain_def ddr4_drain_current_def ddr4_node_inv_def)
qed

lemma level_drains:
  assumes m: "\<And>m. minv m \<Longrightarrow> drain mops m = Inr m"
  shows "level_ok False minv mowes n t \<Longrightarrow> ensures (drain (tree_ops mops n) t) (drained_to (level_ok True minv mowes n) t)"
proof (induction n arbitrary: t)
  case (Suc n)
  let ?P = "level_ok True minv mowes"
  have u: "tree_owes (rmw_node k r) = {#}" "tree_owes (nvram_node h v) = {#}" "tree_owes (ddr4_node h d) = {#}" for k r h v d
    by (simp_all add: split_def node_def ddr4_node_def)
  from Suc.prems consider (media) "media_ok (Suc n) t"
    | (rmw) k c where "t = rmw_node k c" "rmw_inv (ait_ok False minv mowes n) tree_owes {#} c" "is_draining c = False"
    | (nvram) k c where "t = nvram_node k c" "routing_inv (level_ok False minv mowes n) c" "is_draining c = False"
    | (ddr4) k c ns where "t = ddr4_node k (c, ns)" "ddr4_node_inv False minv (level_ok False minv mowes n) (c, ns)"
    by (auto simp: viewed_def flagged_def)
  then show ?case
  proof cases
    case media
    then show ?thesis by (rule ensures_mono [OF media_drains]) (auto simp: drained_to_def)
  next
    case rmw
    have ns: "\<forall>n' \<in> set (next_level_components c). ait_ok False minv mowes n n'"
      using rmw(2) by (simp add: rmw_inv_def rmw_ctx_def)
    have "ensures (drain (rmw_ops (tree_ops mops n)) c) (\<lambda>c'. drained_to (?P (Suc n)) t (rmw_node k c'))"
      unfolding rmw_ops_def component_ops.simps
    proof (rule mc_drain_children [OF rmw(3)])
      show "Inr (rmw_drain_current (c\<lparr>is_draining := True\<rparr>)) = Inr (c\<lparr>is_draining := True\<rparr>)"
        using rmw_drain_nothing [OF rmw_inv_flag [THEN iffD2, OF rmw(2)], of True] by simp
      show "\<forall>n' \<in> set (next_level_components c). ensures (drain (tree_ops mops n) n') (drained_to (ait_ok True minv mowes n) n')"
        using ns ait_drains by blast
      fix ns assume "list_all2 (drained_to (ait_ok True minv mowes n)) (next_level_components c) ns"
      note d = rmw_inv_drained [OF rmw(2) this]
      show "drained_to (?P (Suc n)) t (rmw_node k (c\<lparr>is_draining := True, next_level_components := ns\<rparr>))"
        unfolding drained_to_def rmw(1) u level_ok.simps(2) using d
        by (intro conjI disjI2 disjI1 viewedI refl) (simp add: flagged_def)
    qed
    then show ?thesis unfolding rmw(1) by (rule rmw_view.view_drain_ensures)
  next
    case nvram
    have ns: "\<forall>n' \<in> set (next_level_components c). level_ok False minv mowes n n'" using nvram(2) by (simp add: routing_inv_def)
    have "ensures (drain (nvram_ops (tree_ops mops n)) c) (\<lambda>c'. drained_to (?P (Suc n)) t (nvram_node k c'))"
      unfolding nvram_ops_def component_ops.simps
    proof (rule mc_drain_children [OF nvram(3)])
      show "\<forall>n' \<in> set (next_level_components c). ensures (drain (tree_ops mops n) n') (drained_to (?P n) n')"
        using ns Suc.IH by blast
      fix ns assume "list_all2 (drained_to (?P n)) (next_level_components c) ns"
      note d = routing_inv_drained [OF nvram(2) this]
      show "drained_to (?P (Suc n)) t (nvram_node k (c\<lparr>is_draining := True, next_level_components := ns\<rparr>))"
        unfolding drained_to_def nvram(1) u level_ok.simps(2) using d
        by (intro conjI disjI2 disjI1 viewedI refl) (simp add: flagged_def)
    qed (simp add: nvram_drain_current_def)
    then show ?thesis unfolding nvram(1) by (rule nvram_view.view_drain_ensures)
  next
    case ddr4
    have ns: "\<forall>n' \<in> set ns. ensures (drain (tree_ops mops n) n') (drained_to (?P n) n')"
      using ddr4(2) Suc.IH by (simp add: ddr4_node_inv_def)
    have d: "ensures (drain (ddr4_node_ops mops (tree_ops mops n)) (c, ns)) (ddr4_node_inv True minv (?P n))"
      by (rule ddr4_drains [OF _ ddr4(2) ns]) (rule m)
    have "ensures (drain (ddr4_node_ops mops (tree_ops mops n)) (c, ns)) (\<lambda>c'. drained_to (?P (Suc n)) t (ddr4_node k c'))"
      by (rule ensures_mono [OF d]) (unfold drained_to_def ddr4(1) u level_ok.simps(2), intro conjI disjI2 viewedI refl)
    then show ?thesis unfolding ddr4(1) by (rule ddr4_view.view_drain_ensures)
  qed
qed simp

lemma imc_drains:
  assumes m: "\<And>m. minv m \<Longrightarrow> drain mops m = Inr m"
  shows "imc_ok False minv mowes n t \<Longrightarrow> ensures (drain (tree_ops mops n) t) (drained_to (imc_ok True minv mowes n) t)"
proof (cases n)
  case (Suc j)
  assume "imc_ok False minv mowes n t"
  then obtain k c where c: "t = imc_node k c" "imc_inv (level_ok False minv mowes j) c" "is_draining c = False"
    by (auto simp: Suc viewed_def flagged_def)
  have u: "tree_owes (imc_node k c) = {#}" for k c by (simp add: split_def node_def)
  have ns: "\<forall>n' \<in> set (next_level_components c). level_ok False minv mowes j n'" using c(2) by (simp add: imc_inv_def)
  have "ensures (drain (imc_ops (tree_ops mops j)) c) (\<lambda>c'. drained_to (imc_ok True minv mowes n) t (imc_node k c'))"
    unfolding imc_ops_def component_ops.simps
  proof (rule mc_drain_children [OF c(3)])
    show "\<forall>n' \<in> set (next_level_components c). ensures (drain (tree_ops mops j) n') (drained_to (level_ok True minv mowes j) n')"
      using ns level_drains [OF m] by blast
    fix ns assume "list_all2 (drained_to (level_ok True minv mowes j)) (next_level_components c) ns"
    note d = imc_inv_drained [OF c(2) this]
    show "drained_to (imc_ok True minv mowes n) t (imc_node k (c\<lparr>is_draining := True, next_level_components := ns\<rparr>))"
      unfolding drained_to_def Suc c(1) u imc_ok.simps(2) using d
      by (intro conjI viewedI refl) (simp add: flagged_def)
  qed simp
  then show ?thesis unfolding Suc c(1) by (rule imc_view.view_drain_ensures)
qed simp

lemma machine_drains:
  assumes m: "\<And>m. minv m \<Longrightarrow> drain mops m = Inr m"
  shows "machine_ok False minv mowes start n t \<Longrightarrow> ensures (drain (tree_ops mops n) t) (machine_ok True minv mowes start n)"
proof (cases n)
  case (Suc j)
  assume "machine_ok False minv mowes start n t"
  then obtain k c where c: "t = rmc_node k c" "rmc_inv (imc_ok False minv mowes j) start c" "is_draining c = False"
    by (auto simp: Suc viewed_def flagged_def)
  have r: "routing_inv (imc_ok False minv mowes j) c" "rmc_start_addr c = Some start" using c(2) by (simp_all add: rmc_inv_def)
  have ns: "\<forall>n' \<in> set (next_level_components c). imc_ok False minv mowes j n'" using r(1) by (simp add: routing_inv_def)
  have "ensures (drain (rmc_ops (tree_ops mops j)) c) (\<lambda>c'. machine_ok True minv mowes start n (rmc_node k c'))"
    unfolding rmc_ops_def component_ops.simps
  proof (rule mc_drain_children [OF c(3)])
    show "\<forall>n' \<in> set (next_level_components c). ensures (drain (tree_ops mops j) n') (drained_to (imc_ok True minv mowes j) n')"
      using ns imc_drains [OF m] by blast
    fix ns assume "list_all2 (drained_to (imc_ok True minv mowes j)) (next_level_components c) ns"
    note d = routing_inv_drained [OF r(1) this]
    show "machine_ok True minv mowes start n (rmc_node k (c\<lparr>is_draining := True, next_level_components := ns\<rparr>))"
      unfolding Suc machine_ok.simps(2) using d r(2)
      by (intro viewedI) (simp add: flagged_def rmc_inv_def)
  qed (simp add: rmc_drain_current_def)
  then show ?thesis unfolding Suc c(1) by (rule rmc_view.view_drain_ensures)
qed simp

end
