(* ===== verification/Program.thy ===== *)
theory Program
  imports Dispatch "HOL-Library.Char_ord" "HOL-Library.List_Lexorder"
begin

text \<open>
  The program \<open>vans\<close> (\<open>src/vans.cpp\<close>): its options, then the configuration, the tree that the factory builds,
  the run of the trace over it, and the counters, which the dumper of \<open>src/general/utils.h\<close> prints.
\<close>

section \<open>Output of the dumper\<close>

text \<open>A message goes to the console, to the dump file, to both or nowhere. Writing a file never fails.\<close>

datatype output_target = To_console | To_file string

type_synonym dump_output = "(output_target \<times> string) list"

definition dump :: "dumper \<Rightarrow> string \<Rightarrow> bool \<Rightarrow> dump_output" where
  "dump d msg endl =
     (let text = msg @ (if endl then [newline] else []) in
      (if dump_to_cli d then [(To_console, text)] else []) @
      (if dump_to_file d then [(To_file (dump_filename d), text)] else []))"

text \<open>
  \<open>std::map\<close> is walked in the order of its keys. Its keys are the names given to the constructor of the counter,
  because \<open>operator[]\<close> never adds one. Without a dumper the first counter is sent through a null pointer.
\<close>

definition counter_line :: "counter \<Rightarrow> string \<times> 64 word \<Rightarrow> string" where
  "counter_line c = (\<lambda>(name, v).
     ''cnt.'' @ domain c @ ''.'' @ sub_domain c @ ''.'' @ name @ '': '' @ show_number 10 (unat v))"

definition counter_entries :: "string list \<Rightarrow> counter \<Rightarrow> (string \<times> 64 word) list" where
  "counter_entries names c = List.map_filter (\<lambda>n. map_option (Pair n) (counters c n)) (sort (remdups names))"

definition counter_print :: "dumper option \<Rightarrow> string list \<Rightarrow> counter \<Rightarrow> vans_error + dump_output" where
  "counter_print d names c =
     (let cnts = counter_entries names c in
      case d of
        None \<Rightarrow> if cnts = [] then Inr [] else Inl Undefined_behaviour
      | Some d \<Rightarrow> Inr (concat (map (\<lambda>cnt. dump d (counter_line c cnt) True) cnts)))"

section \<open>Counters of the components\<close>

definition rmw_print_counters :: "dumper option \<Rightarrow> 'n rmw_controller \<Rightarrow> vans_error + dump_output" where
  "rmw_print_counters d c =
     ebind (counter_print d rmw_event_names (rmw_cnt_events c)) (\<lambda>out.
     ebind (counter_print d rmw_duration_names (rmw_cnt_duration c)) (\<lambda>out'. Inr (out @ out')))"

definition ait_print_counters :: "dumper option \<Rightarrow> ('n, 'm) ait_controller \<Rightarrow> vans_error + dump_output" where
  "ait_print_counters d c =
     ebind (counter_print d ait_event_names (ait_cnt_events c)) (\<lambda>out.
     ebind (counter_print d ait_duration_names (ait_cnt_duration c)) (\<lambda>out'. Inr (out @ out')))"

text \<open>The other controllers print nothing.\<close>

definition controller_print_counters :: "dumper option \<Rightarrow> single_component \<Rightarrow> vans_error + dump_output" where
  "controller_print_counters d s =
     (case s of S_rmw c \<Rightarrow> rmw_print_counters d c | S_ait c \<Rightarrow> ait_print_counters d c | _ \<Rightarrow> Inr [])"

text \<open>\<open>component::print_counters\<close>: the controller, then the next levels.\<close>

fun print_counters :: "component_tree \<Rightarrow> vans_error + dump_output"
  and print_counters_next :: "component_tree list \<Rightarrow> vans_error + dump_output" where
  "print_counters (Component s i d ns) =
     ebind (controller_print_counters d s) (\<lambda>out.
     ebind (print_counters_next ns) (\<lambda>out'. Inr (out @ out')))"
| "print_counters_next [] = Inr []"
| "print_counters_next (n # ns) =
     ebind (print_counters n) (\<lambda>out.
     ebind (print_counters_next ns) (\<lambda>out'. Inr (out @ out')))"

section \<open>Options\<close>

text \<open>
  \<open>getopt\<close> with the option string \<open>c:t:\<close>, as the C library has it: arguments that are not options are passed over,
  \<open>--\<close> ends the options, the value of an option is the rest of the argument or the next argument, whatever it is.
  Any other option and a missing value are reported as \<open>?\<close>, at which the program stops.
\<close>

datatype program_option = Opt_config string | Opt_trace string | Opt_unknown

definition option_of :: "char \<Rightarrow> string \<Rightarrow> program_option" where
  "option_of c optarg =
     (if c = CHR ''c'' then Opt_config optarg else if c = CHR ''t'' then Opt_trace optarg else Opt_unknown)"

fun getopt :: "string list \<Rightarrow> program_option list" where
  "getopt [] = []"
| "getopt (arg # args) =
     (if arg = ''--'' then []
      else if length arg < 2 \<or> hd arg \<noteq> CHR ''-'' then getopt args
      else if arg ! 1 \<noteq> CHR ''c'' \<and> arg ! 1 \<noteq> CHR ''t'' then [Opt_unknown]
      else if drop 2 arg \<noteq> [] then option_of (arg ! 1) (drop 2 arg) # getopt args
      else case args of
          [] \<Rightarrow> [Opt_unknown]
        | optarg # args \<Rightarrow> option_of (arg ! 1) optarg # getopt args)"

text \<open>The loop of \<open>main\<close>: the names of the configuration and of the trace, \<open>None\<close> when the usage is printed.\<close>

fun read_options :: "program_option list \<Rightarrow> string \<Rightarrow> string \<Rightarrow> (string \<times> string) option" where
  "read_options [] config_filename trace_filename = Some (config_filename, trace_filename)"
| "read_options (Opt_config a # opts) config_filename trace_filename = read_options opts a trace_filename"
| "read_options (Opt_trace a # opts) config_filename trace_filename = read_options opts config_filename a"
| "read_options (Opt_unknown # opts) config_filename trace_filename = None"

section \<open>The program\<close>

text \<open>The end of \<open>run_trace\<close>: the counters of the whole tree are printed.\<close>

definition run_and_print ::
  "nat \<Rightarrow> root_config \<Rightarrow> string option \<Rightarrow> component_tree
   \<Rightarrow> (vans_error + component_tree trace_state \<times> dump_output) option" where
  "run_and_print depth cfg trace_file model =
     (case run_trace (tree_ops dram_memory_ops depth) cfg trace_file model of
        None \<Rightarrow> None
      | Some r \<Rightarrow> Some (ebind r (\<lambda>s. ebind (print_counters (tr_model s)) (\<lambda>out. Inr (s, out)))))"

datatype program_result = Usage | Simulated "component_tree trace_state" dump_output

text \<open>
  \<open>files\<close> is the content of the files that can be opened. \<open>None\<close>: the program does not return, or the
  tree is deeper than \<open>depth\<close>.
\<close>

definition vans_main :: "nat \<Rightarrow> (string \<Rightarrow> string option) \<Rightarrow> string list \<Rightarrow> (vans_error + program_result) option" where
  "vans_main depth files args =
     (case read_options (getopt args) [] [] of
        None \<Rightarrow> Some (Inr Usage)
      | Some (config_filename, trace_filename) \<Rightarrow>
          (case new_root_config (files config_filename) of
             Inl e \<Rightarrow> Some (Inl e)
           | Inr cfg \<Rightarrow>
               (case factory_make depth cfg of
                  None \<Rightarrow> None
                | Some (Inl e) \<Rightarrow> Some (Inl e)
                | Some (Inr model) \<Rightarrow>
                    map_option (map_sum id (\<lambda>(s, out). Simulated s out))
                      (run_and_print depth cfg (files trace_filename) model))))"

end
