(* ===== verification/Program_Inv.thy ===== *)
theory Program_Inv
  imports Dispatch_Inv Program
begin

text \<open>
  The trees that the factory builds from a sane configuration satisfy the invariant of the tree. Sane are latencies
  below \<open>2 ^ 62\<close>, a threshold for wear levelling, DDR4 sections in the bounds of \<open>timing_ok\<close> and \<open>counts_ok\<close>
  that start at address 0 and name every level once, and an organization in which the levels fit (\<open>machine_shape\<close>).
\<close>

section \<open>Any DDR4 memory of the code\<close>

definition dram_memory_ok :: "dram_memory \<Rightarrow> bool" where
  "dram_memory_ok m \<longleftrightarrow> (\<exists>s. dram_memory_inv s 0 m)"

lemma responder_ex:
  assumes "\<And>s. responder ops (P s) w block answers"
  shows "responder ops (\<lambda>n. \<exists>s. P s n) w block answers"
proof -
  note r = assms and t = responder.axioms(1) [OF assms]
  note l = ticking_level.axioms(1) [OF t]
  show ?thesis
  proof
    fix n and q :: base_request and clk
    assume "\<exists>s. P s n"
    then obtain s where n: "P s n" ..
    show "ensures (full ops n) (\<lambda>b. True)" "ensures (is_pending ops n) (\<lambda>b. True)"
      by (rule next_level.full_ok [OF l n] ticking_level.pending_ok [OF t n])+
    show "ensures (issue_request ops n q) (\<lambda>(n', r', issued, deterministic, next_clk).
        (\<exists>s. P s n') \<and> (issued \<longrightarrow> deterministic \<longrightarrow> next_clk \<noteq> clk_invalid))" if "small_clk (req_arrive q)"
      by (rule ensures_mono [OF next_level.issue_ok [OF l n that]]) auto
    show "ensures (issue_request ops n q) (\<lambda>(n', r', issued, deterministic, next_clk). issued)"
      if "full ops n = Inr False" "small_clk (req_arrive q)"
      by (rule next_level.not_full_issues [OF l n that])
    show "ensures (tick ops clk n) (\<lambda>(n', calls). (\<exists>s. P s n') \<and> (\<forall>(cb, a, t) \<in> set calls. t = clk))" if "small_clk clk"
      by (rule ensures_mono [OF ticking_level.tick_ok [OF t n that]]) auto
    show "ensures (issue_request ops n q) (\<lambda>(n', r', issued, deterministic, next_clk).
        w n' = w n + (if issued \<and> \<not> deterministic \<and> answers q then {#(req_callback q, block (req_addr q))#} else {#}))"
      if "small_clk (req_arrive q)"
      by (rule responder.issue_owes [OF r n that])
    show "ensures (tick ops clk n) (\<lambda>(n', calls). w n = w n' + mset (map (\<lambda>(cb, a, t). (cb, block a)) calls))"
      if "small_clk clk"
      by (rule responder.tick_owes [OF r n that])
  qed
qed

interpretation any_dram: responder dram_skip_ops dram_memory_ok dram_memory_owes "\<lambda>a. a" is_read_with_callback
  unfolding dram_memory_ok_def [abs_def] by (rule responder_ex) (rule dram_mem.responder_axioms)

text \<open>The tree of the program, with memories that ignore the overflow of their refresh queue.\<close>

abbreviation vans_machine :: "bool \<Rightarrow> addr_t \<Rightarrow> nat \<Rightarrow> component_tree \<Rightarrow> bool" where
  "vans_machine b \<equiv> machine_ok b dram_memory_ok dram_memory_owes"

interpretation vans_tree: simulated_root "tree_ops dram_skip_ops n" "vans_machine b start n" "\<lambda>a. start \<le> a" for n b start
  by (rule tree_machine) unfold_locales

section \<open>Sane sections\<close>

definition value_such :: "config \<Rightarrow> string \<Rightarrow> (64 word \<Rightarrow> bool) \<Rightarrow> bool" where
  "value_such c key P = (case get_ulong c key of Inl e \<Rightarrow> True | Inr v \<Rightarrow> P v)"

definition small_value :: "64 word \<Rightarrow> bool" where
  "small_value v \<longleftrightarrow> v < 0x4000000000000000"

lemma small_value_iff: "small_value v \<longleftrightarrow> small_clk v"
  by (simp add: small_value_def small_clk_def word_less_nat_alt)

lemma value_suchD: "value_such c key P \<Longrightarrow> get_ulong c key = Inr v \<Longrightarrow> P v"
  by (simp add: value_such_def)

definition static_section_ok :: "config \<Rightarrow> bool" where
  "static_section_ok c \<longleftrightarrow> value_such c ''read_latency'' small_value \<and> value_such c ''write_latency'' small_value"

definition rmw_section_ok :: "config \<Rightarrow> bool" where
  "rmw_section_ok c \<longleftrightarrow> static_section_ok c \<and>
     value_such c ''ait_to_rmw_latency'' small_value \<and> value_such c ''rmw_to_ait_latency'' small_value"

definition mapping_names :: "string \<Rightarrow> string list" where
  "mapping_names m = map (\<lambda>i. take 2 (drop (2 * i) m)) [0, 1, 2, 3, 4, 5]"

definition dram_section_ok :: "config \<Rightarrow> bool" where
  "dram_section_ok c \<longleftrightarrow>
     (case ddr4_timing_of_config c of Inl e \<Rightarrow> True | Inr t \<Rightarrow> timing_ok t) \<and>
     list_all (\<lambda>key. value_such c key (\<lambda>v. v \<noteq> 0 \<and> v < 0x100000000)) [''channel'', ''rank'', ''bank_group'', ''bank'', ''row'', ''col''] \<and>
     value_such c ''col'' (\<lambda>v. 8 \<le> v) \<and> value_such c ''start_addr'' (\<lambda>v. v = 0) \<and>
     (case config_values c ''media_mapping_func'' of None \<Rightarrow> True
      | Some m \<Rightarrow> length m = 12 \<and> list_all (\<lambda>n. n \<in> set (mapping_names m)) level_names)"

definition ait_section_ok :: "config \<Rightarrow> bool" where
  "ait_section_ok c \<longleftrightarrow> dram_section_ok c \<and> value_such c ''wear_leveling_threshold'' (\<lambda>v. v \<noteq> 0) \<and>
     value_such c ''migration_block_entries'' (\<lambda>e. value_such c ''migration_latency'' (\<lambda>l. small_value (e * l)))"

definition section_such :: "root_config \<Rightarrow> string \<Rightarrow> (config \<Rightarrow> bool) \<Rightarrow> bool" where
  "section_such cfg name P = (case cfg name of None \<Rightarrow> True | Some c \<Rightarrow> P c)"

definition config_sane :: "root_config \<Rightarrow> bool" where
  "config_sane cfg \<longleftrightarrow> section_such cfg ''rmw'' rmw_section_ok \<and> section_such cfg ''ait'' ait_section_ok \<and>
     section_such cfg ''ddr4_system'' dram_section_ok \<and> section_such cfg ''nv_media'' static_section_ok"

section \<open>The DDR4 memory of a section\<close>

lemma mapping_names_concat: "length m = 12 \<Longrightarrow> concat (mapping_names m) = m"
  by (auto simp: mapping_names_def length_Suc_conv numeral_eq_Suc)

lemma mapping_names_mset:
  assumes "list_all (\<lambda>n. n \<in> set (mapping_names m)) level_names"
  shows "mset (mapping_names m) = mset level_names"
proof -
  have s: "set level_names \<subseteq> set (mapping_names m)" using assms by (auto simp: list_all_iff)
  have l: "length (mapping_names m) = 6" by (simp add: mapping_names_def)
  have d: "distinct level_names" by (simp add: level_names_def)
  then have c: "card (set level_names) = 6" using distinct_card [OF d] by (simp add: level_names_def)
  have "card (set (mapping_names m)) \<le> 6" using card_length [of "mapping_names m"] l by simp
  then have e: "set level_names = set (mapping_names m)" using card_seteq [OF _ s] c by simp
  then have "distinct (mapping_names m)" using c l by (intro card_distinct) simp
  then show ?thesis using e d by (simp add: set_eq_iff_mset_eq_distinct)
qed

lemma base_config_at_eq: "base_config_at cfg key = Inr v \<longleftrightarrow> cfg key = Some v"
  by (simp add: base_config_at_def split: option.split)

lemma dram_of_section:
  assumes m: "dram_memory_of_config c = Inr m" and ok: "dram_section_ok c"
  shows "dram_memory_ok m" "dram_memory_owes m = {#}"
proof -
  obtain t sz and dw :: "64 word" and counts media start epoch q where
    v: "ddr4_timing_of_config c = Inr t"
      "map_err (get_ulong c) [''channel'', ''rank'', ''bank_group'', ''bank'', ''row'', ''col''] = Inr counts"
      "config_values c ''media_mapping_func'' = Some media" "get_ulong c ''start_addr'' = Inr start"
      "new_dram_memory \<lparr>ddr4_timings = t, mem_size = sz, data_width = sint (ucast dw :: 32 word),
              level_count = (\<lambda>l. counts ! level_index l)\<rparr> media epoch q start = Inr m"
    using m by (simp only: dram_memory_of_config_def Let_def ebind_eq_Inr base_config_at_eq) (elim exE conjE, rule that, assumption+)
  let ?s = "\<lparr>ddr4_timings = t, mem_size = sz, data_width = sint (ucast dw :: 32 word), level_count = (\<lambda>l. counts ! level_index l)\<rparr>"
  have start: "start = 0" using ok v(4) by (auto simp: dram_section_ok_def dest: value_suchD)
  have t: "timing_ok (ddr4_timings ?s)" using ok v(1) by (simp add: dram_section_ok_def)
  have media: "concat (mapping_names media) = media" "mset (mapping_names media) = mset level_names"
    using ok v(3) mapping_names_concat mapping_names_mset by (auto simp: dram_section_ok_def)
  obtain ch ra bg ba ro co where g: "get_ulong c ''channel'' = Inr ch" "get_ulong c ''rank'' = Inr ra"
      "get_ulong c ''bank_group'' = Inr bg" "get_ulong c ''bank'' = Inr ba" "get_ulong c ''row'' = Inr ro"
      "get_ulong c ''col'' = Inr co" "counts = [ch, ra, bg, ba, ro, co]"
    using v(2) by (auto simp: ebind_eq_Inr)
  have "counts_ok ?s"
    using ok by (simp add: g dram_section_ok_def value_such_def counts_ok_def all_levels_def)
  from new_dram_memory_inv [OF _ media(2) this t, of epoch q start m] v(5)
  show "dram_memory_ok m" "dram_memory_owes m = {#}"
    unfolding media(1) dram_memory_ok_def start by blast+
qed

section \<open>Controllers as they are built\<close>

lemma all_owe_none: "\<forall>n \<in> set ns. w n = {#} \<Longrightarrow> all_owe w ns = {#}"
  by (induction ns) (simp_all add: all_owe_def)

lemma memory_controller_known: "memory_controller_of c = Inr f \<Longrightarrow> f = none_mapping \<or> f = stride_mapping_4096"
  by (auto simp: memory_controller_of_def get_component_mapping_func_def ebind_eq_Inr split: if_splits)

lemma mapping_ok_known:
  "mapping_func c = none_mapping \<or> mapping_func c = stride_mapping_4096 \<Longrightarrow> next_level_components c \<noteq> [] \<Longrightarrow>
   length (next_level_components c) < 2 ^ 64 \<Longrightarrow> mapping_ok c"
  using mapping_ok_none mapping_ok_stride by blast

lemma static_of_section:
  "static_memory_of_config c = Inr m \<Longrightarrow> static_section_ok c \<Longrightarrow> static_wf m"
  by (auto simp: static_memory_of_config_def ebind_eq_Inr static_section_ok_def static_wf_def
      small_value_iff [symmetric] dest: value_suchD)

lemma unat_below_2_64: "unat (b :: 64 word) < 2 ^ 64"
  using unsigned_less [of b] by simp

lemma rmw_of_section:
  assumes c: "rmw_of_config sec = Inr c" "rmw_section_ok sec"
    and ns: "ns \<noteq> []" "length ns < 2 ^ 64" "\<forall>n \<in> set ns. ninv n \<and> w n = {#}"
  shows "flagged False (rmw_inv ninv w {#}) (with_next ns c)"
proof -
  obtain m f l r a t and b :: "64 word" where v: "static_memory_of_config sec = Inr m" "memory_controller_of sec = Inr f"
      "get_ulong sec ''ait_to_rmw_latency'' = Inr a" "get_ulong sec ''rmw_to_ait_latency'' = Inr t"
      "c = new_rmw_controller f (unat b) (unat (l :: 64 word)) (unat (r :: 64 word)) a t m"
    using c(1) by (auto simp: rmw_of_config_def ebind_eq_Inr)
  have "mapping_ok (with_next ns c)"
    using memory_controller_known [OF v(2)] ns by (intro mapping_ok_known) (auto simp: v(5) with_next_def new_rmw_controller_def)
  moreover have "static_wf m" "small_clk a" "small_clk t"
    using c(2) v(1,3,4) static_of_section by (auto simp: rmw_section_ok_def small_value_iff [symmetric] dest: value_suchD)
  ultimately have "rmw_ctx ninv (with_next ns c)"
    using ns(3) by (simp add: rmw_ctx_def v(5) with_next_def new_rmw_controller_def new_counter_declares)
  then show ?thesis
    using unat_below_2_64 [of b] ns(3) all_owe_none [of ns w]
    by (simp add: flagged_def rmw_inv_def v(5) with_next_def new_rmw_controller_def new_internal_buffer_def buf_wf_def)
qed

lemma ait_of_section:
  assumes c: "ait_of_config sec = Inr c" "ait_section_ok sec"
    and ns: "ns \<noteq> []" "length ns < 2 ^ 64" "\<forall>n \<in> set ns. ninv n"
  shows "flagged False (ait_inv ninv dram_memory_ok (\<lambda>n. {#}) dram_memory_owes {#} {#}) (with_next ns c)" "ait_owes c = {#}"
proof -
  obtain m f th en la l lm and b :: "64 word" where v: "dram_memory_of_config sec = Inr m" "memory_controller_of sec = Inr f"
      "get_ulong sec ''wear_leveling_threshold'' = Inr th" "get_ulong sec ''migration_block_entries'' = Inr en"
      "get_ulong sec ''migration_latency'' = Inr la"
      "c = new_ait_controller f (unat b) (unat (l :: 64 word)) (unat (lm :: 64 word)) th en la m"
    using c(1) by (auto simp: ait_of_config_def ebind_eq_Inr)
  have "mapping_ok (with_next ns c)"
    using memory_controller_known [OF v(2)] ns by (intro mapping_ok_known) (auto simp: v(6) with_next_def new_ait_controller_def)
  moreover have d: "dram_memory_ok m" "dram_memory_owes m = {#}" "th \<noteq> 0" "small_clk (en * la)"
    using c(2) dram_of_section [OF v(1)] v(3-5) by (auto simp: ait_section_ok_def value_such_def small_value_iff)
  ultimately have "ait_ctx ninv dram_memory_ok (with_next ns c)"
    using ns(3) by (simp add: ait_ctx_def v(6) with_next_def new_ait_controller_def new_counter_declares table_ok_def)
  moreover have "lmemq_ok (lmemq_state (with_next ns c)) (queue (ait_lmemq (with_next ns c)))
      (dram_memory_owes (ait_local_memory (with_next ns c)) + {#})"
    using d(2) by (simp add: lmemq_ok_def lmemq_waits_def v(6) with_next_def new_ait_controller_def less_Suc_eq numeral_eq_Suc)
  ultimately show "flagged False (ait_inv ninv dram_memory_ok (\<lambda>n. {#}) dram_memory_owes {#} {#}) (with_next ns c)"
      "ait_owes c = {#}"
    using unat_below_2_64 [of b]
    by (simp_all add: all_owe_none new_request_queue_def rq_wf_def flagged_def ait_inv_def ait_owes_def v(6) with_next_def new_ait_controller_def new_internal_buffer_def buf_wf_def lmemq_content_def)
qed

lemma imc_of_section:
  assumes c: "imc_of_config sec = Inr c" and ns: "ns \<noteq> []" "length ns < 2 ^ 64" "\<forall>n \<in> set ns. ninv n"
  shows "flagged False (imc_inv ninv) (with_next ns c)"
proof -
  obtain f w r e where v: "memory_controller_of sec = Inr f" "c = new_imc_controller f w r e"
    using c by (auto simp: imc_of_config_def ebind_eq_Inr)
  have "mapping_ok (with_next ns c)"
    using memory_controller_known [OF v(1)] ns by (intro mapping_ok_known) (auto simp: v(2) with_next_def new_imc_controller_def)
  then show ?thesis
    using ns(3) by (simp add: flagged_def imc_inv_def v(2) with_next_def new_imc_controller_def new_request_queue_def rq_wf_def)
qed

lemma nvram_of_section:
  assumes c: "nvram_of_config sec = Inr c" and ns: "ns \<noteq> []" "length ns < 2 ^ 64" "\<forall>n \<in> set ns. ninv n"
  shows "flagged False (routing_inv ninv) (with_next ns c)"
proof -
  obtain f where f: "memory_controller_of sec = Inr f" "mapping_func c = f" "is_draining c = False"
    using c by (auto simp: nvram_of_config_def ebind_eq_Inr)
  have "mapping_ok (with_next ns c)"
    using memory_controller_known [OF f(1)] ns f(2) by (intro mapping_ok_known) (auto simp: with_next_def)
  then show ?thesis using ns(3) f(3) by (simp add: flagged_def routing_inv_def with_next_def)
qed

lemma rmc_of_section:
  assumes c: "rmc_of_config sec = Inr c" "rmc_start_addr c = Some start"
    and ns: "ns \<noteq> []" "length ns < 2 ^ 64" "\<forall>n \<in> set ns. ninv n"
  shows "flagged False (rmc_inv ninv start) (with_next ns c)"
proof -
  obtain f s where f: "memory_controller_of sec = Inr f" "c = new_rmc_controller f s"
    using c(1) by (auto simp: rmc_of_config_def ebind_eq_Inr split: if_splits)
  have "mapping_ok (with_next ns c)"
    using memory_controller_known [OF f(1)] ns f(2) by (intro mapping_ok_known) (auto simp: with_next_def new_rmc_controller_def)
  then show ?thesis using ns(3) c(2) f(2) by (simp add: flagged_def rmc_inv_def routing_inv_def with_next_def new_rmc_controller_def)
qed

lemma ddr4_of_section:
  "ddr4_system_of_config sec = Inr c \<Longrightarrow> dram_section_ok sec \<Longrightarrow>
   dram_memory_ok (ddr4_local_memory c) \<and> is_draining c = False"
  using dram_of_section by (auto simp: ddr4_system_of_config_def ebind_eq_Inr)

section \<open>The shape of a machine\<close>

text \<open>Which class can be below which, with the depth of \<open>tree_ops\<close>.\<close>

fun media_shape :: "nat \<Rightarrow> component_tree \<Rightarrow> bool" where
  "media_shape (Suc n) (Component (S_nv_media c) i d ns) \<longleftrightarrow> ns = []"
| "media_shape n t = False"

fun ait_shape :: "nat \<Rightarrow> component_tree \<Rightarrow> bool" where
  "ait_shape (Suc n) (Component (S_ait c) i d ns) \<longleftrightarrow> d \<noteq> None \<and> ns \<noteq> [] \<and> list_all (media_shape n) ns"
| "ait_shape n t \<longleftrightarrow> media_shape n t"

fun level_shape :: "nat \<Rightarrow> component_tree \<Rightarrow> bool" where
  "level_shape (Suc n) (Component (S_rmw c) i d ns) \<longleftrightarrow> d \<noteq> None \<and> ns \<noteq> [] \<and> list_all (ait_shape n) ns"
| "level_shape (Suc n) (Component (S_nvram_system c) i d ns) \<longleftrightarrow> ns \<noteq> [] \<and> list_all (level_shape n) ns"
| "level_shape (Suc n) (Component (S_ddr4_system c) i d ns) \<longleftrightarrow> list_all (level_shape n) ns"
| "level_shape n t \<longleftrightarrow> media_shape n t"

fun imc_shape :: "nat \<Rightarrow> component_tree \<Rightarrow> bool" where
  "imc_shape (Suc n) (Component (S_imc c) i d ns) \<longleftrightarrow> ns \<noteq> [] \<and> list_all (level_shape n) ns"
| "imc_shape n t \<longleftrightarrow> False"

fun machine_shape :: "addr_t \<Rightarrow> nat \<Rightarrow> component_tree \<Rightarrow> bool" where
  "machine_shape start (Suc n) (Component (S_rmc c) i d ns) \<longleftrightarrow>
     rmc_start_addr c = Some start \<and> ns \<noteq> [] \<and> list_all (imc_shape n) ns"
| "machine_shape start n t \<longleftrightarrow> False"

section \<open>A tree that the factory builds\<close>

lemma stoi_small: "stoi s = Inr v \<Longrightarrow> v < 2147483648"
  by (auto simp: stoi_def Let_def split: option.splits if_splits)

lemma get_organization_small: "get_organization cfg name = Inr (n, below) \<Longrightarrow> n < 2147483648"
  by (auto simp: get_organization_def ebind_eq_Inr intro: stoi_small split: option.splits)

lemma built_children:
  assumes "built cfg name i (Component s j d ns)"
  shows "make_single_component name cfg i = Inr (Component s i None [])" "length ns < 2 ^ 64"
    "\<exists>below. \<forall>n \<in> set ns. \<exists>k. built cfg below k n"
proof -
  from assms obtain n below where b: "i = j" "make_single_component name cfg j = Inr (Component s j None [])"
      "get_organization cfg name = Inr (n, below)" "length ns = nat n" "\<forall>k < length ns. built cfg below k (ns ! k)"
    by (elim built_elim) fastforce
  show "make_single_component name cfg i = Inr (Component s i None [])" using b(1,2) by simp
  show "length ns < 2 ^ 64" using get_organization_small [OF b(3)] b(4) by (simp add: nat_less_iff)
  show "\<exists>below. \<forall>n \<in> set ns. \<exists>k. built cfg below k n" using b(5) by (metis in_set_conv_nth)
qed

text \<open>The section that a component was built from.\<close>

lemma make_single_section:
  assumes "make_single_component name cfg i = Inr (Component s j d ns)"
  shows "\<exists>sec. cfg name = Some sec \<and> (case s of
      S_rmc c \<Rightarrow> rmc_of_config sec = Inr c
    | S_imc c \<Rightarrow> imc_of_config sec = Inr c
    | S_nvram_system c \<Rightarrow> nvram_of_config sec = Inr c
    | S_rmw c \<Rightarrow> name = ''rmw'' \<and> rmw_of_config sec = Inr c
    | S_ait c \<Rightarrow> name = ''ait'' \<and> ait_of_config sec = Inr c
    | S_ddr4_system c \<Rightarrow> name = ''ddr4_system'' \<and> ddr4_system_of_config sec = Inr c
    | S_nv_media m \<Rightarrow> name = ''nv_media'' \<and> static_memory_of_config sec = Inr m
    | S_cxl_system c \<Rightarrow> True)"
proof -
  have m: "map_sum id f x = Inr y \<longleftrightarrow> (\<exists>z. x = Inr z \<and> y = f z)" for f :: "'z \<Rightarrow> single_component" and x :: "vans_error + 'z" and y
    by (cases x) auto
  show ?thesis
    using assms unfolding make_single_component_def Let_def
    by (auto simp: ebind_eq_Inr base_config_at_eq m split: if_splits)
qed

lemma section_suchD: "section_such cfg name P \<Longrightarrow> cfg name = Some c \<Longrightarrow> P c"
  by (simp add: section_such_def)

lemma node_eq: "cls (with_next [] c) = s \<Longrightarrow> next_level_components c = ns \<Longrightarrow> node cls i d c = Component s i d ns"
  by (auto simp: node_def)

lemma with_no_next: "next_level_components c = [] \<Longrightarrow> with_next [] c = c"
  using with_next_simps(3) [of c] by simp

lemma no_next [simp]:
  "rmc_of_config sec = Inr (c :: 'n rmc_controller) \<Longrightarrow> next_level_components c = []"
  "imc_of_config sec = Inr (c2 :: 'n imc_controller) \<Longrightarrow> next_level_components c2 = []"
  "nvram_of_config sec = Inr (c3 :: 'n nvram_system_controller) \<Longrightarrow> next_level_components c3 = []"
  "rmw_of_config sec = Inr (c4 :: 'n rmw_controller) \<Longrightarrow> next_level_components c4 = []"
  "ait_of_config sec = Inr (c5 :: ('n, dram_memory) ait_controller) \<Longrightarrow> next_level_components c5 = []"
  by (auto simp: rmc_of_config_def imc_of_config_def nvram_of_config_def rmw_of_config_def ait_of_config_def ebind_eq_Inr
      new_rmc_controller_def new_imc_controller_def new_rmw_controller_def new_ait_controller_def split: if_splits)

lemma viewed_nodeI:
  assumes "next_level_components c = []" "P (with_next ns c)"
  shows "viewed (\<lambda>(i, d). node cls i d) P (Component (cls c) i d ns)"
proof -
  have "Component (cls c) i d ns = (\<lambda>(i, d). node cls i d) (i, d) (with_next ns c)"
    using with_no_next [OF assms(1)] by (simp add: node_def)
  then show ?thesis using assms(2) unfolding viewed_def by blast
qed

lemma viewed_dumpedI:
  assumes "next_level_components c = []" "P (with_next ns c)" "d \<noteq> None"
  shows "viewed (\<lambda>(i, d). node cls i (Some d)) P (Component (cls c) i d ns)"
proof -
  obtain d' where d: "d = Some d'" using assms(3) by auto
  have "Component (cls c) i d ns = (\<lambda>(i, d). node cls i (Some d)) (i, d') (with_next ns c)"
    using with_no_next [OF assms(1)] by (simp add: node_def d)
  then show ?thesis using assms(2) unfolding viewed_def by blast
qed

lemma built_media:
  assumes "config_sane cfg"
  shows "built cfg name i t \<Longrightarrow> media_shape n t \<Longrightarrow> media_ok n t \<and> tree_owes t = {#}"
proof (induction n t rule: media_shape.induct)
  case (1 n c j d ns)
  from make_single_section [OF built_children(1) [OF 1(1)]] assms have "static_wf c"
    by (auto simp: config_sane_def intro: static_of_section section_suchD)
  then show ?case using 1(2) by (auto simp: viewed_def media_node_def)
qed simp_all

lemma media_other:
  "media_ok n t \<Longrightarrow> ait_ok b minv mowes n t" "media_ok n t \<Longrightarrow> level_ok b minv mowes n t"
  by (cases n; simp)+

lemma built_ait:
  assumes "config_sane cfg"
  shows "built cfg name i t \<Longrightarrow> ait_shape n t \<Longrightarrow> ait_ok False dram_memory_ok dram_memory_owes n t \<and> tree_owes t = {#}"
proof (induction n t rule: ait_shape.induct)
  case (1 n c j d ns)
  note b = built_children [OF 1(1)]
  from make_single_section [OF b(1)] obtain sec where s: "cfg ''ait'' = Some sec" "ait_of_config sec = Inr c" by auto
  have ok: "ait_section_ok sec" using assms s(1) by (auto simp: config_sane_def dest: section_suchD)
  have ns: "ns \<noteq> []" "\<forall>n' \<in> set ns. media_ok n n'"
    using 1(2) b(3) built_media [OF assms] by (auto simp: list_all_iff)
  note i = ait_of_section [where ninv = "media_ok n", OF s(2) ok ns(1) b(2) ns(2)]
  have "viewed ait_node (flagged False (ait_inv (media_ok n) dram_memory_ok (\<lambda>n. {#}) dram_memory_owes {#} {#})) (Component (S_ait c) j d ns)"
    using i(1) s(2) 1(2) by (intro viewed_dumpedI) auto
  then show ?case using i(2) by simp
qed (auto dest!: built_media [OF assms] intro: media_other)

lemma built_level:
  assumes "config_sane cfg"
  shows "built cfg name i t \<Longrightarrow> level_shape n t \<Longrightarrow> level_ok False dram_memory_ok dram_memory_owes n t"
proof (induction n t arbitrary: name i rule: level_shape.induct)
  case (1 n c j d ns)
  note b = built_children [OF 1(1)]
  from make_single_section [OF b(1)] obtain sec where s: "cfg ''rmw'' = Some sec" "rmw_of_config sec = Inr c" by auto
  have ok: "rmw_section_ok sec" using assms s(1) by (auto simp: config_sane_def dest: section_suchD)
  have ns: "ns \<noteq> []" "\<forall>n' \<in> set ns. ait_ok False dram_memory_ok dram_memory_owes n n' \<and> tree_owes n' = {#}"
    using 1(2) b(3) built_ait [OF assms] by (auto simp: list_all_iff) blast
  have "viewed rmw_node (flagged False (rmw_inv (ait_ok False dram_memory_ok dram_memory_owes n) tree_owes {#})) (Component (S_rmw c) j d ns)"
    using rmw_of_section [OF s(2) ok ns(1) b(2) ns(2)] s(2) 1(2) by (intro viewed_dumpedI) auto
  then show ?case by simp
next
  case (2 n c j d ns)
  note b = built_children [OF 2(2)]
  from make_single_section [OF b(1)] obtain sec where s: "nvram_of_config sec = Inr c" by auto
  have ns: "ns \<noteq> []" "\<forall>n' \<in> set ns. level_ok False dram_memory_ok dram_memory_owes n n'"
    using 2(1,3) b(3) by (auto simp: list_all_iff)
  have "viewed nvram_node (flagged False (routing_inv (level_ok False dram_memory_ok dram_memory_owes n))) (Component (S_nvram_system c) j d ns)"
    using nvram_of_section [OF s ns(1) b(2) ns(2)] s by (intro viewed_nodeI) auto
  then show ?case by simp
next
  case (3 n c j d ns)
  note b = built_children [OF 3(2)]
  from make_single_section [OF b(1)] obtain sec where s: "cfg ''ddr4_system'' = Some sec" "ddr4_system_of_config sec = Inr c" by auto
  have ok: "dram_section_ok sec" using assms s(1) by (auto simp: config_sane_def dest: section_suchD)
  have "\<forall>n' \<in> set ns. level_ok False dram_memory_ok dram_memory_owes n n'" using 3(1,3) b(3) by (auto simp: list_all_iff)
  then show ?case using ddr4_of_section [OF s(2) ok] by (auto simp: viewed_def ddr4_node_def ddr4_node_inv_def)
qed (auto dest!: built_media [OF assms] intro: media_other)

lemma built_imc:
  assumes "config_sane cfg"
  shows "built cfg name i t \<Longrightarrow> imc_shape n t \<Longrightarrow> imc_ok False dram_memory_ok dram_memory_owes n t"
proof (induction n t rule: imc_shape.induct)
  case (1 n c j d ns)
  note b = built_children [OF 1(1)]
  from make_single_section [OF b(1)] obtain sec where s: "imc_of_config sec = Inr c" by auto
  have ns: "ns \<noteq> []" "\<forall>n' \<in> set ns. level_ok False dram_memory_ok dram_memory_owes n n'"
    using 1(2) b(3) built_level [OF assms] by (auto simp: list_all_iff)
  have "viewed imc_node (flagged False (imc_inv (level_ok False dram_memory_ok dram_memory_owes n))) (Component (S_imc c) j d ns)"
    using imc_of_section [OF s ns(1) b(2) ns(2)] s by (intro viewed_nodeI) auto
  then show ?case by simp
qed simp_all

lemma built_machine:
  assumes "config_sane cfg"
  shows "built cfg name i t \<Longrightarrow> machine_shape start n t \<Longrightarrow> vans_machine False start n t"
proof (induction start n t rule: machine_shape.induct)
  case (1 start n c j d ns)
  note b = built_children [OF 1(1)]
  from make_single_section [OF b(1)] obtain sec where s: "rmc_of_config sec = Inr c" by auto
  have ns: "rmc_start_addr c = Some start" "ns \<noteq> []" "\<forall>n' \<in> set ns. imc_ok False dram_memory_ok dram_memory_owes n n'"
    using 1(2) b(3) built_imc [OF assms] by (auto simp: list_all_iff)
  have "viewed rmc_node (flagged False (rmc_inv (imc_ok False dram_memory_ok dram_memory_owes n) start)) (Component (S_rmc c) j d ns)"
    using rmc_of_section [OF s ns(1,2) b(2) ns(3)] s by (intro viewed_nodeI) auto
  then show ?case by simp
qed simp_all

end
