(* ===== verification/Dispatch_Upto.thy ===== *)
theory Dispatch_Upto
  imports Dispatch_Inv
begin

text \<open>
  A tree whose DDR4 memories ignore the overflow of their refresh queues and one with the memories
  of the code run alike, call by call, until one of the overflows is thrown: the relation
  \<open>ops_upto\<close> passes from a memory through every class to the tree.
\<close>

section \<open>Through the classes\<close>

lemma ops_upto_eqs:
  "ops_upto e ops ops' \<longleftrightarrow> issue_request ops = issue_request ops' \<and> full ops = full ops' \<and>
     is_pending ops = is_pending ops' \<and> drain ops = drain ops' \<and>
     (\<forall>clk n. same_or_fails e (tick ops clk n) (tick ops' clk n))"
proof
  assume r: "issue_request ops = issue_request ops' \<and> full ops = full ops' \<and> is_pending ops = is_pending ops' \<and>
    drain ops = drain ops' \<and> (\<forall>clk n. same_or_fails e (tick ops clk n) (tick ops' clk n))"
  then have "ops = ops'\<lparr>tick := tick ops\<rparr>" by simp
  then show "ops_upto e ops ops'" using r unfolding ops_upto_def by blast
qed (auto simp: ops_upto_def)

lemma ops_uptoI:
  "issue_request ops = issue_request ops' \<Longrightarrow> full ops = full ops' \<Longrightarrow> is_pending ops = is_pending ops' \<Longrightarrow>
   drain ops = drain ops' \<Longrightarrow> (\<And>clk n. same_or_fails e (tick ops clk n) (tick ops' clk n)) \<Longrightarrow> ops_upto e ops ops'"
  by (simp add: ops_upto_eqs)

lemma ops_uptoD:
  assumes "ops_upto e ops ops'"
  shows "issue_request ops = issue_request ops'" "full ops = full ops'" "is_pending ops = is_pending ops'"
    "drain ops = drain ops'" "same_or_fails e (tick ops clk n) (tick ops' clk n)"
  using assms by (simp_all add: ops_upto_eqs)

lemma routing_tick_upto: "ops_upto e ops ops' \<Longrightarrow> same_or_fails e (routing_tick ops clk c) (routing_tick ops' clk c)"
  using tick_list_upto by (auto simp: routing_tick_def intro!: same_or_fails_ebind)

lemma next_issue_upto: "ops_upto e ops ops' \<Longrightarrow> next_issue ops = next_issue ops'"
  by (simp add: fun_eq_iff next_issue_def ops_uptoD(1) [of e ops ops'])

lemma next_full_upto: "ops_upto e ops ops' \<Longrightarrow> next_full ops = next_full ops'"
  by (simp add: fun_eq_iff next_full_def ops_uptoD(2) [of e ops ops'])

lemma rmc_ops_upto:
  assumes "ops_upto e ops ops'"
  shows "ops_upto e (rmc_ops ops) (rmc_ops ops')"
  by (rule ops_uptoI) (simp_all add: rmc_ops_def fun_eq_iff rmc_issue_request_def route_request_def mc_pending_def mc_drain_def
      next_issue_upto [OF assms] ops_uptoD(3,4) [OF assms] routing_tick_upto [OF assms] split: option.split)

lemma nvram_ops_upto:
  assumes "ops_upto e ops ops'"
  shows "ops_upto e (nvram_ops ops) (nvram_ops ops')"
  by (rule ops_uptoI) (simp_all add: nvram_ops_def fun_eq_iff nvram_issue_request_def route_request_def mc_pending_def mc_drain_def
      nvram_full_def next_issue_upto [OF assms] ops_uptoD(2-4) [OF assms] routing_tick_upto [OF assms])

lemma cxl_ops_upto:
  assumes "ops_upto e ops ops'"
  shows "ops_upto e (cxl_system_ops ops) (cxl_system_ops ops')"
  by (rule ops_uptoI) (auto simp: cxl_system_ops_def cxl_tick_def tick_list_upto [OF assms] intro!: same_or_fails_ebind)

lemma ddr4_node_upto:
  assumes m: "ops_upto e mops mops'" and o: "ops_upto e ops ops'"
  shows "ops_upto e (ddr4_node_ops mops ops) (ddr4_node_ops mops' ops')"
proof (rule ops_uptoI)
  show "same_or_fails e (tick (ddr4_node_ops mops ops) clk n) (tick (ddr4_node_ops mops' ops') clk n)" for clk n
    using ops_uptoD(5) [OF m] tick_list_upto [OF o]
    by (cases n) (auto simp: ddr4_node_ops_def ddr4_tick_def intro!: same_or_fails_ebind)
  show "is_pending (ddr4_node_ops mops ops) = is_pending (ddr4_node_ops mops' ops')"
    by (simp only: ddr4_node_ops_def component_ops.simps ddr4_pending_current_def ops_uptoD(3) [OF m] ops_uptoD(3) [OF o])
qed (simp_all add: ddr4_node_ops_def fun_eq_iff ddr4_issue_request_def ddr4_full_def ddr4_drain_def
    ddr4_drain_current_def ops_uptoD(1-4) [OF m] ops_uptoD(4) [OF o])

section \<open>The integrated memory controller\<close>

lemma imc_flush_step_upto: "ops_upto e ops ops' \<Longrightarrow> imc_flush_step ops = imc_flush_step ops'"
  by (intro ext) (unfold imc_flush_step_def next_issue_upto next_full_upto, rule refl)

lemma imc_tick_read_upto: "ops_upto e ops ops' \<Longrightarrow> imc_tick_read ops = imc_tick_read ops'"
  by (intro ext) (unfold imc_tick_read_def next_issue_upto next_full_upto, rule refl)

lemma imc_flush_mono:
  assumes "imc_flush_step ops = imc_flush_step ops'" "imc_flush_wpq ops c out = Some y"
  shows "imc_flush_wpq ops' c out = Some y"
proof -
  have "imc_flush_step ops = imc_flush_step ops' \<longrightarrow> imc_flush_wpq ops' c out = Some y"
  proof (rule imc_flush_wpq.raw_induct [where
        P = "\<lambda>ops c out r. imc_flush_step ops = imc_flush_step ops' \<longrightarrow> imc_flush_wpq ops' c out = Some r", OF _ assms(2)], intro impI)
    fix f :: "'a component_ops \<Rightarrow> 'a imc_controller \<Rightarrow> call list \<Rightarrow> (vans_error + 'a imc_controller \<times> call list) option"
    fix ops c out r
    assume IH: "\<And>ops c out r. f ops c out = Some r \<Longrightarrow> imc_flush_step ops = imc_flush_step ops' \<longrightarrow> imc_flush_wpq ops' c out = Some r"
      and r: "(case imc_flush_step ops c of Inl e \<Rightarrow> Some (Inl e)
        | Inr r \<Rightarrow> if fst r then f ops (fst (snd r)) (out @ snd (snd r)) else Some (Inr (fst (snd r), out))) = Some r"
      and s: "imc_flush_step ops = imc_flush_step ops'"
    then show "imc_flush_wpq ops' c out = Some r"
      by (subst imc_flush_wpq.simps) (auto split: sum.splits if_splits)
  qed
  then show ?thesis using assms(1) by simp
qed

lemma imc_flush_upto:
  assumes "ops_upto e ops ops'"
  shows "imc_flush_wpq ops = imc_flush_wpq ops'"
proof (intro ext)
  fix c out
  note s = imc_flush_step_upto [OF assms]
  show "imc_flush_wpq ops c out = imc_flush_wpq ops' c out"
    using imc_flush_mono [OF s, of c out] imc_flush_mono [OF s [symmetric], of c out]
    by (cases "imc_flush_wpq ops c out"; cases "imc_flush_wpq ops' c out") auto
qed

lemma imc_ops_upto:
  assumes "ops_upto e ops ops'"
  shows "ops_upto e (imc_ops ops) (imc_ops ops')"
proof (rule ops_uptoI)
  have q: "imc_tick_queue ops = imc_tick_queue ops'"
    by (intro ext) (unfold imc_tick_queue_def imc_tick_read_upto [OF assms] imc_flush_upto [OF assms], rule refl)
  have c: "imc_tick_ctrl ops = imc_tick_ctrl ops'"
    by (intro ext) (unfold imc_tick_ctrl_def q imc_adr_def imc_flush_upto [OF assms], rule refl)
  show "same_or_fails e (tick (imc_ops ops) clk n) (tick (imc_ops ops') clk n)" for clk n
    using tick_list_upto [OF assms]
    by (auto simp: imc_ops_def imc_tick_def c split: option.split intro!: same_or_fails_ebind)
qed (simp_all add: imc_ops_def fun_eq_iff mc_pending_def mc_drain_def ops_uptoD(3,4) [OF assms])

section \<open>The address indirection table\<close>

lemma ait_issue_next_upto:
  "ops_upto e ops ops' \<Longrightarrow> ait_issue_next_level ty ops = ait_issue_next_level ty ops'"
  by (intro ext) (unfold ait_issue_next_level_def next_issue_upto, rule refl)

lemma ait_state_trans_upto:
  assumes "ops_upto e ops ops'"
    and "ait_state_trans ty st = Some f"
  shows "f ops = f ops'"
  using assms(2) by (cases ty; cases st) (auto intro!: ext simp: ait_issue_next_upto [OF assms(1)]
      ait_write_miss_init_def ait_write_miss_pending_read_media_def ait_write_miss_pending_write_dram_def
      ait_write_miss_pending_migration_def ait_write_miss_pending_write_media_def ait_write_hit_init_def
      ait_write_hit_pending_write_dram_def ait_write_hit_pending_migration_def ait_write_hit_pending_write_media_def
      ait_read_miss_init_def ait_read_miss_pending_read_media_def ait_read_miss_pending_read_dram_def
      ait_read_hit_init_def ait_read_hit_pending_read_dram_def)

lemma ait_state_transfer_upto:
  assumes "ops_upto e ops (ops' :: 'n component_ops)"
  shows "ait_state_transfer ops clk k en (c :: ('n, 'm) ait_controller) = ait_state_transfer ops' clk k en c"
  by (cases "ait_state_trans (ait_type (ait_pending_request en)) (ait_state en) :: ('n, 'm) ait_trans option")
    (simp_all add: ait_state_transfer_def ait_state_trans_upto [OF assms])

lemma ait_tick_entries_upto:
  assumes "ops_upto e ops ops'"
  shows "ait_tick_entries ops clk ks c = ait_tick_entries ops' clk ks c"
proof (induction ks arbitrary: c)
  case (Cons k ks)
  have "ait_tick_entry ops clk k c = ait_tick_entry ops' clk k c"
    unfolding ait_tick_entry_def ait_state_transfer_upto [OF assms] by (rule refl)
  then show ?case by (simp only: ait_tick_entries.simps Cons.IH)
qed simp

lemma ait_tick_ctrl_upto:
  assumes o: "ops_upto e ops ops'" and m: "ops_upto e mops mops'"
  shows "ait_tick_ctrl ops mops = ait_tick_ctrl ops' mops'"
proof -
  obtain t where t: "mops = mops'\<lparr>tick := t\<rparr>" using m by (auto simp: ops_upto_def)
  show ?thesis
    by (intro ext) (simp add: ait_tick_ctrl_def ait_tick_internal_buffer_def t ait_tick_lmemq_tick ait_tick_entries_upto [OF o])
qed

lemma ait_levels_upto:
  assumes o: "ops_upto e ops ops'" and m: "ops_upto e mops mops'"
  shows "ops_upto e (ait_ops ops mops) (ait_ops ops' mops')"
proof (rule ops_uptoI)
  show "same_or_fails e (tick (ait_ops ops mops) clk n) (tick (ait_ops ops' mops') clk n)" for clk n
    using ops_uptoD(5) [OF m] tick_list_upto [OF o]
    by (auto simp: ait_ops_def ait_tick_def ait_tick_ctrl_upto [OF o m] split_def
        intro!: same_or_fails_ebind same_or_fails_ebind_same)
qed (simp_all add: ait_ops_def fun_eq_iff mc_pending_def mc_drain_def ops_uptoD(3,4) [OF o])

section \<open>The tree\<close>

lemma object_methods_upto:
  "ops_upto e ops ops' \<Longrightarrow> ops_upto e (object_methods ops put c) (object_methods ops' put c)"
  by (rule ops_uptoI) (auto simp: object_methods_def ops_uptoD fun_eq_iff intro!: same_or_fails_ebind)

lemma methods_of_upto:
  assumes m: "ops_upto e mops mops'" and o: "ops_upto e ops ops'"
  shows "ops_upto e (methods_of mops ops t) (methods_of mops' ops' t)"
proof -
  obtain s i d ns where t: "t = Component s i d ns" by (cases t)
  have s: "ops_upto e static_memory_ops static_memory_ops" by (rule ops_uptoI) simp_all
  show ?thesis
    by (cases s; simp only: t methods_of.simps; rule object_methods_upto)
      (rule rmc_ops_upto imc_ops_upto ddr4_node_upto nvram_ops_upto cxl_ops_upto rmw_ops_upto ait_levels_upto s m o)+
qed

lemma tree_ops_upto:
  assumes "ops_upto e mops mops'"
  shows "ops_upto e (tree_ops mops n) (tree_ops mops' n)"
proof (induction n)
  case 0
  then show ?case by (intro ops_uptoI) simp_all
next
  case (Suc n)
  note t = methods_of_upto [OF assms Suc]
  show ?case by (rule ops_uptoI) (simp_all add: Let_def fun_eq_iff ops_uptoD [OF t])
qed

end
