(* ===== verification/Simulate.thy ===== *)
theory Simulate
  imports Machine
begin

text \<open>
  Runs of the trace runner with a number of cycles: the loop over the trace and the loop after the drain
  return exactly when some numbers of iterations are enough.
\<close>

section \<open>Iterations of the loops\<close>

text \<open>The flag says that the loop has ended.\<close>

fun drain_iterate :: "nat \<Rightarrow> 'n component_ops \<Rightarrow> 'n trace_state \<Rightarrow> vans_error + 'n trace_state \<times> bool" where
  "drain_iterate 0 ops s = Inr (s, False)"
| "drain_iterate (Suc j) ops s =
     ebind (is_pending ops (tr_model s)) (\<lambda>p.
       if p then ebind (trace_tick ops s) (drain_iterate j ops) else Inr (s, True))"

definition simulate_within ::
  "nat \<Rightarrow> nat \<Rightarrow> 'n component_ops \<Rightarrow> 'n trace_state \<Rightarrow> (vans_error + 'n trace_state \<times> bool) option" where
  "simulate_within k j ops s =
     (case trace_iterate k ops s of
        None \<Rightarrow> None
      | Some r \<Rightarrow> Some (ebind r (\<lambda>s.
          if trace_end s then ebind (drain ops (tr_model s)) (\<lambda>m. drain_iterate j ops (s\<lparr>tr_model := m\<rparr>))
          else Inr (s, False))))"

abbreviation ended :: "vans_error + 'n trace_state \<Rightarrow> vans_error + 'n trace_state \<times> bool" where
  "ended \<equiv> map_sum id (\<lambda>s. (s, True))"

lemma trace_loop_iterates:
  assumes "trace_loop ops s = Some r"
  shows "\<exists>k. trace_iterate k ops s = Some r \<and> (\<forall>s'. r = Inr s' \<longrightarrow> trace_end s')"
proof (rule trace_loop.raw_induct [where
      P = "\<lambda>ops s r. \<exists>k. trace_iterate k ops s = Some r \<and> (\<forall>s'. r = Inr s' \<longrightarrow> trace_end s')", OF _ assms])
  fix f :: "'a component_ops \<Rightarrow> 'a trace_state \<Rightarrow> (vans_error + 'a trace_state) option" and ops s r
  assume IH: "\<And>ops s r. f ops s = Some r \<Longrightarrow> \<exists>k. trace_iterate k ops s = Some r \<and> (\<forall>s'. r = Inr s' \<longrightarrow> trace_end s')"
    and r: "(if trace_end s then Some (Inr s)
      else case trace_step ops s of None \<Rightarrow> None | Some r \<Rightarrow> (case r of Inl e \<Rightarrow> Some (Inl e) | Inr s \<Rightarrow> f ops s)) = Some r"
  show "\<exists>k. trace_iterate k ops s = Some r \<and> (\<forall>s'. r = Inr s' \<longrightarrow> trace_end s')"
  proof (cases "trace_end s")
    case True
    then show ?thesis using r by (intro exI [of _ 0]) auto
  next
    case False
    then obtain q where q: "trace_step ops s = Some q" using r by (auto split: option.splits)
    show ?thesis
    proof (cases q)
      case (Inl e)
      then show ?thesis using r q False by (intro exI [of _ 1]) auto
    next
      case (Inr t)
      then obtain k where "trace_iterate k ops t = Some r" "\<forall>s'. r = Inr s' \<longrightarrow> trace_end s'"
        using IH [of ops t r] r q False by auto
      then show ?thesis using q Inr False by (intro exI [of _ "Suc k"]) simp
    qed
  qed
qed

lemma trace_iterates_loop:
  "trace_iterate k ops s = Some r \<Longrightarrow> (\<And>s'. r = Inr s' \<Longrightarrow> trace_end s') \<Longrightarrow> trace_loop ops s = Some r"
proof (induction k arbitrary: s)
  case 0
  then show ?case by (subst trace_loop.simps) auto
next
  case (Suc k)
  then show ?case by (subst trace_loop.simps) (auto split: if_splits option.splits sum.splits)
qed

lemma drain_loop_iterates:
  assumes "drain_loop ops s = Some r"
  shows "\<exists>j. drain_iterate j ops s = ended r"
proof (rule drain_loop.raw_induct [where P = "\<lambda>ops s r. \<exists>j. drain_iterate j ops s = ended r", OF _ assms])
  fix f :: "'a component_ops \<Rightarrow> 'a trace_state \<Rightarrow> (vans_error + 'a trace_state) option" and ops s r
  assume IH: "\<And>ops s r. f ops s = Some r \<Longrightarrow> \<exists>j. drain_iterate j ops s = ended r"
    and r: "(case ebind (is_pending ops (tr_model s)) (\<lambda>p. if p then map_sum id Some (trace_tick ops s) else Inr None) of
        Inl e \<Rightarrow> Some (Inl e) | Inr None \<Rightarrow> Some (Inr s) | Inr (Some s) \<Rightarrow> f ops s) = Some r"
  show "\<exists>j. drain_iterate j ops s = ended r"
  proof (cases "is_pending ops (tr_model s)")
    case (Inl e)
    then show ?thesis using r by (intro exI [of _ 1]) auto
  next
    case p: (Inr p)
    show ?thesis
    proof (cases "p \<and> (\<exists>t. trace_tick ops s = Inr t)")
      case False
      then show ?thesis using r p by (intro exI [of _ 1]) (cases "trace_tick ops s"; auto)
    next
      case True
      then obtain t where t: "trace_tick ops s = Inr t" "p" by blast
      then obtain j where "drain_iterate j ops t = ended r" using IH [of ops t r] r p by auto
      then show ?thesis using t p by (intro exI [of _ "Suc j"]) simp
    qed
  qed
qed

lemma drain_iterates_loop:
  "drain_iterate j ops s = ended r \<Longrightarrow> drain_loop ops s = Some r"
proof (induction j arbitrary: s)
  case 0
  then show ?case by (cases r) auto
next
  case (Suc j)
  show ?case
  proof (cases "is_pending ops (tr_model s)")
    case (Inl e)
    then show ?thesis using Suc.prems by (subst drain_loop.simps) (cases r; simp)
  next
    case p: (Inr p)
    show ?thesis
    proof (cases "p \<and> (\<exists>t. trace_tick ops s = Inr t)")
      case False
      then show ?thesis using Suc.prems p by (subst drain_loop.simps) (cases r; cases "trace_tick ops s"; auto split: if_splits)
    next
      case True
      then obtain t where t: "trace_tick ops s = Inr t" "p" by blast
      then have "drain_loop ops t = Some r" using Suc.IH [of t] Suc.prems p by simp
      then show ?thesis using t p by (subst drain_loop.simps) simp
    qed
  qed
qed

lemma simulate_iff_within:
  "simulate ops s = Some r \<longleftrightarrow> (\<exists>k j. simulate_within k j ops s = Some (ended r))"
proof
  assume s: "simulate ops s = Some r"
  then obtain q where q: "trace_loop ops s = Some q" by (auto simp: simulate_def split: option.splits)
  from trace_loop_iterates [OF this] obtain k where
    k: "trace_iterate k ops s = Some q" "\<And>s'. q = Inr s' \<Longrightarrow> trace_end s'" by blast
  show "\<exists>k j. simulate_within k j ops s = Some (ended r)"
  proof (cases q)
    case (Inl e)
    then show ?thesis using s q k(1) by (auto simp: simulate_def simulate_within_def intro!: exI [of _ k])
  next
    case (Inr t)
    show ?thesis
    proof (cases "drain ops (tr_model t)")
      case i: (Inl e)
      then show ?thesis using s q k Inr by (auto simp: simulate_def simulate_within_def intro!: exI [of _ k])
    next
      case m: (Inr m)
      then obtain j where "drain_iterate j ops (t\<lparr>tr_model := m\<rparr>) = ended r"
        using drain_loop_iterates [of ops "t\<lparr>tr_model := m\<rparr>" r] s q Inr by (auto simp: simulate_def)
      then show ?thesis using k m Inr by (intro exI [of _ k] exI [of _ j]) (simp add: simulate_within_def)
    qed
  qed
next
  assume "\<exists>k j. simulate_within k j ops s = Some (ended r)"
  then obtain k j q where k: "simulate_within k j ops s = Some (ended r)" "trace_iterate k ops s = Some q"
    by (auto simp: simulate_within_def split: option.splits)
  show "simulate ops s = Some r"
  proof (cases q)
    case (Inl e)
    then have "r = Inl e" using k by (cases r) (simp_all add: simulate_within_def)
    moreover have "trace_loop ops s = Some (Inl e)" using trace_iterates_loop [OF k(2)] Inl by simp
    ultimately show ?thesis by (simp add: simulate_def)
  next
    case (Inr t)
    then have e: "trace_end t" using k by (cases r) (auto simp: simulate_within_def split: if_splits)
    then have l: "trace_loop ops s = Some (Inr t)" using trace_iterates_loop [OF k(2)] Inr by simp
    show ?thesis
    proof (cases "drain ops (tr_model t)")
      case (Inl e')
      then have "r = Inl e'" using k e Inr \<open>q = Inr t\<close> by (cases r) (simp_all add: simulate_within_def)
      then show ?thesis using l Inl by (simp add: simulate_def)
    next
      case (Inr m)
      then have "drain_iterate j ops (t\<lparr>tr_model := m\<rparr>) = ended r"
        using k e \<open>q = Inr t\<close> by (simp add: simulate_within_def)
      then show ?thesis using drain_iterates_loop l Inr by (simp add: simulate_def)
    qed
  qed
qed

end
