(* ===== verification/Program_Run.thy ===== *)
theory Program_Run
  imports Program_Inv Dispatch_Upto Simulate
begin

text \<open>
  Runs of the program over the trees that the factory builds: the loop after the drain keeps the invariant of the
  machine, and the counters of every object can be printed.
\<close>

section \<open>Pending requests\<close>

lemma mc_pending_ensures:
  assumes "own c = Inr p" "\<forall>n \<in> set (next_level_components c). ensures (is_pending ops n) (\<lambda>b. True)"
  shows "ensures (mc_pending ops own c) (\<lambda>b. True)"
  using any_err_ensures [OF assms(2)] assms(1) by (auto simp: mc_pending_def ensures_iff)

lemma imc_tree_pending:
  assumes m: "responder mops minv mowes (\<lambda>a. a) is_read_with_callback"
  shows "imc_ok b minv mowes n t \<Longrightarrow> ensures (is_pending (tree_ops mops n) t) (\<lambda>p. True)"
proof (cases n)
  case (Suc j)
  assume "imc_ok b minv mowes n t"
  then obtain k c where t: "t = imc_node k c" "imc_inv (level_ok b minv mowes j) c"
    by (auto simp: Suc viewed_def flagged_def)
  have "ensures (mc_pending (tree_ops mops j) (\<lambda>c. Inr (imc_pending_current c)) c) (\<lambda>p. True)"
    by (rule mc_pending_ensures [OF refl])
      (use t(2) ticking_level.pending_ok [OF tree_level [OF m]] in \<open>auto simp: imc_inv_def\<close>)
  then show ?thesis unfolding Suc t(1) imc_view.view_pending by (simp add: imc_ops_def)
qed simp

lemma machine_pending:
  assumes m: "responder mops minv mowes (\<lambda>a. a) is_read_with_callback"
  shows "machine_ok b minv mowes start n t \<Longrightarrow> ensures (is_pending (tree_ops mops n) t) (\<lambda>p. True)"
proof (cases n)
  case (Suc j)
  assume "machine_ok b minv mowes start n t"
  then obtain k c where t: "t = rmc_node k c" "rmc_inv (imc_ok b minv mowes j) start c"
    by (auto simp: Suc viewed_def flagged_def)
  have "ensures (is_pending (rmc_ops (tree_ops mops j)) c) (\<lambda>p. True)"
    unfolding rmc_ops_def component_ops.simps
    by (rule mc_pending_ensures)
      (use t(2) imc_tree_pending [OF m] in \<open>auto simp: rmc_inv_def routing_inv_def rmc_pending_current_def\<close>)
  then show ?thesis unfolding Suc t(1) rmc_view.view_pending .
qed simp

section \<open>The loop after the drain\<close>

text \<open>It ticks the machine and counts cycles; the counts of requests stay.\<close>

lemma trace_tick_keeps:
  assumes root: "failing_root ops rinv addr_ok e" and s: "rinv (tr_model s)" "small_clk (curr_clk s)"
    and t: "trace_tick ops s \<noteq> Inl e"
  shows "ensures (trace_tick ops s) (\<lambda>s'. rinv (tr_model s') \<and> cnt_read s' = cnt_read s \<and> cnt_write s' = cnt_write s \<and>
    curr_clk s' = curr_clk s + 1)"
proof -
  have "tick ops (curr_clk s) (tr_model s) \<noteq> Inl e" using t by (auto simp: trace_tick_def)
  with failing_root.failing_tick [OF root s] obtain n' calls where
    t: "tick ops (curr_clk s) (tr_model s) = Inr (n', calls)" "rinv n'" by (auto simp: ensures_iff)
  from fold_trace_callback [of calls "s\<lparr>tr_model := n'\<rparr>"] obtain c k where
    "fold trace_callback calls (s\<lparr>tr_model := n'\<rparr>) = s\<lparr>tr_model := n', critical_stall := c, tail_latency_cnt := k\<rparr>" by auto
  then show ?thesis using t by (simp add: trace_tick_def Let_def)
qed

lemma drain_iterate_keeps:
  assumes root: "failing_root ops rinv addr_ok e" and p: "\<And>n. rinv n \<Longrightarrow> ensures (is_pending ops n) (\<lambda>b. True)"
    and "rinv (tr_model s)" "unat (curr_clk s) + j \<le> 2 ^ 62"
  shows "drain_iterate j ops s = Inl e \<or>
    ensures (drain_iterate j ops s) (\<lambda>(s', finished). rinv (tr_model s') \<and> cnt_read s' = cnt_read s \<and> cnt_write s' = cnt_write s)"
  using assms(3,4)
proof (induction j arbitrary: s)
  case (Suc j)
  from p [OF Suc.prems(1)] obtain b where b: "is_pending ops (tr_model s) = Inr b" by (auto simp: ensures_iff)
  have c: "small_clk (curr_clk s)" using Suc.prems(2) by (simp add: small_clk_def)
  show ?case
  proof (cases "b \<and> trace_tick ops s \<noteq> Inl e")
    case True
    with trace_tick_keeps [OF root Suc.prems(1) c] obtain t where
      t: "trace_tick ops s = Inr t" "rinv (tr_model t)" "cnt_read t = cnt_read s" "cnt_write t = cnt_write s" "curr_clk t = curr_clk s + 1"
      by (auto simp: ensures_iff)
    have "unat (curr_clk t) = Suc (unat (curr_clk s))" using Suc.prems(2) t(5) by (simp add: unat_word_ariths)
    then show ?thesis using Suc.IH [OF t(2)] Suc.prems b t True by (auto simp: ensures_iff)
  qed (use b Suc.prems in auto)
qed simp

section \<open>The counters of a tree\<close>

text \<open>What is printed, object by object from the root to the media: the objects in the order of \<open>print_counters\<close>, and their lines.\<close>

fun tree_objects :: "component_tree \<Rightarrow> (single_component \<times> dumper option) list" where
  "tree_objects (Component s i d ns) = (s, d) # concat (map tree_objects ns)"

definition object_counters :: "single_component \<Rightarrow> (counter \<times> string list) list" where
  "object_counters s =
     (case s of
        S_rmw c \<Rightarrow> [(rmw_cnt_events c, rmw_event_names), (rmw_cnt_duration c, rmw_duration_names)]
      | S_ait c \<Rightarrow> [(ait_cnt_events c, ait_event_names), (ait_cnt_duration c, ait_duration_names)]
      | _ \<Rightarrow> [])"

definition object_lines :: "single_component \<Rightarrow> string list" where
  "object_lines s = concat (map (\<lambda>(c, names). map (counter_line c) (counter_entries names c)) (object_counters s))"

definition report :: "(single_component \<times> dumper option) list \<Rightarrow> vans_error + dump_output" where
  "report objs =
     (if \<exists>(s, d) \<in> set objs. d = None \<and> object_lines s \<noteq> [] then Inl Undefined_behaviour
      else Inr (concat (map (\<lambda>(s, d). concat (map (\<lambda>l. dump (the d) l True) (object_lines s))) objs)))"

lemma report_append:
  "report (xs @ ys) = ebind (report xs) (\<lambda>out. ebind (report ys) (\<lambda>out'. Inr (out @ out')))"
  by (auto simp: report_def)

lemma report_none: "report [] = Inr []"
  by (simp add: report_def)

lemma counter_print_lines:
  "counter_print d names c =
   (if d = None \<and> counter_entries names c \<noteq> [] then Inl Undefined_behaviour
    else Inr (concat (map (\<lambda>l. dump (the d) l True) (map (counter_line c) (counter_entries names c)))))"
  by (simp add: counter_print_def Let_def comp_def split: option.split)

lemma controller_print_report: "controller_print_counters d s = report [(s, d)]"
  by (cases s) (auto simp: controller_print_counters_def rmw_print_counters_def ait_print_counters_def report_def
      object_lines_def object_counters_def counter_print_lines comp_def)

lemma print_counters_flat:
  "print_counters t = report (tree_objects t)"
  "print_counters_next ns = report (concat (map tree_objects ns))"
proof (induction t and ns rule: print_counters_print_counters_next.induct)
  case (1 s i d ns)
  then show ?case using report_append [of "[(s, d)]" "concat (map tree_objects ns)"]
    by (cases "report [(s, d)]") (simp_all add: controller_print_report)
next
  case (3 n ns)
  then show ?case by (cases "report (tree_objects n)") (simp_all add: report_append)
qed (simp add: report_none)

text \<open>In a machine every object with counters has a dumper, and all counters that it names.\<close>

definition dumped :: "component_tree \<Rightarrow> bool" where
  "dumped t \<longleftrightarrow> (\<forall>(s, d) \<in> set (tree_objects t). (d = None \<longrightarrow> object_counters s = []) \<and>
     (\<forall>(c, names) \<in> set (object_counters s). declares c names))"

lemma dumped_node:
  "dumped (Component s i d ns) \<longleftrightarrow> (d = None \<longrightarrow> object_counters s = []) \<and>
     (\<forall>(c, names) \<in> set (object_counters s). declares c names) \<and> (\<forall>n \<in> set ns. dumped n)"
  by (auto simp: dumped_def)

lemma no_object_lines: "object_counters s = [] \<Longrightarrow> object_lines s = []"
  by (simp add: object_lines_def)

lemma dumped_prints: "dumped t \<Longrightarrow> ensures (print_counters t) (\<lambda>out. True)"
  by (auto simp: print_counters_flat(1) report_def dumped_def dest: no_object_lines)

lemma no_counters [simp]:
  "object_counters (S_rmc c1) = []" "object_counters (S_imc c2) = []" "object_counters (S_nvram_system c3) = []"
  "object_counters (S_ddr4_system c4) = []" "object_counters (S_nv_media c5) = []"
  by (simp_all add: object_counters_def)

lemma all_counters [simp]:
  "object_counters (S_rmw c1) = [(rmw_cnt_events c1, rmw_event_names), (rmw_cnt_duration c1, rmw_duration_names)]"
  "object_counters (S_ait c2) = [(ait_cnt_events c2, ait_event_names), (ait_cnt_duration c2, ait_duration_names)]"
  by (simp_all add: object_counters_def)

lemma with_next_counters [simp]:
  "rmw_cnt_events (with_next ns c1) = rmw_cnt_events c1" "rmw_cnt_duration (with_next ns c1) = rmw_cnt_duration c1"
  "ait_cnt_events (with_next ns c2) = ait_cnt_events c2" "ait_cnt_duration (with_next ns c2) = ait_cnt_duration c2"
  by (cases c1; simp add: with_next_def) (cases c1; simp add: with_next_def; fail | cases c2; simp add: with_next_def; fail)+

lemma media_dumped: "media_ok n t \<Longrightarrow> dumped t"
  by (cases n) (auto simp: viewed_def media_node_def dumped_node)

lemma ait_dumped: "ait_ok b minv mowes n t \<Longrightarrow> dumped t"
proof (cases n)
  case (Suc m)
  assume "ait_ok b minv mowes n t"
  then consider "media_ok n t"
    | k c where "t = ait_node k c" "ait_inv (media_ok m) minv (\<lambda>n. {#}) mowes {#} {#} c"
    by (auto simp: Suc viewed_def flagged_def)
  then show ?thesis
  proof cases
    case 2
    then show ?thesis by (auto simp: node_def dumped_node split_def ait_inv_def ait_ctx_def intro: media_dumped)
  qed (rule media_dumped)
qed simp

lemma level_dumped: "level_ok b minv mowes n t \<Longrightarrow> dumped t"
proof (induction n arbitrary: t)
  case (Suc n)
  from Suc.prems consider "media_ok (Suc n) t"
    | (rmw) k c where "t = rmw_node k c" "rmw_inv (ait_ok b minv mowes n) tree_owes {#} c"
    | (nvram) k c where "t = nvram_node k c" "routing_inv (level_ok b minv mowes n) c"
    | (ddr4) k c ns where "t = ddr4_node k (c, ns)" "ddr4_node_inv b minv (level_ok b minv mowes n) (c, ns)"
    by (auto simp: viewed_def flagged_def)
  then show ?case
  proof cases
    case rmw
    then show ?thesis by (auto simp: node_def dumped_node split_def rmw_inv_def rmw_ctx_def intro: ait_dumped)
  next
    case nvram
    then show ?thesis by (auto simp: node_def dumped_node split_def routing_inv_def intro: Suc.IH)
  next
    case ddr4
    then show ?thesis by (auto simp: ddr4_node_def dumped_node split_def ddr4_node_inv_def intro: Suc.IH)
  qed (rule media_dumped)
qed simp

lemma imc_dumped: "imc_ok b minv mowes n t \<Longrightarrow> dumped t"
proof (cases n)
  case (Suc m)
  assume "imc_ok b minv mowes n t"
  then obtain k c where "t = imc_node k c" "imc_inv (level_ok b minv mowes m) c" by (auto simp: Suc viewed_def flagged_def)
  then show ?thesis by (auto simp: node_def dumped_node split_def imc_inv_def intro: level_dumped)
qed simp

lemma machine_dumped: "machine_ok b minv mowes start n t \<Longrightarrow> dumped t"
proof (cases n)
  case (Suc m)
  assume "machine_ok b minv mowes start n t"
  then obtain k c where "t = rmc_node k c" "rmc_inv (imc_ok b minv mowes m) start c" by (auto simp: Suc viewed_def flagged_def)
  then show ?thesis by (auto simp: node_def dumped_node split_def rmc_inv_def routing_inv_def intro: imc_dumped)
qed simp

section \<open>The text of the counters\<close>

text \<open>What the console or a file receives, and whether a dumper writes there.\<close>

definition sink_text :: "output_target \<Rightarrow> dump_output \<Rightarrow> string" where
  "sink_text k out = concat (map snd (filter (\<lambda>(target, text). target = k) out))"

definition writes_to :: "output_target \<Rightarrow> dumper \<Rightarrow> bool" where
  "writes_to k d = (case k of To_console \<Rightarrow> dump_to_cli d | To_file f \<Rightarrow> dump_to_file d \<and> dump_filename d = f)"

text \<open>
  The lines of an object, independent of how they are printed: the declared counters by name, and the lines
  of a tree for the console or a file, from the root down.
\<close>

definition counter_text :: "counter \<Rightarrow> string \<Rightarrow> string" where
  "counter_text c n = ''cnt.'' @ domain c @ ''.'' @ sub_domain c @ ''.'' @ n @ '': '' @ show_number 10 (unat (the (counters c n)))"

definition object_report :: "single_component \<Rightarrow> string list" where
  "object_report s = concat (map (\<lambda>(c, names). map (counter_text c) (sort names)) (object_counters s))"

definition tree_report :: "output_target \<Rightarrow> component_tree \<Rightarrow> string list" where
  "tree_report k t =
     concat (map (\<lambda>(s, d). case d of None \<Rightarrow> [] | Some d \<Rightarrow> if writes_to k d then object_report s else []) (tree_objects t))"

lemma sink_text_append: "sink_text k (out @ out') = sink_text k out @ sink_text k out'"
  by (simp add: sink_text_def)

lemma sink_text_concat: "sink_text k (concat outs) = concat (map (sink_text k) outs)"
  by (induction outs) (simp_all add: sink_text_append, simp add: sink_text_def)

lemma sink_text_lines:
  "\<forall>x \<in> set xs. sink_text k (f x) = concat (map line_end (g x)) \<Longrightarrow>
   sink_text k (concat (map f xs)) = concat (map line_end (concat (map g xs)))"
  by (induction xs) (simp_all add: sink_text_append, simp add: sink_text_def)

lemma sink_text_dump: "sink_text k (dump d l True) = (if writes_to k d then line_end l else [])"
  by (auto simp: sink_text_def dump_def writes_to_def line_end_def Let_def split: output_target.split)

lemma counter_names_distinct:
  "distinct rmw_event_names" "distinct rmw_duration_names" "distinct ait_event_names" "distinct ait_duration_names"
  by (simp_all add: rmw_event_names_def rmw_duration_names_def ait_event_names_def ait_duration_names_def)

lemma object_names_distinct: "(c, names) \<in> set (object_counters s) \<Longrightarrow> distinct names"
  by (cases s) (auto simp: object_counters_def counter_names_distinct)

lemma counter_entries_all:
  assumes "distinct names" "declares c names"
  shows "counter_entries names c = map (\<lambda>n. (n, the (counters c n))) (sort names)"
proof -
  have "List.map_filter (\<lambda>n. map_option (Pair n) (counters c n)) ns = map (\<lambda>n. (n, the (counters c n))) ns"
    if "\<forall>n \<in> set ns. counters c n \<noteq> None" for ns
    using that by (induction ns) (auto simp: List.map_filter_simps)
  then show ?thesis using assms by (simp add: counter_entries_def declares_def distinct_remdups_id)
qed

lemma object_lines_report:
  assumes "\<forall>(c, names) \<in> set (object_counters s). declares c names"
  shows "object_lines s = object_report s"
proof -
  have "map (counter_line c) (counter_entries names c) = map (counter_text c) (sort names)"
    if "(c, names) \<in> set (object_counters s)" for c names
    using that assms counter_entries_all [OF object_names_distinct [OF that]]
    by (auto simp: counter_line_def counter_text_def)
  then show ?thesis unfolding object_lines_def object_report_def by (intro arg_cong [where f = concat] map_cong) auto
qed

lemma dumped_report:
  assumes "dumped t"
  shows "\<exists>out. print_counters t = Inr out \<and> (\<forall>k. sink_text k out = concat (map line_end (tree_report k t)))"
proof -
  have o: "(d = None \<longrightarrow> object_report s = []) \<and> object_lines s = object_report s" if "(s, d) \<in> set (tree_objects t)" for s d
    using that assms object_lines_report [of s] by (auto simp: dumped_def object_report_def)
  let ?out = "concat (map (\<lambda>(s, d). concat (map (\<lambda>l. dump (the d) l True) (object_lines s))) (tree_objects t))"
  have "print_counters t = Inr ?out" using o by (force simp: print_counters_flat(1) report_def)
  moreover have "sink_text k ?out = concat (map line_end (tree_report k t))" for k
  proof -
    have "sink_text k (concat (map (\<lambda>l. dump (the d) l True) (object_lines s))) =
        concat (map line_end (case d of None \<Rightarrow> [] | Some d \<Rightarrow> if writes_to k d then object_report s else []))"
      if "(s, d) \<in> set (tree_objects t)" for s d
    proof (cases d)
      case (Some e)
      then show ?thesis using o [OF that] by (simp add: sink_text_concat comp_def sink_text_dump)
    qed (use o [OF that] in \<open>simp add: sink_text_def\<close>)
    then show ?thesis unfolding tree_report_def by (intro sink_text_lines) auto
  qed
  ultimately show ?thesis by blast
qed

section \<open>The program as a whole\<close>

text \<open>
  The run of the program over the machine: a prefix of the trace has been issued, no failure but the overflow of a
  refresh queue, and the counters can be printed.
\<close>

lemma skip_tree_upto: "ops_upto refresh_overflow (tree_ops dram_memory_ops n) (tree_ops dram_skip_ops n)"
  by (rule tree_ops_upto) (rule skip_failure_upto)

lemma dram_skip_drains: "drain dram_skip_ops m = Inr m"
  by (simp add: dram_memory_ops_def dram_drain_def)

lemma vans_drains:
  assumes "vans_machine False start n t"
  shows "ensures (drain (tree_ops dram_memory_ops n) t) (vans_machine True start n)"
  unfolding ops_uptoD(4) [OF skip_tree_upto] by (rule machine_drains [OF _ assms]) (rule dram_skip_drains)

lemma vans_pending:
  assumes "vans_machine b start n t"
  shows "ensures (is_pending (tree_ops dram_memory_ops n) t) (\<lambda>p. True)"
  unfolding ops_uptoD(3) [OF skip_tree_upto] by (rule machine_pending [OF _ assms]) unfold_locales

text \<open>With the memories of the code.\<close>

interpretation vans_root: failing_root "tree_ops dram_memory_ops n" "vans_machine b start n" "\<lambda>a. start \<le> a" refresh_overflow
  for n b start
proof
  fix t and r :: base_request and clk
  assume t: "vans_machine b start n t"
  show "ensures (issue_request (tree_ops dram_memory_ops n) t r) (\<lambda>(n', r', issued, deterministic, next_clk).
      vans_machine b start n n' \<and> req_arrive r' = req_arrive r \<and> \<not> deterministic)"
    if "start \<le> req_addr r" "small_clk (req_arrive r)"
    unfolding ops_uptoD(1) [OF skip_tree_upto] by (rule vans_tree.root_issue [OF t that])
  show "tick (tree_ops dram_memory_ops n) clk t = Inl refresh_overflow \<or>
      ensures (tick (tree_ops dram_memory_ops n) clk t) (\<lambda>(t', calls). vans_machine b start n t')" if "small_clk clk"
    using ops_uptoD(5) [OF skip_tree_upto [of n], of clk t] vans_tree.root_tick [OF t that] by (auto simp: same_or_fails_def)
qed

text \<open>
  \<open>n\<close> requests have been accepted: the first ones of the trace, in their order, and the counts say so. The drain
  comes when all have been.
\<close>

definition run_so_far ::
  "addr_t \<Rightarrow> nat \<Rightarrow> component_tree \<Rightarrow> trace_request list \<Rightarrow> component_tree trace_state \<Rightarrow> bool \<Rightarrow> bool" where
  "run_so_far start depth model qs s finished \<longleftrightarrow>
     (\<exists>n t. n \<le> length qs \<and> cnt_read s = reads (take n qs) \<and> cnt_write s = writes (take n qs) \<and>
       has_accepted (tree_ops dram_memory_ops depth) model t (take n qs) \<and>
       (vans_machine False start depth t \<and> tr_model s = t \<and> \<not> finished \<or>
        n = length qs \<and> vans_machine True start depth (tr_model s)))"

lemma trace_tick_clock: "trace_tick ops s = Inr t \<Longrightarrow> curr_clk t = curr_clk s + 1"
proof -
  assume t: "trace_tick ops s = Inr t"
  then obtain m calls where m: "tick ops (curr_clk s) (tr_model s) = Inr (m, calls)"
      "t = (fold trace_callback calls (s\<lparr>tr_model := m\<rparr>))\<lparr>curr_clk := curr_clk (fold trace_callback calls (s\<lparr>tr_model := m\<rparr>)) + 1\<rparr>"
    by (auto simp: trace_tick_def Let_def ebind_eq_Inr)
  from fold_trace_callback [of calls "s\<lparr>tr_model := m\<rparr>"] m(2) show ?thesis by auto
qed

lemma trace_fetch_clock: "trace_fetch s = Some (Inr t) \<Longrightarrow> curr_clk t = curr_clk s"
  by (cases "get_dram_trace_request (tr_file s)")
    (auto simp: trace_fetch_def Let_def ebind_eq_Inr split: if_split_asm option.split_asm)

lemma trace_issue_clock: "trace_issue ops s = Inr t \<Longrightarrow> curr_clk t = curr_clk s"
  unfolding trace_issue_def Let_def
  by (cases "critical_stall s") (force simp: ebind_eq_Inr split: if_split_asm)+

lemma trace_client_clock: "trace_client ops s = Some (Inr t) \<Longrightarrow> curr_clk t = curr_clk s"
proof (cases "wait_idle_clk s")
  case False
  assume "trace_client ops s = Some (Inr t)"
  then obtain u where u: "trace_fetch s = Some (Inr u)"
      "(if trace_end u then Inr (u\<lparr>last_trace_clk := curr_clk u\<rparr>) else trace_issue ops u) = Inr t"
    using False by (auto simp: trace_client_def ebind_eq_Inr split: option.split_asm)
  then show ?thesis using trace_fetch_clock [OF u(1)] trace_issue_clock [of ops u t] by (auto split: if_split_asm)
qed (auto simp: trace_client_def)

lemma trace_step_clock: "trace_step ops s = Some (Inr t) \<Longrightarrow> curr_clk t = curr_clk s + 1"
proof -
  assume t: "trace_step ops s = Some (Inr t)"
  then obtain u where u: "trace_client ops s = Some (Inr u)" "trace_tick ops u = Inr t"
    by (auto simp: trace_step_def ebind_eq_Inr split: option.splits)
  then show ?thesis using trace_tick_clock [OF u(2)] trace_client_clock [OF u(1)] by simp
qed

lemma trace_iterate_clock:
  "trace_iterate k ops s = Some (Inr t) \<Longrightarrow> unat (curr_clk s) + k \<le> 2 ^ 62 \<Longrightarrow> unat (curr_clk t) \<le> unat (curr_clk s) + k"
proof (induction k arbitrary: s)
  case (Suc k)
  show ?case
  proof (cases "trace_end s")
    case False
    then obtain u where u: "trace_step ops s = Some (Inr u)" "trace_iterate k ops u = Some (Inr t)"
      using Suc.prems(1) by (auto split: option.splits sum.splits)
    have "unat (curr_clk u) = Suc (unat (curr_clk s))"
      using Suc.prems(2) trace_step_clock [OF u(1)] by (simp add: unat_word_ariths)
    then show ?thesis using Suc.IH [OF u(2)] Suc.prems(2) by simp
  qed (use Suc.prems in auto)
qed auto

lemma vans_run_cases:
  fixes cb :: callback
  assumes "vans_machine False start depth model" "trace_ok qs trailer" "\<forall>(cs, q) \<in> set qs. start \<le> tr_addr q" "k + j \<le> 2 ^ 62"
  defines "run \<equiv> simulate_within k j (tree_ops dram_memory_ops depth) (new_trace_state (open_file (show_trace qs trailer)) model cb)"
  shows "run = Some (Inl refresh_overflow) \<or>
    (\<exists>s finished. run = Some (Inr (s, finished)) \<and> run_so_far start depth model (map snd qs) s finished)"
proof -
  let ?s = "new_trace_state (open_file (show_trace qs trailer)) model cb" and ?ops = "tree_ops dram_memory_ops depth"
  have c: "unat (curr_clk ?s) + k \<le> 2 ^ 62" using assms(4) by (simp add: new_trace_state_def)
  have p: "ensures (is_pending ?ops n) (\<lambda>b. True)" if "vans_machine True start depth n" for n by (rule vans_pending [OF that])
  from vans_root.iterate_or_fails [OF new_trace_inv [where rinv = "vans_machine False start depth", OF assms(1)] assms(2,3) c]
  show ?thesis
  proof (elim disjE exE conjE)
    assume "trace_iterate k ?ops ?s = Some (Inl refresh_overflow)"
    then show ?thesis by (simp add: run_def simulate_within_def)
  next
    fix t n
    assume t: "trace_iterate k ?ops ?s = Some (Inr t)"
        "trace_inv ?ops (vans_machine False start depth) model qs trailer n t"
    then have n: "n \<le> length qs" "vans_machine False start depth (tr_model t)" "trace_end t \<longrightarrow> n = length qs"
        "cnt_read t = reads (take n (map snd qs))" "cnt_write t = writes (take n (map snd qs))"
        "has_accepted ?ops model (tr_model t) (take n (map snd qs))"
      by (auto simp: trace_inv_def)
    show ?thesis
    proof (cases "trace_end t")
      case False
      then have "run = Some (Inr (t, False))" using t(1) by (simp add: run_def simulate_within_def)
      moreover have "run_so_far start depth model (map snd qs) t False" unfolding run_so_far_def using n by auto
      ultimately show ?thesis by blast
    next
      case True
      from vans_drains [OF n(2)] obtain m where m: "drain ?ops (tr_model t) = Inr m" "vans_machine True start depth m"
        by (auto simp: ensures_iff)
      let ?t = "t\<lparr>tr_model := m\<rparr>"
      have r: "run = Some (drain_iterate j ?ops ?t)" using t(1) m(1) True by (simp add: run_def simulate_within_def)
      have "unat (curr_clk ?t) + j \<le> 2 ^ 62"
        using trace_iterate_clock [OF t(1) c] assms(4) by (simp add: new_trace_state_def)
      from drain_iterate_keeps [where s = ?t and j = j, OF vans_root.failing_root_axioms p _ this] m(2)
      have "drain_iterate j ?ops ?t = Inl refresh_overflow \<or>
        ensures (drain_iterate j ?ops ?t) (\<lambda>(s', finished). vans_machine True start depth (tr_model s') \<and>
          cnt_read s' = cnt_read ?t \<and> cnt_write s' = cnt_write ?t)" by simp
      then consider "drain_iterate j ?ops ?t = Inl refresh_overflow"
        | s finished where "drain_iterate j ?ops ?t = Inr (s, finished)" "vans_machine True start depth (tr_model s)"
          "cnt_read s = cnt_read t" "cnt_write s = cnt_write t"
        by (auto simp: ensures_iff)
      then show ?thesis
      proof cases
        case 2
        then have "run_so_far start depth model (map snd qs) s finished"
          unfolding run_so_far_def by (intro exI [where x = n], intro exI [where x = "tr_model t"]) (use n True in simp)
        then show ?thesis using r 2 by blast
      qed (use r in simp)
    qed
  qed
qed

lemma run_so_far_prints:
  "run_so_far start depth model qs s finished \<Longrightarrow> \<exists>out. print_counters (tr_model s) = Inr out"
  unfolding run_so_far_def using dumped_prints [OF machine_dumped] by (auto simp: ensures_iff)

lemma finished_run_prints:
  assumes "trace_setup cfg file = Inr (f, cb)" "print_counters (tr_model s) = Inr out"
    and "simulate_within k j (tree_ops dram_memory_ops depth) (new_trace_state f model cb) = Some (Inr (s, True))"
  shows "run_and_print depth cfg file model = Some (Inr (s, out))"
proof -
  have "simulate (tree_ops dram_memory_ops depth) (new_trace_state f model cb) = Some (Inr s)"
    unfolding simulate_iff_within using assms(3) by (auto intro!: exI)
  then show ?thesis using assms(1,2) by (simp add: run_and_print_def run_trace_def)
qed

end
