(* ===== verification/Vans_Cfg.thy ===== *)
theory Vans_Cfg
  imports Program_Run Dram_Props
begin

text \<open>
  The machine of \<open>config/vans.cfg\<close>: its settings as they are read (without the keys of sections that nothing reads), that they are sane, and
  the tree that the factory builds from them, down to the media.
\<close>

section \<open>Sections that are printed once\<close>

text \<open>A printed configuration with distinct sections and keys is read as the map that it shows.\<close>

definition section_of :: "string \<Rightarrow> (string \<times> string) list \<Rightarrow> config" where
  "section_of name kvs = \<lparr>section_name = name, config_values = map_of kvs\<rparr>"

definition sections_named :: "root_config \<Rightarrow> bool" where
  "sections_named cfg \<longleftrightarrow> (\<forall>s c. cfg s = Some c \<longrightarrow> section_name c = s)"

lemma config_line_named: "config_line l st = Inr st' \<Longrightarrow> sections_named (snd st) \<Longrightarrow> sections_named (snd st')"
  by (auto simp: config_line_def config_set_def base_config_at_def sections_named_def new_config_def Let_def ebind_eq_Inr
      split: if_splits option.splits)

lemma read_config_named: "read_config f line st = Inr st' \<Longrightarrow> sections_named (snd st) \<Longrightarrow> sections_named (snd st')"
proof (induction f line st arbitrary: st' rule: read_config.induct)
  case (1 f line st)
  show ?case
  proof (cases "fs_fail (fst (getline f line))")
    case True
    then show ?thesis using 1(2,3) by (subst (asm) read_config.simps) simp
  next
    case False
    then obtain st1 where "config_line (snd (getline f line)) st = Inr st1"
        "read_config (fst (getline f line)) (snd (getline f line)) st1 = Inr st'"
      using 1(2) by (subst (asm) read_config.simps) (auto simp: ebind_eq_Inr)
    then show ?thesis using 1(1) [OF False] config_line_named 1(3) by blast
  qed
qed

lemma new_root_config_named: "new_root_config content = Inr cfg \<Longrightarrow> sections_named cfg"
  using read_config_named [where st = "([], Map.empty)"]
  by (fastforce simp: new_root_config_def ebind_eq_Inr sections_named_def split: option.splits)

lemma filter_distinct_key:
  "distinct (map fst secs) \<Longrightarrow> (s, kvs) \<in> set secs \<Longrightarrow> filter (\<lambda>sec. fst sec = s) secs = [(s, kvs)]"
proof (induction secs)
  case (Cons sec secs)
  show ?case
  proof (cases "fst sec = s")
    case True
    then have "filter (\<lambda>x. fst x = s) secs = []" using Cons.prems(1) by (auto simp: filter_empty_conv rev_image_eqI)
    then show ?thesis using True Cons.prems by (auto simp: rev_image_eqI)
  qed (use Cons in auto)
qed simp

lemma map_of_rev_keys: "distinct (map fst kvs) \<Longrightarrow> map_of (rev kvs) = map_of kvs"
proof
  fix k
  assume d: "distinct (map fst kvs)"
  then have "distinct (map fst (rev kvs))" by (simp only: rev_map [symmetric] distinct_rev)
  then have "map_of (rev kvs) k = Some v \<longleftrightarrow> map_of kvs k = Some v" for v
    using d by (simp add: map_of_eq_Some_iff)
  then show "map_of (rev kvs) k = map_of kvs k" by (cases "map_of kvs k"; cases "map_of (rev kvs) k") auto
qed

lemma section_values_distinct:
  assumes "distinct (map fst secs)" "(s, kvs) \<in> set secs" "distinct (map fst kvs)"
  shows "section_values secs s = map_of kvs"
  using filter_distinct_key [OF assms(1,2)] map_of_rev_keys [OF assms(3)] by (simp add: section_values_def)

lemma config_as_shown:
  assumes p: "list_all plain_section secs" and d: "distinct (map fst secs)" "\<forall>(s, kvs) \<in> set secs. distinct (map fst kvs)"
  shows "new_root_config (Some (show_config secs)) = Inr (map_of (map (\<lambda>(s, kvs). (s, section_of s kvs)) secs))"
proof -
  from new_root_config_shown [OF p] obtain cfg where
    c: "new_root_config (Some (show_config secs)) = Inr cfg" "config_shows cfg secs" by blast
  have "cfg s = map_of (map (\<lambda>(s, kvs). (s, section_of s kvs)) secs) s" for s
  proof (cases "s \<in> fst ` set secs")
    case False
    then have "cfg s = None" using c(2) by (auto simp: config_shows_def)
    then show ?thesis using False by (force simp: map_of_eq_None_iff intro!: sym [of "map_of _ _"])
  next
    case True
    then obtain kvs where k: "(s, kvs) \<in> set secs" by auto
    obtain e where e: "cfg s = Some e" using True c(2) by (auto simp: config_shows_def)
    have "section_name e = s" using new_root_config_named [OF c(1)] e by (simp add: sections_named_def)
    moreover have "config_values e = map_of kvs"
      using c(2) e section_values_distinct [OF d(1) k] d(2) k by (auto simp: config_shows_def config_lookup_section split: option.splits)
    ultimately have "e = section_of s kvs" by (simp add: section_of_def)
    moreover have "map_of (map (\<lambda>(s, kvs). (s, section_of s kvs)) secs) s = Some (section_of s kvs)"
      by (rule map_of_is_SomeI) (use d(1) k in \<open>auto simp: comp_def split_def rev_image_eqI\<close>)
    ultimately show ?thesis using e by simp
  qed
  then show ?thesis using c(1) by (simp add: fun_eq_iff)
qed

section \<open>The settings\<close>

definition ddr4_keys :: "(string \<times> string) list" where
  "ddr4_keys = [(''component_mapping_func'', ''none_mapping''), (''media_mapping_func'', ''RaBaBgRoCoCh''),
     (''report_epoch'', ''0''), (''queue_size'', ''64''), (''start_addr'', ''0''), (''data_width'', ''8''), (''rank'', ''1''),
     (''bank_group'', ''4''), (''bank'', ''4''), (''row'', ''32768''), (''col'', ''1024''), (''rate'', ''2666''),
     (''freq'', ''1333.33''), (''tCK'', ''0.75''), (''nCL'', ''19''), (''nCWL'', ''18''), (''nRCD'', ''19''), (''nRC'', ''62''),
     (''nRP'', ''19''), (''nRAS'', ''43''), (''nFAW'', ''16''), (''nRRDS'', ''4''), (''nRRDL'', ''7''), (''nCCDS'', ''4''),
     (''nCCDL'', ''7''), (''nWTRS'', ''4''), (''nWTRL'', ''10''), (''nREFI'', ''10400''), (''nRFC'', ''467''), (''nRTP'', ''10''),
     (''nWR'', ''20''), (''nBL'', ''4''), (''nRTRS'', ''2''), (''nPD'', ''6''), (''nXP'', ''8''), (''nXPDLL'', ''0''),
     (''nCKESR'', ''7''), (''nXS'', ''324''), (''nXSDLL'', ''0'')]"

definition ait_own_keys :: "(string \<times> string) list" where
  "ait_own_keys = [(''lsq_entries'', ''16''), (''lmemq_entries'', ''16''), (''mediaq_entries'', ''64''),
        (''buffer_entries'', ''4096''), (''min_table_entries'', ''4096''), (''wear_leveling_threshold'', ''896''),
        (''migration_block_entries'', ''256''), (''migration_latency'', ''270''), (''size'', ''512''), (''channel'', ''1'')]"

definition ait_keys :: "(string \<times> string) list" where
  "ait_keys = ddr4_keys @ ait_own_keys"

definition none_keys :: "(string \<times> string) list" where
  "none_keys = [(''component_mapping_func'', ''none_mapping''), (''media_mapping_func'', ''none_mapping'')]"

definition vans_cfg_sections :: "(string \<times> (string \<times> string) list) list" where
  "vans_cfg_sections =
     [(''organization'', [(''rmc'', ''1*imc''), (''imc'', ''1*nvram_system''), (''ddr4_system'', ''0*none''),
        (''nvram_system'', ''1*rmw''), (''rmw'', ''1*ait''), (''ait'', ''1*nv_media''), (''nv_media'', ''0*none'')]),
      (''basic'', [(''tCK'', ''0.75'')]),
      (''rmc'', none_keys @ [(''start_addr'', ''0'')]),
      (''imc'', [(''component_mapping_func'', ''stride_mapping(4096)''), (''media_mapping_func'', ''none_mapping''),
        (''wpq_entries'', ''4''), (''rpq_entries'', ''4''), (''adr_epoch'', ''10'')]),
      (''ddr4_system'', ddr4_keys @ [(''size'', ''4096''), (''channel'', ''8'')]),
      (''nvram_system'', none_keys),
      (''rmw'', none_keys @ [(''lsq_entries'', ''64''), (''roq_entries'', ''128''), (''buffer_entries'', ''64''),
        (''ait_to_rmw_latency'', ''150''), (''rmw_to_ait_latency'', ''90''), (''read_latency'', ''180''), (''write_latency'', ''10'')]),
      (''ait'', ait_keys),
      (''nv_media'', none_keys @ [(''read_latency'', ''100''), (''write_latency'', ''300'')]),
      (''dump'', [(''type'', ''file''), (''path'', ''vans_dump''), (''stat_dump'', ''stats'')]),
      (''trace'', [(''heart_beat_epoch'', ''0''), (''report_epoch'', ''16384''), (''report_tail_latency'', ''0'')])]"

definition vans_cfg :: root_config where
  "vans_cfg = map_of (map (\<lambda>(s, kvs). (s, section_of s kvs)) vans_cfg_sections)"

section \<open>Their values\<close>

named_theorems cfg_eval \<open>evaluation of values of a configuration\<close>

lemma digits_eval [cfg_eval]:
  "digit 10 (CHR ''0'') = Some 0" "digit 10 (CHR ''1'') = Some 1" "digit 10 (CHR ''2'') = Some 2"
  "digit 10 (CHR ''3'') = Some 3" "digit 10 (CHR ''4'') = Some 4" "digit 10 (CHR ''5'') = Some 5"
  "digit 10 (CHR ''6'') = Some 6" "digit 10 (CHR ''7'') = Some 7" "digit 10 (CHR ''8'') = Some 8"
  "digit 10 (CHR ''9'') = Some 9" "digit 10 (CHR ''.'') = None" "digit 10 (CHR ''*'') = None"
  by code_simp+

lemma digits_not_blank [cfg_eval]:
  "\<not> is_space (CHR ''0'')" "\<not> is_space (CHR ''1'')" "\<not> is_space (CHR ''2'')" "\<not> is_space (CHR ''3'')"
  "\<not> is_space (CHR ''4'')" "\<not> is_space (CHR ''5'')" "\<not> is_space (CHR ''6'')" "\<not> is_space (CHR ''7'')"
  "\<not> is_space (CHR ''8'')" "\<not> is_space (CHR ''9'')"
  by code_simp+

lemmas [cfg_eval] = stoul_def stoi_def read_number_def sign_length_def hex_prefix_def starts_with_double_def

lemmas [cfg_eval] = get_ulong_def get_string_def get_int_def check_double_def base_config_at_def config_check_def
  memory_controller_of_def get_component_mapping_func_def

lemma vans_cfg_at [cfg_eval]:
  "vans_cfg s = map_of (map (\<lambda>(s, kvs). (s, section_of s kvs)) vans_cfg_sections) s"
  by (simp add: vans_cfg_def)

lemmas [cfg_eval] = vans_cfg_sections_def none_keys_def section_of_def

lemma encode_mapping_returns: "\<forall>k \<in> set ks. k * 2 \<le> length m \<Longrightarrow> \<exists>r. encode_mapping m ks c = Inr r"
  by (induction ks arbitrary: c) (auto simp: substr_err_def)

lemma new_dram_memory_returns:
  assumes "12 \<le> length m" "is_pwr_of_2 (level_count s Channel)" "is_pwr_of_2 (level_count s Rank)"
  shows "\<exists>d. new_dram_memory s m epoch q start = Inr d"
proof -
  have "is_pwr_of_2 (channel_width * prefetch_size div 8)" by code_simp
  moreover obtain r where "encode_mapping m [0..<total_levels] 0 = Inr r"
    using encode_mapping_returns [of "[0..<total_levels]" m 0] assms(1) by (auto simp: total_levels_def)
  ultimately show ?thesis using assms(2,3) by (simp add: new_dram_memory_def new_dram_mapping_def Let_def)
qed

lemma powers: "is_pwr_of_2 1" "is_pwr_of_2 8" by code_simp+

lemma vans_timing_ok: "timing_ok cfg_timing"
  using cfg_timing_ok [of 1] by (simp add: small_ddr4_def)

lemma ddr4_section:
  "ddr4_timing_of_config (section_of s (ddr4_keys @ xs)) = Inr cfg_timing"
  "get_ulong (section_of s (ddr4_keys @ xs)) ''rank'' = Inr 1"
  "get_ulong (section_of s (ddr4_keys @ xs)) ''bank_group'' = Inr 4"
  "get_ulong (section_of s (ddr4_keys @ xs)) ''bank'' = Inr 4"
  "get_ulong (section_of s (ddr4_keys @ xs)) ''row'' = Inr 32768"
  "get_ulong (section_of s (ddr4_keys @ xs)) ''col'' = Inr 1024"
  "get_ulong (section_of s (ddr4_keys @ xs)) ''data_width'' = Inr 8"
  "get_ulong (section_of s (ddr4_keys @ xs)) ''start_addr'' = Inr 0"
  "get_ulong (section_of s (ddr4_keys @ xs)) ''report_epoch'' = Inr 0"
  "get_ulong (section_of s (ddr4_keys @ xs)) ''queue_size'' = Inr 64"
  "config_values (section_of s (ddr4_keys @ xs)) ''media_mapping_func'' = Some ''RaBaBgRoCoCh''"
  "memory_controller_of (section_of s (ddr4_keys @ xs)) = Inr none_mapping"
  by (simp_all add: ddr4_timing_of_config_def cfg_timing_def ddr4_keys_def cfg_eval)

lemma ddr4_section_ok:
  assumes "value_such (section_of s (ddr4_keys @ xs)) ''channel'' (\<lambda>v. v \<noteq> 0 \<and> v < 0x100000000)"
  shows "dram_section_ok (section_of s (ddr4_keys @ xs))"
  using vans_timing_ok assms
  by (simp add: dram_section_ok_def ddr4_section value_such_def mapping_names_def level_names_def)

abbreviation vans_ait :: config where "vans_ait \<equiv> section_of ''ait'' ait_keys"

lemmas vans_ait_section = ddr4_section [where s = "''ait''" and xs = ait_own_keys, folded ait_keys_def]

lemma vans_ait_values:
  "get_ulong vans_ait ''channel'' = Inr 1" "get_ulong vans_ait ''size'' = Inr 512"
  "get_ulong vans_ait ''buffer_entries'' = Inr 4096" "get_ulong vans_ait ''wear_leveling_threshold'' = Inr 896"
  "get_ulong vans_ait ''migration_block_entries'' = Inr 256" "get_ulong vans_ait ''migration_latency'' = Inr 270"
  "get_ulong vans_ait ''min_table_entries'' = Inr 4096" "get_ulong vans_ait ''lsq_entries'' = Inr 16"
  "get_ulong vans_ait ''lmemq_entries'' = Inr 16"
  by (simp_all add: ait_keys_def ait_own_keys_def ddr4_keys_def cfg_eval)

lemma vans_ait_memory: "\<exists>m. dram_memory_of_config vans_ait = Inr m"
proof -
  let ?s = "\<lparr>ddr4_timings = cfg_timing, mem_size = 512, data_width = sint (ucast (8 :: 64 word) :: 32 word),
    level_count = (\<lambda>l. [1, 1, 4, 4, 32768, 1024] ! level_index l)\<rparr>"
  have d: "\<exists>m. new_dram_memory ?s ''RaBaBgRoCoCh'' epoch q start = Inr m" for epoch q start
    by (rule new_dram_memory_returns) (simp_all add: powers)
  from d [of 0 0 0] obtain m0 where "new_dram_memory ?s ''RaBaBgRoCoCh'' 0 0 0 = Inr m0" ..
  moreover from d [of 0 "unat (64 :: 64 word)" 0] obtain m where "new_dram_memory ?s ''RaBaBgRoCoCh'' 0 (unat (64 :: 64 word)) 0 = Inr m" ..
  ultimately show ?thesis
    by (simp add: dram_memory_of_config_def vans_ait_section vans_ait_values base_config_at_def Let_def)
qed

lemma vans_components:
  "\<exists>c. make_single_component ''rmc'' vans_cfg i = Inr (Component (S_rmc c) i None []) \<and> rmc_start_addr c = Some 0"
  "\<exists>c. make_single_component ''imc'' vans_cfg i = Inr (Component (S_imc c) i None [])"
  "\<exists>c. make_single_component ''nvram_system'' vans_cfg i = Inr (Component (S_nvram_system c) i None [])"
  "\<exists>c. make_single_component ''rmw'' vans_cfg i = Inr (Component (S_rmw c) i None [])"
  "\<exists>c. make_single_component ''ait'' vans_cfg i = Inr (Component (S_ait c) i None [])"
  "\<exists>c. make_single_component ''nv_media'' vans_cfg i = Inr (Component (S_nv_media c) i None [])"
proof -
  note m = make_single_component_def Let_def cfg_eval
  show "\<exists>c. make_single_component ''rmc'' vans_cfg i = Inr (Component (S_rmc c) i None []) \<and> rmc_start_addr c = Some 0"
    by (simp add: m rmc_of_config_def new_rmc_controller_def)
  show "\<exists>c. make_single_component ''imc'' vans_cfg i = Inr (Component (S_imc c) i None [])"
    by (simp add: m imc_of_config_def)
  show "\<exists>c. make_single_component ''nvram_system'' vans_cfg i = Inr (Component (S_nvram_system c) i None [])"
    by (simp add: m nvram_of_config_def)
  show "\<exists>c. make_single_component ''rmw'' vans_cfg i = Inr (Component (S_rmw c) i None [])"
    by (simp add: m rmw_of_config_def static_memory_of_config_def)
  show "\<exists>c. make_single_component ''nv_media'' vans_cfg i = Inr (Component (S_nv_media c) i None [])"
    by (simp add: m static_memory_of_config_def)
  from vans_ait_memory obtain m where "dram_memory_of_config vans_ait = Inr m" ..
  then have "\<exists>c. ait_of_config vans_ait = Inr (c :: (unit, dram_memory) ait_controller)"
    by (simp add: ait_of_config_def vans_ait_section vans_ait_values)
  moreover have "vans_cfg ''ait'' = Some vans_ait" by (simp add: vans_cfg_def vans_cfg_sections_def)
  ultimately show "\<exists>c. make_single_component ''ait'' vans_cfg i = Inr (Component (S_ait c) i None [])"
    by (auto simp: make_single_component_def base_config_at_def)
qed

lemma vans_organization:
  "get_organization vans_cfg ''rmc'' = Inr (1, ''imc'')" "get_organization vans_cfg ''imc'' = Inr (1, ''nvram_system'')"
  "get_organization vans_cfg ''nvram_system'' = Inr (1, ''rmw'')" "get_organization vans_cfg ''rmw'' = Inr (1, ''ait'')"
  "get_organization vans_cfg ''ait'' = Inr (1, ''nv_media'')" "get_organization vans_cfg ''nv_media'' = Inr (0, ''none'')"
  by (simp_all add: get_organization_def cfg_eval)

lemma vans_cfg_builds: "\<exists>t. factory_make 6 vans_cfg = Some (Inr t) \<and> machine_shape 0 6 t"
proof -
  from vans_components [of 0] obtain rmc imc nv rmw ait media where
    "make_single_component ''rmc'' vans_cfg 0 = Inr (Component (S_rmc rmc) 0 None [])" "rmc_start_addr rmc = Some 0"
      "make_single_component ''imc'' vans_cfg 0 = Inr (Component (S_imc imc) 0 None [])"
      "make_single_component ''nvram_system'' vans_cfg 0 = Inr (Component (S_nvram_system nv) 0 None [])"
      "make_single_component ''rmw'' vans_cfg 0 = Inr (Component (S_rmw rmw) 0 None [])"
      "make_single_component ''ait'' vans_cfg 0 = Inr (Component (S_ait ait) 0 None [])"
      "make_single_component ''nv_media'' vans_cfg 0 = Inr (Component (S_nv_media media) 0 None [])" by metis
  moreover obtain d where "\<And>t. attach_dumper vans_cfg 0 t = connect_dumper d t"
    by (simp add: attach_dumper_def get_dump_type_def get_dump_filename_def cfg_eval)
  ultimately show ?thesis by (simp add: factory_make_def vans_organization numeral_eq_Suc)
qed

lemma vans_cfg_sane: "config_sane vans_cfg"
  unfolding config_sane_def
proof (intro conjI)
  have a: "vans_cfg ''ait'' = Some vans_ait" by (simp add: vans_cfg_def vans_cfg_sections_def)
  show "section_such vans_cfg ''ait'' ait_section_ok"
    using ddr4_section_ok [of "''ait''" ait_own_keys]
    by (simp add: section_such_def a ait_section_ok_def value_such_def vans_ait_values small_value_def ait_keys_def [symmetric])
  show "section_such vans_cfg ''rmw'' rmw_section_ok"
    by (simp add: section_such_def rmw_section_ok_def static_section_ok_def value_such_def small_value_def cfg_eval)
  show "section_such vans_cfg ''nv_media'' static_section_ok"
    by (simp add: section_such_def static_section_ok_def value_such_def small_value_def cfg_eval)
  have d: "vans_cfg ''ddr4_system'' = Some (section_of ''ddr4_system'' (ddr4_keys @ [(''size'', ''4096''), (''channel'', ''8'')]))"
    by (simp add: vans_cfg_def vans_cfg_sections_def)
  show "section_such vans_cfg ''ddr4_system'' dram_section_ok"
    unfolding section_such_def d option.case
    by (rule ddr4_section_ok) (simp add: value_such_def ddr4_keys_def cfg_eval)
qed

lemma vans_trace_setup: "trace_setup vans_cfg (Some text) = Inr (open_file text, normal_read_callback)"
  by (simp add: trace_setup_def cfg_eval)


section \<open>The file\<close>

text \<open>Printed without the comments and the blanks of \<open>config/vans.cfg\<close>, which the reader skips.\<close>

lemma plain_chars [cfg_eval]: "plain_word [] = True" "plain_word (c # s) = (\<not> is_space c \<and> plain_word s)"
  by (simp_all add: plain_word_def)

lemma vans_cfg_plain: "list_all plain_section vans_cfg_sections"
  by code_simp

lemma vans_cfg_read: "new_root_config (Some (show_config vans_cfg_sections)) = Inr vans_cfg"
  unfolding vans_cfg_def
  by (rule config_as_shown [OF vans_cfg_plain])
    (simp_all add: vans_cfg_sections_def ait_keys_def ait_own_keys_def ddr4_keys_def none_keys_def)

end
