(* ===== verification/Program_Props.thy ===== *)
theory Program_Props
  imports Vans_Cfg Trace_Props
begin

text \<open>
  Properties of the program \<open>vans\<close>: its options, the runs of the machine that a configuration describes, and the counters that
  are printed at the end.
\<close>

section \<open>The machine\<close>

lemma factory_machine:
  "factory_make depth cfg = Some (Inr model) \<Longrightarrow> config_sane cfg \<Longrightarrow> machine_shape start depth model \<Longrightarrow>
   vans_machine False start depth model"
  unfolding factory_make_def by (rule built_machine [OF _ make_component_built])



section \<open>Runs of the program\<close>

text \<open>C1: The program as a whole: for a sane configuration whose organization is a machine of root, integrated controllers, NVRAM
  systems, RMW buffers, tables, DDR4 systems and media, and for a well-formed trace, no number of cycles up to \<open>2 ^ 62\<close>, before
  and after the drain, ends in an exception, a failed assertion or undefined behaviour, except for the overflow of a
  refresh queue; the machine keeps its invariant, the requests it has accepted, and counted, are the first ones of the trace in their order, at
  the end all of them;
  and when the loops end the program prints the counters of every object and returns.\<close>

theorem vans_main_runs:
  assumes "read_options (getopt args) [] [] = Some (config_filename, trace_filename)"
    and "new_root_config (files config_filename) = Inr cfg" "files trace_filename = Some (show_trace qs trailer)"
    and "factory_make depth cfg = Some (Inr model)" "config_sane cfg" "machine_shape start depth model"
    and "trace_setup cfg (files trace_filename) = Inr (f, cb)"
    and "trace_ok qs trailer" "\<forall>(cs, q) \<in> set qs. start \<le> tr_addr q" "k + j \<le> 2 ^ 62"
  shows "simulate_within k j (tree_ops dram_memory_ops depth) (new_trace_state f model cb) = Some (Inl refresh_overflow) \<and>
      vans_main depth files args = Some (Inl refresh_overflow) \<or>
    (\<exists>s finished out. simulate_within k j (tree_ops dram_memory_ops depth) (new_trace_state f model cb) = Some (Inr (s, finished)) \<and>
      run_so_far start depth model (map snd qs) s finished \<and> print_counters (tr_model s) = Inr out \<and>
      (finished \<longrightarrow> vans_main depth files args = Some (Inr (Simulated s out))))"
proof -
  let ?run = "simulate_within k j (tree_ops dram_memory_ops depth) (new_trace_state f model cb)"
  have f: "f = open_file (show_trace qs trailer)"
    using assms(3,7) by (auto simp: trace_setup_def ebind_eq_Inr)
  have main: "vans_main depth files args = map_option (map_sum id (\<lambda>(s, out). Simulated s out))
      (run_and_print depth cfg (files trace_filename) model)"
    using assms(1,2,4) by (simp add: vans_main_def)
  from vans_run_cases [OF factory_machine [OF assms(4-6)] assms(8-10), of cb, folded f]
  show ?thesis
  proof (elim disjE exE conjE)
    assume r: "?run = Some (Inl refresh_overflow)"
    then have "simulate (tree_ops dram_memory_ops depth) (new_trace_state f model cb) = Some (Inl refresh_overflow)"
      unfolding simulate_iff_within by auto
    then show ?thesis using r main assms(7) by (simp add: run_and_print_def run_trace_def)
  next
    fix s finished
    assume r: "?run = Some (Inr (s, finished))" "run_so_far start depth model (map snd qs) s finished"
    obtain out where out: "print_counters (tr_model s) = Inr out" using run_so_far_prints [OF r(2)] by blast
    have "finished \<longrightarrow> vans_main depth files args = Some (Inr (Simulated s out))"
      using main finished_run_prints [OF assms(7) out] r(1) by auto
    then show ?thesis using r out by blast
  qed
qed

definition example_files :: "string \<Rightarrow> string option" where
  "example_files = [''vans.cfg'' \<mapsto> show_config vans_cfg_sections, ''t.trace'' \<mapsto> show_trace example_trace []]"

theorem vans_main_runs_witness:
  "\<exists>model. factory_make 6 vans_cfg = Some (Inr model) \<and>
     (let args = [''-c'', ''vans.cfg'', ''-tt.trace''];
          run = simulate_within 1000000 1000000 (tree_ops dram_memory_ops 6)
            (new_trace_state (open_file (show_trace example_trace [])) model normal_read_callback) in
      run = Some (Inl refresh_overflow) \<and> vans_main 6 example_files args = Some (Inl refresh_overflow) \<or>
      (\<exists>s finished out. run = Some (Inr (s, finished)) \<and> run_so_far 0 6 model (map snd example_trace) s finished \<and>
        print_counters (tr_model s) = Inr out))"
proof -
  obtain model where m: "factory_make 6 vans_cfg = Some (Inr model)" "machine_shape 0 6 model" using vans_cfg_builds by blast
  have o: "read_options (getopt [''-c'', ''vans.cfg'', ''-tt.trace'']) [] [] = Some (''vans.cfg'', ''t.trace'')"
    by (simp add: option_of_def)
  have f: "files = example_files \<Longrightarrow> new_root_config (files ''vans.cfg'') = Inr vans_cfg \<and>
      files ''t.trace'' = Some (show_trace example_trace []) \<and>
      trace_setup vans_cfg (files ''t.trace'') = Inr (open_file (show_trace example_trace []), normal_read_callback)" for files
    by (simp add: example_files_def vans_cfg_read vans_trace_setup)
  have a: "\<forall>(cs, q) \<in> set example_trace. 0 \<le> tr_addr q" by simp
  have k: "(1000000::nat) + 1000000 \<le> 2 ^ 62" by simp
  show ?thesis
    using m(1) vans_main_runs [OF o _ _ m(1) vans_cfg_sane m(2) _ example_trace_ok a k, of example_files] f [OF refl]
    unfolding Let_def by blast
qed

section \<open>Options\<close>

text \<open>The two ways to write an option: its value in the same argument, or in the next one.\<close>

fun show_option :: "bool \<times> program_option \<Rightarrow> string list" where
  "show_option (attached, Opt_config a) = (if attached then [''-c'' @ a] else [''-c'', a])"
| "show_option (attached, Opt_trace a) = (if attached then [''-t'' @ a] else [''-t'', a])"
| "show_option (attached, Opt_unknown) = []"

fun plain_option :: "bool \<times> program_option \<Rightarrow> bool" where
  "plain_option (attached, Opt_config a) \<longleftrightarrow> \<not> attached \<or> a \<noteq> []"
| "plain_option (attached, Opt_trace a) \<longleftrightarrow> \<not> attached \<or> a \<noteq> []"
| "plain_option (attached, Opt_unknown) \<longleftrightarrow> False"

definition operand :: "string \<Rightarrow> bool" where
  "operand arg \<longleftrightarrow> length arg < 2 \<or> hd arg \<noteq> CHR ''-''"

lemma getopt_option: "plain_option opt \<Longrightarrow> getopt (show_option opt @ args) = snd opt # getopt args"
  by (cases opt rule: show_option.cases) (auto simp: option_of_def)

lemma getopt_operands: "list_all operand ops \<Longrightarrow> getopt (ops @ args) = getopt args"
  by (induction ops) (auto simp: operand_def)

lemma getopt_shown:
  "list_all plain_option opts \<Longrightarrow> getopt (concat (map show_option opts) @ args) = map snd opts @ getopt args"
  by (induction opts) (simp_all add: getopt_option)

definition config_names :: "program_option list \<Rightarrow> string list" where
  "config_names opts = List.map_filter (\<lambda>opt. case opt of Opt_config a \<Rightarrow> Some a | _ \<Rightarrow> None) opts"

definition trace_names :: "program_option list \<Rightarrow> string list" where
  "trace_names opts = List.map_filter (\<lambda>opt. case opt of Opt_trace a \<Rightarrow> Some a | _ \<Rightarrow> None) opts"

lemma read_options_last:
  "read_options opts c t =
   (if Opt_unknown \<in> set opts then None else Some (last (c # config_names opts), last (t # trace_names opts)))"
  by (induction opts c t rule: read_options.induct) (auto simp: config_names_def trace_names_def List.map_filter_def)

lemma plain_known: "list_all plain_option opts \<Longrightarrow> Opt_unknown \<notin> snd ` set opts"
proof
  assume "list_all plain_option opts" "Opt_unknown \<in> snd ` set opts"
  then obtain b where "plain_option (b, Opt_unknown)" by (auto simp: list_all_iff)
  then show False by simp
qed

text \<open>C21: Printed options are read back: whether their values are attached or follow, whatever operands come after them, with the last
  configuration and the last trace as the result, an empty name where none is given; an argument with any other letter ends the
  program with its usage, whatever follows, and no file is read.\<close>

theorem options_roundtrip:
  assumes "list_all plain_option opts" "list_all operand operands"
    and "2 \<le> length arg" "hd arg = CHR ''-''" "arg ! 1 \<notin> {CHR ''c'', CHR ''t'', CHR ''-''}"
  shows "getopt (concat (map show_option opts) @ operands) = map snd opts \<and>
    read_options (map snd opts) [] [] = Some (last ([] # config_names (map snd opts)), last ([] # trace_names (map snd opts))) \<and>
    vans_main depth files (concat (map show_option opts) @ operands @ arg # further) = Some (Inr Usage)"
proof (intro conjI)
  show "getopt (concat (map show_option opts) @ operands) = map snd opts"
    using getopt_shown [OF assms(1), of operands] getopt_operands [OF assms(2), of "[]"] by simp
  show "read_options (map snd opts) [] [] = Some (last ([] # config_names (map snd opts)), last ([] # trace_names (map snd opts)))"
    using plain_known [OF assms(1)] by (simp add: read_options_last)
  have "arg \<noteq> ''--''" using assms(5) by auto
  then have "getopt (arg # further) = [Opt_unknown]" using assms(3-5) by auto
  then have "Opt_unknown \<in> set (getopt (concat (map show_option opts) @ operands @ arg # further))"
    by (simp add: getopt_shown [OF assms(1)] getopt_operands [OF assms(2)])
  then show "vans_main depth files (concat (map show_option opts) @ operands @ arg # further) = Some (Inr Usage)"
    by (simp add: vans_main_def read_options_last)
qed

theorem options_roundtrip_witness:
  "getopt [''-c'', ''a.cfg'', ''-tx'', ''-cb.cfg'', ''rest''] = [Opt_config ''a.cfg'', Opt_trace ''x'', Opt_config ''b.cfg''] \<and>
   vans_main 6 Map.empty [''-c'', ''a.cfg'', ''-tx'', ''-cb.cfg'', ''rest'', ''-h''] = Some (Inr Usage)"
proof -
  let ?opts = "[(False, Opt_config ''a.cfg''), (True, Opt_trace ''x''), (True, Opt_config ''b.cfg'')]"
  have "list_all plain_option ?opts" "list_all operand [''rest'']" by (simp_all add: operand_def)
  from options_roundtrip [OF this, of "''-h''" 6 Map.empty "[]"] show ?thesis by simp
qed

section \<open>Counters\<close>



text \<open>
  Over any tree: the objects print through their own dumpers, and when an object with counters has none, the program ends in
  undefined behaviour after its run.
\<close>

theorem counters_without_dumper:
  assumes "run_trace (tree_ops dram_memory_ops depth) cfg file model = Some (Inr s)"
  shows "run_and_print depth cfg file model = Some (ebind (report (tree_objects (tr_model s))) (\<lambda>out. Inr (s, out)))"
  using assms by (simp add: run_and_print_def print_counters_flat(1))

text \<open>A machine whose RMW buffer is not below an NVRAM system: nothing connects a dumper to it.\<close>

definition dumperless_cfg :: root_config where
  "dumperless_cfg = vans_cfg(''organization'' \<mapsto> section_of ''organization''
     [(''rmc'', ''1*imc''), (''imc'', ''1*rmw''), (''rmw'', ''0*none'')])"

definition dumperless_machine :: component_tree where
  "dumperless_machine =
     Component (S_rmc (new_rmc_controller none_mapping (Some 0))) 0 None
       [Component (S_imc (new_imc_controller stride_mapping_4096 4 4 10)) 0 None
         [Component (S_rmw (new_rmw_controller none_mapping 64 64 128 150 90 \<lparr>read_latency = 180, write_latency = 10\<rparr>)) 0 None []]]"

lemma dumperless_built: "factory_make 3 dumperless_cfg = Some (Inr dumperless_machine)"
proof -
  have o: "dumperless_cfg ''organization'' = Some (section_of ''organization''
      [(''rmc'', ''1*imc''), (''imc'', ''1*rmw''), (''rmw'', ''0*none'')])"
    by (simp add: dumperless_cfg_def)
  have org: "get_organization dumperless_cfg ''rmc'' = Inr (1, ''imc'')" "get_organization dumperless_cfg ''imc'' = Inr (1, ''rmw'')"
    "get_organization dumperless_cfg ''rmw'' = Inr (0, ''none'')"
    by (simp_all add: get_organization_def o cfg_eval)
  have e: "s \<noteq> ''organization'' \<Longrightarrow> make_single_component s dumperless_cfg i = make_single_component s vans_cfg i" for s i
    by (simp add: make_single_component_def dumperless_cfg_def base_config_at_def)
  have "make_single_component ''rmc'' vans_cfg 0 =
      Inr (Component (S_rmc (new_rmc_controller none_mapping (Some 0))) 0 None [])"
    "make_single_component ''imc'' vans_cfg 0 =
      Inr (Component (S_imc (new_imc_controller stride_mapping_4096 4 4 10)) 0 None [])"
    "make_single_component ''rmw'' vans_cfg 0 =
      Inr (Component (S_rmw (new_rmw_controller none_mapping 64 64 128 150 90 \<lparr>read_latency = 180, write_latency = 10\<rparr>)) 0 None [])"
    by (simp_all add: make_single_component_def Let_def cfg_eval rmc_of_config_def imc_of_config_def rmw_of_config_def
        static_memory_of_config_def)
  then show ?thesis by (simp add: factory_make_def numeral_3_eq_3 dumperless_machine_def org e)
qed

text \<open>The run of an empty trace over it: one cycle, in which the end of the file is found, then nothing is pending.\<close>

lemma dumperless_run:
  "\<exists>s. simulate_within 1 1 (tree_ops dram_memory_ops 3) (new_trace_state (open_file []) dumperless_machine normal_read_callback) =
      Some (Inr (s, True)) \<and> report (tree_objects (tr_model s)) = Inl Undefined_behaviour"
proof -
  let ?ops = "tree_ops dram_memory_ops 3" and ?s = "new_trace_state (open_file []) dumperless_machine normal_read_callback"
  let ?t = "?s\<lparr>tr_file := \<lparr>fs_rest = [], fs_eof = True, fs_fail = True\<rparr>, trace_end := True, last_trace_clk := 0\<rparr>"
  have c: "trace_client ?ops ?s = Some (Inr ?t)"
    using get_request_last [of "[]"] by (simp add: trace_client_def trace_fetch_def new_trace_state_def Let_def)
  have "case trace_tick ?ops ?t of Inl e \<Rightarrow> False | Inr u \<Rightarrow> trace_end u \<and>
      (case drain ?ops (tr_model u) of Inl e \<Rightarrow> False | Inr m \<Rightarrow>
        is_pending ?ops m = Inr False \<and> report (tree_objects m) = Inl Undefined_behaviour)"
    by code_simp
  then obtain u m where "trace_tick ?ops ?t = Inr u" "trace_end u" "drain ?ops (tr_model u) = Inr m"
      "is_pending ?ops m = Inr False" "report (tree_objects m) = Inl Undefined_behaviour"
    by (auto split: sum.splits)
  moreover have "\<not> trace_end ?s" by (simp add: new_trace_state_def)
  ultimately show ?thesis using c
    by (intro exI [of _ "u\<lparr>tr_model := m\<rparr>"]) (simp add: simulate_within_def trace_step_def)
qed

theorem counters_without_dumper_witness:
  "factory_make 3 dumperless_cfg = Some (Inr dumperless_machine) \<and>
   run_and_print 3 dumperless_cfg (Some []) dumperless_machine = Some (Inl Undefined_behaviour)"
proof
  show "factory_make 3 dumperless_cfg = Some (Inr dumperless_machine)" by (rule dumperless_built)
  let ?ops = "tree_ops dram_memory_ops 3" and ?s = "new_trace_state (open_file []) dumperless_machine normal_read_callback"
  from dumperless_run obtain s where s: "simulate_within 1 1 ?ops ?s = Some (Inr (s, True))"
      "report (tree_objects (tr_model s)) = Inl Undefined_behaviour" by blast
  have "trace_setup dumperless_cfg (Some []) = Inr (open_file [], normal_read_callback)"
    by (simp add: trace_setup_def dumperless_cfg_def cfg_eval)
  moreover have "simulate ?ops ?s = Some (Inr s)" unfolding simulate_iff_within using s(1) by (auto intro!: exI)
  ultimately have "run_trace ?ops dumperless_cfg (Some []) dumperless_machine = Some (Inr s)" by (simp add: run_trace_def)
  from counters_without_dumper [OF this] s(2)
  show "run_and_print 3 dumperless_cfg (Some []) dumperless_machine = Some (Inl Undefined_behaviour)" by simp
qed

end
