(* ===== verification/Spec2Isabelle.thy ===== *)
theory Spec2Isabelle
  imports Base_Props Rmw_Props Ait_Props Nvdimm_Props System_Props Dram_Props
    Cxl_Props Trace_Props Gem5_Props Ddr4_Text Program_Props
begin

text \<open>
A model of the memory simulator VANS (sources under \<open>src/general\<close>, \<open>src/cxl\<close> and \<open>src/gem5\<close>), with the
properties that make its components correct.

\<^bold>\<open>The program.\<close> VANS simulates an Optane NVDIMM, or a DDR4 memory, cycle by cycle. A configuration file
(\<open>config.h\<close>) describes a tree of components, which the factory (\<open>factory.cpp\<close>) builds; the program (\<open>vans.cpp\<close>) with
its trace runner (\<open>trace.cpp\<close>) or gem5 (\<open>wrapper.cpp\<close>) sends requests to its root. The tree has the root memory controller
(\<open>rmc.h\<close>), integrated memory controllers with read and write queues (\<open>imc.h\<close>, \<open>imc.cpp\<close>), NVRAM, DDR4 or CXL
systems (\<open>nvram_system.h\<close>, \<open>ddr4_system.h\<close>, \<open>cxl_system.h\<close>), and in each NVDIMM the read-modify-write buffer
(\<open>rmw.h\<close>, \<open>rmw.cpp\<close>), the address indirection table (\<open>ait.h\<close>, \<open>ait.cpp\<close>), a local memory of each
(\<open>dram_memory.h\<close> for the table), and the media (\<open>static_memory.h\<close>, \<open>nv_media.h\<close>). A component answers
a request at once with a clock (deterministic) or later by a callback; once per cycle the root is
ticked and ticks what is below it. The CXL sources are a memory with a command protocol, a host and a
device around it, and mock objects with threads.

\<^bold>\<open>The model, theory by theory.\<close>
\<^item> \<open>Prelude\<close>: errors as values (\<open>vans_error + 'a\<close>: exceptions, failed assertions, exits and undefined behaviour are
  different errors; \<open>No_return\<close> stands for a call that hangs where a virtual method must have a value), the
  sequencing \<open>ebind\<close>, the judgement \<open>ensures m P\<close> (the call returns, and its value
  has \<open>P\<close>), the locale \<open>invariant_system\<close>, and lemmas on lists, association lists, multisets and words.
\<^item> \<open>Common\<close> (\<open>common.h\<close>, \<open>utils.h\<close>): 64-bit clocks and addresses as words, requests, responses,
  hardware counters (an undeclared name throws), \<open>log2\<close>, block geometry (locale \<open>block_geometry\<close>). A \<open>std::function\<close>
  callback is a name; invoking it adds the name, the address and the clock to the list of calls that the
  operation returns, and the owner of the callback handles the call when it returns to it.
\<^item> \<open>Request_Queue\<close> (locale \<open>bounded_fifo\<close>), \<open>Buffer\<close> (\<open>keyed_buffer\<close>), \<open>Mapping_Func\<close> (\<open>component_mapping\<close>):
  \<open>request_queue.h\<close>, \<open>buffer.h\<close>, the first part of \<open>mapping.h\<close>.
  The hash map of a buffer is an association list whose order stands for the unspecified iteration
  order; \<open>Nvdimm\<close> lets the order change at any time.
\<^item> \<open>Component\<close> (\<open>component.h\<close>, \<open>controller.h\<close>, \<open>tick.h\<close>): the virtual methods as a record of functions, the
  loops over the next levels, and the contracts between levels, each a locale: \<open>next_level\<close> (a level that is not full
  accepts; its invariant is kept), \<open>ticking_level\<close> (and its tick never fails), \<open>responder\<close> (and
  every accepted request with a callback is owed exactly one call for its block). A run is a list
  of \<open>Ev_issue\<close> and \<open>Ev_tick\<close> events.
\<^item> \<open>Static_Memory\<close>, \<open>Rmw\<close>, \<open>Ait\<close>, \<open>Imc\<close>, \<open>Systems\<close>: one definition per method and per state transfer, in
  the order of the sources; \<open>rmw_tick_lsq_write\<close> is \<open>rmw_controller::tick_lsq_write\<close>,
  \<open>ait_read_miss_pending_read_media\<close> the lambda \<open>trans(read_miss, pending_read_media)\<close>, and so on.
\<^item> \<open>Rmw_Inv\<close>, \<open>Ait_Inv\<close>: the invariants \<open>rmw_inv\<close> and \<open>ait_inv\<close>, kept by every operation, and the
  interpretations of the contracts of \<open>Component\<close>: the AIT over any media and local memory that are
  next levels (locale \<open>ait_levels\<close>) is a responder, the RMW buffer over responders (\<open>rmw_next_level\<close>) is a ticking level.
\<^item> \<open>Nvdimm\<close>: the RMW buffer over AITs as one system (locale \<open>nvdimm_memory\<close>), with a step relation for requests, ticks and
  rehashing, its reachable states and their invariant.
\<^item> \<open>Ddr4\<close> (\<open>ddr4.h\<close>, \<open>ddr4.cpp\<close>: the tables), \<open>Dram\<close> (\<open>dram.h\<close>: the tree of nodes with decode, check and update),
  \<open>Dram_Mapping\<close> (\<open>mapping.h\<close>; \<open>Dram_Transactions\<close>: its bijection), \<open>Dram_Memory\<close> (\<open>dram_memory.h\<close>); \<open>Dram_Inv\<close>, \<open>Dram_Timing\<close> and \<open>Dram_Memory_Inv\<close>
  hold the invariants of the tree, of the clocks of its nodes and of the controller, \<open>Dram_Next\<close> the clock at which a command may
  be issued, \<open>Ddr4_Text\<close> the names and printed texts of the standard, \<open>Dram_System\<close> the DDR4 system as
  a responder, \<open>Nvdimm_Ddr4\<close> the NVDIMM with the DDR4 memory as the local memory of its table.
\<^item> \<open>Text_Input\<close>: the formatted input of the C++ standard library that the sources use (\<open>getline\<close>, \<open>stoul\<close>, \<open>stoi\<close>,
  \<open>find\<close>), on files that are strings. \<open>Config\<close> (\<open>config.h\<close>) and \<open>Factory\<close> (\<open>factory.cpp\<close>, the constructors of all
  components over their sections, the dumper of \<open>utils.h\<close>): \<open>make_component\<close> builds a \<open>component_tree\<close>.
\<^item> \<open>Trace\<close> (\<open>trace.cpp\<close>): the parser, \<open>trace_step\<close> (one iteration of the main loop), \<open>trace_loop\<close>, \<open>drain_loop\<close>,
  \<open>run_trace\<close>. \<open>Trace_Inv\<close>: printed traces are read back. \<open>Trace_Run\<close>: runs over a memory that answers at once
  (locale \<open>instant_memory\<close>). \<open>Machine\<close>: runs over any root of a system (locales \<open>simulated_root\<close>, \<open>failing_root\<close>), with the machine of
  root, integrated controllers, NVRAM systems and NVDIMMs as its instance; \<open>Held_Writes\<close>: integrated controllers without ADR, over any levels.
\<^item> \<open>Answers\<close>: which callbacks a whole system owes (locales \<open>late_reader\<close>, \<open>answering_root\<close>), with the machine of root,
  integrated controller and DDR4 system of \<open>config/gem5_lo_memory.cfg\<close> as its instance. \<open>Wrapper\<close>: the gem5 wrapper
  over any root. \<open>Gem5\<close>: the memory object of gem5 (\<open>src/gem5/patch\<close>), with the packets and the functional memory of gem5 as
  parameters (\<open>packet_api\<close>, locale \<open>packet_laws\<close>) and its events as \<open>gem5_event\<close>; \<open>Gem5_Inv\<close>: its invariant over an
  answering root (locales \<open>gem5_system\<close>, \<open>gem5_shifted\<close>).
\<^item> \<open>Cxl\<close> (\<open>src/cxl\<close> and \<open>cxl_system.h\<close>), \<open>Cxl_Inv\<close> (locale \<open>region_memory\<close>), \<open>Cxl_Mocks\<close> (the mock host and device,
  whose threads are the steps of \<open>mock_step\<close>).
\<^item> \<open>Dispatch\<close> (\<open>component.h\<close>): the virtual methods of the \<open>component_tree\<close> that the factory builds; the class of a node selects
  the controller (\<open>methods_of\<close>), whose next levels are the trees below (\<open>tree_ops\<close>). \<open>Dispatch_Inv\<close>: the contracts of the controllers
  carry over to the tree (locale \<open>object_view\<close>, an interpretation for each class), with the invariant \<open>machine_ok\<close> level by
  level, and draining the tree; \<open>Drain_Flag\<close>: no operation but \<open>drain\<close> touches the drain flag.
\<^item> \<open>Program\<close> (\<open>vans.cpp\<close>, \<open>print_counters\<close>, \<open>dumper::dump\<close>): options, \<open>vans_main\<close> from the arguments and files to the printed
  counters. \<open>Program_Inv\<close>: sane configurations (\<open>config_sane\<close>) build trees with the invariant; \<open>Dispatch_Upto\<close>: trees whose memories ignore the
  refresh overflow run like those of the code until one is thrown; \<open>Simulate\<close>: the loops by number of cycles
  (\<open>simulate_within\<close>); \<open>Program_Run\<close>: runs of the machine, and its counters as a report (\<open>tree_report\<close>); \<open>Vans_Cfg\<close>: \<open>config/vans.cfg\<close>, read,
  found sane and built.
\<^item> \<open>Base_Props\<close>, \<open>Rmw_Props\<close>, \<open>Ait_Props\<close>, \<open>Nvdimm_Props\<close>, \<open>System_Props\<close>, \<open>Dram_Props\<close>, \<open>Cxl_Props\<close>, \<open>Trace_Props\<close>,
  \<open>Gem5_Props\<close>, \<open>Program_Props\<close>: the properties, each with a witness on a concrete state.

\<^bold>\<open>What is shown.\<close> The program as a whole, from its arguments, a configuration file that is sane and a well-formed trace to the
printed counters, fails in no other way than by the overflow of a DDR4 refresh queue, which
the code throws on purpose, and the machine accepts the requests of the trace in their order; the witness is \<open>config/vans.cfg\<close>. The tree of controllers stays well typed through every virtual call.
Options are read back; the counters are printed line by line as a reference report of the tree has them. No run of an NVDIMM, or of an NVRAM system over several of them, above a local
memory that never throws ends in an exception, a failed assertion or
undefined behaviour; every wake-up that an RMW entry waits for is on its way, and no callback is
lost or invoked twice. Each queue front is served exactly
in the cases and with the effects that the properties list (write
combining up to the next read of the block, hits, reuse, eviction of a least recently used ended
entry). The DDR4 controller issues only commands that keep the distances of the timing table, its first commands follow from
the state of the bank, the clock at which a command may be issued is the one from which the check lets it through, and its
address mapping is a bijection between the transactions of the organisation and its vectors of indices. The flush loop of the IMC issues the
oldest writes in order and ends over every level that keeps its contract, and does not over one that refuses without being full. Configurations and traces that are printed are read
back. The factory returns for every organization without a cycle, with the tree that it describes. The CXL memory returns
what was written last; the two copies of its command switch agree but for two cases. The gem5 object over a system that answers every request
gives every packet one response and never fails. Several theorems state flaws of the code as it
is: the flushed write of an interleaved IMC is not mapped, a second read of a line loses the first one's callback, the
undeclared counter of the AIT, only one DRAM channel keeps its timing, a critical read of a memory that answers at once and writes
without ADR hang the runner, a memory with more ranks than queue entries never gets past its first refresh, a finished read without a
callback blocks the answers behind it, a CXL system stores nothing, the gem5 object fails over a
system with a start address, the shipped CXL configuration names an unknown component, and an RMW buffer or table that is not below an NVRAM
system prints its counters through a null pointer.

\<^bold>\<open>Bounds.\<close> Clocks of events are below \<open>2 ^ 62\<close> (\<open>small_clk\<close>), so that no sum of latencies wraps; a configuration's latencies are
bounded in the same way, the DDR4 timings by \<open>2 ^ 28\<close> (\<open>timing_ok\<close>) and the counts of its levels by \<open>counts_ok\<close>. Runs of the
main loop and of the loop after the drain are followed for up to \<open>2 ^ 62\<close> cycles (\<open>trace_iterate\<close>, \<open>simulate_within\<close>), which is what keeps the clock below that bound; runs of the
gem5 object for fewer than \<open>2 ^ 31\<close> events, so that its 32-bit count of outstanding packets does not wrap. The fuel
of \<open>make_component\<close> is the depth of the tree; any depth above the rank of the root is enough. So is the fuel of \<open>tree_ops\<close>, one level for
each virtual call downwards: \<open>machine_shape\<close> says that it is enough, and then no call ends in \<open>No_return\<close>. The loops that may run for ever (the flush
loop, \<open>skip_comments\<close>, \<open>trace_loop\<close>, \<open>drain_loop\<close>) are \<open>partial_function (option)\<close> without fuel: \<open>None\<close> means that
they do not return. All other loops are structural over lists, numbers or a word or file that shrinks.

\<^bold>\<open>Not modelled.\<close> Messages that only say what the program is doing: heart beats, reports of the trace runner, its last lines with times, the
usage. The errors of the file system in the dumper, and memory exhaustion. The values of \<open>double\<close> settings (\<open>freq\<close>, \<open>tCK\<close>), of which only
the syntax is checked; \<open>print_timing\<close> takes their texts as arguments. The constructors and \<open>to_string\<close> of DRAM requests that nothing calls;
\<open>update_serving_requests\<close>, whose body is
empty. Of \<open>getopt\<close>, the variable POSIXLY_CORRECT. Of the gem5 object,
what only hands objects to gem5 (\<open>getPort\<close>, \<open>getAddrRanges\<close>, \<open>create\<close>), and the times at which gem5 delivers events: any
event that is scheduled may happen next.
\<close>

end
